(* ===== verification/Prelude.thy ===== *)
theory Prelude
  imports Main "HOL-Library.Word" "HOL-Library.Char_ord" "HOL-Library.List_Lexorder"
begin

text \<open>
  What every component shares: the types of bytes and machine integers, exceptions as
  values of a sum type with the sequencing operator \<open>bindE\<close>, and the sorted association
  lists that stand for \<^verbatim>\<open>std::map\<close>.  A thrown C++ exception is a value \<open>Inl e\<close>, where
  \<open>e\<close> names the exception class and the fixed part of its message.  Where the C++ has no
  defined behaviour (a read outside a vector, a null pointer) the model returns
  \<open>Inl (Undefined_behaviour _)\<close>, so that the absence of such a result is a theorem.
\<close>

unbundle bit_operations_syntax

named_theorems result_simps \<open>inversion of successful and failing computations\<close>

named_theorems smap_simps \<open>sorted association lists as finite maps\<close>

section \<open>Machine types\<close>

type_synonym byte = "8 word"
type_synonym bytes = "8 word list"
type_synonym u16 = "16 word"
type_synonym u32 = "32 word"
type_synonym u64 = "64 word"

definition byte_of_char :: "char \<Rightarrow> byte" where
  "byte_of_char c = of_nat (of_char c)"

definition char_of_byte :: "byte \<Rightarrow> char" where
  "char_of_byte b = char_of (unat b)"

lemma unat_byte_of_char [simp]: "unat (byte_of_char c) = of_char c"
  by (simp add: byte_of_char_def unat_of_nat of_char_mod_256)

lemma char_of_byte_of_char [simp]: "char_of_byte (byte_of_char c) = c"
  by (simp add: char_of_byte_def)

lemma byte_of_char_of_byte [simp]: "byte_of_char (char_of_byte b) = b"
proof -
  have "unat b < 2 ^ LENGTH(8)"
    by (rule unsigned_less)
  then have "unat b mod 256 = unat b"
    by simp
  then show ?thesis
    by (simp add: byte_of_char_def char_of_byte_def of_char_of)
qed

definition bytes_of_string :: "string \<Rightarrow> bytes" where
  "bytes_of_string s = map byte_of_char s"

definition string_of_bytes :: "bytes \<Rightarrow> string" where
  "string_of_bytes bs = map char_of_byte bs"

lemma length_bytes_of_string [simp]: "length (bytes_of_string s) = length s"
  by (simp add: bytes_of_string_def)

lemma length_string_of_bytes [simp]: "length (string_of_bytes bs) = length bs"
  by (simp add: string_of_bytes_def)

lemma string_of_bytes_of_string [simp]: "string_of_bytes (bytes_of_string s) = s"
  by (simp add: string_of_bytes_def bytes_of_string_def comp_def)

lemma bytes_of_string_of_bytes [simp]: "bytes_of_string (string_of_bytes bs) = bs"
  by (simp add: string_of_bytes_def bytes_of_string_def comp_def)

lemma unat_of_nat_less: "n < 2 ^ LENGTH('a) \<Longrightarrow> unat (of_nat n :: 'a::len word) = n"
  by (simp add: unat_of_nat)

text \<open>Unsigned 64-bit arithmetic on sizes, kept on \<open>nat\<close> with its wrap-around written out.\<close>

definition size_add :: "nat \<Rightarrow> nat \<Rightarrow> nat" where
  "size_add a b = (a + b) mod 2 ^ 64"

definition size_sub :: "nat \<Rightarrow> nat \<Rightarrow> nat" where
  "size_sub a b = (a + (2 ^ 64 - b mod 2 ^ 64)) mod 2 ^ 64"

lemma size_add_exact [simp]: "a + b < 2 ^ 64 \<Longrightarrow> size_add a b = a + b"
  by (simp add: size_add_def)

lemma size_sub_exact [simp]:
  assumes "b \<le> a" and "a < 2 ^ 64"
  shows "size_sub a b = a - b"
proof -
  have "a + (2 ^ 64 - b mod 2 ^ 64) = (a - b) + 2 ^ 64"
    using assms by simp
  moreover have "((a - b) + 2 ^ 64) mod 2 ^ 64 = a - b"
    using assms by (simp only: mod_add_self2) simp
  ultimately show ?thesis
    by (simp only: size_sub_def)
qed

lemma ceil_div:
  fixes n k :: nat
  assumes "0 < k"
  shows "(n + (k - 1)) div k = n div k + (if n mod k \<noteq> 0 then 1 else 0)"
proof (cases "n mod k = 0")
  case True
  then obtain q where q: "n = k * q"
    by auto
  have "(k - 1 + k * q) div k = q + (k - 1) div k"
    using assms by (intro div_mult_self2) simp
  moreover have "n + (k - 1) = k - 1 + k * q"
    by (simp only: q add.commute)
  ultimately have "(n + (k - 1)) div k = q"
    using assms by simp
  with q assms show ?thesis
    by simp
next
  case False
  have "n + (k - 1) = (n mod k - 1) + k * Suc (n div k)"
    using False assms mult_div_mod_eq [of k n] by (simp only: mult_Suc_right)
  moreover have "((n mod k - 1) + k * Suc (n div k)) div k = Suc (n div k) + (n mod k - 1) div k"
    using assms by (intro div_mult_self2) simp
  moreover have "(n mod k - 1) div k = 0"
    using assms by (simp add: less_imp_diff_less)
  ultimately show ?thesis
    using False by simp
qed

section \<open>Exceptions as values\<close>

datatype exn =
    Out_of_range string
  | Invalid_argument string
  | Runtime_error string
  | Conversion_error string
  | Length_error string
  | Http_error nat
  | System_error string
  | Undefined_behaviour string

type_synonym 'a result = "exn + 'a"

fun bindE :: "'a result \<Rightarrow> ('a \<Rightarrow> 'b result) \<Rightarrow> 'b result" where
  "bindE (Inl e) f = Inl e"
| "bindE (Inr a) f = f a"

lemma bindE_cong [fundef_cong]:
  "m = n \<Longrightarrow> (\<And>a. n = Inr a \<Longrightarrow> f a = g a) \<Longrightarrow> bindE m f = bindE n g"
  by (cases n) auto

lemma bindE_eq_Inr [result_simps]:
  "bindE m f = Inr r \<longleftrightarrow> (\<exists>a. m = Inr a \<and> f a = Inr r)"
  by (cases m) auto

lemma bindE_eq_Inl [result_simps]:
  "bindE m f = Inl e \<longleftrightarrow> m = Inl e \<or> (\<exists>a. m = Inr a \<and> f a = Inl e)"
  by (cases m) auto

lemma bindE_assoc: "bindE (bindE m f) g = bindE m (\<lambda>a. bindE (f a) g)"
  by (cases m) auto

lemma bindE_Inr_right [simp]: "bindE m Inr = m"
  by (cases m) auto

text \<open>A guard of the source: \<^verbatim>\<open>if (!c) throw e;\<close>.\<close>

definition ensure :: "bool \<Rightarrow> exn \<Rightarrow> unit result" where
  "ensure c e = (if c then Inr () else Inl e)"

lemma ensure_True [simp]: "ensure True e = Inr ()"
  by (simp add: ensure_def)

lemma ensure_False [simp]: "ensure False e = Inl e"
  by (simp add: ensure_def)

lemma ensure_eq_Inr [result_simps]: "ensure c e = Inr u \<longleftrightarrow> c"
  by (simp add: ensure_def)

lemma ensure_eq_Inl [result_simps]: "ensure c e = Inl e' \<longleftrightarrow> \<not> c \<and> e' = e"
  by (auto simp: ensure_def)

text \<open>\<^verbatim>\<open>vector::at\<close>: the checked read.\<close>

definition vec_at :: "'a list \<Rightarrow> nat \<Rightarrow> 'a result" where
  "vec_at xs i = (if i < length xs then Inr (xs ! i) else Inl (Out_of_range ''at''))"

lemma vec_at_inside [simp]: "i < length xs \<Longrightarrow> vec_at xs i = Inr (xs ! i)"
  by (simp add: vec_at_def)

lemma vec_at_outside [simp]: "length xs \<le> i \<Longrightarrow> vec_at xs i = Inl (Out_of_range ''at'')"
  by (simp add: vec_at_def)

lemma vec_at_eq_Inr [result_simps]: "vec_at xs i = Inr x \<longleftrightarrow> i < length xs \<and> x = xs ! i"
  by (auto simp: vec_at_def)

fun is_UB :: "'a result \<Rightarrow> bool" where
  "is_UB (Inl (Undefined_behaviour _)) = True"
| "is_UB _ = False"

text \<open>Mapping a fallible function over a sequence, stopping at the first exception.\<close>

fun mapE :: "('a \<Rightarrow> 'b result) \<Rightarrow> 'a list \<Rightarrow> 'b list result" where
  "mapE f [] = Inr []"
| "mapE f (x # xs) = bindE (f x) (\<lambda>y. bindE (mapE f xs) (\<lambda>ys. Inr (y # ys)))"

lemma length_mapE: "mapE f xs = Inr ys \<Longrightarrow> length ys = length xs"
  by (induction xs arbitrary: ys) (auto simp: result_simps)

lemma nth_mapE: "mapE f xs = Inr ys \<Longrightarrow> i < length xs \<Longrightarrow> f (xs ! i) = Inr (ys ! i)"
  by (induction xs arbitrary: ys i) (auto simp: result_simps nth_Cons split: nat.splits)

lemma mapE_all_ok: "(\<And>x. x \<in> set xs \<Longrightarrow> f x = Inr (g x)) \<Longrightarrow> mapE f xs = Inr (map g xs)"
  by (induction xs) auto

text \<open>Folding a fallible step over a sequence, as a loop whose body may throw.\<close>

fun foldE :: "('a \<Rightarrow> 's \<Rightarrow> 's result) \<Rightarrow> 'a list \<Rightarrow> 's \<Rightarrow> 's result" where
  "foldE f [] s = Inr s"
| "foldE f (x # xs) s = bindE (f x s) (foldE f xs)"

lemma foldE_append: "foldE f (xs @ ys) s = bindE (foldE f xs s) (foldE f ys)"
  by (induction xs arbitrary: s) (simp_all add: bindE_assoc cong: bindE_cong)

lemma foldE_invariant:
  assumes "foldE f xs s = Inr t" and "P s"
    and "\<And>x s s'. x \<in> set xs \<Longrightarrow> P s \<Longrightarrow> f x s = Inr s' \<Longrightarrow> P s'"
  shows "P t"
  using assms by (induction xs arbitrary: s) (auto simp: result_simps)

section \<open>State and exceptions\<close>

text \<open>
  What was done before an exception stays done, so a computation over a state returns its result
  together with the state in either case.
\<close>

type_synonym ('s, 'a) st = "'s \<Rightarrow> 'a result \<times> 's"

definition retIO :: "'a \<Rightarrow> ('s, 'a) st" where
  "retIO a = (\<lambda>s. (Inr a, s))"

definition throwIO :: "exn \<Rightarrow> ('s, 'a) st" where
  "throwIO e = (\<lambda>s. (Inl e, s))"

definition liftIO :: "'a result \<Rightarrow> ('s, 'a) st" where
  "liftIO r = (\<lambda>s. (r, s))"

definition bindIO :: "('s, 'a) st \<Rightarrow> ('a \<Rightarrow> ('s, 'b) st) \<Rightarrow> ('s, 'b) st" where
  "bindIO m f = (\<lambda>s. case m s of (Inl e, s') \<Rightarrow> (Inl e, s') | (Inr a, s') \<Rightarrow> f a s')"

fun iterIO :: "('a \<Rightarrow> ('s, unit) st) \<Rightarrow> 'a list \<Rightarrow> ('s, unit) st" where
  "iterIO f [] = retIO ()"
| "iterIO f (x # xs) = bindIO (f x) (\<lambda>_. iterIO f xs)"

definition getIO :: "('s \<Rightarrow> 'a) \<Rightarrow> ('s, 'a) st" where
  "getIO f = (\<lambda>s. (Inr (f s), s))"

definition modIO :: "('s \<Rightarrow> 's) \<Rightarrow> ('s, unit) st" where
  "modIO f = (\<lambda>s. (Inr (), f s))"

definition whenIO :: "bool \<Rightarrow> ('s, unit) st \<Rightarrow> ('s, unit) st" where
  "whenIO b m = (if b then m else retIO ())"

named_theorems io_simps \<open>running computations on a state\<close>

lemma bindIO_eq [io_simps]:
  "bindIO m f s = (case m s of (Inl e, s') \<Rightarrow> (Inl e, s') | (Inr a, s') \<Rightarrow> f a s')"
  by (simp add: bindIO_def)

lemma IO_eqs [io_simps]:
  "retIO a s = (Inr a, s)" "throwIO e s = (Inl e, s)" "liftIO r s = (r, s)"
  "getIO g s = (Inr (g s), s)" "modIO h s = (Inr (), h s)" "whenIO b m' s = (if b then m' s else (Inr (), s))"
  by (simp_all add: retIO_def throwIO_def liftIO_def getIO_def modIO_def whenIO_def)

lemma bindIO_assoc: "bindIO (bindIO m f) g = bindIO m (\<lambda>a. bindIO (f a) g)"
  by (rule ext) (simp add: bindIO_eq split: prod.splits sum.splits)

text \<open>A property of the state that a computation keeps, whether it throws or not.\<close>

definition keeps :: "('s \<Rightarrow> bool) \<Rightarrow> ('s, 'a) st \<Rightarrow> bool" where
  "keeps P m \<longleftrightarrow> (\<forall>s. P s \<longrightarrow> P (snd (m s)))"

named_theorems keeps_intros \<open>composition of computations that keep a property\<close>

lemma keeps_ret [keeps_intros]: "keeps P (retIO a)" "keeps P (throwIO e)" "keeps P (liftIO r)" "keeps P (getIO g)"
  by (simp_all add: keeps_def io_simps)

lemma keeps_bind [keeps_intros]: "keeps P m \<Longrightarrow> (\<And>a. keeps P (f a)) \<Longrightarrow> keeps P (bindIO m f)"
  by (simp add: keeps_def io_simps split: prod.splits sum.splits) (metis snd_conv)

lemma keeps_when [keeps_intros]: "(b \<Longrightarrow> keeps P m) \<Longrightarrow> keeps P (whenIO b m)"
  by (simp add: keeps_def io_simps)

lemma keeps_if [keeps_intros]: "(b \<Longrightarrow> keeps P m) \<Longrightarrow> (\<not> b \<Longrightarrow> keeps P n) \<Longrightarrow> keeps P (if b then m else n)"
  by simp

lemma keeps_iter: "(\<And>x. x \<in> set xs \<Longrightarrow> keeps P (f x)) \<Longrightarrow> keeps P (iterIO f xs)"
  by (induction xs) (auto intro!: keeps_intros)

lemma keepsD: "keeps P m \<Longrightarrow> P s \<Longrightarrow> m s = (r, s') \<Longrightarrow> P s'"
  by (metis keeps_def snd_conv)

end
