(* ===== verification/Sorted_Map.thy ===== *)
theory Sorted_Map
  imports Prelude
begin

text \<open>
  \<^verbatim>\<open>std::map\<close> as an association list in increasing key order: what a range-for loop over
  the map visits, in the order it visits it.  The interface the components use (look up,
  store, erase, keys in order) is the locale \<open>ordered_map\<close>, with the laws its clients rest
  on; \<open>smap\<close> interprets it.
\<close>

section \<open>The interface\<close>

locale ordered_map =
  fixes lookup :: "'m \<Rightarrow> 'k::linorder \<Rightarrow> 'v option"
    and put :: "'k \<Rightarrow> 'v \<Rightarrow> 'm \<Rightarrow> 'm"
    and del :: "'k \<Rightarrow> 'm \<Rightarrow> 'm"
    and keys :: "'m \<Rightarrow> 'k list"
    and invar :: "'m \<Rightarrow> bool"
  assumes lookup_put: "lookup (put k v m) = (lookup m)(k \<mapsto> v)"
    and lookup_del: "lookup (del k m) = (lookup m)(k := None)"
    and set_keys: "set (keys m) = dom (lookup m)"
    and keys_sorted: "invar m \<Longrightarrow> sorted_wrt (<) (keys m)"
    and invar_put: "invar m \<Longrightarrow> invar (put k v m)"
    and invar_del: "invar m \<Longrightarrow> invar (del k m)"
begin

lemma lookup_put_same: "lookup (put k v m) k = Some v"
  by (simp add: lookup_put)

lemma lookup_put_other: "k' \<noteq> k \<Longrightarrow> lookup (put k v m) k' = lookup m k'"
  by (simp add: lookup_put)

lemma keys_put: "set (keys (put k v m)) = insert k (set (keys m))"
  by (simp add: set_keys lookup_put)

lemma keys_del: "set (keys (del k m)) = set (keys m) - {k}"
  by (simp add: set_keys lookup_del)

lemma keys_distinct: "invar m \<Longrightarrow> distinct (keys m)"
  using keys_sorted [of m] strict_sorted_iff [of "keys m"] by blast

lemma keys_unique:
  assumes "invar m" and "invar m'" and "dom (lookup m) = dom (lookup m')"
  shows "keys m = keys m'"
  using assms strict_sorted_equal [of "keys m" "keys m'"]
  by (simp add: keys_sorted set_keys)

end

section \<open>The sorted association list\<close>

type_synonym ('k, 'v) smap = "('k \<times> 'v) list"

fun smap_put :: "'k::linorder \<Rightarrow> 'v \<Rightarrow> ('k, 'v) smap \<Rightarrow> ('k, 'v) smap" where
  "smap_put k v [] = [(k, v)]"
| "smap_put k v (e # m) =
     (if k = fst e then (k, v) # m
      else if k < fst e then (k, v) # e # m
      else e # smap_put k v m)"

definition smap_del :: "'k \<Rightarrow> ('k, 'v) smap \<Rightarrow> ('k, 'v) smap" where
  "smap_del k m = filter (\<lambda>e. fst e \<noteq> k) m"

definition smap_keys :: "('k, 'v) smap \<Rightarrow> 'k list" where
  "smap_keys m = map fst m"

definition smap_ok :: "('k::linorder, 'v) smap \<Rightarrow> bool" where
  "smap_ok m = sorted_wrt (<) (map fst m)"

text \<open>\<^verbatim>\<open>map::at\<close>: the checked lookup.\<close>

definition smap_at :: "('k, 'v) smap \<Rightarrow> 'k \<Rightarrow> 'v result" where
  "smap_at m k = (case map_of m k of None \<Rightarrow> Inl (Out_of_range ''map::at'') | Some v \<Rightarrow> Inr v)"

lemma smap_at_eq_Inr [result_simps]: "smap_at m k = Inr v \<longleftrightarrow> map_of m k = Some v"
  by (simp add: smap_at_def split: option.splits)

lemma smap_at_eq_Inl [result_simps]:
  "smap_at m k = Inl e \<longleftrightarrow> map_of m k = None \<and> e = Out_of_range ''map::at''"
  by (auto simp: smap_at_def split: option.splits)

lemma smap_ok_Nil [simp]: "smap_ok []"
  by (simp add: smap_ok_def)

lemma smap_ok_Cons: "smap_ok (e # m) \<longleftrightarrow> (\<forall>k \<in> fst ` set m. fst e < k) \<and> smap_ok m"
  by (simp add: smap_ok_def)

lemma fst_set_smap_put [smap_simps]: "fst ` set (smap_put k v m) = insert k (fst ` set m)"
  by (induction m) auto

lemma map_of_smap_put [smap_simps]: "map_of (smap_put k v m) = (map_of m)(k \<mapsto> v)"
  by (induction m) (auto simp: fun_eq_iff)

lemma map_of_smap_del [smap_simps]: "map_of (smap_del k m) = (map_of m)(k := None)"
  by (induction m) (auto simp: smap_del_def fun_eq_iff)

lemma smap_ok_put: "smap_ok m \<Longrightarrow> smap_ok (smap_put k v m)"
  by (induction m) (auto simp: smap_ok_Cons fst_set_smap_put)

lemma smap_ok_del: "smap_ok m \<Longrightarrow> smap_ok (smap_del k m)"
  by (induction m) (auto simp: smap_ok_Cons smap_del_def)

lemma smap_ok_distinct: "smap_ok m \<Longrightarrow> distinct (map fst m)"
  by (induction m) (auto simp: smap_ok_Cons)

interpretation smap: ordered_map map_of smap_put smap_del smap_keys smap_ok
  by unfold_locales
    (auto simp: smap_simps smap_keys_def dom_map_of_conv_image_fst smap_ok_put smap_ok_del
      smap_ok_def [symmetric])

lemma map_of_eq_Some_iff_smap:
  "smap_ok m \<Longrightarrow> map_of m k = Some v \<longleftrightarrow> (k, v) \<in> set m"
  by (simp add: smap_ok_distinct)

text \<open>Storing a key above all present ones appends it: sorted input is rebuilt unchanged.\<close>

lemma smap_put_above:
  "(\<forall>k' \<in> fst ` set m. k' < k) \<Longrightarrow> smap_put k v m = m @ [(k, v)]"
  by (induction m) auto

end
