(* ===== verification/Types.thy ===== *)
theory Types
  imports Prelude
begin

text \<open>
  \<^verbatim>\<open>src/types.hpp\<close>: the checked integer conversion \<open>numeric_cast\<close> and the big endian
  codecs of 16, 32 and 64 bit integers.  C++ integers are mathematical integers with a type
  descriptor where a conversion between types is the subject (\<open>numeric_cast\<close>), and words of
  their width where bits are (the codecs).
\<close>

section \<open>Integer types and conversions\<close>

datatype ity = ITy (ity_signed: bool) (ity_bits: nat)

definition ity_min :: "ity \<Rightarrow> int" where
  "ity_min T = (if ity_signed T then - (2 ^ (ity_bits T - 1)) else 0)"

definition ity_max :: "ity \<Rightarrow> int" where
  "ity_max T = (if ity_signed T then 2 ^ (ity_bits T - 1) - 1 else 2 ^ ity_bits T - 1)"

definition ity_has :: "ity \<Rightarrow> int \<Rightarrow> bool" where
  "ity_has T v \<longleftrightarrow> ity_min T \<le> v \<and> v \<le> ity_max T"

text \<open>\<^verbatim>\<open>static_cast<T>(v)\<close>: the value of \<open>T\<close> congruent to \<open>v\<close> modulo \<open>2 ^ bits\<close>.\<close>

definition static_cast :: "ity \<Rightarrow> int \<Rightarrow> int" where
  "static_cast T v =
     (if ity_signed T then signed_take_bit (ity_bits T - 1) v else take_bit (ity_bits T) v)"

definition make_unsigned :: "ity \<Rightarrow> ity" where
  "make_unsigned T = ITy False (ity_bits T)"

abbreviation int8_t :: ity where "int8_t \<equiv> ITy True 8"
abbreviation int16_t :: ity where "int16_t \<equiv> ITy True 16"
abbreviation int32_t :: ity where "int32_t \<equiv> ITy True 32"
abbreviation int64_t :: ity where "int64_t \<equiv> ITy True 64"
abbreviation uint8_t :: ity where "uint8_t \<equiv> ITy False 8"
abbreviation uint16_t :: ity where "uint16_t \<equiv> ITy False 16"
abbreviation uint32_t :: ity where "uint32_t \<equiv> ITy False 32"
abbreviation uint64_t :: ity where "uint64_t \<equiv> ITy False 64"

text \<open>
  The four overloads of \<^verbatim>\<open>numeric_cast<I, J>\<close>, selected by signedness as the
  \<^verbatim>\<open>requires\<close> clauses do.  \<open>I\<close> is the target, \<open>J\<close> the type of the argument.  The first
  overload converts the limits of \<open>I\<close> to \<open>J\<close> before it compares.
\<close>

definition numeric_cast :: "ity \<Rightarrow> ity \<Rightarrow> int \<Rightarrow> int result" where
  "numeric_cast I J v =
     (if ity_signed I \<and> ity_signed J then
        (if v < static_cast J (ity_min I) \<or> v > static_cast J (ity_max I)
         then Inl (Out_of_range ''out of range'') else Inr (static_cast I v))
      else if ity_signed I \<and> \<not> ity_signed J then
        (if v > static_cast (make_unsigned I) (ity_max I)
         then Inl (Out_of_range ''out of range'') else Inr (static_cast I v))
      else if \<not> ity_signed I \<and> ity_signed J then
        (if v < 0 \<or> static_cast (make_unsigned J) v > ity_max I
         then Inl (Out_of_range ''out of range'') else Inr (static_cast I v))
      else
        (if v > ity_max I
         then Inl (Out_of_range ''out of range'') else Inr (static_cast I v)))"

lemma ity_has_static_cast:
  assumes "ity_has T v" and "0 < ity_bits T"
  shows "static_cast T v = v"
proof (cases "ity_signed T")
  case True
  with assms have "signed_take_bit (ity_bits T - 1) v = v"
    by (intro signed_take_bit_int_eq_self) (auto simp: ity_has_def ity_min_def ity_max_def)
  with True show ?thesis
    by (simp add: static_cast_def)
next
  case False
  with assms have "take_bit (ity_bits T) v = v"
    by (intro take_bit_int_eq_self) (auto simp: ity_has_def ity_min_def ity_max_def)
  with False show ?thesis
    by (simp add: static_cast_def)
qed

lemma ity_has_limits: "0 < ity_bits T \<Longrightarrow> ity_has T (ity_min T) \<and> ity_has T (ity_max T)"
  by (auto simp: ity_has_def ity_min_def ity_max_def intro: order_trans [of _ 0])

lemma numeric_cast_u32_exact: "0 \<le> v \<Longrightarrow> v < 2 ^ 32 \<Longrightarrow> numeric_cast uint32_t int64_t v = Inr v"
  by (simp add: numeric_cast_def make_unsigned_def static_cast_def ity_max_def take_bit_int_eq_self)

lemma numeric_cast_u64_exact: "0 \<le> v \<Longrightarrow> v < 2 ^ 63 \<Longrightarrow> numeric_cast uint64_t int64_t v = Inr v"
  by (simp add: numeric_cast_def make_unsigned_def static_cast_def ity_max_def take_bit_int_eq_self)

section \<open>numeric_cast is checked, except for signed widening\<close>

lemma ity_has_narrower:
  assumes "ity_signed I = ity_signed J" and "ity_bits I \<le> ity_bits J" and "0 < ity_bits I"
    and "ity_has I v"
  shows "ity_has J v"
proof -
  define a b where "a = (2::int) ^ (ity_bits I - Suc 0)" and "b = (2::int) ^ (ity_bits J - Suc 0)"
  define c d where "c = (2::int) ^ ity_bits I" and "d = (2::int) ^ ity_bits J"
  have "a \<le> b" and "c \<le> d"
    using assms(2) by (auto simp: a_def b_def c_def d_def intro: power_increasing)
  with assms(1,4) show ?thesis
    by (auto simp: ity_has_def ity_min_def ity_max_def
        a_def [symmetric] b_def [symmetric] c_def [symmetric] d_def [symmetric] split: if_splits)
qed

lemma pow2_pred_le: "x < (2::int) ^ (n - 1) \<Longrightarrow> x < 2 ^ n"
  by (erule less_le_trans, rule power_increasing) simp_all

lemma numeric_cast_signed_signed:
  assumes "ity_signed I" and "ity_signed J" and "ity_bits I \<le> ity_bits J" and "0 < ity_bits I"
  shows "numeric_cast I J v = (if ity_has I v then Inr v else Inl (Out_of_range ''out of range''))"
proof -
  have "ity_has J (ity_min I)" and "ity_has J (ity_max I)"
    using assms ity_has_limits [of I] by (auto intro: ity_has_narrower)
  then have "static_cast J (ity_min I) = ity_min I" and "static_cast J (ity_max I) = ity_max I"
    using assms by (simp_all add: ity_has_static_cast)
  with assms show ?thesis
    by (auto simp: numeric_cast_def ity_has_static_cast ity_has_def not_less)
qed

lemma numeric_cast_signed_unsigned:
  assumes "ity_signed I" and "\<not> ity_signed J" and "0 < ity_bits I" and "ity_has J v"
  shows "numeric_cast I J v = (if ity_has I v then Inr v else Inl (Out_of_range ''out of range''))"
proof -
  have "ity_has (make_unsigned I) (ity_max I)"
    using assms(1,3) pow2_pred_le [of "2 ^ (ity_bits I - 1) - 1" "ity_bits I"]
    by (simp add: ity_has_def ity_min_def ity_max_def make_unsigned_def)
  then have "static_cast (make_unsigned I) (ity_max I) = ity_max I"
    using assms(3) by (simp add: ity_has_static_cast make_unsigned_def)
  moreover have "ity_min I \<le> v"
    using assms by (auto simp: ity_has_def ity_min_def intro: order_trans [of _ 0])
  ultimately show ?thesis
    using assms by (auto simp: numeric_cast_def ity_has_static_cast ity_has_def not_less)
qed

lemma numeric_cast_unsigned_signed:
  assumes "\<not> ity_signed I" and "ity_signed J" and "0 < ity_bits I" and "0 < ity_bits J"
    and "ity_has J v"
  shows "numeric_cast I J v = (if ity_has I v then Inr v else Inl (Out_of_range ''out of range''))"
proof (cases "v < 0")
  case True
  with assms show ?thesis
    by (simp add: numeric_cast_def ity_has_def ity_min_def)
next
  case False
  have "ity_has (make_unsigned J) v"
    using False assms pow2_pred_le [of v "ity_bits J"]
    by (simp add: ity_has_def ity_min_def ity_max_def make_unsigned_def)
  then have "static_cast (make_unsigned J) v = v"
    using assms(4) by (simp add: ity_has_static_cast make_unsigned_def)
  with False assms show ?thesis
    by (auto simp: numeric_cast_def ity_has_static_cast ity_has_def ity_min_def not_less)
qed

lemma numeric_cast_unsigned_unsigned:
  assumes "\<not> ity_signed I" and "\<not> ity_signed J" and "0 < ity_bits I" and "ity_has J v"
  shows "numeric_cast I J v = (if ity_has I v then Inr v else Inl (Out_of_range ''out of range''))"
  using assms by (auto simp: numeric_cast_def ity_has_static_cast ity_has_def ity_min_def not_less)

lemmas numeric_cast_cases = numeric_cast_signed_signed numeric_cast_signed_unsigned
  numeric_cast_unsigned_signed numeric_cast_unsigned_unsigned

text \<open>
  Converting a value of type \<open>J\<close> with \<open>numeric_cast\<close> returns that value when the target
  type can represent it and throws \<open>out_of_range\<close> otherwise, for every pair of types of
  non-zero width but one kind: a signed source converted to a wider signed target.
\<close>

theorem numeric_cast_checked:
  assumes "0 < ity_bits I" and "0 < ity_bits J" and "ity_has J v"
    and "ity_signed I \<Longrightarrow> ity_signed J \<Longrightarrow> ity_bits I \<le> ity_bits J"
  shows "numeric_cast I J v = (if ity_has I v then Inr v else Inl (Out_of_range ''out of range''))"
  using assms by (cases "ity_signed I"; cases "ity_signed J") (auto simp: numeric_cast_cases)

theorem numeric_cast_checked_witness:
  "numeric_cast uint16_t int32_t 70000 = Inl (Out_of_range ''out of range'')
   \<and> numeric_cast uint16_t int32_t 20001 = Inr 20001"
proof -
  have "numeric_cast uint16_t int32_t 70000
      = (if ity_has uint16_t 70000 then Inr 70000 else Inl (Out_of_range ''out of range''))"
    by (rule numeric_cast_checked) (simp_all add: ity_has_def ity_min_def ity_max_def)
  moreover have "numeric_cast uint16_t int32_t 20001
      = (if ity_has uint16_t 20001 then Inr 20001 else Inl (Out_of_range ''out of range''))"
    by (rule numeric_cast_checked) (simp_all add: ity_has_def ity_min_def ity_max_def)
  ultimately show ?thesis
    by (simp add: ity_has_def ity_min_def ity_max_def)
qed

lemma static_cast_wider_limits:
  assumes "ity_signed I" and "ity_signed J" and "0 < ity_bits J" and "ity_bits J < ity_bits I"
  shows "static_cast J (ity_min I) = 0" and "static_cast J (ity_max I) = -1"
proof -
  define m n where "m = ity_bits J - 1" and "n = ity_bits I - 1"
  have mn: "Suc m \<le> n"
    using assms by (simp add: m_def n_def)
  have "signed_take_bit m (- (2 ^ n) :: int) = 0"
    by (rule bit_eqI) (use mn in \<open>simp add: bit_signed_take_bit_iff minus_exp_eq_not_mask bit_simps\<close>)
  with assms show "static_cast J (ity_min I) = 0"
    by (simp add: static_cast_def ity_min_def m_def n_def)
  have "signed_take_bit m (2 ^ n - 1 :: int) = -1"
    by (rule bit_eqI)
      (use mn in \<open>simp add: bit_signed_take_bit_iff mask_eq_exp_minus_1 [symmetric] bit_simps\<close>)
  with assms show "static_cast J (ity_max I) = -1"
    by (simp add: static_cast_def ity_max_def m_def n_def)
qed

text \<open>
  The signed to signed overload converts the limits of the target to the source type;
  when the target is wider they become \<open>0\<close> and \<open>-1\<close>, so every conversion from a signed type to a
  wider signed type throws, whatever the value.
\<close>

theorem numeric_cast_signed_widening_throws:
  assumes "ity_signed I" and "ity_signed J" and "0 < ity_bits J" and "ity_bits J < ity_bits I"
  shows "numeric_cast I J v = Inl (Out_of_range ''out of range'')"
  using static_cast_wider_limits [OF assms] assms(1,2) by (auto simp: numeric_cast_def)

theorem numeric_cast_signed_widening_throws_witness:
  "numeric_cast int64_t int32_t 1 = Inl (Out_of_range ''out of range'')"
  by (rule numeric_cast_signed_widening_throws) simp_all

section \<open>Big endian integers\<close>

text \<open>
  \<^verbatim>\<open>from_big_endian<T>\<close>: the width of the result word is the width of \<open>T\<close>; a signed
  \<open>T\<close> reads the same bits (\<open>sint\<close> at the place of use).  The offset is a \<^verbatim>\<open>size_type\<close>, so the
  first test wraps and the second one is what makes it sound.
\<close>

definition from_big_endian :: "bytes \<Rightarrow> nat \<Rightarrow> 'a::len word result" where
  "from_big_endian buf offset =
     (let size = LENGTH('a) div 8 in
      if size_add offset size > length buf \<or> offset > 2 ^ 64 - 1 - size
      then Inl (Out_of_range ''Target range outside of buffer'')
      else if size = 2 then
        Inr (push_bit 0 (ucast (buf ! (offset + 1))) OR
             push_bit 8 (ucast (buf ! offset)))
      else if size = 4 then
        Inr (push_bit 0 (ucast (buf ! (offset + 3))) OR
             push_bit 8 (ucast (buf ! (offset + 2))) OR
             push_bit 16 (ucast (buf ! (offset + 1))) OR
             push_bit 24 (ucast (buf ! offset)))
      else
        Inr (push_bit 0 (ucast (buf ! (offset + 7))) OR
             push_bit 8 (ucast (buf ! (offset + 6))) OR
             push_bit 16 (ucast (buf ! (offset + 5))) OR
             push_bit 24 (ucast (buf ! (offset + 4))) OR
             push_bit 32 (ucast (buf ! (offset + 3))) OR
             push_bit 40 (ucast (buf ! (offset + 2))) OR
             push_bit 48 (ucast (buf ! (offset + 1))) OR
             push_bit 56 (ucast (buf ! offset))))"

definition to_big_endian :: "'a::len word \<Rightarrow> bytes" where
  "to_big_endian val =
     (let size = LENGTH('a) div 8 in
      if size = 2 then
        [ucast (drop_bit 8 val AND 0xFF), ucast (drop_bit 0 val AND 0xFF)]
      else if size = 4 then
        [ucast (drop_bit 24 val AND 0xFF), ucast (drop_bit 16 val AND 0xFF),
         ucast (drop_bit 8 val AND 0xFF), ucast (drop_bit 0 val AND 0xFF)]
      else
        [ucast (drop_bit 56 val AND 0xFF), ucast (drop_bit 48 val AND 0xFF),
         ucast (drop_bit 40 val AND 0xFF), ucast (drop_bit 32 val AND 0xFF),
         ucast (drop_bit 24 val AND 0xFF), ucast (drop_bit 16 val AND 0xFF),
         ucast (drop_bit 8 val AND 0xFF), ucast (drop_bit 0 val AND 0xFF)])"

lemma from_big_endian_range_check:
  assumes "length buf < 2 ^ 64" and "n \<le> 8"
  shows "(size_add offset n > length buf \<or> offset > 2 ^ 64 - 1 - n) \<longleftrightarrow> \<not> offset + n \<le> length buf"
proof (cases "offset > 2 ^ 64 - 1 - n")
  case True
  with assms show ?thesis
    by auto
next
  case False
  with assms(2) have "offset + n < 2 ^ 64"
    by auto
  with False show ?thesis
    by auto
qed

text \<open>
  The wrap-around in the bounds test of \<open>from_big_endian\<close> never lets a read past the buffer
  through and never rejects one that fits: it throws \<open>out_of_range\<close> exactly when offset plus
  width, taken without wrap-around, exceeds the size of the buffer.
\<close>

theorem from_big_endian_bounds:
  assumes "length buf < 2 ^ 64" and "LENGTH('a::len) div 8 \<le> 8"
  shows "(from_big_endian buf offset :: 'a word result) = Inl (Out_of_range ''Target range outside of buffer'')
     \<longleftrightarrow> length buf < offset + LENGTH('a) div 8"
  using from_big_endian_range_check [OF assms, of offset]
  by (auto simp: from_big_endian_def Let_def)

theorem from_big_endian_bounds_witness:
  "(from_big_endian [99, 12, 34, 56, 78] (2 ^ 64 - 1) :: u32 result)
     = Inl (Out_of_range ''Target range outside of buffer'')"
  by (subst from_big_endian_bounds) simp_all

lemma low_byte_mask: "(0xFF :: 'a::len word) = mask 8"
  by (simp add: mask_eq_exp_minus_1)

lemma length_to_big_endian:
  "LENGTH('a::len) \<in> {16, 32, 64} \<Longrightarrow> length (to_big_endian (v :: 'a word)) = LENGTH('a) div 8"
  by (auto simp: to_big_endian_def)

lemma bit_low_byte:
  "bit (push_bit k (ucast (ucast (drop_bit k v AND 0xFF) :: byte)) :: 'a::len word) n \<longleftrightarrow>
     bit v n \<and> k \<le> n \<and> n < k + 8"
  for v :: "'a::len word"
  by (auto simp: low_byte_mask bit_simps dest: bit_imp_le_length)

lemma join_low_bytes_16:
  "LENGTH('a::len) = 16 \<Longrightarrow>
   push_bit 0 (ucast (ucast (drop_bit 0 v AND 0xFF) :: byte)) OR
   push_bit 8 (ucast (ucast (drop_bit 8 v AND 0xFF) :: byte)) = (v :: 'a word)"
  by (rule bit_word_eqI, simp only: bit_or_iff bit_low_byte) arith

lemma join_low_bytes_32:
  "LENGTH('a::len) = 32 \<Longrightarrow>
   push_bit 0 (ucast (ucast (drop_bit 0 v AND 0xFF) :: byte)) OR
   push_bit 8 (ucast (ucast (drop_bit 8 v AND 0xFF) :: byte)) OR
   push_bit 16 (ucast (ucast (drop_bit 16 v AND 0xFF) :: byte)) OR
   push_bit 24 (ucast (ucast (drop_bit 24 v AND 0xFF) :: byte)) = (v :: 'a word)"
  by (rule bit_word_eqI, simp only: bit_or_iff bit_low_byte) arith

lemma join_low_bytes_64:
  "LENGTH('a::len) = 64 \<Longrightarrow>
   push_bit 0 (ucast (ucast (drop_bit 0 v AND 0xFF) :: byte)) OR
   push_bit 8 (ucast (ucast (drop_bit 8 v AND 0xFF) :: byte)) OR
   push_bit 16 (ucast (ucast (drop_bit 16 v AND 0xFF) :: byte)) OR
   push_bit 24 (ucast (ucast (drop_bit 24 v AND 0xFF) :: byte)) OR
   push_bit 32 (ucast (ucast (drop_bit 32 v AND 0xFF) :: byte)) OR
   push_bit 40 (ucast (ucast (drop_bit 40 v AND 0xFF) :: byte)) OR
   push_bit 48 (ucast (ucast (drop_bit 48 v AND 0xFF) :: byte)) OR
   push_bit 56 (ucast (ucast (drop_bit 56 v AND 0xFF) :: byte)) = (v :: 'a word)"
  by (rule bit_word_eqI, simp only: bit_or_iff bit_low_byte) arith

lemma nth_append_Suc: "(xs @ ys) ! Suc (length xs) = ys ! Suc 0"
  and nth_append_Suc_Suc: "(xs @ ys) ! Suc (Suc (length xs)) = ys ! Suc (Suc 0)"
  by (simp_all add: nth_append numeral_2_eq_2)

lemma from_big_endian_at:
  assumes "length pre + length bs + length post < 2 ^ 64" and "length bs = LENGTH('a) div 8"
    and "LENGTH('a::len) \<in> {16, 32, 64}"
  shows "(from_big_endian (pre @ bs @ post) (length pre) :: 'a word result) = from_big_endian bs 0"
proof -
  have "size_add (length pre) (LENGTH('a) div 8) \<le> length (pre @ bs @ post)"
    and "length pre \<le> 2 ^ 64 - 1 - LENGTH('a) div 8"
    using from_big_endian_range_check [of "pre @ bs @ post" "LENGTH('a) div 8" "length pre"] assms
    by auto
  moreover have "size_add 0 (LENGTH('a) div 8) \<le> length bs"
    using assms by auto
  moreover have "(bs @ post) ! i = bs ! i" if "i < LENGTH('a) div 8" for i
    using that assms(2) by (simp add: nth_append)
  ultimately show ?thesis
    using assms(2,3)
    by (auto simp: from_big_endian_def Let_def nth_append_Suc nth_append_Suc_Suc nth_append [of pre])
qed

lemma from_to_big_endian_0:
  "LENGTH('a) \<in> {16, 32, 64} \<Longrightarrow> from_big_endian (to_big_endian v) 0 = Inr (v :: 'a::len word)"
  using join_low_bytes_16 [of v] join_low_bytes_32 [of v] join_low_bytes_64 [of v]
  by (auto simp: from_big_endian_def to_big_endian_def Let_def or.assoc simp del: push_bit_0_id)

lemma bit_placed_byte:
  "bit (push_bit k (ucast (b :: byte)) :: 'a::len word) n \<longleftrightarrow>
     n < LENGTH('a) \<and> k \<le> n \<and> n < k + 8 \<and> bit b (n - k)"
  by (auto simp: bit_simps dest: bit_imp_le_length)

lemma split_placed_byte:
  fixes v :: "'a::len word"
  assumes "\<And>n. n < 8 \<Longrightarrow> bit v (n + k) = bit b n" and "k + 8 \<le> LENGTH('a)"
  shows "ucast (drop_bit k v AND 0xFF) = (b :: byte)"
  by (rule bit_word_eqI) (use assms in \<open>auto simp: low_byte_mask bit_simps ac_simps\<close>)

lemma to_from_big_endian:
  assumes "LENGTH('a::len) \<in> {16, 32, 64}" and "length bs = LENGTH('a) div 8"
    and "from_big_endian bs 0 = Inr (v :: 'a word)"
  shows "to_big_endian v = bs"
proof -
  have size: "\<not> (size_add 0 (LENGTH('a) div 8) > length bs \<or> 0 > (2 ^ 64 - 1 - LENGTH('a) div 8 :: nat))"
    using assms(1,2) by auto
  consider (w16) "LENGTH('a) = 16" | (w32) "LENGTH('a) = 32" | (w64) "LENGTH('a) = 64"
    using assms(1) by auto
  then show ?thesis
  proof cases
    case w16
    with assms(2) obtain b0 b1 where bs: "bs = [b0, b1]"
      by (cases bs; cases "tl bs") auto
    with assms(3) size w16 have v: "v = push_bit 0 (ucast b1) OR push_bit 8 (ucast b0)"
      by (simp add: from_big_endian_def Let_def)
    show ?thesis
      unfolding bs to_big_endian_def
      by (simp add: w16 del: drop_bit_0)
        (intro conjI split_placed_byte; (simp only: v bit_or_iff bit_placed_byte)?; simp add: w16)
  next
    case w32
    with assms(2) have "length bs = Suc (Suc (Suc (Suc 0)))"
      by simp
    then obtain b0 b1 b2 b3 where bs: "bs = [b0, b1, b2, b3]"
      by (auto simp only: length_Suc_conv length_0_conv)
    with assms(3) size w32 have v: "v = push_bit 0 (ucast b3) OR push_bit 8 (ucast b2) OR
        push_bit 16 (ucast b1) OR push_bit 24 (ucast b0)"
      by (simp add: from_big_endian_def Let_def)
    show ?thesis
      unfolding bs to_big_endian_def
      by (simp add: w32 del: drop_bit_0)
        (intro conjI split_placed_byte; (simp only: v bit_or_iff bit_placed_byte)?; simp add: w32)
  next
    case w64
    with assms(2) have "length bs = Suc (Suc (Suc (Suc (Suc (Suc (Suc (Suc 0)))))))"
      by simp
    then obtain b0 b1 b2 b3 b4 b5 b6 b7 where bs: "bs = [b0, b1, b2, b3, b4, b5, b6, b7]"
      by (auto simp only: length_Suc_conv length_0_conv)
    with assms(3) size w64 have v: "v = push_bit 0 (ucast b7) OR push_bit 8 (ucast b6) OR
        push_bit 16 (ucast b5) OR push_bit 24 (ucast b4) OR push_bit 32 (ucast b3) OR
        push_bit 40 (ucast b2) OR push_bit 48 (ucast b1) OR push_bit 56 (ucast b0)"
      by (simp add: from_big_endian_def Let_def)
    show ?thesis
      unfolding bs to_big_endian_def
      by (simp add: w64 del: drop_bit_0)
        (intro conjI split_placed_byte; (simp only: v bit_or_iff bit_placed_byte)?; simp add: w64)
  qed
qed

lemma from_big_endian_total:
  assumes "LENGTH('a::len) \<in> {16, 32, 64}" and "length bs = LENGTH('a) div 8"
  shows "\<exists>v. from_big_endian bs 0 = Inr (v :: 'a word)"
  using assms by (auto simp: from_big_endian_def Let_def)

text \<open>
  The big endian codecs are inverse to each other at 16, 32 and 64 bits: decoding an
  encoded integer at the place where it was written returns it, whatever surrounds it, and
  encoding a decoded integer returns the bytes that were read.
\<close>

theorem big_endian_roundtrip:
  assumes "LENGTH('a::len) \<in> {16, 32, 64}"
    and "length pre + LENGTH('a) div 8 + length post < 2 ^ 64"
    and "length bs = LENGTH('a) div 8"
  shows "from_big_endian (pre @ to_big_endian v @ post) (length pre) = Inr (v :: 'a word)
    \<and> (\<exists>w :: 'a word. from_big_endian (pre @ bs @ post) (length pre) = Inr w \<and> to_big_endian w = bs)"
proof (intro conjI)
  show "from_big_endian (pre @ to_big_endian v @ post) (length pre) = Inr v"
    using assms by (simp add: from_big_endian_at length_to_big_endian from_to_big_endian_0)
  obtain w :: "'a word" where w: "from_big_endian bs 0 = Inr w"
    using from_big_endian_total assms(1,3) by blast
  with assms show "\<exists>w :: 'a word. from_big_endian (pre @ bs @ post) (length pre) = Inr w \<and> to_big_endian w = bs"
    by (auto simp: from_big_endian_at intro: to_from_big_endian)
qed

theorem big_endian_roundtrip_witness:
  "from_big_endian ([7] @ to_big_endian (203569230 :: u32) @ [9, 9]) 1 = Inr (203569230 :: u32)"
proof -
  have "from_big_endian ([7] @ to_big_endian (203569230 :: u32) @ [9, 9]) (length [7 :: byte])
      = Inr (203569230 :: u32)
    \<and> (\<exists>w :: u32. from_big_endian ([7] @ [12, 34, 56, 78] @ [9, 9]) (length [7 :: byte]) = Inr w
        \<and> to_big_endian w = [12, 34, 56, 78])"
    by (rule big_endian_roundtrip) simp_all
  moreover have "length [7 :: byte] = 1"
    by simp
  ultimately show ?thesis
    by (metis conjunct1)
qed

section \<open>The interface of a fixed-width field\<close>

text \<open>
  What the message code relies on when it writes and reads integers in a buffer.
\<close>

locale wire_codec =
  fixes enc :: "'v \<Rightarrow> bytes" and dec :: "bytes \<Rightarrow> nat \<Rightarrow> 'v result" and width :: nat
  assumes length_enc: "length (enc v) = width"
    and dec_enc: "dec (enc v) 0 = Inr v"
    and enc_dec: "length bs = width \<Longrightarrow> dec bs 0 = Inr v \<Longrightarrow> enc v = bs"
    and dec_total: "length bs = width \<Longrightarrow> \<exists>v. dec bs 0 = Inr v"
    and dec_local: "length bs = width \<Longrightarrow> length pre + width + length post < 2 ^ 64 \<Longrightarrow>
      dec (pre @ bs @ post) (length pre) = dec bs 0"
    and dec_outside: "length buf < 2 ^ 64 \<Longrightarrow> length buf < off + width \<Longrightarrow>
      dec buf off = Inl (Out_of_range ''Target range outside of buffer'')"
begin

lemma enc_inject: "enc v = enc w \<longleftrightarrow> v = w"
  by (metis dec_enc sum.inject(2))

lemma dec_at:
  "length pre + width + length post < 2 ^ 64 \<Longrightarrow> dec (pre @ enc v @ post) (length pre) = Inr v"
  by (simp add: dec_local length_enc dec_enc)

lemma dec_inside:
  assumes "length buf < 2 ^ 64" and "off + width \<le> length buf"
  shows "dec buf off = dec (take width (drop off buf)) 0"
proof -
  have split: "buf = take off buf @ take width (drop off buf) @ drop width (drop off buf)"
    by (metis append_take_drop_id)
  have "dec (take off buf @ take width (drop off buf) @ drop width (drop off buf)) (length (take off buf))
      = dec (take width (drop off buf)) 0"
    using assms by (intro dec_local) auto
  with split assms(2) show ?thesis
    by simp
qed

lemma dec_ok_iff:
  assumes "length buf < 2 ^ 64"
  shows "(\<exists>v. dec buf off = Inr v) \<longleftrightarrow> off + width \<le> length buf"
  using assms dec_inside [of buf off] dec_total [of "take width (drop off buf)"]
    dec_outside [of buf off]
  by (cases "off + width \<le> length buf") auto

lemma length_fields: "length (concat (map enc vs)) = width * length vs"
  by (induction vs) (simp_all add: length_enc)

lemma dec_field:
  assumes "i < length vs" and "length pre + width * length vs + length post < 2 ^ 64"
  shows "dec (pre @ concat (map enc vs) @ post) (length pre + width * i) = Inr (vs ! i)"
proof -
  have vs: "vs = take i vs @ vs ! i # drop (Suc i) vs"
    using assms(1) by (simp add: id_take_nth_drop)
  have len: "length (pre @ concat (map enc (take i vs))) = length pre + width * i"
    using assms(1) by (simp add: length_fields)
  obtain k where k: "length vs = Suc (i + k)"
    using assms(1) less_imp_Suc_add by blast
  then have "width * length vs = width * i + width + width * (length vs - Suc i)"
    by (simp add: distrib_left)
  then have "dec ((pre @ concat (map enc (take i vs))) @ enc (vs ! i) @ (concat (map enc (drop (Suc i) vs)) @ post))
      (length (pre @ concat (map enc (take i vs)))) = Inr (vs ! i)"
    using assms by (intro dec_at) (simp add: length_fields)
  then show ?thesis
    unfolding len by (subst vs) simp
qed

end

interpretation be16: wire_codec "to_big_endian :: u16 \<Rightarrow> bytes" from_big_endian 2
  using length_to_big_endian [where 'a = 16] from_to_big_endian_0 [where 'a = 16]
    to_from_big_endian [where 'a = 16] from_big_endian_total [where 'a = 16]
    from_big_endian_at [where 'a = 16] from_big_endian_bounds [where 'a = 16]
  by unfold_locales auto

interpretation be32: wire_codec "to_big_endian :: u32 \<Rightarrow> bytes" from_big_endian 4
  using length_to_big_endian [where 'a = 32] from_to_big_endian_0 [where 'a = 32]
    to_from_big_endian [where 'a = 32] from_big_endian_total [where 'a = 32]
    from_big_endian_at [where 'a = 32] from_big_endian_bounds [where 'a = 32]
  by unfold_locales auto

interpretation be64: wire_codec "to_big_endian :: u64 \<Rightarrow> bytes" from_big_endian 8
  using length_to_big_endian [where 'a = 64] from_to_big_endian_0 [where 'a = 64]
    to_from_big_endian [where 'a = 64] from_big_endian_total [where 'a = 64]
    from_big_endian_at [where 'a = 64] from_big_endian_bounds [where 'a = 64]
  by unfold_locales auto

end
