(* ===== verification/Bitfield.thy ===== *)
theory Bitfield
  imports Prelude
begin

text \<open>
  \<^verbatim>\<open>src/bitfield.hpp\<close>, \<^verbatim>\<open>src/bitfield.cpp\<close>: the bit set of BitTorrent, bits numbered from the
  most significant bit of the first byte.  The operations are translated byte by byte; their
  meaning is given through \<open>bf_test\<close>, which reads one bit and is \<open>False\<close> outside the
  field, and through the index set \<open>bf_indices\<close>.  \<open>size_type\<close> values are \<open>nat\<close>; the two
  places where their arithmetic can wrap (\<open>fill\<close>) use \<open>size_add\<close> and \<open>size_sub\<close>.
  The logging of \<open>fill\<close> to \<^verbatim>\<open>std::cerr\<close> is left out.
\<close>

section \<open>Operations\<close>

record bitfield =
  m_bytes :: bytes

definition bit_mask :: "nat \<Rightarrow> byte" where
  "bit_mask i = push_bit (7 - i mod 8) 1"

text \<open>The three constructors: default, from raw bytes, and a number of zero bits.\<close>

definition bf_empty :: bitfield where
  "bf_empty = \<lparr>m_bytes = []\<rparr>"

definition bf_raw :: "bytes \<Rightarrow> bitfield" where
  "bf_raw raw = \<lparr>m_bytes = raw\<rparr>"

definition bf_make :: "nat \<Rightarrow> bitfield" where
  "bf_make count = \<lparr>m_bytes = replicate (count div 8 + (if count mod 8 \<noteq> 0 then 1 else 0)) 0\<rparr>"

definition bf_size :: "bitfield \<Rightarrow> nat" where
  "bf_size bf = length (m_bytes bf) * 8"

definition bf_size_bytes :: "bitfield \<Rightarrow> nat" where
  "bf_size_bytes bf = length (m_bytes bf)"

definition bf_clear :: "bitfield \<Rightarrow> bitfield" where
  "bf_clear bf = bf\<lparr>m_bytes := []\<rparr>"

definition bf_get :: "bitfield \<Rightarrow> nat \<Rightarrow> bool result" where
  "bf_get bf i = bindE (vec_at (m_bytes bf) (i div 8)) (\<lambda>byte. Inr (byte AND bit_mask i \<noteq> 0))"

text \<open>\<^verbatim>\<open>Proxy::operator=(bool)\<close>: assignment through \<open>operator[]\<close> or \<open>at\<close>, which grows the field.\<close>

definition bytes_resize :: "bytes \<Rightarrow> nat \<Rightarrow> bytes" where
  "bytes_resize bs n = take n bs @ replicate (n - length bs) 0"

definition bf_set :: "bitfield \<Rightarrow> nat \<Rightarrow> bool \<Rightarrow> bitfield" where
  "bf_set bf i b =
     (let byte_index = i div 8;
          bs = (if length (m_bytes bf) \<le> byte_index then bytes_resize (m_bytes bf) (byte_index + 1)
                else m_bytes bf);
          byte_val = bs ! byte_index;
          cb = bit_mask i;
          byte_val' = (if b then byte_val OR cb else byte_val AND NOT cb)
      in bf\<lparr>m_bytes := bs[byte_index := byte_val']\<rparr>)"

text \<open>One byte and a range of bytes of \<open>fill\<close>.\<close>

definition fill_byte :: "bytes \<Rightarrow> nat \<Rightarrow> byte \<Rightarrow> bool \<Rightarrow> bytes result" where
  "fill_byte bs k msk val =
     (if k < length bs then Inr (bs[k := (if val then bs ! k OR msk else bs ! k AND NOT msk)])
      else Inl (Undefined_behaviour ''fill: byte index''))"

definition fill_range :: "bytes \<Rightarrow> nat \<Rightarrow> nat \<Rightarrow> byte \<Rightarrow> bytes result" where
  "fill_range bs a b v =
     (if b < length bs then Inr (map (\<lambda>k. if a \<le> k \<and> k \<le> b then v else bs ! k) [0..<length bs])
      else Inl (Undefined_behaviour ''fill: byte range''))"

definition bf_fill :: "bitfield \<Rightarrow> nat \<Rightarrow> bool \<Rightarrow> nat \<Rightarrow> bitfield result" where
  "bf_fill bf count val start =
     (if count = 0 then Inr bf
      else
        let bit_end = size_add start count;
            byte_start = start div 8;
            byte_end = size_sub bit_end 1 div 8
        in
        if byte_end \<ge> length (m_bytes bf) then
          Inl (Invalid_argument ''Bitfield::fill: Out of range'')
        else if byte_start = byte_end then
          Inr (foldl (\<lambda>b i. bf_set b i val) bf [start..<bit_end])
        else
          bindE (if start mod 8 \<noteq> 0
                 then fill_byte (m_bytes bf) byte_start (drop_bit (start mod 8) 0xFF) val
                 else Inr (m_bytes bf)) (\<lambda>bs1.
          let byte_start' = (if start mod 8 \<noteq> 0 then byte_start + 1 else byte_start) in
          bindE (if bit_end mod 8 \<noteq> 0
                 then fill_byte bs1 byte_end (push_bit (8 - bit_end mod 8) 0xFF) val
                 else Inr bs1) (\<lambda>bs2.
          let byte_end' = (if bit_end mod 8 \<noteq> 0 then size_sub byte_end 1 else byte_end);
              byte_val = (if val then 0xFF else 0x00)
          in
          bindE (if byte_start' \<le> byte_end' then fill_range bs2 byte_start' byte_end' byte_val
                 else Inr bs2) (\<lambda>bs3.
          Inr (bf\<lparr>m_bytes := bs3\<rparr>)))))"

definition bf_sub :: "bitfield \<Rightarrow> bitfield \<Rightarrow> bitfield" where
  "bf_sub bf other =
     (let len = min (bf_size_bytes bf) (bf_size_bytes other) in
      \<lparr>m_bytes = map (\<lambda>i. m_bytes bf ! i XOR (m_bytes bf ! i AND m_bytes other ! i)) [0..<len]\<rparr>)"

definition bf_add :: "bitfield \<Rightarrow> bitfield \<Rightarrow> bitfield" where
  "bf_add bf other =
     (let len = min (bf_size_bytes bf) (bf_size_bytes other) in
      \<lparr>m_bytes = map (\<lambda>i. m_bytes bf ! i OR m_bytes other ! i) [0..<len]\<rparr>)"

text \<open>\<^verbatim>\<open>bitsPerByteTable\<close> is filled from the front, each entry from the one at half its index.\<close>

definition bits_per_byte_table :: "nat list" where
  "bits_per_byte_table =
     foldl (\<lambda>table i. table[i := table ! (i div 2) + i mod 2]) (replicate 256 0) [0..<256]"

definition bf_count :: "bitfield \<Rightarrow> nat" where
  "bf_count bf = foldl (\<lambda>c b. c + bits_per_byte_table ! unat b) 0 (m_bytes bf)"

text \<open>The inner loops of \<open>next\<close>: the first of some positions in a byte whose bit has the value.\<close>

fun scan_bits :: "bitfield \<Rightarrow> bool \<Rightarrow> nat \<Rightarrow> nat list \<Rightarrow> nat option result" where
  "scan_bits bf val base [] = Inr None"
| "scan_bits bf val base (i # is) =
     bindE (bf_get bf (base * 8 + i)) (\<lambda>b.
     if b = val then Inr (Some (base * 8 + i)) else scan_bits bf val base is)"

definition bf_next :: "bitfield \<Rightarrow> bool \<Rightarrow> nat \<Rightarrow> nat option result" where
  "bf_next bf val start =
     (if start > bf_size bf then Inr None
      else
        let byte_offset = start div 8; bit_offset = start mod 8 in
        bindE (if bit_offset \<noteq> 0 then scan_bits bf val byte_offset [bit_offset..<8] else Inr None)
        (\<lambda>found. case found of
            Some pos \<Rightarrow> Inr (Some pos)
          | None \<Rightarrow>
              (let byte_offset' = (if bit_offset \<noteq> 0 then byte_offset + 1 else byte_offset) in
               case List.find (\<lambda>k. if val then m_bytes bf ! k > 0 else m_bytes bf ! k < 255)
                      [byte_offset'..<length (m_bytes bf)] of
                 None \<Rightarrow> Inr None
               | Some k \<Rightarrow> scan_bits bf val k [0..<8])))"

section \<open>Reading one bit\<close>

definition bf_test :: "bitfield \<Rightarrow> nat \<Rightarrow> bool" where
  "bf_test bf i \<longleftrightarrow> i < bf_size bf \<and> bit (m_bytes bf ! (i div 8)) (7 - i mod 8)"

definition bf_indices :: "bitfield \<Rightarrow> nat set" where
  "bf_indices bf = {i. bf_test bf i}"

lemma div8_less_iff: "i div 8 < n \<longleftrightarrow> i < n * (8::nat)"
  by (simp add: div_less_iff_less_mult)

lemma and_bit_mask_iff: "(b AND bit_mask i \<noteq> 0) \<longleftrightarrow> bit b (7 - i mod 8)"
  for b :: byte
  by (simp add: bit_mask_def push_bit_eq_mult and_exp_eq_0_iff_not_bit)

lemma bf_get_eq:
  "bf_get bf i = (if i < bf_size bf then Inr (bf_test bf i) else Inl (Out_of_range ''at''))"
  by (simp add: bf_get_def vec_at_def and_bit_mask_iff bf_test_def bf_size_def div8_less_iff)

lemma bf_test_outside: "bf_size bf \<le> i \<Longrightarrow> \<not> bf_test bf i"
  by (simp add: bf_test_def)

lemma finite_bf_indices: "finite (bf_indices bf)"
  by (rule finite_subset [of _ "{..<bf_size bf}"]) (auto simp: bf_indices_def bf_test_def)

section \<open>Single bits\<close>

lemma bf_size_make [simp]: "bf_size (bf_make n) = (n + 7) div 8 * 8"
proof -
  have "n div 8 + (if n mod 8 \<noteq> 0 then 1 else 0) = (n + 7) div 8"
    using div_mult_mod_eq [of n 8] mod_less_divisor [of 8 n]
    by (auto simp: div_add1_eq [of n 7])
  then show ?thesis
    by (simp add: bf_size_def bf_make_def)
qed

lemma bf_size_make_ge: "n \<le> bf_size (bf_make n)"
  by simp

lemma bf_test_make [simp]: "\<not> bf_test (bf_make n) i"
  by (auto simp: bf_test_def bf_make_def bf_size_def nth_append split: if_splits)

lemma bf_test_empty [simp]: "\<not> bf_test bf_empty i"
  by (simp add: bf_test_def bf_empty_def bf_size_def)

lemma bf_size_set: "bf_size (bf_set bf i b) = max (bf_size bf) ((i div 8 + 1) * 8)"
  by (auto simp: bf_size_def bf_set_def Let_def bytes_resize_def max_def)

lemma bf_size_set_inside [simp]: "i < bf_size bf \<Longrightarrow> bf_size (bf_set bf i b) = bf_size bf"
  by (auto simp: bf_size_def bf_set_def Let_def simp flip: div8_less_iff)

lemma bit_set_mask:
  fixes v :: byte
  shows "bit (v OR bit_mask i) n \<longleftrightarrow> n = 7 - i mod 8 \<or> bit v n"
    and "bit (v AND NOT (bit_mask i)) n \<longleftrightarrow> n \<noteq> 7 - i mod 8 \<and> bit v n"
  by (auto simp: bit_mask_def bit_simps dest: bit_imp_le_length)

lemma same_bit_iff:
  assumes "j div 8 = i div (8::nat)"
  shows "7 - j mod 8 = 7 - i mod 8 \<longleftrightarrow> j = i"
proof -
  have "j mod 8 < 8" and "i mod 8 < 8"
    by simp_all
  moreover have "j = i div 8 * 8 + j mod 8" and "i = i div 8 * 8 + i mod 8"
    using assms by (metis div_mult_mod_eq)+
  ultimately show ?thesis
    by linarith
qed

lemma bf_test_set: "bf_test (bf_set bf i b) j \<longleftrightarrow> (if j = i then b else bf_test bf j)"
proof -
  define bs where "bs = (if length (m_bytes bf) \<le> i div 8
    then bytes_resize (m_bytes bf) (i div 8 + 1) else m_bytes bf)"
  have len: "i div 8 < length bs"
    by (auto simp: bs_def bytes_resize_def)
  have old: "j < length bs * 8 \<and> bit (bs ! (j div 8)) (7 - j mod 8) \<longleftrightarrow> bf_test bf j"
    by (auto simp: bs_def bytes_resize_def bf_test_def bf_size_def nth_append
        div8_less_iff [symmetric] min_def not_less split: if_splits)
  have new: "m_bytes (bf_set bf i b) = bs[i div 8 := (if b then bs ! (i div 8) OR bit_mask i
      else bs ! (i div 8) AND NOT (bit_mask i))]"
    by (simp add: bf_set_def Let_def bs_def)
  show ?thesis
  proof (cases "j div 8 = i div 8")
    case True
    with len have "j < length bs * 8"
      by (simp flip: div8_less_iff)
    moreover have "bit (m_bytes (bf_set bf i b) ! (j div 8)) (7 - j mod 8) \<longleftrightarrow>
        (if 7 - j mod 8 = 7 - i mod 8 then b else bit (bs ! (j div 8)) (7 - j mod 8))"
      using True len by (auto simp: new bit_set_mask)
    ultimately show ?thesis
      using len old same_bit_iff [OF True] by (auto simp: bf_test_def [of "bf_set bf i b"] bf_size_def new)
  next
    case False
    then have "j \<noteq> i"
      by auto
    with False old show ?thesis
      by (auto simp: bf_test_def [of "bf_set bf i b"] bf_size_def new)
  qed
qed

text \<open>
  Assigning bit \<open>i\<close> changes that bit and no other, and grows the field to the byte that
  holds \<open>i\<close> when it was shorter: every bit reads back as before, \<open>i\<close> as assigned, and the
  bits past the new end throw.
\<close>

theorem bf_get_set:
  "bf_get (bf_set bf i b) j =
     (if j = i then Inr b
      else if j < max (bf_size bf) ((i div 8 + 1) * 8) then Inr (bf_test bf j)
      else Inl (Out_of_range ''at''))"
proof -
  have "i < (i div 8 + 1) * 8"
    by (simp flip: div8_less_iff)
  then show ?thesis
    by (auto simp: bf_get_eq bf_size_set bf_test_set)
qed

section \<open>Bytewise difference and union\<close>

lemma bf_size_sub: "bf_size (bf_sub a b) = min (bf_size a) (bf_size b)"
  by (simp add: bf_size_def bf_sub_def bf_size_bytes_def min_def)

lemma bf_size_add: "bf_size (bf_add a b) = min (bf_size a) (bf_size b)"
  by (simp add: bf_size_def bf_add_def bf_size_bytes_def min_def)

lemma bf_test_sub:
  "bf_test (bf_sub a b) i \<longleftrightarrow> bf_test a i \<and> \<not> bf_test b i \<and> i < bf_size b"
  by (auto simp: bf_test_def bf_size_sub)
    (auto simp: bf_sub_def bf_size_def bf_size_bytes_def bit_simps simp flip: div8_less_iff)

lemma bf_test_add:
  "bf_test (bf_add a b) i \<longleftrightarrow> (bf_test a i \<or> bf_test b i) \<and> i < min (bf_size a) (bf_size b)"
  by (auto simp: bf_test_def bf_size_add)
    (auto simp: bf_add_def bf_size_def bf_size_bytes_def bit_simps simp flip: div8_less_iff)

lemma bf_indices_sub:
  "bf_indices (bf_sub a b) = (bf_indices a - bf_indices b) \<inter> {..<min (bf_size a) (bf_size b)}"
  by (auto simp: bf_indices_def bf_test_sub bf_test_outside not_le [symmetric])

lemma bf_indices_add:
  "bf_indices (bf_add a b) = (bf_indices a \<union> bf_indices b) \<inter> {..<min (bf_size a) (bf_size b)}"
  by (auto simp: bf_indices_def bf_test_add bf_test_outside not_le [symmetric])

lemma bf_none_set_iff: "List.find (\<lambda>i. bf_test bf i) [0..<bf_size bf] = None \<longleftrightarrow> bf_indices bf = {}"
  by (auto simp: find_None_iff bf_indices_def bf_test_def)

text \<open>
  Seen as sets of indices, \<open>operator-\<close> is set difference and \<open>operator+\<close> is union, both cut
  to the length of the shorter operand.
\<close>

theorem bf_set_operations:
  "bf_indices (bf_sub a b) = (bf_indices a - bf_indices b) \<inter> {..<min (bf_size a) (bf_size b)}
   \<and> bf_indices (bf_add a b) = (bf_indices a \<union> bf_indices b) \<inter> {..<min (bf_size a) (bf_size b)}
   \<and> bf_size (bf_sub a b) = min (bf_size a) (bf_size b)
   \<and> bf_size (bf_add a b) = min (bf_size a) (bf_size b)"
  by (simp add: bf_indices_sub bf_indices_add bf_size_sub bf_size_add)

section \<open>Counting\<close>

text \<open>Number of one bits of a number, halving it as the table does.\<close>

fun popcount :: "nat \<Rightarrow> nat" where
  "popcount n = (if n = 0 then 0 else popcount (n div 2) + n mod 2)"

declare popcount.simps [simp del]

lemma popcount_filter: "n < 2 ^ m \<Longrightarrow> popcount n = length (filter (bit n) [0..<m])"
proof (induction m arbitrary: n)
  case 0
  then show ?case
    by (simp add: popcount.simps)
next
  case (Suc m)
  have "filter (bit n) [0..<Suc m] = (if odd n then [0] else []) @ map Suc (filter (bit (n div 2)) [0..<m])"
    by (simp add: upt_conv_Cons map_Suc_upt [symmetric] filter_map comp_def bit_0 bit_Suc del: upt_Suc)
  moreover have "popcount (n div 2) = length (filter (bit (n div 2)) [0..<m])"
    using Suc by simp
  ultimately show ?case
    by (auto simp: popcount.simps [of n] odd_iff_mod_2_eq_one)
qed

abbreviation table_step :: "nat list \<Rightarrow> nat \<Rightarrow> nat list" where
  "table_step table i \<equiv> table[i := table ! (i div 2) + i mod 2]"

lemma bits_per_byte_table_upto:
  "n \<le> 256 \<Longrightarrow>
    length (foldl table_step (replicate 256 0) [0..<n]) = 256
    \<and> (\<forall>k < n. foldl table_step (replicate 256 0) [0..<n] ! k = popcount k)
    \<and> foldl table_step (replicate 256 0) [0..<n] ! 0 = 0"
proof (induction n)
  case 0
  then show ?case
    by simp
next
  case (Suc n)
  define t where "t = foldl table_step (replicate 256 0) [0..<n]"
  have IH: "length t = 256 \<and> (\<forall>k < n. t ! k = popcount k) \<and> t ! 0 = 0"
    unfolding t_def using Suc.prems by (intro Suc.IH) simp
  moreover have step: "foldl table_step (replicate 256 0) [0..<Suc n] = table_step t n"
    by (simp add: t_def)
  moreover have "t ! (n div 2) + n mod 2 = popcount n"
    using IH by (cases "n = 0") (simp_all add: popcount.simps [of n] popcount.simps [of 0])
  ultimately show ?case
    unfolding step using Suc.prems by (auto simp: less_Suc_eq nth_list_update popcount.simps [of 0])
qed

lemma bits_per_byte_table_nth:
  fixes b :: byte
  shows "bits_per_byte_table ! unat b = length (filter (bit b) [0..<8])"
proof -
  have "unat b < 2 ^ LENGTH(8)"
    by (rule unsigned_less)
  then have "bits_per_byte_table ! unat b = popcount (unat b)"
    using bits_per_byte_table_upto [of 256] by (simp add: bits_per_byte_table_def)
  also have "\<dots> = length (filter (bit (unat b)) [0..<8])"
    using \<open>unat b < 2 ^ LENGTH(8)\<close> by (simp add: popcount_filter)
  also have "filter (bit (unat b)) [0..<8] = filter (bit b) [0..<8]"
    by (rule filter_cong) (simp_all add: bit_simps)
  finally show ?thesis .
qed

lemma length_filter_mirror8:
  "length (filter (\<lambda>i. P (7 - i)) [0..<8]) = length (filter P [0..<8::nat])"
proof -
  have "map (\<lambda>i. 7 - i) [0..<8] = rev [0..<8::nat]"
    by (simp add: upt_rec)
  moreover have "length (filter (\<lambda>i. P (7 - i)) [0..<8]) = length (filter P (map (\<lambda>i. 7 - i) [0..<8]))"
    by (simp only: filter_map comp_def length_map)
  ultimately show ?thesis
    by (simp only: rev_filter [symmetric] length_rev)
qed

lemma bf_count_eq_filter:
  "bf_count bf = length (filter (bf_test bf) [0..<bf_size bf])"
proof -
  have "foldl (\<lambda>c b. c + bits_per_byte_table ! unat b) 0 bs =
      length (filter (bf_test \<lparr>m_bytes = bs\<rparr>) [0..<length bs * 8])" for bs
  proof (induction bs rule: rev_induct)
    case Nil
    then show ?case
      by simp
  next
    case (snoc b bs)
    have old: "filter (bf_test \<lparr>m_bytes = bs @ [b]\<rparr>) [0..<length bs * 8] =
        filter (bf_test \<lparr>m_bytes = bs\<rparr>) [0..<length bs * 8]"
      by (rule filter_cong) (auto simp: bf_test_def bf_size_def nth_append div8_less_iff)
    have bits: "bf_test \<lparr>m_bytes = bs @ [b]\<rparr> (length bs * 8 + i) = bit b (7 - i)" if "i < 8" for i
      using that by (simp add: bf_test_def bf_size_def nth_append)
    have "[length bs * 8..<length bs * 8 + 8] = map (\<lambda>i. length bs * 8 + i) [0..<8]"
      using map_add_upt [of "length bs * 8" 8] by (simp add: add.commute)
    then have "length (filter (bf_test \<lparr>m_bytes = bs @ [b]\<rparr>) [length bs * 8..<length bs * 8 + 8])
        = length (filter (\<lambda>i. bf_test \<lparr>m_bytes = bs @ [b]\<rparr> (length bs * 8 + i)) [0..<8])"
      by (simp only: filter_map comp_def length_map)
    also have "\<dots> = length (filter (\<lambda>i. bit b (7 - i)) [0..<8])"
      by (rule arg_cong [of _ _ length], rule filter_cong) (simp_all add: bits del: filter_map)
    also have "\<dots> = length (filter (bit b) [0..<8])"
      by (rule length_filter_mirror8)
    finally have new: "length (filter (bf_test \<lparr>m_bytes = bs @ [b]\<rparr>) [length bs * 8..<length bs * 8 + 8])
        = length (filter (bit b) [0..<8])" .
    have "[0..<length (bs @ [b]) * 8] = [0..<length bs * 8] @ [length bs * 8..<length bs * 8 + 8]"
      using upt_add_eq_append [of 0 "length bs * 8" 8] by (simp add: add.commute)
    then show ?case
      using snoc old new by (simp only: filter_append length_append foldl_append foldl.simps bits_per_byte_table_nth)
  qed
  moreover have "\<lparr>m_bytes = m_bytes bf\<rparr> = bf"
    by simp
  ultimately show ?thesis
    by (metis bf_count_def bf_size_def)
qed

lemma bf_count_card: "bf_count bf = card (bf_indices bf)"
proof -
  have "bf_indices bf = set (filter (bf_test bf) [0..<bf_size bf])"
    by (auto simp: bf_indices_def bf_test_def)
  then show ?thesis
    by (simp add: bf_count_eq_filter distinct_card del: set_filter)
qed

text \<open>
  \<open>count\<close>, computed bytewise from the precomputed table, is the number of indices in the
  set the field stands for.
\<close>

theorem bf_count_correct: "bf_count bf = card (bf_indices bf)"
  by (rule bf_count_card)

section \<open>Searching\<close>

lemma scan_bits_eq:
  "(\<And>i. i \<in> set is \<Longrightarrow> base * 8 + i < bf_size bf) \<Longrightarrow>
    scan_bits bf val base is = Inr (List.find (\<lambda>i. bf_test bf i = val) (map (\<lambda>i. base * 8 + i) is))"
  by (induction "is") (simp_all add: bf_get_eq)

lemma find_append:
  "List.find P (xs @ ys) = (case List.find P xs of None \<Rightarrow> List.find P ys | Some x \<Rightarrow> Some x)"
  by (induction xs) auto

lemma find_map_None: "List.find P (map f [a..<b]) = None \<longleftrightarrow> \<not> (\<exists>i<b. a \<le> i \<and> P (f i))"
  by (auto simp: find_None_iff)

lemma byte_positions: "map (\<lambda>i. k * 8 + i) [0..<8] = [k * 8..<Suc k * (8::nat)]"
  using map_add_upt [of "k * 8" 8] by (simp add: add.commute)

lemma find_by_byte:
  assumes "\<And>k. k \<in> set [m..<n] \<Longrightarrow> Q k \<longleftrightarrow> (\<exists>i<8. P (k * 8 + i))" and "m \<le> n"
  shows "List.find P [m * 8..<n * 8] =
    (case List.find Q [m..<n] of None \<Rightarrow> None | Some k \<Rightarrow> List.find P (map (\<lambda>i. k * 8 + i) [0..<8]))"
  using assms
proof (induction "n - m" arbitrary: m)
  case 0
  then show ?case
    by simp
next
  case (Suc d)
  then have "m < n"
    by simp
  then have "[m * 8..<n * 8] = map (\<lambda>i. m * 8 + i) [0..<8] @ [Suc m * 8..<n * 8]"
    using upt_add_eq_append [of "m * 8" "Suc m * 8" "n * 8 - Suc m * 8"] by (simp add: byte_positions)
  moreover have "List.find P [Suc m * 8..<n * 8] =
    (case List.find Q [Suc m..<n] of None \<Rightarrow> None | Some k \<Rightarrow> List.find P (map (\<lambda>i. k * 8 + i) [0..<8]))"
    using Suc \<open>m < n\<close> by (intro Suc.hyps(1)) auto
  moreover have "Q m \<longleftrightarrow> List.find P (map (\<lambda>i. m * 8 + i) [0..<8]) \<noteq> None"
    using Suc.prems(1) [of m] \<open>m < n\<close> by (simp add: find_map_None del: upt_Suc)
  ultimately show ?case
    using \<open>m < n\<close> by (auto simp: find_append upt_conv_Cons [of m n] split: option.split)
qed

lemma byte_has_bit:
  fixes b :: byte
  shows "b > 0 \<longleftrightarrow> (\<exists>i<8. bit b (7 - i))" and "b < 255 \<longleftrightarrow> (\<exists>i<8. \<not> bit b (7 - i))"
proof -
  have mirror: "(\<exists>i<8. Q (7 - i)) \<longleftrightarrow> (\<exists>i<8. Q i)" for Q :: "nat \<Rightarrow> bool"
  proof
    assume "\<exists>i<8. Q i"
    then obtain i where "i < 8" and "Q i"
      by blast
    then have "7 - i < 8" and "Q (7 - (7 - i))"
      by simp_all
    then show "\<exists>i<8. Q (7 - i)"
      by blast
  next
    assume "\<exists>i<8. Q (7 - i)"
    then obtain i where "Q (7 - i)"
      by blast
    moreover have "7 - i < 8"
      by simp
    ultimately show "\<exists>i<8. Q i"
      by blast
  qed
  show "b > 0 \<longleftrightarrow> (\<exists>i<8. bit b (7 - i))"
    by (simp add: mirror [of "bit b"] word_neq_0_conv [symmetric] bit_eq_iff [of b 0])
  have "(255 :: byte) = - 1"
    by simp
  then have "b < 255 \<longleftrightarrow> b \<noteq> - 1"
    using word_order.not_eq_extremum [of b] by metis
  then show "b < 255 \<longleftrightarrow> (\<exists>i<8. \<not> bit b (7 - i))"
    by (simp add: mirror [of "\<lambda>i. \<not> bit b i"] bit_eq_iff [of b "- 1"])
qed

lemma bf_next_find:
  "bf_next bf val start = Inr (List.find (\<lambda>i. bf_test bf i = val) [start..<bf_size bf])"
proof (cases "start > bf_size bf")
  case True
  then show ?thesis
    by (simp add: bf_next_def)
next
  case False
  define n where "n = length (m_bytes bf)"
  have size: "bf_size bf = n * 8"
    by (simp add: bf_size_def n_def)
  have byte: "(if val then m_bytes bf ! k > 0 else m_bytes bf ! k < 255)
      \<longleftrightarrow> (\<exists>i<8. bf_test bf (k * 8 + i) = val)" if "k < n" for k
  proof -
    have "bf_test bf (k * 8 + i) = bit (m_bytes bf ! k) (7 - i)" if "i < 8" for i
      using that \<open>k < n\<close> by (simp add: bf_test_def size)
    then show ?thesis
      by (auto simp: byte_has_bit)
  qed
  define Q where "Q = (\<lambda>k. if val then m_bytes bf ! k > 0 else m_bytes bf ! k < 255)"
  have Q: "Q k \<longleftrightarrow> (\<exists>i<8. bf_test bf (k * 8 + i) = val)" if "k < n" for k
    unfolding Q_def using that by (rule byte)
  have scan: "scan_bits bf val k [0..<8] = Inr (List.find (\<lambda>i. bf_test bf i = val) (map (\<lambda>i. k * 8 + i) [0..<8]))"
    if "k < n" for k
    using that by (intro scan_bits_eq) (auto simp: size)
  have rest: "(case List.find Q [m..<n] of None \<Rightarrow> Inr None | Some k \<Rightarrow> scan_bits bf val k [0..<8])
      = Inr (List.find (\<lambda>i. bf_test bf i = val) [m * 8..<n * 8])" if "m \<le> n" for m
  proof -
    have "List.find (\<lambda>i. bf_test bf i = val) [m * 8..<n * 8] =
      (case List.find Q [m..<n] of None \<Rightarrow> None
       | Some k \<Rightarrow> List.find (\<lambda>i. bf_test bf i = val) (map (\<lambda>i. k * 8 + i) [0..<8]))"
      using that Q by (intro find_by_byte) auto
    moreover have "k < n" if "List.find Q [m..<n] = Some k" for k
      using that by (auto simp: find_Some_iff)
    ultimately show ?thesis
      by (cases "List.find Q [m..<n]") (simp_all add: scan del: map_map)
  qed
  show ?thesis
  proof (cases "start mod 8 = 0")
    case True
    then have "start = start div 8 * 8"
      by auto
    with False rest [of "start div 8"] True show ?thesis
      by (simp add: bf_next_def size n_def [symmetric] Let_def Q_def [symmetric])
  next
    case mid: False
    define k where "k = start div 8"
    have "start = k * 8 + start mod 8"
      by (simp add: k_def)
    with mid False have "k < n"
      by (simp add: size)
    have "map (\<lambda>i. k * 8 + i) [start mod 8..<8] = [start..<Suc k * 8]"
      using \<open>start = _\<close> byte_positions [of k] drop_map [of "start mod 8" "\<lambda>i. k * 8 + i" "[0..<8]"]
      by (simp add: drop_upt)
    moreover have "[start..<bf_size bf] = [start..<Suc k * 8] @ [Suc k * 8..<n * 8]"
      using \<open>start = _\<close> \<open>k < n\<close> upt_add_eq_append [of start "Suc k * 8" "n * 8 - Suc k * 8"]
      by (simp add: size)
    moreover have "scan_bits bf val k [start mod 8..<8]
        = Inr (List.find (\<lambda>i. bf_test bf i = val) (map (\<lambda>i. k * 8 + i) [start mod 8..<8]))"
      using \<open>k < n\<close> by (intro scan_bits_eq) (auto simp: size)
    ultimately show ?thesis
      using False mid rest [of "Suc k"] \<open>k < n\<close>
      by (simp add: bf_next_def size n_def [symmetric] Let_def k_def [symmetric] Q_def [symmetric]
          find_append split: option.split)
  qed
qed

text \<open>
  \<open>next\<close>, which skips whole bytes, returns the least index at or after \<open>start\<close> whose bit
  has the wanted value, or nothing; it never throws, whatever the start.
\<close>

theorem bf_next_least:
  "bf_next bf val start = Inr (List.find (\<lambda>i. bf_test bf i = val) [start..<bf_size bf])"
  by (rule bf_next_find)

section \<open>Filling a range\<close>

text \<open>The reference: the bits of the range are assigned one by one.\<close>

definition bf_set_range :: "bitfield \<Rightarrow> bool \<Rightarrow> nat \<Rightarrow> nat \<Rightarrow> bitfield" where
  "bf_set_range bf val a b = foldl (\<lambda>x i. bf_set x i val) bf [a..<b]"

lemma bf_eqI:
  assumes "bf_size x = bf_size y" and "\<And>i. i < bf_size x \<Longrightarrow> bf_test x i = bf_test y i"
  shows "x = y"
proof -
  have "m_bytes x = m_bytes y"
  proof (rule nth_equalityI)
    show "length (m_bytes x) = length (m_bytes y)"
      using assms(1) by (simp add: bf_size_def)
    fix k assume k: "k < length (m_bytes x)"
    show "m_bytes x ! k = m_bytes y ! k"
    proof (rule bit_word_eqI)
      fix n assume "n < LENGTH(8)"
      then have "7 - n < 8" and "n = 7 - (7 - n)"
        by simp_all
      then obtain j where j: "j < 8" "n = 7 - j"
        by blast
      then have "k * 8 + j < bf_size x" and "(k * 8 + j) div 8 = k" and "(k * 8 + j) mod 8 = j"
        using k by (simp_all add: bf_size_def)
      with j assms show "bit (m_bytes x ! k) n = bit (m_bytes y ! k) n"
        by (metis bf_test_def)
    qed
  qed
  then show ?thesis
    by simp
qed

lemma bf_set_range_props:
  "b \<le> bf_size bf \<Longrightarrow> bf_size (bf_set_range bf val a b) = bf_size bf
    \<and> (\<forall>i. bf_test (bf_set_range bf val a b) i = (if a \<le> i \<and> i < b then val else bf_test bf i))"
proof (induction b)
  case 0
  then show ?case
    by (simp add: bf_set_range_def)
next
  case (Suc b)
  show ?case
  proof (cases "a \<le> b")
    case True
    define x where "x = bf_set_range bf val a b"
    have x: "bf_size x = bf_size bf" and t: "bf_test x i = (if a \<le> i \<and> i < b then val else bf_test bf i)" for i
      using Suc by (simp_all add: x_def)
    have step: "bf_set_range bf val a (Suc b) = bf_set x b val"
      using True by (simp add: bf_set_range_def x_def)
    have "b div 8 < length (m_bytes bf)"
      using Suc.prems div8_less_iff [of b "length (m_bytes bf)"] by (simp add: bf_size_def)
    then have "max (bf_size x) ((b div 8 + 1) * 8) = bf_size bf"
      unfolding x by (simp add: bf_size_def)
    then have "bf_size (bf_set x b val) = bf_size bf"
      by (simp only: bf_size_set)
    moreover have "bf_test (bf_set x b val) i = (if a \<le> i \<and> i < Suc b then val else bf_test bf i)" for i
      using True by (cases "i = b") (simp_all add: bf_test_set t less_Suc_eq)
    ultimately show ?thesis
      unfolding step by blast
  next
    case False
    then have none: "bf_set_range bf val a (Suc b) = bf"
      by (simp add: bf_set_range_def)
    have "(if a \<le> i \<and> i < Suc b then val else bf_test bf i) = bf_test bf i" for i
      using False by (cases "a \<le> i") simp_all
    then show ?thesis
      unfolding none by blast
  qed
qed

lemma bit_fill_masks:
  assumes "s < 8" and "0 < e" and "e < (8::nat)"
  shows "bit (drop_bit s (0xFF :: byte)) (7 - i mod 8) \<longleftrightarrow> s \<le> i mod 8"
    and "bit (push_bit (8 - e) (0xFF :: byte)) (7 - i mod 8) \<longleftrightarrow> i mod 8 < e"
proof -
  have ones: "(0xFF :: byte) = - 1"
    by simp
  have "i mod 8 < 8"
    by simp
  then show "bit (drop_bit s (0xFF :: byte)) (7 - i mod 8) \<longleftrightarrow> s \<le> i mod 8"
    and "bit (push_bit (8 - e) (0xFF :: byte)) (7 - i mod 8) \<longleftrightarrow> i mod 8 < e"
    using assms unfolding ones by (auto simp: bit_simps)
qed

text \<open>One bit of a byte sequence, in the numbering of the field.\<close>

definition bytes_bit :: "bytes \<Rightarrow> nat \<Rightarrow> bool" where
  "bytes_bit bs i \<longleftrightarrow> bit (bs ! (i div 8)) (7 - i mod 8)"

lemma bf_test_bytes_bit: "bf_test bf i \<longleftrightarrow> i < bf_size bf \<and> bytes_bit (m_bytes bf) i"
  by (simp add: bf_test_def bytes_bit_def)

lemma fill_byte_bits:
  assumes "fill_byte bs k msk val = Inr bs'"
  shows "length bs' = length bs"
    and "bytes_bit bs' i = (if i div 8 = k \<and> bit msk (7 - i mod 8) then val else bytes_bit bs i)"
  using assms by (auto simp: fill_byte_def bytes_bit_def bit_simps nth_list_update split: if_splits)

lemma fill_range_bits:
  assumes "fill_range bs a b (if val then 0xFF else 0x00) = Inr bs'" and "i div 8 < length bs"
  shows "length bs' = length bs"
    and "bytes_bit bs' i = (if a \<le> i div 8 \<and> i div 8 \<le> b then val else bytes_bit bs i)"
proof -
  have ones: "(0xFF :: byte) = - 1"
    by simp
  show "length bs' = length bs"
    using assms by (auto simp: fill_range_def split: if_splits)
  show "bytes_bit bs' i = (if a \<le> i div 8 \<and> i div 8 \<le> b then val else bytes_bit bs i)"
    using assms unfolding ones by (auto simp: fill_range_def bytes_bit_def split: if_splits)
qed

lemma digits_le:
  fixes a b s r :: nat
  assumes "s < 8" and "r < 8"
  shows "a * 8 + s \<le> b * 8 + r \<longleftrightarrow> a < b \<or> (a = b \<and> s \<le> r)"
  using assms by (cases a b rule: linorder_cases) auto

lemma le_by_byte: "x \<le> y \<longleftrightarrow> x div 8 < y div 8 \<or> (x div 8 = y div 8 \<and> x mod 8 \<le> y mod 8)"
  for x y :: nat
  using digits_le [of "x mod 8" "y mod 8" "x div 8" "y div 8"] by simp

lemma digits_pred:
  fixes a b s r :: nat
  assumes "a * 8 + s = b * 8 + t + 1" and "s < 8" and "t < 8" and "r < 8"
  shows "r \<le> t \<longleftrightarrow> s = 0 \<or> r < s"
proof (cases a b rule: linorder_cases)
  case less
  then have "a * 8 + 8 \<le> b * 8"
    by simp
  with assms show ?thesis
    by linarith
next
  case equal
  with assms show ?thesis
    by auto
next
  case greater
  then have "b * 8 + 8 \<le> a * 8"
    by simp
  with assms have "t = 7" and "s = 0"
    by linarith+
  with assms show ?thesis
    by simp
qed

lemma less_by_byte:
  fixes i e :: nat
  assumes "0 < e"
  shows "i < e \<longleftrightarrow> i div 8 < (e - 1) div 8 \<or> (i div 8 = (e - 1) div 8 \<and> (e mod 8 = 0 \<or> i mod 8 < e mod 8))"
proof -
  have "i mod 8 \<le> (e - 1) mod 8 \<longleftrightarrow> e mod 8 = 0 \<or> i mod 8 < e mod 8"
    using assms by (intro digits_pred [of "e div 8" _ "(e - 1) div 8"]) simp_all
  moreover have "i < e \<longleftrightarrow> i \<le> e - 1"
    using assms by linarith
  ultimately show ?thesis
    by (simp only: le_by_byte [of i "e - 1"])
qed

lemma fill_cases:
  fixes A S E r :: nat
  assumes "A < C"
  shows "(if (if S \<noteq> 0 then A + 1 else A) \<le> q \<and> q \<le> (if E \<noteq> 0 then C - 1 else C) then val
      else if E \<noteq> 0 \<and> q = C \<and> r < E then val
      else if S \<noteq> 0 \<and> q = A \<and> S \<le> r then val else old) =
    (if (A < q \<or> (A = q \<and> S \<le> r)) \<and> (q < C \<or> (q = C \<and> (E = 0 \<or> r < E))) then val else old)"
  using assms by (cases "S = 0"; cases "E = 0") auto

text \<open>The three stages of \<open>fill\<close> on a range that spans several bytes, without the wrapping.\<close>

lemma fill_stages:
  assumes s: "start div 8 < (e - 1) div 8" and e: "(e - 1) div 8 < length bs" "0 < e"
    and s1: "(if start mod 8 \<noteq> 0 then fill_byte bs (start div 8) (drop_bit (start mod 8) 0xFF) val
              else Inr bs) = Inr bs1"
    and s2: "(if e mod 8 \<noteq> 0 then fill_byte bs1 ((e - 1) div 8) (push_bit (8 - e mod 8) 0xFF) val
              else Inr bs1) = Inr bs2"
    and a: "a = (if start mod 8 \<noteq> 0 then start div 8 + 1 else start div 8)"
    and b: "b = (if e mod 8 \<noteq> 0 then (e - 1) div 8 - 1 else (e - 1) div 8)"
    and s3: "(if a \<le> b then fill_range bs2 a b (if val then 0xFF else 0x00) else Inr bs2) = Inr bs3"
    and i: "i div 8 < length bs"
  shows "length bs3 = length bs"
    and "bytes_bit bs3 i = (if start \<le> i \<and> i < e then val else bytes_bit bs i)"
proof -
  have l1: "length bs1 = length bs" and t1: "bytes_bit bs1 i =
      (if start mod 8 \<noteq> 0 \<and> i div 8 = start div 8 \<and> start mod 8 \<le> i mod 8 then val else bytes_bit bs i)"
    using s1 fill_byte_bits [of bs "start div 8" _ val bs1]
    by (auto simp: bit_fill_masks [of "start mod 8" 1] split: if_splits)
  have l2: "length bs2 = length bs" and t2: "bytes_bit bs2 i =
      (if e mod 8 \<noteq> 0 \<and> i div 8 = (e - 1) div 8 \<and> i mod 8 < e mod 8 then val else bytes_bit bs1 i)"
    using s2 l1 fill_byte_bits [of bs1 "(e - 1) div 8" _ val bs2]
    by (auto simp: bit_fill_masks [of 0 "e mod 8"] split: if_splits)
  have l3: "length bs3 = length bs" and t3: "bytes_bit bs3 i =
      (if a \<le> i div 8 \<and> i div 8 \<le> b then val else bytes_bit bs2 i)"
    using s3 l2 i fill_range_bits [of bs2 a b val bs3 i] by (auto split: if_splits)
  show "length bs3 = length bs"
    by (rule l3)
  show "bytes_bit bs3 i = (if start \<le> i \<and> i < e then val else bytes_bit bs i)"
    unfolding t3 t2 t1 a b by (simp only: fill_cases [OF s] le_by_byte [of start i] less_by_byte [OF e(2)])
qed

lemma bf_fill_stages:
  assumes "0 < count" and "start + count < 2 ^ 64" and "start + count \<le> bf_size bf"
    and multi: "start div 8 \<noteq> (start + count - 1) div 8"
  shows "\<exists>bs. bf_fill bf count val start = Inr (bf\<lparr>m_bytes := bs\<rparr>) \<and> length bs = length (m_bytes bf)
    \<and> (\<forall>i < bf_size bf. bytes_bit bs i =
          (if start \<le> i \<and> i < start + count then val else bytes_bit (m_bytes bf) i))"
proof -
  define e where "e = start + count"
  define ob where "ob = m_bytes bf"
  define a where "a = (if start mod 8 \<noteq> 0 then start div 8 + 1 else start div 8)"
  define b where "b = (if e mod 8 \<noteq> 0 then (e - 1) div 8 - 1 else (e - 1) div 8)"
  have le: "start div 8 \<le> (e - 1) div 8"
    using assms(1) by (intro div_le_mono) (simp add: e_def)
  with multi have s: "start div 8 < (e - 1) div 8"
    by (simp add: e_def)
  have "e - 1 < length ob * 8"
    using assms by (simp add: e_def ob_def bf_size_def)
  then have inside: "(e - 1) div 8 < length ob"
    by (simp add: div8_less_iff)
  obtain bs1 where s1: "(if start mod 8 \<noteq> 0 then fill_byte ob (start div 8) (drop_bit (start mod 8) 0xFF) val
      else Inr ob) = Inr bs1" and l1: "length bs1 = length ob"
    using s inside by (cases "start mod 8 = 0") (auto simp: fill_byte_def)
  obtain bs2 where s2: "(if e mod 8 \<noteq> 0 then fill_byte bs1 ((e - 1) div 8) (push_bit (8 - e mod 8) 0xFF) val
      else Inr bs1) = Inr bs2" and l2: "length bs2 = length ob"
    using inside l1 by (cases "e mod 8 = 0") (auto simp: fill_byte_def)
  have "b < length ob"
    using inside by (simp add: b_def less_imp_diff_less)
  then obtain bs3 where s3: "(if a \<le> b then fill_range bs2 a b (if val then 0xFF else 0x00) else Inr bs2) = Inr bs3"
    using l2 by (cases "a \<le> b") (auto simp: fill_range_def)
  have e_pos: "0 < e"
    using assms by (simp add: e_def)
  have wrap: "size_add start count = e" "size_sub e 1 = e - 1" "size_sub ((e - 1) div 8) 1 = (e - 1) div 8 - 1"
    using assms s by (simp_all add: e_def)
  note stages = fill_stages [OF s inside e_pos s1 s2 a_def b_def s3]
  have "bf_fill bf count val start = Inr (bf\<lparr>m_bytes := bs3\<rparr>)"
    using assms(1) s inside s1 s2 s3 unfolding a_def b_def
    by (simp only: bf_fill_def wrap Let_def ob_def [symmetric] if_False bindE.simps not_less [symmetric]) simp
  moreover have "length bs3 = length ob"
    using inside s by (intro stages(1) [of "start"]) simp
  moreover have "bytes_bit bs3 i = (if start \<le> i \<and> i < e then val else bytes_bit ob i)" if "i < bf_size bf" for i
    using that by (intro stages(2)) (simp add: bf_size_def ob_def div8_less_iff)
  ultimately show ?thesis
    unfolding e_def [symmetric] ob_def [symmetric] by blast
qed

text \<open>
  C23.  \<open>fill\<close>, which masks the first and last byte and stores whole bytes between them, is the
  assignment of the bits of its range one by one; a range that reaches past the last byte throws
  and changes nothing.
\<close>

theorem bf_fill_range:
  assumes "start + count < 2 ^ 64"
  shows "bf_fill bf count val start =
    (if count = 0 then Inr bf
     else if bf_size bf < start + count then Inl (Invalid_argument ''Bitfield::fill: Out of range'')
     else Inr (bf_set_range bf val start (start + count)))"
proof (cases "count = 0 \<or> bf_size bf < start + count")
  case True
  have "length (m_bytes bf) \<le> (start + count - 1) div 8" if "bf_size bf < start + count"
    using that by (simp add: bf_size_def flip: not_less)
  moreover have "size_add start count = start + count" and "0 < count \<Longrightarrow> size_sub (start + count) 1 = start + count - 1"
    using assms by simp_all
  ultimately show ?thesis
    using True by (cases "count = 0") (simp_all add: bf_fill_def Let_def)
next
  case False
  then have pos: "0 < count" and le: "start + count \<le> bf_size bf"
    by auto
  show ?thesis
  proof (cases "start div 8 = (start + count - 1) div 8")
    case True
    have "start + count - 1 < length (m_bytes bf) * 8"
      using pos le by (simp add: bf_size_def)
    then have "\<not> length (m_bytes bf) \<le> (start + count - 1) div 8"
      by (simp add: not_le div8_less_iff)
    with False assms True show ?thesis
      by (auto simp: bf_fill_def Let_def bf_set_range_def)
  next
    case multi: False
    obtain bs where "bf_fill bf count val start = Inr (bf\<lparr>m_bytes := bs\<rparr>)"
      and "length bs = length (m_bytes bf)"
      and "\<forall>i < bf_size bf. bytes_bit bs i =
          (if start \<le> i \<and> i < start + count then val else bytes_bit (m_bytes bf) i)"
      using bf_fill_stages [OF pos assms le multi] by blast
    moreover have "bf\<lparr>m_bytes := bs\<rparr> = bf_set_range bf val start (start + count)"
    proof (rule bf_eqI)
      show same: "bf_size (bf\<lparr>m_bytes := bs\<rparr>) = bf_size (bf_set_range bf val start (start + count))"
        using bf_set_range_props [OF le] calculation(2) by (simp add: bf_size_def)
      fix i assume i: "i < bf_size (bf\<lparr>m_bytes := bs\<rparr>)"
      then have "i < bf_size bf"
        using calculation(2) by (simp add: bf_size_def)
      with i calculation(3) show "bf_test (bf\<lparr>m_bytes := bs\<rparr>) i = bf_test (bf_set_range bf val start (start + count)) i"
        by (simp add: bf_set_range_props [OF le] bf_test_bytes_bit [of "bf\<lparr>m_bytes := bs\<rparr>"] bf_test_bytes_bit [of bf])
    qed
    ultimately show ?thesis
      using False by simp
  qed
qed

theorem bf_fill_range_witness:
  "bf_fill (bf_make 20) 10 True 3 = Inr (bf_set_range (bf_make 20) True 3 13)"
  using bf_fill_range [of 3 10 "bf_make 20" True] by simp

end
