(* ===== verification/Streams.thy ===== *)
theory Streams
  imports Types
begin

text \<open>
  What the sources use of the C++ standard streams and of decimal text.  An \<open>istream\<close> is
  \<^verbatim>\<open>std::istringstream\<close> in the C locale: the characters not yet read and the bits
  \<^verbatim>\<open>eofbit\<close> and \<^verbatim>\<open>failbit\<close>.  The input functions follow the standard: each
  constructs a sentry, which fails on a stream that is not \<^verbatim>\<open>good()\<close>; \<open>peek\<close>,
  \<open>get\<close> and \<open>ignore\<close> set \<^verbatim>\<open>eofbit\<close> at the end; the extraction of an
  integer skips white space, takes an optional sign and the digits, and fails without digits
  or outside the range of the type (an unsigned type takes a negative number modulo its range).
\<close>

section \<open>Decimal numbers\<close>

definition is_digit :: "char \<Rightarrow> bool" where
  "is_digit c \<longleftrightarrow> CHR ''0'' \<le> c \<and> c \<le> CHR ''9''"

definition digit_val :: "char \<Rightarrow> nat" where
  "digit_val c = of_char c - 48"

definition digit_char :: "nat \<Rightarrow> char" where
  "digit_char d = char_of (48 + d)"

fun dec_of_nat :: "nat \<Rightarrow> string" where
  "dec_of_nat n = (if n < 10 then [digit_char n] else dec_of_nat (n div 10) @ [digit_char (n mod 10)])"

declare dec_of_nat.simps [simp del]

definition dec_of_int :: "int \<Rightarrow> string" where
  "dec_of_int i = (if i < 0 then CHR ''-'' # dec_of_nat (nat (- i)) else dec_of_nat (nat i))"

definition nat_of_dec :: "string \<Rightarrow> nat" where
  "nat_of_dec ds = foldl (\<lambda>n c. n * 10 + digit_val c) 0 ds"

lemma is_digit_iff: "is_digit c \<longleftrightarrow> 48 \<le> (of_char c :: nat) \<and> (of_char c :: nat) \<le> 57"
  by (simp add: is_digit_def less_eq_char_def)

lemma digit_char_props [simp]:
  assumes "d < 10"
  shows "is_digit (digit_char d)" and "digit_val (digit_char d) = d"
  using assms by (simp_all add: is_digit_iff digit_char_def digit_val_def of_char_of)

lemma dec_of_nat_digits: "\<forall>c \<in> set (dec_of_nat n). is_digit c"
  by (induction n rule: dec_of_nat.induct) (subst dec_of_nat.simps, auto)

lemma dec_of_nat_nonempty [simp]: "dec_of_nat n \<noteq> []"
  by (subst dec_of_nat.simps) auto

lemma nat_of_dec_snoc: "nat_of_dec (ds @ [c]) = nat_of_dec ds * 10 + digit_val c"
  by (simp add: nat_of_dec_def)

lemma nat_of_dec_of_nat [simp]: "nat_of_dec (dec_of_nat n) = n"
proof (induction n rule: dec_of_nat.induct)
  case (1 n)
  show ?case
  proof (cases "n < 10")
    case True
    then show ?thesis
      by (subst dec_of_nat.simps) (simp add: nat_of_dec_def)
  next
    case False
    then show ?thesis
      using 1 by (subst dec_of_nat.simps) (simp add: nat_of_dec_snoc)
  qed
qed

lemma dec_of_nat_hd_digit: "is_digit (hd (dec_of_nat n))"
  using dec_of_nat_digits [of n] hd_in_set [OF dec_of_nat_nonempty] by blast

text \<open>\<^verbatim>\<open>isspace\<close> of the C locale.\<close>

definition is_space :: "char \<Rightarrow> bool" where
  "is_space c \<longleftrightarrow> (of_char c :: nat) \<in> {9, 10, 11, 12, 13, 32}"

lemma digit_not_space: "is_digit c \<Longrightarrow> \<not> is_space c"
  by (auto simp: is_digit_iff is_space_def)

section \<open>Input streams\<close>

record istream =
  is_rest :: string
  is_eof :: bool
  is_fail :: bool

definition istringstream :: "string \<Rightarrow> istream" where
  "istringstream s = \<lparr>is_rest = s, is_eof = False, is_fail = False\<rparr>"

definition is_good :: "istream \<Rightarrow> bool" where
  "is_good s \<longleftrightarrow> \<not> is_eof s \<and> \<not> is_fail s"

definition is_peek :: "istream \<Rightarrow> char option \<times> istream" where
  "is_peek s =
     (if \<not> is_good s then (None, s\<lparr>is_fail := True\<rparr>)
      else case is_rest s of [] \<Rightarrow> (None, s\<lparr>is_eof := True\<rparr>) | c # cs \<Rightarrow> (Some c, s))"

definition is_get :: "istream \<Rightarrow> char option \<times> istream" where
  "is_get s =
     (if \<not> is_good s then (None, s\<lparr>is_fail := True\<rparr>)
      else case is_rest s of
          [] \<Rightarrow> (None, s\<lparr>is_eof := True, is_fail := True\<rparr>)
        | c # cs \<Rightarrow> (Some c, s\<lparr>is_rest := cs\<rparr>))"

definition is_ignore :: "istream \<Rightarrow> istream" where
  "is_ignore s =
     (if \<not> is_good s then s\<lparr>is_fail := True\<rparr>
      else case is_rest s of [] \<Rightarrow> s\<lparr>is_eof := True\<rparr> | c # cs \<Rightarrow> s\<lparr>is_rest := cs\<rparr>)"

definition is_read :: "nat \<Rightarrow> istream \<Rightarrow> string \<times> istream" where
  "is_read n s =
     (if \<not> is_good s then ([], s\<lparr>is_fail := True\<rparr>)
      else if length (is_rest s) < n
      then (is_rest s, \<lparr>is_rest = [], is_eof = True, is_fail = True\<rparr>)
      else (take n (is_rest s), s\<lparr>is_rest := drop n (is_rest s)\<rparr>))"

text \<open>\<^verbatim>\<open>operator>>\<close> on an integer of type \<open>T\<close>.\<close>

definition is_extract_int :: "ity \<Rightarrow> istream \<Rightarrow> int \<times> istream" where
  "is_extract_int T s =
     (if \<not> is_good s then (0, s\<lparr>is_fail := True\<rparr>)
      else
        let cs = dropWhile is_space (is_rest s) in
        if cs = [] then (0, \<lparr>is_rest = [], is_eof = True, is_fail = True\<rparr>)
        else
          let neg = (hd cs = CHR ''-'');
              cs1 = (if neg \<or> hd cs = CHR ''+'' then tl cs else cs);
              ds = takeWhile is_digit cs1;
              cs2 = dropWhile is_digit cs1;
              n = int (nat_of_dec ds);
              limit = (if neg \<and> ity_signed T then - ity_min T else ity_max T);
              at_end = (cs2 = [])
          in
          if ds = [] then (0, \<lparr>is_rest = cs2, is_eof = at_end, is_fail = True\<rparr>)
          else if n > limit then
            (if neg \<and> ity_signed T then ity_min T else ity_max T,
             \<lparr>is_rest = cs2, is_eof = at_end, is_fail = True\<rparr>)
          else
            (if neg then static_cast T (- n) else n,
             \<lparr>is_rest = cs2, is_eof = at_end, is_fail = False\<rparr>))"

subsection \<open>Facts about reading\<close>

lemma istringstream_simps [simp]:
  "is_rest (istringstream s) = s" "\<not> is_eof (istringstream s)" "\<not> is_fail (istringstream s)"
  "is_good (istringstream s)"
  by (simp_all add: istringstream_def is_good_def)

lemma is_good_eq: "is_good s \<longleftrightarrow> s = istringstream (is_rest s)"
  by (cases s) (auto simp: is_good_def istringstream_def)

lemma is_peek_Cons [simp]: "is_peek (istringstream (c # cs)) = (Some c, istringstream (c # cs))"
  by (simp add: is_peek_def)

lemma is_get_Cons [simp]: "is_get (istringstream (c # cs)) = (Some c, istringstream cs)"
  by (simp add: is_get_def istringstream_def is_good_def)

lemma is_ignore_Cons [simp]: "is_ignore (istringstream (c # cs)) = istringstream cs"
  by (simp add: is_ignore_def istringstream_def is_good_def)

lemma is_ignore_Nil [simp]: "is_eof (is_ignore (istringstream []))"
  by (simp add: is_ignore_def)

lemma is_read_append [simp]:
  "length xs = n \<Longrightarrow> is_read n (istringstream (xs @ ys)) = (xs, istringstream ys)"
  by (auto simp: is_read_def istringstream_def is_good_def)

lemma is_peek_Some: "is_peek s = (Some c, s') \<longleftrightarrow>
    s' = s \<and> (\<exists>cs. s = istringstream (c # cs))"
  by (auto simp: is_peek_def is_good_eq istringstream_def split: list.splits if_splits)

lemma is_peek_rest: "is_rest (snd (is_peek s)) = is_rest s"
  by (auto simp: is_peek_def split: list.splits)

lemma is_get_Some: "is_get s = (Some c, s') \<longleftrightarrow>
    (\<exists>cs. s = istringstream (c # cs) \<and> s' = istringstream cs)"
  by (auto simp: is_get_def is_good_eq istringstream_def split: list.splits if_splits)

lemma is_extract_int_plain:
  assumes "ds \<noteq> []" and "\<forall>d \<in> set ds. is_digit d" and "\<not> is_digit c" and "int (nat_of_dec ds) \<le> ity_max T"
  shows "is_extract_int T (istringstream (ds @ c # cs)) = (int (nat_of_dec ds), istringstream (c # cs))"
proof -
  obtain d rest where d: "ds = d # rest"
    using assms(1) by (cases ds) auto
  then have "is_digit d"
    using assms(2) by simp
  then have "d \<noteq> CHR ''-''" and "d \<noteq> CHR ''+''" and "\<not> is_space d"
    by (auto simp: is_digit_iff is_space_def)
  moreover have "takeWhile is_digit (ds @ c # cs) = ds" and "dropWhile is_digit (ds @ c # cs) = c # cs"
    using assms(2,3) by simp_all
  ultimately show ?thesis
    using assms(4) d by (auto simp: is_extract_int_def Let_def istringstream_def is_good_def)
qed

lemma is_extract_int_digits:
  assumes "c = CHR ''e'' \<or> c = CHR '':''" and "ity_has T i"
    and "i < 0 \<Longrightarrow> ity_signed T" and "0 < ity_bits T"
  shows "is_extract_int T (istringstream (dec_of_int i @ c # cs)) = (i, istringstream (c # cs))"
proof -
  have c: "\<not> is_digit c"
    using assms(1) by (auto simp: is_digit_def less_eq_char_def of_char_def)
  have signs: "\<not> is_digit (CHR ''-'')" "\<not> is_digit (CHR ''+'')" "\<not> is_space (CHR ''-'')"
    by (auto simp: is_digit_iff is_space_def)
  have ds: "takeWhile is_digit (dec_of_nat n @ c # cs) = dec_of_nat n"
    "dropWhile is_digit (dec_of_nat n @ c # cs) = c # cs" for n
    using dec_of_nat_digits [of n] c by simp_all
  show ?thesis
  proof (cases "i < 0")
    case True
    then have "i = - int (nat (- i))" and "- ity_min T \<ge> - i"
      using assms(2) by (auto simp: ity_has_def)
    with True assms(2-4) signs ds [of "nat (- i)"] show ?thesis
      by (auto simp: is_extract_int_def dec_of_int_def Let_def ity_has_static_cast istringstream_def is_good_def)
  next
    case False
    then show ?thesis
      using assms(2) c is_extract_int_plain [of "dec_of_nat (nat i)" c T cs] dec_of_nat_digits
      by (simp add: dec_of_int_def ity_has_def)
  qed
qed

lemma is_extract_int_ok:
  assumes "is_extract_int T s = (v, s')" and "\<not> is_fail s'" and "0 < ity_bits T"
  shows "is_good s" and "length (is_rest s') < length (is_rest s)" and "ity_has T v"
proof -
  define cs where "cs = dropWhile is_space (is_rest s)"
  define cs1 where "cs1 = (if hd cs = CHR ''-'' \<or> hd cs = CHR ''+'' then tl cs else cs)"
  have good: "is_good s" and cs: "cs \<noteq> []"
    using assms by (auto simp: is_extract_int_def cs_def Let_def split: if_splits)
  have ds: "takeWhile is_digit cs1 \<noteq> []" and s': "is_rest s' = dropWhile is_digit cs1"
    using assms good cs unfolding is_extract_int_def
    by (auto simp: cs_def [symmetric] cs1_def Let_def split: if_splits)
  show "is_good s"
    by (rule good)
  have "length (dropWhile is_digit cs1) < length cs1"
    using ds by (metis length_append length_greater_0_conv less_add_same_cancel2 takeWhile_dropWhile_id)
  moreover have "length cs1 \<le> length cs"
    by (simp add: cs1_def)
  moreover have "length cs \<le> length (is_rest s)"
    by (simp add: cs_def length_dropWhile_le)
  ultimately show "length (is_rest s') < length (is_rest s)"
    using s' by simp
  define n where "n = int (nat_of_dec (takeWhile is_digit cs1))"
  define neg where "neg = (hd cs = CHR ''-'')"
  have n: "n \<le> (if neg \<and> ity_signed T then - ity_min T else ity_max T)"
    and v: "v = (if neg then static_cast T (- n) else n)"
    using assms good cs ds unfolding is_extract_int_def
    by (auto simp: cs_def [symmetric] cs1_def Let_def n_def neg_def split: if_splits)
  have "0 \<le> n"
    by (simp add: n_def)
  show "ity_has T v"
  proof (cases "neg \<and> ity_signed T")
    case True
    then have "ity_has T (- n)"
      using n \<open>0 \<le> n\<close> assms(3) by (auto simp: ity_has_def ity_min_def ity_max_def intro: le_less_trans [of _ 0])
    then show ?thesis
      using True v assms(3) by (simp add: ity_has_static_cast)
  next
    case False
    show ?thesis
    proof (cases neg)
      case True
      with False v show ?thesis
        by (simp add: ity_has_def ity_min_def ity_max_def static_cast_def zle_diff1_eq)
    next
      case pos: False
      with n v \<open>0 \<le> n\<close> show ?thesis
        by (auto simp: ity_has_def ity_min_def intro: order_trans [of _ 0])
    qed
  qed
qed

end
