(* ===== verification/Bencode.thy ===== *)
theory Bencode
  imports Streams Sorted_Map
begin

text \<open>
  \<^verbatim>\<open>src/bencode.hpp\<close>: the bencode codec.  An \<open>elem\<close> is the tree behind an
  \<^verbatim>\<open>ElmPtr\<close>; \<open>BeDict\<close> holds a \<^verbatim>\<open>std::map\<close>, a sorted association list.  The
  decoder is the mutual recursion of the source over the stream state of \<open>Streams\<close>; the two
  \<^verbatim>\<open>while (true)\<close> loops are the functions \<open>decode_items\<close> and \<open>decode_entries\<close>.
  Printing for the console is in \<open>Print\<close>.
\<close>

section \<open>Elements and encoding\<close>

definition MAX_STRING_LENGTH :: nat where "MAX_STRING_LENGTH = 100000000"

definition RECURSION_LIMIT :: nat where "RECURSION_LIMIT = 200"

datatype elem =
    BeInt int
  | BeStr string
  | BeList "elem list"
  | BeDict "(string \<times> elem) list"

text \<open>\<^verbatim>\<open>Element::to<T>\<close>: the checked downcast, one function per element type.\<close>

fun to_int :: "elem \<Rightarrow> int result" where
  "to_int (BeInt i) = Inr i"
| "to_int _ = Inl (Conversion_error ''Could not convert to type'')"

fun to_str :: "elem \<Rightarrow> string result" where
  "to_str (BeStr s) = Inr s"
| "to_str _ = Inl (Conversion_error ''Could not convert to type'')"

fun to_list :: "elem \<Rightarrow> elem list result" where
  "to_list (BeList es) = Inr es"
| "to_list _ = Inl (Conversion_error ''Could not convert to type'')"

fun to_dict :: "elem \<Rightarrow> (string, elem) smap result" where
  "to_dict (BeDict m) = Inr m"
| "to_dict _ = Inl (Conversion_error ''Could not convert to type'')"

definition encode_int :: "int \<Rightarrow> string" where
  "encode_int i = ''i'' @ dec_of_int i @ ''e''"

definition encode_str :: "string \<Rightarrow> string" where
  "encode_str s = dec_of_nat (length s) @ '':'' @ s"

fun be_encode :: "elem \<Rightarrow> string" where
  "be_encode (BeInt i) = encode_int i"
| "be_encode (BeStr s) = encode_str s"
| "be_encode (BeList es) = ''l'' @ concat (map be_encode es) @ ''e''"
| "be_encode (BeDict m) = ''d'' @ concat (map (\<lambda>e. encode_str (fst e) @ be_encode (snd e)) m) @ ''e''"

section \<open>Decoding\<close>

definition decodeInt :: "istream \<Rightarrow> (elem \<times> istream) result" where
  "decodeInt iss =
     (let (i, iss1) = is_extract_int int64_t iss in
      if is_fail iss1 then Inl (Invalid_argument ''Could not convert to integer'')
      else
        let (c, iss2) = is_get iss1 in
        if c \<noteq> Some (CHR ''e'') then Inl (Invalid_argument ''No integer end marker'')
        else Inr (BeInt i, iss2))"

definition decodeString :: "istream \<Rightarrow> (string \<times> istream) result" where
  "decodeString iss =
     (let (n, iss1) = is_extract_int uint64_t iss in
      if is_fail iss1 then Inl (Invalid_argument ''Could not convert string length to integer'')
      else
        let (c, iss2) = is_get iss1 in
        if c \<noteq> Some (CHR '':'') then Inl (Invalid_argument ''No string length end marker'')
        else if n > int MAX_STRING_LENGTH
        then Inl (Invalid_argument ''String length larger than max size'')
        else
          let (s, iss3) = is_read (nat n) iss2 in
          if is_eof iss3 then Inl (Invalid_argument ''String not of expected length'')
          else Inr (s, iss3))"

definition throw_invalid_string :: "'a result" where
  "throw_invalid_string = Inl (Invalid_argument ''Invalid bencode string'')"

text \<open>
  \<open>decode_internal\<close> receives the depth and increments it while comparing; a list or a
  dictionary passes the incremented depth on.  \<open>decode_items\<close> and \<open>decode_entries\<close> are the
  loops of \<^verbatim>\<open>decodeList\<close> and \<^verbatim>\<open>decodeDict\<close>, entered when the first character after
  the opening letter is not \<open>e\<close>.
\<close>

function (sequential)
    decode_internal :: "istream \<Rightarrow> nat \<Rightarrow> (elem \<times> istream) result"
and decode_items :: "istream \<Rightarrow> nat \<Rightarrow> elem list \<Rightarrow> (elem list \<times> istream) result"
and decode_entries :: "istream \<Rightarrow> nat \<Rightarrow> (string, elem) smap \<Rightarrow> ((string, elem) smap \<times> istream) result"
where
  "decode_internal iss depth =
     (if depth > RECURSION_LIMIT then Inl (Invalid_argument ''Recursion limit reached'')
      else
        let depth' = depth + 1; (c, iss1) = is_peek iss in
        if c = Some (CHR ''i'') then decodeInt (is_ignore iss1)
        else if (case c of None \<Rightarrow> False | Some d \<Rightarrow> is_digit d) then
          bindE (decodeString iss1) (\<lambda>r. Inr (BeStr (fst r), snd r))
        else if c = Some (CHR ''l'') then
          (let (c1, iss2) = is_peek (is_ignore iss1) in
           if c1 \<noteq> Some (CHR ''e'') then
             bindE (decode_items iss2 depth' []) (\<lambda>r. Inr (BeList (fst r), is_ignore (snd r)))
           else Inr (BeList [], is_ignore iss2))
        else if c = Some (CHR ''d'') then
          (let (c1, iss2) = is_peek (is_ignore iss1) in
           if c1 \<noteq> Some (CHR ''e'') then
             bindE (decode_entries iss2 depth' []) (\<lambda>r. Inr (BeDict (fst r), is_ignore (snd r)))
           else Inr (BeDict [], is_ignore iss2))
        else throw_invalid_string)"
| "decode_items iss depth v =
     bindE (decode_internal iss depth) (\<lambda>r.
     if is_eof (snd r) then Inl (Invalid_argument ''Unexpected eof'')
     else
       let (c, iss') = is_peek (snd r) in
       if c = Some (CHR ''e'') then Inr (v @ [fst r], iss')
       else decode_items iss' depth (v @ [fst r]))"
| "decode_entries iss depth m =
     bindE (decodeString iss) (\<lambda>k.
     bindE (decode_internal (snd k) depth) (\<lambda>r.
     if is_eof (snd r) then Inl (Invalid_argument ''Unexpected eof'')
     else
       let (c, iss') = is_peek (snd r); m' = smap_put (fst k) (fst r) m in
       if c = Some (CHR ''e'') then Inr (m', iss')
       else decode_entries iss' depth m'))"
  by pat_completeness auto

subsection \<open>Termination: every successful step consumes input\<close>

lemma decodeInt_ok:
  assumes "decodeInt iss = Inr (e, iss')"
  shows "is_good iss'" and "length (is_rest iss') < length (is_rest iss)"
    and "\<exists>i. e = BeInt i \<and> ity_has int64_t i"
  using assms is_extract_int_ok [of int64_t iss]
  by (auto simp: decodeInt_def Let_def is_get_Some split: prod.splits if_splits)

lemma is_read_ok:
  assumes "is_read n iss = (s, iss')" and "\<not> is_eof iss'"
  shows "is_good iss \<longrightarrow> is_good iss' \<and> length s = n" and "length (is_rest iss') \<le> length (is_rest iss)"
  using assms by (auto simp: is_read_def is_good_def split: if_splits)

lemma decodeString_ok:
  assumes "decodeString iss = Inr (s, iss')"
  shows "is_good iss'" and "length (is_rest iss') < length (is_rest iss)"
    and "length s \<le> MAX_STRING_LENGTH"
proof -
  obtain n iss1 where n: "is_extract_int uint64_t iss = (n, iss1)"
    by fastforce
  obtain c iss2 where c: "is_get iss1 = (c, iss2)"
    by fastforce
  obtain s3 iss3 where r: "is_read (nat n) iss2 = (s3, iss3)"
    by fastforce
  have ok: "\<not> is_fail iss1" "c = Some (CHR '':'')" "n \<le> int MAX_STRING_LENGTH" "\<not> is_eof iss3"
    "s = s3" "iss' = iss3"
    using assms n c r by (auto simp: decodeString_def split: if_splits)
  obtain cs where cs: "iss1 = istringstream (CHR '':'' # cs)" "iss2 = istringstream cs"
    using c ok by (auto simp: is_get_Some)
  show "is_good iss'" and "length s \<le> MAX_STRING_LENGTH"
    using is_read_ok [OF r] ok cs by auto
  show "length (is_rest iss') < length (is_rest iss)"
    using is_read_ok(2) [OF r] is_extract_int_ok(2) [OF n] ok cs by simp
qed

lemma is_ignore_shorter:
  "is_peek iss = (Some c, iss1) \<Longrightarrow> length (is_rest (is_ignore iss1)) < length (is_rest iss)"
  by (auto simp: is_peek_Some)

lemma is_peek_cases:
  "(\<exists>c cs. iss = istringstream (c # cs)) \<or> (\<exists>iss'. is_peek iss = (None, iss'))"
  by (auto simp: is_peek_def is_good_eq istringstream_def split: list.splits)

lemma is_ignore_rest: "length (is_rest (is_ignore iss)) \<le> length (is_rest iss)"
  by (auto simp: is_ignore_def split: list.splits)

lemma is_peek_same: "is_peek iss = (c, iss1) \<Longrightarrow> is_rest iss1 = is_rest iss"
  using is_peek_rest [of iss] by simp

lemma is_peek_ignore_peek:
  assumes "(Some c, iss1) = is_peek iss" and "(c1, iss2) = is_peek (is_ignore iss1)"
  shows "length (is_rest iss2) < length (is_rest iss)"
  using is_ignore_shorter [OF assms(1) [symmetric]] is_peek_same [OF assms(2) [symmetric]] by simp

lemma decode_consumes:
  "decode_internal_decode_items_decode_entries_dom (Inl (iss, d)) \<Longrightarrow>
    decode_internal iss d = Inr r \<Longrightarrow> length (is_rest (snd r)) < length (is_rest iss)"
  "decode_internal_decode_items_decode_entries_dom (Inr (Inl (iss, d, v))) \<Longrightarrow>
    decode_items iss d v = Inr ri \<Longrightarrow> length (is_rest (snd ri)) < length (is_rest iss)"
  "decode_internal_decode_items_decode_entries_dom (Inr (Inr (iss, d, m))) \<Longrightarrow>
    decode_entries iss d m = Inr re \<Longrightarrow> length (is_rest (snd re)) < length (is_rest iss)"
proof (induction arbitrary: r and ri and re rule: decode_internal_decode_items_decode_entries.pinduct)
  case (1 iss d)
  obtain c cs where iss: "iss = istringstream (c # cs)" and "d \<le> RECURSION_LIMIT"
    using 1 is_peek_cases [of iss] by (fastforce simp: decode_internal.psimps throw_invalid_string_def split: if_splits)
  obtain c1 iss2 where pk: "is_peek (istringstream cs) = (c1, iss2)"
    by fastforce
  with is_peek_same have cs: "is_rest iss2 = cs"
    by fastforce
  note step = decode_internal.psimps [OF "1.hyps", unfolded iss]
  have depth: "\<not> RECURSION_LIMIT < d"
    using \<open>d \<le> RECURSION_LIMIT\<close> by simp
  consider (i) "c = CHR ''i''" | (s) "is_digit c" "c \<noteq> CHR ''i''"
    | (l) "c = CHR ''l''" "\<not> is_digit c" | (d) "c = CHR ''d''" "\<not> is_digit c"
    | (other) "c \<noteq> CHR ''i''" "\<not> is_digit c" "c \<noteq> CHR ''l''" "c \<noteq> CHR ''d''"
    by fastforce
  then show ?case
  proof cases
    case i
    then have "decodeInt (istringstream cs) = Inr r"
      using "1.prems" [unfolded iss step] depth by (simp add: iss)
    then show ?thesis
      using decodeInt_ok(2) [of "istringstream cs" "fst r" "snd r"] by (simp add: iss)
  next
    case s
    then have "\<exists>k. decodeString iss = Inr (k, snd r)"
      using "1.prems" [unfolded iss step] depth by (auto simp: iss result_simps)
    then show ?thesis
      using decodeString_ok(2) by blast
  next
    case l
    show ?thesis
    proof (cases "c1 = Some (CHR ''e'')")
      case True
      then show ?thesis
        using "1.prems" [unfolded iss step] depth l pk cs is_ignore_rest [of iss2] by (auto simp: iss)
    next
      case False
      then obtain ri where ri: "decode_items iss2 (d + 1) [] = Inr ri" and r: "snd r = is_ignore (snd ri)"
        using "1.prems" [unfolded iss step] depth l pk by (auto simp: iss result_simps)
      have "length (is_rest (snd ri)) < length (is_rest iss2)"
        using depth l pk iss False ri by (intro "1.IH"(1)) auto
      then show ?thesis
        using r cs is_ignore_rest [of "snd ri"] by (simp add: iss)
    qed
  next
    case d
    show ?thesis
    proof (cases "c1 = Some (CHR ''e'')")
      case True
      then show ?thesis
        using "1.prems" [unfolded iss step] depth d pk cs is_ignore_rest [of iss2] by (auto simp: iss)
    next
      case False
      then obtain re where re: "decode_entries iss2 (d + 1) [] = Inr re" and r: "snd r = is_ignore (snd re)"
        using "1.prems" [unfolded iss step] depth d pk by (auto simp: iss result_simps)
      have "length (is_rest (snd re)) < length (is_rest iss2)"
        using depth d pk iss False re by (intro "1.IH"(2)) auto
      then show ?thesis
        using r cs is_ignore_rest [of "snd re"] by (simp add: iss)
    qed
  next
    case other
    then show ?thesis
      using "1.prems" [unfolded iss step] depth by (simp add: iss throw_invalid_string_def)
  qed
next
  case (2 iss d v)
  note step = decode_items.psimps [OF "2.hyps"]
  obtain e iss1 where r: "decode_internal iss d = Inr (e, iss1)" "\<not> is_eof iss1"
    using "2.prems" [unfolded step] by (auto simp: result_simps split: if_splits)
  obtain c iss2 where pk: "is_peek iss1 = (c, iss2)"
    by fastforce
  have shorter: "length (is_rest iss2) < length (is_rest iss)"
    using "2.IH"(1) [OF r(1)] is_peek_same [OF pk] by simp
  show ?case
  proof (cases "c = Some (CHR ''e'')")
    case True
    then show ?thesis
      using "2.prems" [unfolded step] r pk shorter by auto
  next
    case False
    then have "decode_items iss2 d (v @ [e]) = Inr ri"
      using "2.prems" [unfolded step] r pk by auto
    then show ?thesis
      using "2.IH"(2) [OF r(1), of "(c, iss2)" c iss2 ri] False r(2) pk shorter by simp
  qed
next
  case (3 iss d m)
  note step = decode_entries.psimps [OF "3.hyps"]
  obtain k iss0 where k: "decodeString iss = Inr (k, iss0)"
    using "3.prems" [unfolded step] by (auto simp: result_simps)
  obtain e iss1 where r: "decode_internal iss0 d = Inr (e, iss1)" "\<not> is_eof iss1"
    using "3.prems" [unfolded step] k by (auto simp: result_simps split: if_splits)
  obtain c iss2 where pk: "is_peek iss1 = (c, iss2)"
    by fastforce
  have shorter: "length (is_rest iss2) < length (is_rest iss)"
    using "3.IH"(1) [OF k, of "(e, iss1)"] r decodeString_ok(2) [OF k] is_peek_same [OF pk] by simp
  show ?case
  proof (cases "c = Some (CHR ''e'')")
    case True
    then show ?thesis
      using "3.prems" [unfolded step] k r pk shorter by auto
  next
    case False
    then have "decode_entries iss2 d (smap_put k e m) = Inr re"
      using "3.prems" [unfolded step] k r pk by auto
    then show ?thesis
      using "3.IH"(2) [OF k, of "(e, iss1)" "(c, iss2)" c iss2 "smap_put k e m" re] False r pk shorter by simp
  qed
qed

termination decode_internal
proof (relation "inv_image (less_than <*lex*> less_than)
    (\<lambda>x. case x of
        Inl (iss, d) \<Rightarrow> (length (is_rest iss), 0)
      | Inr (Inl (iss, d, v)) \<Rightarrow> (length (is_rest iss), 1)
      | Inr (Inr (iss, d, m)) \<Rightarrow> (length (is_rest iss), 1::nat))", goal_cases)
  case 1
  then show ?case by (intro wf_inv_image wf_lex_prod wf_less_than)
qed (auto dest!: decode_consumes(1) decodeString_ok(2) dest: is_peek_ignore_peek is_peek_same [OF sym])

declare decode_internal.simps [simp del] decode_items.simps [simp del] decode_entries.simps [simp del]

definition be_decode :: "string \<Rightarrow> elem result" where
  "be_decode str =
     bindE (decode_internal (istringstream str) 0) (\<lambda>r.
     if \<not> is_eof (is_ignore (snd r)) then throw_invalid_string else Inr (fst r))"

section \<open>What the encoder writes, the decoder reads\<close>

text \<open>The nesting depth of an element as the decoder counts it, and its well-formedness.\<close>

fun be_depth :: "elem \<Rightarrow> nat" where
  "be_depth (BeInt i) = 0"
| "be_depth (BeStr s) = 0"
| "be_depth (BeList es) = foldr (\<lambda>e n. max (Suc (be_depth e)) n) es 0"
| "be_depth (BeDict m) = foldr (\<lambda>e n. max (Suc (be_depth (snd e))) n) m 0"

fun be_wf :: "elem \<Rightarrow> bool" where
  "be_wf (BeInt i) = ity_has int64_t i"
| "be_wf (BeStr s) = (length s \<le> MAX_STRING_LENGTH)"
| "be_wf (BeList es) = (\<forall>e \<in> set es. be_wf e)"
| "be_wf (BeDict m) = (smap_ok m \<and> (\<forall>e \<in> set m. length (fst e) \<le> MAX_STRING_LENGTH \<and> be_wf (snd e)))"

lemma foldr_max_le: "foldr (\<lambda>e n. max (Suc (f e)) n) es 0 \<le> k \<longleftrightarrow> (\<forall>e \<in> set es. Suc (f e) \<le> k)"
  by (induction es) auto

lemma foldr_max_ge: "e \<in> set es \<Longrightarrow> Suc (f e) \<le> foldr (\<lambda>e n. max (Suc (f e)) n) es 0"
  using foldr_max_le [of f es] by blast

lemma dec_of_int_nat: "dec_of_int (int n) = dec_of_nat n"
  by (simp add: dec_of_int_def)

lemma decodeInt_encode:
  "ity_has int64_t i \<Longrightarrow> decodeInt (istringstream (dec_of_int i @ CHR ''e'' # rest)) = Inr (BeInt i, istringstream rest)"
  by (simp add: decodeInt_def is_extract_int_digits)

lemma decodeString_encode:
  assumes "length s \<le> MAX_STRING_LENGTH"
  shows "decodeString (istringstream (encode_str s @ rest)) = Inr (s, istringstream rest)"
proof -
  have "is_extract_int uint64_t (istringstream (dec_of_int (int (length s)) @ CHR '':'' # s @ rest))
      = (int (length s), istringstream (CHR '':'' # s @ rest))"
    using assms by (intro is_extract_int_digits)
      (auto simp: ity_has_def ity_min_def ity_max_def MAX_STRING_LENGTH_def)
  then show ?thesis
    using assms by (simp add: decodeString_def encode_str_def dec_of_int_nat)
qed

lemma encode_str_first: "\<exists>c cs. encode_str s = c # cs \<and> is_digit c"
  using dec_of_nat_hd_digit [of "length s"] by (cases "dec_of_nat (length s)") (auto simp: encode_str_def)

lemma digit_not_letter: "is_digit c \<Longrightarrow> c \<noteq> CHR ''e'' \<and> c \<noteq> CHR ''i''"
  by (auto simp: is_digit_iff)

lemma be_encode_first: "\<exists>c cs. be_encode e = c # cs \<and> c \<noteq> CHR ''e''"
proof (cases e)
  case (BeStr s)
  then show ?thesis
    using encode_str_first [of s] digit_not_letter by auto
qed (simp_all add: encode_int_def)

lemma decode_items_encode:
  assumes "\<And>e rest. e \<in> set es \<Longrightarrow> decode_internal (istringstream (be_encode e @ rest)) d = Inr (e, istringstream rest)"
    and "es \<noteq> []"
  shows "decode_items (istringstream (concat (map be_encode es) @ CHR ''e'' # rest)) d v
    = Inr (v @ es, istringstream (CHR ''e'' # rest))"
  using assms
proof (induction es arbitrary: v)
  case (Cons e es)
  show ?case
  proof (cases es)
    case Nil
    then show ?thesis
      using Cons.prems by (simp add: decode_items.simps)
  next
    case (Cons e' es')
    moreover obtain c cs where "be_encode e' = c # cs" "c \<noteq> CHR ''e''"
      using be_encode_first by blast
    ultimately show ?thesis
      using Cons.prems Cons.IH by (subst decode_items.simps) simp
  qed
qed simp

lemma decode_entries_encode:
  assumes "\<And>e rest. e \<in> set es \<Longrightarrow>
      decode_internal (istringstream (be_encode (snd e) @ rest)) d = Inr (snd e, istringstream rest)"
    and "\<And>e. e \<in> set es \<Longrightarrow> length (fst e) \<le> MAX_STRING_LENGTH"
    and "smap_ok (m @ es)" and "es \<noteq> []"
  shows "decode_entries (istringstream
      (concat (map (\<lambda>e. encode_str (fst e) @ be_encode (snd e)) es) @ CHR ''e'' # rest)) d m
    = Inr (m @ es, istringstream (CHR ''e'' # rest))"
  using assms
proof (induction es arbitrary: m)
  case (Cons e es)
  have put: "smap_put (fst e) (snd e) m = m @ [e]"
    using Cons.prems(3) by (subst smap_put_above) (auto simp: smap_ok_def sorted_wrt_append)
  show ?case
  proof (cases es)
    case Nil
    then show ?thesis
      using Cons.prems put by (simp add: decode_entries.simps decodeString_encode)
  next
    case (Cons e' es')
    moreover obtain c cs where "encode_str (fst e') = c # cs" "c \<noteq> CHR ''e''"
      using encode_str_first digit_not_letter by blast
    moreover have "decode_entries (istringstream
      (concat (map (\<lambda>e. encode_str (fst e) @ be_encode (snd e)) es) @ CHR ''e'' # rest)) d (m @ [e])
      = Inr ((m @ [e]) @ es, istringstream (CHR ''e'' # rest))"
      using Cons.prems Cons by (intro Cons.IH) auto
    ultimately show ?thesis
      using Cons.prems put by (subst decode_entries.simps) (simp add: decodeString_encode)
  qed
qed simp

lemma decode_internal_encode:
  "be_wf e \<Longrightarrow> d + be_depth e \<le> RECURSION_LIMIT \<Longrightarrow>
    decode_internal (istringstream (be_encode e @ rest)) d = Inr (e, istringstream rest)"
proof (induction e arbitrary: d rest)
  case (BeInt i)
  then show ?case
    by (simp add: decode_internal.simps encode_int_def decodeInt_encode)
next
  case (BeStr s)
  then show ?case
    using encode_str_first [of s] digit_not_letter decodeString_encode [of s rest]
    by (auto simp: decode_internal.simps)
next
  case (BeList es)
  show ?case
  proof (cases es)
    case Nil
    with BeList show ?thesis
      by (simp add: decode_internal.simps is_digit_iff)
  next
    case (Cons e es')
    moreover obtain c cs where "be_encode e = c # cs" "c \<noteq> CHR ''e''"
      using be_encode_first by blast
    moreover have "decode_items (istringstream (concat (map be_encode es) @ CHR ''e'' # rest)) (d + 1) []
        = Inr ([] @ es, istringstream (CHR ''e'' # rest))"
      using BeList Cons foldr_max_ge [of _ es be_depth]
      by (intro decode_items_encode BeList.IH) (fastforce dest: foldr_max_ge)+
    ultimately show ?thesis
      using BeList.prems by (subst decode_internal.simps) (simp add: is_digit_iff)
  qed
next
  case (BeDict m)
  show ?case
  proof (cases m)
    case Nil
    with BeDict show ?thesis
      by (simp add: decode_internal.simps is_digit_iff)
  next
    case (Cons e m')
    moreover obtain c cs where "encode_str (fst e) = c # cs" "c \<noteq> CHR ''e''"
      using encode_str_first digit_not_letter by blast
    moreover have "decode_entries (istringstream
      (concat (map (\<lambda>e. encode_str (fst e) @ be_encode (snd e)) m) @ CHR ''e'' # rest)) (d + 1) []
        = Inr ([] @ m, istringstream (CHR ''e'' # rest))"
      using BeDict Cons foldr_max_ge [of _ m "\<lambda>e. be_depth (snd e)"]
      by (intro decode_entries_encode BeDict.IH) (fastforce dest: foldr_max_ge)+
    ultimately show ?thesis
      using BeDict.prems by (subst decode_internal.simps) (simp add: is_digit_iff)
  qed
qed

text \<open>
  C13.  Decoding the encoding of a value gives the value back: for every element whose integers fit
  in 64 bits, whose strings are at most \<open>MAX_STRING_LENGTH\<close> long, whose dictionaries are sorted as
  \<^verbatim>\<open>std::map\<close> keeps them and whose nesting is within the recursion limit.
\<close>

theorem bencode_roundtrip:
  assumes "be_wf e" and "be_depth e \<le> RECURSION_LIMIT"
  shows "be_decode (be_encode e) = Inr e"
  using decode_internal_encode [of e 0 "[]"] assms by (simp add: be_decode_def)

theorem bencode_roundtrip_witness:
  "be_decode (be_encode (BeDict [(''a'', BeInt (- 5)), (''b'', BeList [BeStr ''xy''])]))
   = Inr (BeDict [(''a'', BeInt (- 5)), (''b'', BeList [BeStr ''xy''])])"
  by (rule bencode_roundtrip)
    (simp_all add: smap_ok_def ity_has_def ity_min_def ity_max_def MAX_STRING_LENGTH_def
      RECURSION_LIMIT_def)

section \<open>What the decoder accepts\<close>

definition decoded_at :: "nat \<Rightarrow> elem \<Rightarrow> bool" where
  "decoded_at d e \<longleftrightarrow> be_wf e \<and> d + be_depth e \<le> RECURSION_LIMIT"

text \<open>Induction over successful decoding, on the values alone.\<close>

lemma decode_success_induct:
  assumes int: "\<And>d i. d \<le> RECURSION_LIMIT \<Longrightarrow> ity_has int64_t i \<Longrightarrow> P d (BeInt i)"
    and str: "\<And>d k. d \<le> RECURSION_LIMIT \<Longrightarrow> length k \<le> MAX_STRING_LENGTH \<Longrightarrow> P d (BeStr k)"
    and nil: "\<And>d. d \<le> RECURSION_LIMIT \<Longrightarrow> P d (BeList [])" "\<And>d. d \<le> RECURSION_LIMIT \<Longrightarrow> P d (BeDict [])"
    and list: "\<And>d es. d \<le> RECURSION_LIMIT \<Longrightarrow> Q (d + 1) [] es \<Longrightarrow> P d (BeList es)"
    and dict: "\<And>d m. d \<le> RECURSION_LIMIT \<Longrightarrow> R (d + 1) [] m \<Longrightarrow> P d (BeDict m)"
    and last: "\<And>d v e. P d e \<Longrightarrow> Q d v (v @ [e])"
    and more: "\<And>d v e es. P d e \<Longrightarrow> Q d (v @ [e]) es \<Longrightarrow> Q d v es"
    and dlast: "\<And>d m k e. length k \<le> MAX_STRING_LENGTH \<Longrightarrow> P d e \<Longrightarrow> R d m (smap_put k e m)"
    and dmore: "\<And>d m k e m'. length k \<le> MAX_STRING_LENGTH \<Longrightarrow> P d e \<Longrightarrow> R d (smap_put k e m) m' \<Longrightarrow> R d m m'"
  shows "decode_internal iss d = Inr r \<Longrightarrow> P d (fst r)"
    and "decode_items iss d v = Inr ri \<Longrightarrow> Q d v (fst ri)"
    and "decode_entries iss d m = Inr re \<Longrightarrow> R d m (fst re)"
proof (induction iss d and iss d v and iss d m arbitrary: r and ri and re
    rule: decode_internal_decode_items_decode_entries.induct)
  case (1 iss d)
  note step = "1.prems" [unfolded decode_internal.simps [of iss d]]
  obtain c iss1 where pk: "is_peek iss = (c, iss1)"
    by fastforce
  obtain c1 iss2 where pk1: "is_peek (is_ignore iss1) = (c1, iss2)"
    by fastforce
  have depth: "d \<le> RECURSION_LIMIT"
    using step by (auto split: if_splits)
  note step = step [unfolded Let_def pk prod.case pk1]
  consider (i) "c = Some (CHR ''i'')" | (s) k where "c = Some k" "is_digit k" "c \<noteq> Some (CHR ''i'')"
    | (l) "c = Some (CHR ''l'')" | (d) "c = Some (CHR ''d'')"
    using step by (auto simp: throw_invalid_string_def split: if_splits option.splits)
  then show ?case
  proof cases
    case i
    then have "decodeInt (is_ignore iss1) = Inr r"
      using step depth by simp
    then show ?thesis
      using int [OF depth] decodeInt_ok(3) [of "is_ignore iss1" "fst r" "snd r"] by auto
  next
    case s
    then obtain k where "decodeString iss1 = Inr k" "fst r = BeStr (fst k)"
      using step depth by (auto simp: result_simps)
    then show ?thesis
      using str [OF depth] decodeString_ok(3) [of iss1 "fst k" "snd k"] by auto
  next
    case l
    show ?thesis
    proof (cases "c1 = Some (CHR ''e'')")
      case True
      then show ?thesis
        using step l depth nil by (auto simp: is_digit_iff)
    next
      case False
      then obtain ri where ri: "decode_items iss2 (d + 1) [] = Inr ri" "fst r = BeList (fst ri)"
        using step depth l by (auto simp: result_simps is_digit_iff)
      then have "Q (d + 1) [] (fst ri)"
        using depth l pk pk1 False by (intro "1.IH"(1)) (auto simp: is_digit_iff)
      then show ?thesis
        using list depth ri by simp
    qed
  next
    case d
    show ?thesis
    proof (cases "c1 = Some (CHR ''e'')")
      case True
      then show ?thesis
        using step d depth nil by (auto simp: is_digit_iff)
    next
      case False
      then obtain re where re: "decode_entries iss2 (d + 1) [] = Inr re" "fst r = BeDict (fst re)"
        using step depth d by (auto simp: result_simps is_digit_iff)
      then have "R (d + 1) [] (fst re)"
        using depth d pk pk1 False by (intro "1.IH"(2)) (auto simp: is_digit_iff)
      then show ?thesis
        using dict depth re by simp
    qed
  qed
next
  case (2 iss d v)
  note step = "2.prems" [unfolded decode_items.simps [of iss d v]]
  obtain e where e: "decode_internal iss d = Inr e" "\<not> is_eof (snd e)"
    using step by (auto simp: result_simps split: if_splits)
  obtain c iss' where pk: "is_peek (snd e) = (c, iss')"
    by fastforce
  show ?case
  proof (cases "c = Some (CHR ''e'')")
    case True
    then show ?thesis
      using step e pk last [OF "2.IH"(1) [OF e(1)]] by auto
  next
    case False
    then have "Q d (v @ [fst e]) (fst ri)"
      using step e pk by (intro "2.IH"(2)) auto
    then show ?thesis
      using more "2.IH"(1) [OF e(1)] by blast
  qed
next
  case (3 iss d m)
  note step = "3.prems" [unfolded decode_entries.simps [of iss d m]]
  obtain k where k: "decodeString iss = Inr k"
    using step by (auto simp: result_simps)
  then have len: "length (fst k) \<le> MAX_STRING_LENGTH"
    using decodeString_ok(3) [of iss "fst k" "snd k"] by simp
  obtain e where e: "decode_internal (snd k) d = Inr e" "\<not> is_eof (snd e)"
    using step k by (auto simp: result_simps split: if_splits)
  obtain c iss' where pk: "is_peek (snd e) = (c, iss')"
    by fastforce
  show ?case
  proof (cases "c = Some (CHR ''e'')")
    case True
    then show ?thesis
      using step k e pk dlast [OF len "3.IH"(1) [OF k e(1)]] by auto
  next
    case False
    then have "R d (smap_put (fst k) (fst e) m) (fst re)"
      using step k e pk by (intro "3.IH"(2)) auto
    then show ?thesis
      using dmore [OF len "3.IH"(1) [OF k e(1)]] by blast
  qed
qed

definition dict_at :: "nat \<Rightarrow> (string \<times> elem) list \<Rightarrow> bool" where
  "dict_at d m \<longleftrightarrow> smap_ok m \<and> (\<forall>e \<in> set m. length (fst e) \<le> MAX_STRING_LENGTH \<and> decoded_at d (snd e))"

lemma set_smap_put: "set (smap_put k v m) \<subseteq> insert (k, v) (set m)"
  by (induction m) auto

lemma dict_at_put:
  "dict_at d m \<Longrightarrow> length k \<le> MAX_STRING_LENGTH \<Longrightarrow> decoded_at d e \<Longrightarrow> dict_at d (smap_put k e m)"
  using set_smap_put [of k e m] smap_ok_put [of m k e] by (fastforce simp: dict_at_def)

lemma decoded_at_list:
  "d \<le> RECURSION_LIMIT \<Longrightarrow> \<forall>e \<in> set es. decoded_at (d + 1) e \<Longrightarrow> decoded_at d (BeList es)"
  using foldr_max_le [of be_depth es "RECURSION_LIMIT - d"]
  by (auto simp: decoded_at_def dict_at_def le_diff_conv2)

lemma decoded_at_dict: "d \<le> RECURSION_LIMIT \<Longrightarrow> dict_at (d + 1) m \<Longrightarrow> decoded_at d (BeDict m)"
  using foldr_max_le [of "\<lambda>e. be_depth (snd e)" m "RECURSION_LIMIT - d"]
  by (auto simp: decoded_at_def dict_at_def le_diff_conv2)

lemma decode_internal_wf: "decode_internal iss d = Inr r \<Longrightarrow> decoded_at d (fst r)"
proof (rule decode_success_induct(1) [where P = decoded_at
      and Q = "\<lambda>d v es. (\<forall>e \<in> set v. decoded_at d e) \<longrightarrow> (\<forall>e \<in> set es. decoded_at d e)"
      and R = "\<lambda>d m m'. dict_at d m \<longrightarrow> dict_at d m'"], goal_cases)
  case (1 d i)
  then show ?case
    by (simp add: decoded_at_def)
next
  case (2 d k)
  then show ?case
    by (simp add: decoded_at_def)
next
  case (3 d)
  then show ?case
    by (simp add: decoded_at_def)
next
  case (4 d)
  then show ?case
    by (simp add: decoded_at_def)
next
  case (5 d es)
  then show ?case
    by (simp add: decoded_at_list)
next
  case (6 d m)
  then show ?case
    using decoded_at_dict [of d m] by (metis dict_at_def list.set(1) empty_iff smap_ok_Nil)
next
  case (7 d v e)
  then show ?case
    by simp
next
  case (8 d v e es)
  then show ?case
    unfolding set_append set_simps by blast
next
  case (9 d m k e)
  then show ?case
    by (simp add: dict_at_put)
next
  case (10 d m k e m')
  then show ?case
    by (simp add: dict_at_put)
qed

text \<open>
  C19.  Whatever the decoder accepts is well formed: its integers fit, its strings are bounded, its
  dictionaries are sorted without repeated keys, its nesting is within the limit; and encoding it
  gives a text that decodes to the same value.
\<close>

theorem decode_normalises:
  assumes "be_decode s = Inr e"
  shows "be_wf e \<and> be_depth e \<le> RECURSION_LIMIT \<and> be_decode (be_encode e) = Inr e"
proof -
  obtain r where "decode_internal (istringstream s) 0 = Inr r" and "e = fst r"
    using assms by (auto simp: be_decode_def result_simps throw_invalid_string_def split: if_splits)
  then have "be_wf e" and "be_depth e \<le> RECURSION_LIMIT"
    using decode_internal_wf [of "istringstream s" 0 r] by (simp_all add: decoded_at_def)
  then show ?thesis
    using decode_internal_encode [of e 0 "[]"] by (simp add: be_decode_def)
qed

theorem decode_normalises_witness:
  "be_wf (BeList [BeInt 7]) \<and> be_depth (BeList [BeInt 7]) \<le> RECURSION_LIMIT
   \<and> be_decode (be_encode (BeList [BeInt 7])) = Inr (BeList [BeInt 7])"
proof (rule decode_normalises)
  show "be_decode (be_encode (BeList [BeInt 7])) = Inr (BeList [BeInt 7])"
    using decode_internal_encode [of "BeList [BeInt 7]" 0 "[]"]
    by (simp add: be_decode_def ity_has_def ity_min_def ity_max_def RECURSION_LIMIT_def del: be_encode.simps)
qed

text \<open>Numbers in any of the forms that \<^verbatim>\<open>operator>>\<close> reads.\<close>

lemma nat_of_dec_zeros: "nat_of_dec (replicate z (CHR ''0'') @ ds) = nat_of_dec ds"
proof -
  have "foldl (\<lambda>n c. n * 10 + digit_val c) 0 (replicate z (CHR ''0'')) = 0"
    by (induction z) (simp_all add: digit_val_def)
  then show ?thesis
    by (simp add: nat_of_dec_def)
qed

abbreviation only_invalid :: "'a result \<Rightarrow> bool" where
  "only_invalid x \<equiv> (\<forall>e. x = Inl e \<longrightarrow> (\<exists>m. e = Invalid_argument m))"

lemma decode_errors:
  "only_invalid (decode_internal iss d)"
  "only_invalid (decode_items iss d v)"
  "only_invalid (decode_entries iss d m)"
proof (induction iss d and iss d v and iss d m rule: decode_internal_decode_items_decode_entries.induct)
  case (1 iss d)
  then show ?case
    by (subst decode_internal.simps) (auto simp: Let_def result_simps throw_invalid_string_def
        decodeInt_def decodeString_def split: prod.splits if_splits)
next
  case (2 iss d v)
  have "only_invalid (if is_eof (snd r) then Inl (Invalid_argument ''Unexpected eof'')
     else let (c, iss') = is_peek (snd r) in
       if c = Some (CHR ''e'') then Inr (v @ [fst r], iss') else decode_items iss' d (v @ [fst r]))"
    if "decode_internal iss d = Inr r" for r
    using that 2(2) [OF that] by (cases "is_peek (snd r)") auto
  then show ?case
    using 2(1) by (subst decode_items.simps) (simp only: result_simps, blast)
next
  case (3 iss d m)
  have "only_invalid (if is_eof (snd r) then Inl (Invalid_argument ''Unexpected eof'')
     else let (c, iss') = is_peek (snd r); m' = smap_put (fst k) (fst r) m in
       if c = Some (CHR ''e'') then Inr (m', iss') else decode_entries iss' d m')"
    if "decodeString iss = Inr k" and "decode_internal (snd k) d = Inr r" for k r
    using that 3(2) [OF that] by (cases "is_peek (snd r)") (auto simp: Let_def)
  moreover have "only_invalid (decodeString iss)"
    by (auto simp: decodeString_def Let_def split: prod.splits if_splits)
  ultimately show ?case
    using 3(1) by (subst decode_entries.simps) (simp only: result_simps, blast)
qed

lemma decode_nested_lists:
  "d + k = RECURSION_LIMIT + 1 \<Longrightarrow>
    decode_internal (istringstream (replicate (Suc k) (CHR ''l'') @ t)) d
      = Inl (Invalid_argument ''Recursion limit reached'')"
proof (induction k arbitrary: d)
  case 0
  then show ?case
    by (subst decode_internal.simps) simp
next
  case (Suc k)
  then have "decode_internal (istringstream (replicate (Suc k) (CHR ''l'') @ t)) (d + 1)
      = Inl (Invalid_argument ''Recursion limit reached'')"
    by (intro Suc.IH) simp
  then show ?case
    using Suc.prems by (subst decode_internal.simps) (simp add: is_digit_iff decode_items.simps)
qed

lemma decode_nested_limit:
  assumes "n > RECURSION_LIMIT + 1"
  shows "be_decode (replicate n (CHR ''l'') @ t) = Inl (Invalid_argument ''Recursion limit reached'')"
proof -
  have "replicate n (CHR ''l'') @ t
      = replicate (Suc (RECURSION_LIMIT + 1)) (CHR ''l'') @ replicate (n - (RECURSION_LIMIT + 2)) (CHR ''l'') @ t"
    using assms by (simp flip: replicate_add append_assoc replicate_Suc)
  then show ?thesis
    using decode_nested_lists [of 0 "RECURSION_LIMIT + 1"] by (simp add: be_decode_def)
qed

text \<open>
  The decoder fails only as documented: whatever the input, the exception is an
  \<^verbatim>\<open>std::invalid_argument\<close>.
\<close>

theorem decode_error_kind:
  assumes "be_decode s = Inl e"
  shows "\<exists>m. e = Invalid_argument m"
  using assms decode_errors(1) [of "istringstream s" 0]
  by (auto simp: be_decode_def result_simps throw_invalid_string_def split: if_splits)

theorem decode_error_kind_witness: "\<exists>m. Invalid_argument ''Recursion limit reached'' = Invalid_argument m"
  using decode_error_kind [of "replicate 300 (CHR ''l'')" "Invalid_argument ''Recursion limit reached''"]
    decode_nested_limit [of 300 "[]"] by (simp add: RECURSION_LIMIT_def)

text \<open>
  Nesting beyond the limit is rejected, whatever follows: the recursion of the decoder is
  bounded by \<open>RECURSION_LIMIT\<close> and not by the input.
\<close>

theorem decode_depth_limit:
  assumes "n > RECURSION_LIMIT + 1"
  shows "be_decode (replicate n (CHR ''l'') @ t) = Inl (Invalid_argument ''Recursion limit reached'')"
  using assms by (rule decode_nested_limit)

theorem decode_depth_limit_witness:
  "be_decode (replicate 300 (CHR ''l'') @ replicate 300 (CHR ''e''))
   = Inl (Invalid_argument ''Recursion limit reached'')"
  by (rule decode_depth_limit) (simp add: RECURSION_LIMIT_def)

text \<open>
  Anything after a complete value is rejected.
\<close>

theorem decode_rejects_trailing:
  assumes "be_wf e" and "be_depth e \<le> RECURSION_LIMIT" and "rest \<noteq> []"
  shows "be_decode (be_encode e @ rest) = Inl (Invalid_argument ''Invalid bencode string'')"
proof -
  obtain c cs where "rest = c # cs"
    using assms(3) by (cases rest) auto
  then show ?thesis
    using assms decode_internal_encode [of e 0 rest] by (simp add: be_decode_def throw_invalid_string_def)
qed

theorem decode_rejects_trailing_witness:
  "be_decode (be_encode (BeStr ''spam'') @ ''e'') = Inl (Invalid_argument ''Invalid bencode string'')"
  by (rule decode_rejects_trailing) (simp_all add: MAX_STRING_LENGTH_def RECURSION_LIMIT_def)

lemma zeros_digits: "\<forall>d \<in> set (replicate z (CHR ''0'') @ dec_of_nat n). is_digit d"
  using dec_of_nat_digits [of n] by (auto simp: is_digit_iff)

text \<open>
  The decoder accepts numbers that are not valid bencode: with any count of leading zeros.
  Encoding the value does not give the text back, so what is computed from the re-encoded value
  (the info hash of a torrent) is not computed from the text that was read.
\<close>

theorem decode_leading_zeros:
  assumes "n < 2 ^ 63"
  shows "be_decode (''i'' @ replicate z (CHR ''0'') @ dec_of_nat n @ ''e'') = Inr (BeInt (int n))
    \<and> length (be_encode (BeInt (int n))) + z = length (''i'' @ replicate z (CHR ''0'') @ dec_of_nat n @ ''e'')"
proof -
  have "is_extract_int int64_t (istringstream ((replicate z (CHR ''0'') @ dec_of_nat n) @ CHR ''e'' # []))
      = (int (nat_of_dec (replicate z (CHR ''0'') @ dec_of_nat n)), istringstream [CHR ''e''])"
    using assms zeros_digits by (intro is_extract_int_plain)
      (auto simp: is_digit_iff ity_max_def nat_of_dec_zeros)
  then have "is_extract_int int64_t (istringstream (replicate z (CHR ''0'') @ dec_of_nat n @ ''e''))
      = (int n, istringstream ''e'')"
    by (simp add: nat_of_dec_zeros)
  then show ?thesis
    by (simp add: be_decode_def decode_internal.simps decodeInt_def encode_int_def dec_of_int_nat)
qed

theorem decode_leading_zeros_witness:
  "be_decode (''i'' @ replicate 2 (CHR ''0'') @ dec_of_nat 3 @ ''e'') = Inr (BeInt 3)"
  using decode_leading_zeros [of 3 2] by simp

end
