(* ===== verification/Text.thy ===== *)
theory Text
  imports Streams
begin

text \<open>
  \<^verbatim>\<open>src/string_utils.hpp\<close>, the conversions of the standard library it and its users rely
  on, the parts of \<^verbatim>\<open>src/sha1.cpp\<close> that do not compute a
  digest, and what the sources use of \<^verbatim>\<open>std::filesystem::path\<close> on POSIX.  A SHA-1 value
  is the string of its 20 bytes; the digest itself is OpenSSL's, and a parameter \<open>sha1\<close> of the
  definitions that compute one.
\<close>

section \<open>Strings and bytes\<close>

definition from_bytes :: "bytes \<Rightarrow> nat \<Rightarrow> nat \<Rightarrow> string result" where
  "from_bytes buffer start end =
     (if end > 0 \<and> end < start then Inl (Invalid_argument ''from_bytes: end < start'')
      else if end > length buffer then Inl (Invalid_argument ''from_bytes: end > size'')
      else
        let stop = (if end = 0 then length buffer else end) in
        if start > stop then Inl (Undefined_behaviour ''from_bytes: start > size'')
        else Inr (string_of_bytes (take (stop - start) (drop start buffer))))"

definition hex_digit :: "nat \<Rightarrow> char" where
  "hex_digit d = (if d < 10 then char_of (48 + d) else char_of (55 + d))"

definition hex_of_string :: "string \<Rightarrow> string" where
  "hex_of_string s = concat (map (\<lambda>c. [hex_digit (of_char c div 16), hex_digit (of_char c mod 16)]) s)"

definition hex_of_bytes :: "bytes \<Rightarrow> string" where
  "hex_of_bytes bs = concat (map (\<lambda>b. [hex_digit (unat b div 16), hex_digit (unat b mod 16)]) bs)"

definition ltrim :: "string \<Rightarrow> string" where
  "ltrim s = dropWhile is_space s"

definition rtrim :: "string \<Rightarrow> string" where
  "rtrim s = rev (dropWhile is_space (rev s))"

definition trim :: "string \<Rightarrow> string" where
  "trim s = rtrim (ltrim s)"

definition lower_char :: "char \<Rightarrow> char" where
  "lower_char c = (let n = of_char c :: nat in if 65 \<le> n \<and> n \<le> 90 then char_of (n + 32) else c)"

definition to_lower :: "string \<Rightarrow> string" where
  "to_lower s = map lower_char s"

definition starts_with :: "string \<Rightarrow> string \<Rightarrow> bool" where
  "starts_with pre s \<longleftrightarrow> take (length pre) s = pre"

definition ends_with :: "string \<Rightarrow> string \<Rightarrow> bool" where
  "ends_with suf s \<longleftrightarrow> length suf \<le> length s \<and> drop (length s - length suf) s = suf"

lemma hex_digit_inject:
  assumes "a < 16" and "b < 16" and "hex_digit a = hex_digit b"
  shows "a = b"
proof -
  have "(of_char (hex_digit a) :: nat) = of_char (hex_digit b)"
    using assms by simp
  with assms show ?thesis
    by (auto simp: hex_digit_def of_char_of split: if_splits)
qed

lemma length_hex_of_bytes: "length (hex_of_bytes bs) = 2 * length bs"
  by (induction bs) (simp_all add: hex_of_bytes_def)

lemma hex_of_bytes_inject: "hex_of_bytes xs = hex_of_bytes ys \<Longrightarrow> xs = ys"
proof (induction xs arbitrary: ys)
  case Nil
  then show ?case
    by (cases ys) (simp_all add: hex_of_bytes_def)
next
  case (Cons x xs)
  then obtain y ys' where ys: "ys = y # ys'"
    by (cases ys) (simp_all add: hex_of_bytes_def)
  have "unat x < 2 ^ LENGTH(8)" "unat y < 2 ^ LENGTH(8)"
    by (rule unsigned_less)+
  then have "unat x div 16 < 16" "unat y div 16 < 16" "unat x mod 16 < 16" "unat y mod 16 < 16"
    by (simp_all add: div_less_iff_less_mult)
  moreover have "hex_digit (unat x div 16) = hex_digit (unat y div 16)"
    "hex_digit (unat x mod 16) = hex_digit (unat y mod 16)" "hex_of_bytes xs = hex_of_bytes ys'"
    using Cons.prems by (simp_all add: ys hex_of_bytes_def)
  ultimately have "unat x div 16 = unat y div 16" "unat x mod 16 = unat y mod 16" "xs = ys'"
    using hex_digit_inject Cons.IH by blast+
  moreover from this have "unat x = unat y"
    by (metis div_mult_mod_eq)
  ultimately show ?case
    using unsigned_word_eqI by (auto simp: ys)
qed

lemma trim_idem: "trim (trim s) = trim s"
proof -
  have "dropWhile is_space (rtrim (dropWhile is_space s)) = rtrim (dropWhile is_space s)"
  proof (cases "rtrim (dropWhile is_space s)")
    case (Cons c cs)
    obtain n where "rtrim (dropWhile is_space s) = take n (dropWhile is_space s)"
      by (simp add: rtrim_def dropWhile_eq_drop) (metis rev_drop rev_rev_ident)
    with Cons have "c = hd (dropWhile is_space s)" and "dropWhile is_space s \<noteq> []"
      by (metis hd_take list.sel(1) take_eq_Nil list.distinct(1) neq0_conv, metis list.distinct(1) take_Nil)
    then have "\<not> is_space c"
      by (simp add: hd_dropWhile)
    with Cons show ?thesis
      by simp
  qed simp
  then show ?thesis
    by (simp add: trim_def ltrim_def) (simp add: rtrim_def)
qed

section \<open>SHA-1 values\<close>

definition SHA_LENGTH :: nat where "SHA_LENGTH = 20"

definition sha1_of_string :: "string \<Rightarrow> string result" where
  "sha1_of_string val =
     (if length val \<noteq> SHA_LENGTH then Inl (Invalid_argument ''sha1 size must be 20'')
      else Inr val)"

definition sha1_from_string :: "string \<Rightarrow> nat \<Rightarrow> string result" where
  "sha1_from_string buffer offset =
     (if offset + SHA_LENGTH > length buffer
      then Inl (Invalid_argument ''Buffer too small for extracting sha1'')
      else Inr (take SHA_LENGTH (drop offset buffer)))"

definition sha1_from_buffer :: "bytes \<Rightarrow> nat \<Rightarrow> string result" where
  "sha1_from_buffer buffer offset =
     (if offset + SHA_LENGTH > length buffer
      then Inl (Invalid_argument ''Buffer too small for extracting sha1'')
      else Inr (string_of_bytes (take SHA_LENGTH (drop offset buffer))))"

definition sha1_hex :: "string \<Rightarrow> string" where
  "sha1_hex s = hex_of_string s"

section \<open>Paths\<close>

text \<open>\<^verbatim>\<open>operator/\<close>: an absolute right operand replaces the left one.\<close>

definition path_append :: "string \<Rightarrow> string \<Rightarrow> string" where
  "path_append a b =
     (if starts_with ''/'' b then b
      else if a \<noteq> [] \<and> last a \<noteq> CHR ''/'' then a @ ''/'' @ b
      else a @ b)"

text \<open>\<^verbatim>\<open>parent_path\<close>: everything before the last separator; the root is its own parent.\<close>

definition parent_path :: "string \<Rightarrow> string" where
  "parent_path p =
     (let r = dropWhile (\<lambda>c. c \<noteq> CHR ''/'') (rev p);
          dir = rev (dropWhile (\<lambda>c. c = CHR ''/'') r)
      in if r = [] then [] else if dir = [] then ''/'' else dir)"

lemma path_append_absolute: "path_append a (CHR ''/'' # b) = CHR ''/'' # b"
  by (simp add: path_append_def starts_with_def)

lemma path_append_empty: "path_append [] b = b"
  by (simp add: path_append_def)

section \<open>Conversions of the standard library\<close>

text \<open>The value of a digit, of either case, in bases up to 36.\<close>

definition base_digit :: "char \<Rightarrow> nat option" where
  "base_digit c = (let n = of_char c :: nat in
     if 48 \<le> n \<and> n \<le> 57 then Some (n - 48)
     else if 97 \<le> n \<and> n \<le> 122 then Some (n - 87)
     else if 65 \<le> n \<and> n \<le> 90 then Some (n - 55)
     else None)"

definition is_base_digit :: "nat \<Rightarrow> char \<Rightarrow> bool" where
  "is_base_digit base c \<longleftrightarrow> (\<exists>d \<in> set_option (base_digit c). d < base)"

definition nat_of_base :: "nat \<Rightarrow> string \<Rightarrow> nat" where
  "nat_of_base base ds = foldl (\<lambda>n c. n * base + the (base_digit c)) 0 ds"

text \<open>
  \<^verbatim>\<open>std::stol\<close> with bases 10 and 16: white space, a sign, in base 16 an optional prefix,
  then the digits; what follows them is ignored.
\<close>

definition stol :: "nat \<Rightarrow> string \<Rightarrow> int result" where
  "stol base s =
     (let cs = dropWhile is_space s;
          neg = starts_with ''-'' cs;
          cs1 = (if neg \<or> starts_with ''+'' cs then tl cs else cs);
          hex = base = 16 \<and> (starts_with ''0x'' cs1 \<or> starts_with ''0X'' cs1) \<and> list_ex (is_base_digit 16) (take 1 (drop 2 cs1));
          ds = takeWhile (is_base_digit base) (if hex then drop 2 cs1 else cs1);
          v = (if neg then - int (nat_of_base base ds) else int (nat_of_base base ds))
      in
      if ds = [] then Inl (Invalid_argument ''stol'')
      else if v < - (2 ^ 63) \<or> 2 ^ 63 \<le> v then Inl (Out_of_range ''stol'')
      else Inr v)"

definition stoi :: "string \<Rightarrow> int result" where
  "stoi s =
     (case stol 10 s of
        Inl (Out_of_range _) \<Rightarrow> Inl (Out_of_range ''stoi'')
      | Inl _ \<Rightarrow> Inl (Invalid_argument ''stoi'')
      | Inr v \<Rightarrow> if v < - (2 ^ 31) \<or> 2 ^ 31 \<le> v then Inl (Out_of_range ''stoi'') else Inr v)"

text \<open>
  \<^verbatim>\<open>split\<close> with a one-character expression: what \<^verbatim>\<open>sregex_token_iterator\<close>
  yields between the matches.  Text after the last match counts only if there is some, unless there
  is no match at all.
\<close>

fun tokens :: "char \<Rightarrow> string \<Rightarrow> string list" where
  "tokens sep [] = [[]]"
| "tokens sep (c # cs) = (if c = sep then [] # tokens sep cs
     else case tokens sep cs of t # ts \<Rightarrow> (c # t) # ts | [] \<Rightarrow> [[c]])"

definition split :: "char \<Rightarrow> string \<Rightarrow> string list" where
  "split sep s = (let ts = tokens sep s in if length ts > 1 \<and> last ts = [] then butlast ts else ts)"

lemma is_base_digit_10: "is_base_digit 10 = is_digit"
  by (rule ext) (auto simp: is_base_digit_def base_digit_def is_digit_iff Let_def)

lemma base_digit_val: "is_digit c \<Longrightarrow> base_digit c = Some (digit_val c)"
  by (auto simp: base_digit_def is_digit_iff digit_val_def Let_def)

lemma nat_of_base_10: "\<forall>c \<in> set ds. is_digit c \<Longrightarrow> nat_of_base 10 ds = nat_of_dec ds"
proof -
  have "foldl (\<lambda>n c. n * 10 + the (base_digit c)) a ds = foldl (\<lambda>n c. n * 10 + digit_val c) a ds"
    if "\<forall>c \<in> set ds. is_digit c" for a
    using that by (induction ds arbitrary: a) (simp_all add: base_digit_val)
  then show "\<forall>c \<in> set ds. is_digit c \<Longrightarrow> ?thesis"
    by (simp add: nat_of_base_def nat_of_dec_def)
qed

lemma stol_digits:
  assumes "ds \<noteq> []" and "\<forall>c \<in> set ds. is_digit c" and "rest = [] \<or> \<not> is_digit (hd rest)"
  shows "stol 10 (ds @ rest) = (if nat_of_dec ds < 2 ^ 63 then Inr (int (nat_of_dec ds)) else Inl (Out_of_range ''stol''))"
proof -
  obtain d ds' where d: "ds = d # ds'" "is_digit d"
    using assms(1,2) by (cases ds) auto
  then have sign: "\<not> is_space d" "d \<noteq> CHR ''-''" "d \<noteq> CHR ''+''"
    by (auto simp: is_digit_iff is_space_def)
  have tw: "takeWhile is_digit (ds @ rest) = ds"
    using assms(2,3) by (cases rest) auto
  have "stol 10 (ds @ rest) = (let v = int (nat_of_base 10 (takeWhile is_digit (ds @ rest))) in
      if 2 ^ 63 \<le> v then Inl (Out_of_range ''stol'') else Inr v)"
    using d sign by (simp add: stol_def starts_with_def Let_def is_base_digit_10)
  then show ?thesis
    by (simp add: tw Let_def nat_of_base_10 [OF assms(2)] not_less)
qed

lemma stoi_digits:
  assumes "ds \<noteq> []" and "\<forall>c \<in> set ds. is_digit c"
  shows "stoi ds = (if nat_of_dec ds < 2 ^ 31 then Inr (int (nat_of_dec ds)) else Inl (Out_of_range ''stoi''))"
  using stol_digits [OF assms, of "[]"] by (simp add: stoi_def)

lemma tokens_nonempty [simp]: "tokens sep s \<noteq> []"
  by (induction s) (auto split: list.splits)

lemma tokens_no_sep: "sep \<notin> set s \<Longrightarrow> tokens sep s = [s]"
  by (induction s) auto

lemma tokens_append: "sep \<notin> set t \<Longrightarrow> tokens sep (t @ sep # s) = t # tokens sep s"
  by (induction t) auto

end
