(* ===== verification/Piece.thy ===== *)
theory Piece
  imports Bitfield Types
begin

text \<open>
  \<^verbatim>\<open>src/piece.hpp\<close>, \<^verbatim>\<open>src/piece.cpp\<close>: one piece of a torrent and the bookkeeping
  of its blocks.  Sizes, offsets and ids are 32 bit words, bit indices are \<open>nat\<close>.  Points in
  time are integers, the current time is an argument \<open>now\<close>, and time 0 is the epoch at which a
  default \<^verbatim>\<open>time_point\<close> stands.  The disk is reached through an argument \<open>read_block\<close>,
  the function \<^verbatim>\<open>FileWriter::read_block\<close> on the torrent.  Each operation holds the mutex
  of the piece and is one step; logging is left out.
\<close>

section \<open>State and operations\<close>

record piece =
  m_piece_size :: u32
  m_blocks_requested :: bitfield
  m_blocks_done :: bitfield
  m_id :: u32
  m_data :: bytes
  m_piece_written :: bool
  m_last_request :: int
  m_last_block :: int

definition m_block_size :: u32 where
  "m_block_size = push_bit 14 1"

text \<open>\<^verbatim>\<open>time_point::min()\<close> and \<^verbatim>\<open>30s\<close>, in the nanoseconds of \<^verbatim>\<open>system_clock\<close>.\<close>

definition time_min :: int where
  "time_min = - (2 ^ 63)"

definition seconds :: "int \<Rightarrow> int" where
  "seconds n = n * 1000000000"

definition block_count_of :: "u32 \<Rightarrow> u32" where
  "block_count_of sz = sz div m_block_size + (if sz mod m_block_size \<noteq> 0 then 1 else 0)"

definition block_count :: "piece \<Rightarrow> u32" where
  "block_count p = block_count_of (m_piece_size p)"

definition new_piece :: "u32 \<Rightarrow> u32 \<Rightarrow> piece" where
  "new_piece i sz =
     \<lparr>m_piece_size = sz,
      m_blocks_requested = bf_make (unat (block_count_of sz)),
      m_blocks_done = bf_make (unat (block_count_of sz)),
      m_id = i,
      m_data = bytes_resize [] (unat sz),
      m_piece_written = False,
      m_last_request = 0,
      m_last_block = 0\<rparr>"

definition next_offset :: "int \<Rightarrow> bool \<Rightarrow> piece \<Rightarrow> (u32 option \<times> piece) result" where
  "next_offset now mark p =
     bindE (bf_next (bf_add (m_blocks_requested p) (m_blocks_done p)) False 0) (\<lambda>nxt.
     case nxt of
       None \<Rightarrow> Inr (None, p)
     | Some n \<Rightarrow>
         (if n > unat (block_count p - 1) then Inr (None, p)
          else
            let p' = (if mark then p\<lparr>m_blocks_requested := bf_set (m_blocks_requested p) n True,
                                     m_last_request := now\<rparr> else p)
            in Inr (Some (of_nat n * m_block_size), p')))"

text \<open>\<^verbatim>\<open>ranges::copy(data, m_data.begin() + offset)\<close>.\<close>

definition copy_at :: "bytes \<Rightarrow> nat \<Rightarrow> bytes \<Rightarrow> bytes result" where
  "copy_at data offset dest =
     (if offset + length data \<le> length dest
      then Inr (take offset dest @ data @ drop (offset + length data) dest)
      else Inl (Undefined_behaviour ''copy past the end''))"

definition set_block :: "int \<Rightarrow> u32 \<Rightarrow> bytes \<Rightarrow> piece \<Rightarrow> (bool \<times> piece) result" where
  "set_block now offset data p =
     (if offset mod m_block_size \<noteq> 0 then Inl (Runtime_error ''Invalid block offset'')
      else if length data > unat m_block_size then Inl (Runtime_error ''Block too big'')
      else if length data + unat offset > unat (m_piece_size p)
      then Inl (Runtime_error ''Block overflows piece'')
      else
        let block_id = unat (offset div m_block_size) in
        bindE (bf_get (m_blocks_done p) block_id) (\<lambda>have.
        bindE
          (if have then Inr p
           else
             bindE (bf_get (m_blocks_requested p) block_id) (\<lambda>_.
             bindE (copy_at data (unat offset) (m_data p)) (\<lambda>d.
             Inr (p\<lparr>m_data := d, m_blocks_done := bf_set (m_blocks_done p) block_id True\<rparr>))))
        (\<lambda>p1.
        let p2 = p1\<lparr>m_last_block := now\<rparr> in
        bindE (bf_next (m_blocks_done p2) False 0) (\<lambda>nxt.
        Inr (case nxt of None \<Rightarrow> True | Some n \<Rightarrow> n \<ge> unat (block_count p2), p2)))))"

text \<open>
  \<open>piece_length\<close> is the piece length of the torrent; the file offset is computed in 32 bits.
\<close>

definition get_block ::
    "u32 \<Rightarrow> (u32 \<Rightarrow> u32 \<Rightarrow> bytes result) \<Rightarrow> u32 \<Rightarrow> u32 \<Rightarrow> piece \<Rightarrow> bytes result" where
  "get_block piece_length read_block offset len p =
     (if offset mod m_block_size \<noteq> 0 then Inl (Runtime_error ''Invalid block offset'')
      else if offset \<ge> m_piece_size p then Inl (Runtime_error ''Too large block offset'')
      else
        bindE (bf_get (m_blocks_done p) (unat (offset div m_block_size))) (\<lambda>have.
        if \<not> have then Inr []
        else
          let len' = (if len \<noteq> 0 then len else m_block_size) in
          if \<not> m_piece_written p then
            (if unat offset + unat len' \<le> length (m_data p)
             then Inr (take (unat len') (drop (unat offset) (m_data p)))
             else Inl (Undefined_behaviour ''get_block: read past the data''))
          else read_block (piece_length * m_id p + offset) len'))"

definition set_piece_written :: "bool \<Rightarrow> piece \<Rightarrow> piece" where
  "set_piece_written written p =
     p\<lparr>m_piece_written := written,
       m_blocks_done := foldl (\<lambda>bf i. bf_set bf i True) (m_blocks_done p) [0..<unat (block_count p)],
       m_data := []\<rparr>"

definition retry_blocks :: "int \<Rightarrow> piece \<Rightarrow> (nat \<times> piece) result" where
  "retry_blocks now p =
     (if m_piece_written p then Inr (0, p)
      else
        let last_activity = max (m_last_block p) (m_last_request p) in
        if last_activity = time_min then Inr (0, p)
        else
          bindE (if now - last_activity > seconds 30 then bf_next (m_blocks_requested p) True 0
                 else Inr None) (\<lambda>req.
          if req \<noteq> None then
            Inr (bf_count (bf_sub (m_blocks_requested p) (m_blocks_done p)),
                 p\<lparr>m_blocks_requested := bf_make (unat (block_count p))\<rparr>)
          else Inr (0, p)))"

definition reset_piece_data :: "piece \<Rightarrow> piece" where
  "reset_piece_data p =
     p\<lparr>m_blocks_requested := bf_make (unat (block_count p)),
       m_blocks_done := bf_make (unat (block_count p)),
       m_data := bytes_resize [] (unat (m_piece_size p)),
       m_piece_written := False\<rparr>"

section \<open>Arithmetic of blocks\<close>

lemma unat_block_size: "unat m_block_size = 16384"
  by (simp add: m_block_size_def)

lemma unat_block_count_of: "unat (block_count_of sz) = (unat sz + 16383) div 16384"
proof -
  have bs: "m_block_size = 16384"
    by (simp add: m_block_size_def)
  have "unat sz < 2 ^ LENGTH(32)"
    by (rule unsigned_less)
  then have "unat sz div 16384 < 2 ^ 18"
    by (simp add: div_less_iff_less_mult)
  moreover have "unat (sz div 16384) = unat sz div 16384" and "unat (sz mod 16384) = unat sz mod 16384"
    by (simp_all add: unat_div unat_mod)
  moreover have "sz mod 16384 = 0 \<longleftrightarrow> unat sz mod 16384 = 0"
    by (metis calculation(3) unat_eq_0)
  ultimately have "unat (block_count_of sz) = unat sz div 16384 + (if unat sz mod 16384 \<noteq> 0 then 1 else 0)"
    by (auto simp: block_count_of_def bs unat_word_ariths)
  also have "\<dots> = (unat sz + 16383) div 16384"
    using ceil_div [of 16384 "unat sz"] by simp
  finally show ?thesis .
qed

lemma unat_offset_div: "unat (offset div m_block_size) = unat offset div 16384"
  by (simp add: unat_div unat_block_size)

lemma offset_aligned_iff: "offset mod m_block_size = 0 \<longleftrightarrow> unat offset mod 16384 = 0"
  by (metis unat_block_size unat_eq_0 unat_mod)

section \<open>The invariant\<close>

abbreviation blocks :: "piece \<Rightarrow> nat" where
  "blocks p \<equiv> unat (block_count p)"

abbreviation is_done :: "piece \<Rightarrow> nat \<Rightarrow> bool" where
  "is_done p i \<equiv> bf_test (m_blocks_done p) i"

abbreviation is_requested :: "piece \<Rightarrow> nat \<Rightarrow> bool" where
  "is_requested p i \<equiv> bf_test (m_blocks_requested p) i"

text \<open>
  The two bitfields have the size made for the number of blocks, and the data buffer has the size
  of the piece, or it was released when every block was marked as done.
\<close>

definition piece_ok :: "piece \<Rightarrow> bool" where
  "piece_ok p \<longleftrightarrow>
     bf_size (m_blocks_done p) = bf_size (bf_make (blocks p))
     \<and> bf_size (m_blocks_requested p) = bf_size (bf_make (blocks p))
     \<and> (length (m_data p) = unat (m_piece_size p) \<or> (\<forall>i < blocks p. is_done p i))"

lemma blocks_of_size: "blocks p = (unat (m_piece_size p) + 16383) div 16384"
  by (simp add: block_count_def unat_block_count_of)

lemma block_index_less: "k < unat (m_piece_size p) \<Longrightarrow> k div 16384 < blocks p"
  unfolding blocks_of_size by (simp add: div_less_iff_less_mult div_mult_mod_eq)

lemma piece_ok_new: "piece_ok (new_piece i sz)"
  by (simp add: piece_ok_def new_piece_def block_count_def bytes_resize_def)

lemma piece_ok_inside:
  assumes "piece_ok p" and "i < blocks p"
  shows "i < bf_size (m_blocks_done p)" and "i < bf_size (m_blocks_requested p)"
  using assms bf_size_make_ge [of "blocks p"] by (simp_all add: piece_ok_def del: bf_size_make)

section \<open>Choosing the next block\<close>

definition free_block :: "piece \<Rightarrow> nat option" where
  "free_block p = List.find (\<lambda>i. \<not> is_requested p i \<and> \<not> is_done p i) [0..<blocks p]"

lemma find_upt_prefix:
  assumes "n \<le> m"
  shows "List.find P [0..<n] = (case List.find P [0..<m] of None \<Rightarrow> None | Some i \<Rightarrow> if i < n then Some i else None)"
proof -
  have "[0..<m] = [0..<n] @ [n..<m]"
    using assms upt_add_eq_append [of 0 n "m - n"] by simp
  moreover have "n \<le> i" if "List.find P [n..<m] = Some i" for i
    using that by (auto simp: find_Some_iff)
  moreover have "i < n" if "List.find P [0..<n] = Some i" for i
    using that by (auto simp: find_Some_iff)
  ultimately show ?thesis
    by (auto simp: find_append split: option.splits)
qed

lemma next_offset_eq:
  assumes "piece_ok p"
  shows "next_offset now mark p = Inr (case free_block p of
      None \<Rightarrow> (None, p)
    | Some i \<Rightarrow> (Some (of_nat i * m_block_size),
        if mark then p\<lparr>m_blocks_requested := bf_set (m_blocks_requested p) i True, m_last_request := now\<rparr>
        else p))"
proof (cases "blocks p = 0")
  case True
  then have "bf_size (bf_add (m_blocks_requested p) (m_blocks_done p)) = 0"
    using assms by (simp add: piece_ok_def bf_size_add)
  with True show ?thesis
    by (simp add: next_offset_def bf_next_find free_block_def)
next
  case False
  define sz where "sz = bf_size (bf_make (blocks p))"
  have sz: "bf_size (bf_add (m_blocks_requested p) (m_blocks_done p)) = sz" and le: "blocks p \<le> sz"
    using assms bf_size_make_ge [of "blocks p"] by (simp_all add: piece_ok_def bf_size_add sz_def del: bf_size_make)
  have "List.find (\<lambda>i. bf_test (bf_add (m_blocks_requested p) (m_blocks_done p)) i = False) [0..<sz]
      = List.find (\<lambda>i. \<not> is_requested p i \<and> \<not> is_done p i) [0..<sz]"
    using assms by (intro find_cong) (auto simp: bf_test_add piece_ok_def sz_def)
  moreover have "unat (block_count p - 1) = blocks p - 1"
    using False by (metis unat_eq_zero unat_minus_one)
  ultimately show ?thesis
    using False le
    by (auto simp: next_offset_def bf_next_find sz free_block_def find_upt_prefix [OF le] split: option.splits)
qed

section \<open>Storing a block\<close>

definition all_done :: "piece \<Rightarrow> bool" where
  "all_done p \<longleftrightarrow> (\<forall>i < blocks p. is_done p i)"

lemma no_gap_iff:
  assumes "blocks p \<le> bf_size (m_blocks_done p)"
  shows "(case List.find (\<lambda>i. bf_test (m_blocks_done p) i = False) [0..<bf_size (m_blocks_done p)] of
      None \<Rightarrow> True | Some n \<Rightarrow> n \<ge> blocks p) \<longleftrightarrow> all_done p"
proof -
  have "all_done p \<longleftrightarrow> List.find (\<lambda>i. bf_test (m_blocks_done p) i = False) [0..<blocks p] = None"
    by (auto simp: find_None_iff all_done_def)
  then show ?thesis
    using find_upt_prefix [OF assms] by (auto split: option.splits)
qed

definition store_block :: "int \<Rightarrow> nat \<Rightarrow> bytes \<Rightarrow> piece \<Rightarrow> piece" where
  "store_block now i data p =
     (if is_done p i then p
      else p\<lparr>m_data := take (i * 16384) (m_data p) @ data @ drop (i * 16384 + length data) (m_data p),
             m_blocks_done := bf_set (m_blocks_done p) i True\<rparr>)\<lparr>m_last_block := now\<rparr>"

lemma store_block_simps [simp]:
  "m_piece_size (store_block now i data p) = m_piece_size p"
  "m_id (store_block now i data p) = m_id p"
  "m_piece_written (store_block now i data p) = m_piece_written p"
  "m_blocks_requested (store_block now i data p) = m_blocks_requested p"
  "block_count (store_block now i data p) = block_count p"
  by (simp_all add: store_block_def block_count_def)

lemma is_done_store_block: "is_done (store_block now i data p) j \<longleftrightarrow> j = i \<or> is_done p j"
  by (auto simp: store_block_def bf_test_set)

lemma aligned_offset:
  assumes "offset mod m_block_size = 0"
  shows "unat offset = unat (offset div m_block_size) * 16384"
proof -
  have "unat offset mod 16384 = 0"
    using assms by (simp add: offset_aligned_iff)
  then show ?thesis
    by (simp add: unat_offset_div) (metis add_0_right div_mult_mod_eq)
qed

lemma set_block_Inr:
  assumes "piece_ok p" and "set_block now offset data p = Inr (b, p')"
  shows "unat (offset div m_block_size) < bf_size (m_blocks_done p)"
    and "offset mod m_block_size = 0" and "length data \<le> 16384"
    and "unat offset + length data \<le> unat (m_piece_size p)"
    and "p' = store_block now (unat (offset div m_block_size)) data p"
    and "b \<longleftrightarrow> all_done p'"
proof -
  define i where "i = unat (offset div m_block_size)"
  show al: "offset mod m_block_size = 0" and "length data \<le> 16384"
    and "unat offset + length data \<le> unat (m_piece_size p)"
    using assms(2) by (auto simp: set_block_def unat_block_size split: if_splits)
  show i: "unat (offset div m_block_size) < bf_size (m_blocks_done p)"
    using assms(2) by (auto simp: set_block_def Let_def bf_get_eq split: if_splits)
  show p': "p' = store_block now (unat (offset div m_block_size)) data p"
    using assms(2) i aligned_offset [OF al] unfolding set_block_def Let_def
    by (auto simp: result_simps bf_get_eq store_block_def copy_at_def add.commute split: if_splits)
  have "blocks p' \<le> bf_size (m_blocks_done p')"
    using assms(1) i bf_size_make_ge [of "blocks p"] unfolding p'
    by (auto simp: piece_ok_def store_block_def block_count_def simp del: bf_size_make)
  from no_gap_iff [OF this] show "b \<longleftrightarrow> all_done p'"
    using assms(2) unfolding set_block_def Let_def
    by (auto simp: result_simps bf_next_find split: if_splits)
qed

lemma set_block_accepts:
  assumes "piece_ok p" and "offset mod m_block_size = 0" and "length data \<le> 16384"
    and "unat offset + length data \<le> unat (m_piece_size p)"
    and "unat (offset div m_block_size) < blocks p"
  shows "set_block now offset data p
    = (let p' = store_block now (unat (offset div m_block_size)) data p in Inr (all_done p', p'))"
proof -
  define i where "i = unat (offset div m_block_size)"
  have off: "unat offset = i * 16384"
    using aligned_offset [OF assms(2)] by (simp add: i_def)
  have inside: "i < bf_size (m_blocks_done p)" "i < bf_size (m_blocks_requested p)"
    using piece_ok_inside [OF assms(1)] assms(5) by (simp_all add: i_def)
  have data: "length (m_data p) = unat (m_piece_size p)" if "\<not> is_done p i"
    using assms(1,5) that by (auto simp: piece_ok_def i_def)
  have "\<exists>b p'. set_block now offset data p = Inr (b, p')"
    using assms(2-4) inside data off unfolding set_block_def Let_def i_def [symmetric]
    by (auto simp: unat_block_size bf_get_eq copy_at_def bf_next_find)
  then obtain b p' where "set_block now offset data p = Inr (b, p')"
    by blast
  moreover from set_block_Inr(5,6) [OF assms(1) this] have "p' = store_block now i data p" "b = all_done p'"
    by (simp_all add: i_def)
  ultimately show ?thesis
    by (simp add: i_def Let_def)
qed

lemma piece_ok_set_block:
  assumes "piece_ok p" and "set_block now offset data p = Inr (b, p')"
  shows "piece_ok p'"
proof -
  note facts = set_block_Inr [OF assms]
  define i where "i = unat (offset div m_block_size)"
  have "unat offset = i * 16384"
    using aligned_offset [OF facts(2)] by (simp add: i_def)
  moreover have "bf_size (m_blocks_done (store_block now i data p)) = bf_size (m_blocks_done p)"
    using facts(1) by (simp add: store_block_def i_def)
  moreover have "length (m_data (store_block now i data p)) = length (m_data p)"
    if "length (m_data p) = unat (m_piece_size p)"
    using facts(4) that \<open>unat offset = i * 16384\<close> by (auto simp: store_block_def)
  ultimately show ?thesis
    using assms(1) unfolding facts(5) i_def [symmetric] by (auto simp: piece_ok_def is_done_store_block)
qed

section \<open>Reachable pieces\<close>

inductive piece_reach :: "u32 \<Rightarrow> u32 \<Rightarrow> piece \<Rightarrow> bool" for ident sz where
  start: "piece_reach ident sz (new_piece ident sz)"
| request: "piece_reach ident sz p \<Longrightarrow> next_offset now mark p = Inr (r, p') \<Longrightarrow> piece_reach ident sz p'"
| block: "piece_reach ident sz p \<Longrightarrow> set_block now offset data p = Inr (b, p') \<Longrightarrow> piece_reach ident sz p'"
| written: "piece_reach ident sz p \<Longrightarrow> piece_reach ident sz (set_piece_written w p)"
| retry: "piece_reach ident sz p \<Longrightarrow> retry_blocks now p = Inr (n, p') \<Longrightarrow> piece_reach ident sz p'"
| restart: "piece_reach ident sz p \<Longrightarrow> piece_reach ident sz (reset_piece_data p)"

lemma bf_set_all:
  "n \<le> bf_size bf \<Longrightarrow> bf_size (foldl (\<lambda>bf i. bf_set bf i True) bf [0..<n]) = bf_size bf
    \<and> (\<forall>i. bf_test (foldl (\<lambda>bf i. bf_set bf i True) bf [0..<n]) i \<longleftrightarrow> i < n \<or> bf_test bf i)"
  by (induction n) (auto simp: bf_test_set less_Suc_eq)

lemma set_piece_written_props:
  assumes "piece_ok p"
  shows "piece_ok (set_piece_written w p)" and "is_done (set_piece_written w p) i \<longleftrightarrow> i < blocks p \<or> is_done p i"
  using bf_set_all [of "blocks p" "m_blocks_done p"] assms bf_size_make_ge [of "blocks p"]
  by (auto simp: set_piece_written_def piece_ok_def block_count_def simp del: bf_size_make)

lemma retry_blocks_eq:
  "retry_blocks now p =
     (if \<not> m_piece_written p \<and> now - max (m_last_block p) (m_last_request p) > seconds 30
         \<and> max (m_last_block p) (m_last_request p) \<noteq> time_min \<and> bf_indices (m_blocks_requested p) \<noteq> {}
      then Inr (card ((bf_indices (m_blocks_requested p) - bf_indices (m_blocks_done p))
                  \<inter> {..<min (bf_size (m_blocks_requested p)) (bf_size (m_blocks_done p))}),
                p\<lparr>m_blocks_requested := bf_make (blocks p)\<rparr>)
      else Inr (0, p))"
  using bf_none_set_iff [of "m_blocks_requested p"]
  by (auto simp: retry_blocks_def Let_def bf_next_find bf_count_card bf_indices_sub)

lemma piece_ok_next_offset:
  assumes "piece_ok p" and "next_offset now mark p = Inr (r, p')"
  shows "piece_ok p' \<and> m_piece_size p' = m_piece_size p \<and> m_id p' = m_id p"
proof -
  have "i < bf_size (m_blocks_requested p)" if "free_block p = Some i" for i
    using that piece_ok_inside [OF assms(1)] by (auto simp: free_block_def find_Some_iff)
  then show ?thesis
    using assms by (auto simp: next_offset_eq [OF assms(1)] piece_ok_def block_count_def split: option.splits if_splits)
qed

lemma piece_reach_ok:
  "piece_reach ident sz p \<Longrightarrow> piece_ok p \<and> m_piece_size p = sz \<and> m_id p = ident"
proof (induction rule: piece_reach.induct)
  case start
  then show ?case
    using piece_ok_new by (simp add: new_piece_def)
next
  case (request p now mark r p')
  then show ?case
    using piece_ok_next_offset by metis
next
  case (block p now offset data b p')
  then show ?case
    using piece_ok_set_block set_block_Inr(5) by (metis store_block_simps(1,2))
next
  case (written p w)
  then show ?case
    using set_piece_written_props(1) by (simp add: set_piece_written_def)
next
  case (retry p now n p')
  then show ?case
    by (auto simp: retry_blocks_eq piece_ok_def block_count_def split: if_splits)
next
  case (restart p)
  then show ?case
    by (simp add: reset_piece_data_def piece_ok_def block_count_def bytes_resize_def)
qed

text \<open>
  In every piece that its operations can produce, the next block handed out is the first one
  neither requested nor stored; with \<open>mark\<close> it becomes requested, so that it is not handed out
  again until \<open>retry_blocks\<close> or \<open>reset\<close>; when there is none, nothing is returned and nothing
  changes.  The padding bits of the last byte are never handed out.
\<close>

theorem next_offset_first_free:
  assumes "piece_reach ident sz p"
  shows "next_offset now mark p = Inr
    (case List.find (\<lambda>i. \<not> is_requested p i \<and> \<not> is_done p i) [0..<(unat sz + 16383) div 16384] of
      None \<Rightarrow> (None, p)
    | Some i \<Rightarrow> (Some (of_nat i * m_block_size),
        if mark then p\<lparr>m_blocks_requested := bf_set (m_blocks_requested p) i True, m_last_request := now\<rparr>
        else p))"
  using piece_reach_ok [OF assms] next_offset_eq [of p now mark] by (simp add: free_block_def blocks_of_size)

theorem next_offset_first_free_witness:
  "fst (projr (next_offset 5 True (new_piece 3 40000))) = Some 0"
  using next_offset_first_free [OF piece_reach.start, of 5 True 3 40000]
  by (simp add: new_piece_def upt_rec m_block_size_def)

section \<open>Assembling a piece\<close>

text \<open>Block \<open>i\<close> of a piece content, and a sequence of blocks arriving at given times.\<close>

definition block_of :: "bytes \<Rightarrow> nat \<Rightarrow> bytes" where
  "block_of c i = take 16384 (drop (i * 16384) c)"

definition receive_block :: "bytes \<Rightarrow> int \<times> nat \<Rightarrow> bool \<times> piece \<Rightarrow> (bool \<times> piece) result" where
  "receive_block c e s = set_block (fst e) (of_nat (snd e) * m_block_size) (block_of c (snd e)) (snd s)"

definition holds_content :: "bytes \<Rightarrow> piece \<Rightarrow> bool" where
  "holds_content c p \<longleftrightarrow> piece_ok p \<and> length c = unat (m_piece_size p) \<and> length (m_data p) = length c
     \<and> (\<forall>k < length c. is_done p (k div 16384) \<longrightarrow> m_data p ! k = c ! k)"

lemma holds_content_complete:
  assumes "holds_content c p" and "all_done p"
  shows "m_data p = c"
proof (rule nth_equalityI)
  show "length (m_data p) = length c"
    using assms by (simp add: holds_content_def)
  fix k assume "k < length (m_data p)"
  then show "m_data p ! k = c ! k"
    using assms block_index_less [of k p] by (simp add: holds_content_def all_done_def)
qed

lemma block_offset:
  assumes "i < blocks p"
  shows "unat (of_nat i * m_block_size) = i * 16384"
    and "(of_nat i * m_block_size) mod m_block_size = 0"
    and "unat (of_nat i * m_block_size div m_block_size) = i"
    and "i * 16384 < unat (m_piece_size p)"
proof -
  have bound: "i * 16384 < unat (m_piece_size p)"
    using assms by (simp add: blocks_of_size less_eq_div_iff_mult_less_eq flip: Suc_le_eq)
  moreover have "unat (m_piece_size p) < 2 ^ LENGTH(32)"
    by (rule unsigned_less)
  ultimately have "i * 16384 < 2 ^ LENGTH(32)"
    by (rule less_trans)
  then show u: "unat (of_nat i * m_block_size) = i * 16384"
    using unat_of_nat_less [of "i * 16384", where 'a = 32] by (simp add: m_block_size_def)
  show "(of_nat i * m_block_size) mod m_block_size = 0"
    by (simp add: offset_aligned_iff u)
  show "unat (of_nat i * m_block_size div m_block_size) = i"
    by (simp add: unat_offset_div u)
  show "i * 16384 < unat (m_piece_size p)"
    by (rule bound)
qed

lemma receive_block_eq:
  assumes "holds_content c p" and "snd e < blocks p"
  shows "\<exists>p'. receive_block c e (b, p) = Inr (all_done p', p') \<and> holds_content c p' \<and> blocks p' = blocks p
    \<and> m_piece_size p' = m_piece_size p \<and> (\<forall>j. is_done p' j \<longleftrightarrow> j = snd e \<or> is_done p j)"
proof -
  define i where "i = snd e"
  define p' where "p' = store_block (fst e) i (block_of c i) p"
  have i: "i < blocks p"
    using assms(2) by (simp add: i_def)
  note off = block_offset [OF i]
  have ok: "piece_ok p" and len: "length c = unat (m_piece_size p)" "length (m_data p) = length c"
    using assms(1) by (simp_all add: holds_content_def)
  have blk: "length (block_of c i) \<le> 16384" "i * 16384 + length (block_of c i) \<le> unat (m_piece_size p)"
    using off(4) len by (auto simp: block_of_def)
  have eq: "receive_block c e (b, p) = Inr (all_done p', p')"
    using set_block_accepts [OF ok off(2), of "block_of c i" "fst e"] blk i
    by (simp add: receive_block_def off i_def [symmetric] p'_def Let_def)
  have data: "m_data p' ! k = c ! k" if k: "k < length c" and d: "is_done p' (k div 16384)" for k
  proof (cases "is_done p i")
    case True
    then show ?thesis
      using assms(1) that by (auto simp: p'_def is_done_store_block holds_content_def) (auto simp: store_block_def)
  next
    case False
    then have m: "m_data p' = take (i * 16384) (m_data p) @ block_of c i @ drop (i * 16384 + length (block_of c i)) (m_data p)"
      by (simp add: p'_def store_block_def)
    show ?thesis
    proof (cases "k div 16384 = i")
      case True
      then have "i * 16384 \<le> k" and "k < i * 16384 + 16384"
        using div_mult_mod_eq [of k 16384] mod_less_divisor [of 16384 k] by linarith+
      then have "k - i * 16384 < 16384" and "k - i * 16384 < length c - i * 16384"
        using k by linarith+
      then show ?thesis
        using k len off(4) \<open>i * 16384 \<le> k\<close> by (simp add: m nth_append block_of_def)
    next
      case other: False
      then have "k < i * 16384 \<or> i * 16384 + 16384 \<le> k"
        using less_eq_div_iff_mult_less_eq [of 16384 "Suc i" k] div_less_iff_less_mult [of 16384 k i] by auto
      moreover have "m_data p ! k = c ! k"
        using assms(1) k d other by (auto simp: p'_def is_done_store_block holds_content_def)
      ultimately show ?thesis
        using k len off(4) blk by (auto simp: m nth_append)
    qed
  qed
  have "piece_ok p'"
    using piece_ok_set_block [OF ok] eq by (auto simp: receive_block_def)
  moreover have "length (m_data p') = length c"
    using blk len by (auto simp: p'_def store_block_def)
  ultimately have "holds_content c p'"
    using data len by (simp add: holds_content_def p'_def)
  with eq show ?thesis
    by (auto simp: p'_def is_done_store_block i_def)
qed

lemma receive_blocks_fold:
  assumes "holds_content c p" and "\<forall>e \<in> set evs. snd e < blocks p"
  shows "\<exists>p'. foldE (receive_block c) evs (all_done p, p) = Inr (all_done p', p') \<and> holds_content c p'
    \<and> blocks p' = blocks p \<and> (\<forall>j. is_done p' j \<longleftrightarrow> j \<in> snd ` set evs \<or> is_done p j)"
  using assms
proof (induction evs arbitrary: p)
  case (Cons e evs)
  obtain p1 where p1: "receive_block c e (all_done p, p) = Inr (all_done p1, p1)" "holds_content c p1"
    "blocks p1 = blocks p" "\<forall>j. is_done p1 j \<longleftrightarrow> j = snd e \<or> is_done p j"
    using receive_block_eq [of c p e "all_done p"] Cons.prems by auto
  then show ?case
    using Cons.IH [of p1] Cons.prems(2) by auto
qed auto

text \<open>
  C12.  A piece started afresh that receives blocks of a content, in any order and with any
  repetitions, at any times, never fails; the last call reports completion exactly when every block
  has arrived, and the data is then the content.
\<close>

theorem piece_assembly:
  assumes "length c = unat sz" and "evs \<noteq> []" and "\<forall>e \<in> set evs. snd e < (unat sz + 16383) div 16384"
  shows "\<exists>p b. foldE (receive_block c) evs (False, new_piece ident sz) = Inr (b, p)
    \<and> (b \<longleftrightarrow> {..<(unat sz + 16383) div 16384} \<subseteq> snd ` set evs) \<and> (b \<longrightarrow> m_data p = c)"
proof -
  define p0 where "p0 = new_piece ident sz"
  have n: "blocks p0 = (unat sz + 16383) div 16384"
    by (simp add: p0_def blocks_of_size) (simp add: new_piece_def)
  have none: "\<not> is_done p0 j" for j
    by (simp add: p0_def new_piece_def)
  have h: "holds_content c p0"
    using assms(1) none piece_ok_new [of ident sz] by (simp add: holds_content_def p0_def)
      (simp add: new_piece_def bytes_resize_def)
  have "\<not> all_done p0"
    using assms(2,3) none n by (cases evs) (auto simp: all_done_def)
  then obtain p' where p': "foldE (receive_block c) evs (False, p0) = Inr (all_done p', p')" "holds_content c p'"
    "blocks p' = blocks p0" "\<forall>j. is_done p' j \<longleftrightarrow> j \<in> snd ` set evs \<or> is_done p0 j"
    using receive_blocks_fold [OF h, of evs] assms(3) n by auto
  moreover have "all_done p' \<longleftrightarrow> {..<blocks p0} \<subseteq> snd ` set evs"
    using p' none by (auto simp: all_done_def)
  ultimately show ?thesis
    using holds_content_complete by (auto simp: p0_def [symmetric] n)
qed

theorem piece_assembly_witness:
  "\<exists>p b. foldE (receive_block (replicate 20000 7)) [(5, 1), (6, 1), (7, 0)] (False, new_piece 2 20000) = Inr (b, p)
    \<and> b \<and> m_data p = replicate 20000 7"
  using piece_assembly [of "replicate 20000 7" 20000 "[(5, 1), (6, 1), (7, 0)]" 2]
  by (auto simp: lessThan_nat_numeral lessThan_Suc)

section \<open>Serving and retrying blocks\<close>

text \<open>
  A stored block of a piece still in memory is served as the slice of the data, as long as
  the slice lies inside the piece; the length asked for is not checked, so a longer one reads past
  the end of the buffer, and so does the default length for a last block shorter than the others.
\<close>

theorem get_block_in_memory:
  assumes "piece_reach ident sz p" and "\<not> m_piece_written p" and "length (m_data p) = unat sz"
    and "offset mod m_block_size = 0" and "offset < sz" and "is_done p (unat (offset div m_block_size))"
  shows "get_block piece_length read_block offset len p =
    (let n = unat (if len = 0 then m_block_size else len) in
     if unat offset + n \<le> unat sz then Inr (take n (drop (unat offset) (m_data p)))
     else Inl (Undefined_behaviour ''get_block: read past the data''))"
proof -
  have "m_piece_size p = sz"
    using piece_reach_ok [OF assms(1)] by simp
  moreover have "unat (offset div m_block_size) < bf_size (m_blocks_done p)"
    using assms(6) by (simp add: bf_test_def)
  ultimately show ?thesis
    using assms by (simp add: get_block_def bf_get_eq Let_def not_le)
qed

theorem get_block_in_memory_witness:
  "get_block 16384 (\<lambda>_ _. Inr []) 0 20 (snd (projr (set_block 1 0 (replicate 10 7) (new_piece 0 10))))
   = Inl (Undefined_behaviour ''get_block: read past the data'')"
proof -
  define p where "p = store_block 1 0 (replicate 10 7) (new_piece 0 10)"
  have "set_block 1 0 (replicate 10 7) (new_piece 0 10) = Inr (all_done p, p)"
    using set_block_accepts [of "new_piece 0 10" 0 "replicate 10 7" 1] piece_ok_new [of 0 10]
    by (simp add: p_def Let_def blocks_of_size) (simp add: new_piece_def)
  moreover from this have "piece_reach 0 10 p"
    by (rule piece_reach.block [OF piece_reach.start])
  moreover have "\<not> m_piece_written p" "length (m_data p) = 10" "is_done p 0"
    by (simp_all add: p_def is_done_store_block)
      (simp_all add: store_block_def new_piece_def bytes_resize_def)
  ultimately show ?thesis
    using get_block_in_memory [of 0 10 p 0 16384 "\<lambda>_ _. Inr []" 20] by simp
qed

text \<open>
  \<open>retry_blocks\<close> acts only on an unwritten piece with requested blocks and no activity for
  more than 30 seconds: it returns how many blocks were requested and not stored and makes every
  request forgotten, so that those blocks are handed out again; stored blocks and data are kept.
\<close>

theorem retry_blocks_releases:
  assumes "piece_reach ident sz p" and "retry_blocks now p = Inr (n, p')"
  shows "m_blocks_done p' = m_blocks_done p \<and> m_data p' = m_data p
    \<and> (if \<not> m_piece_written p \<and> now - max (m_last_block p) (m_last_request p) > seconds 30
           \<and> max (m_last_block p) (m_last_request p) \<noteq> time_min \<and> (\<exists>i. is_requested p i)
       then n = card {i. is_requested p i \<and> \<not> is_done p i} \<and> (\<forall>i. \<not> is_requested p' i)
       else n = 0 \<and> p' = p)"
proof -
  have "bf_size (m_blocks_requested p) = bf_size (m_blocks_done p)"
    using piece_reach_ok [OF assms(1)] by (simp add: piece_ok_def)
  then have "(bf_indices (m_blocks_requested p) - bf_indices (m_blocks_done p))
      \<inter> {..<min (bf_size (m_blocks_requested p)) (bf_size (m_blocks_done p))}
    = {i. is_requested p i \<and> \<not> is_done p i}"
    by (auto simp: bf_indices_def bf_test_def)
  then have card: "card ((bf_indices (m_blocks_requested p) - bf_indices (m_blocks_done p))
      \<inter> {..<min (bf_size (m_blocks_requested p)) (bf_size (m_blocks_done p))})
    = card {i. is_requested p i \<and> \<not> is_done p i}"
    by (rule arg_cong)
  have some: "bf_indices (m_blocks_requested p) \<noteq> {} \<longleftrightarrow> (\<exists>i. is_requested p i)"
    by (auto simp: bf_indices_def)
  show ?thesis
    using assms(2) unfolding retry_blocks_eq card some by (simp only: split: if_splits) auto
qed

theorem retry_blocks_releases_witness:
  "\<exists>n p'. retry_blocks (seconds 40) (new_piece 0 10) = Inr (n, p') \<and> n = 0 \<and> p' = new_piece 0 10"
proof -
  have "\<exists>n p'. retry_blocks (seconds 40) (new_piece 0 10) = Inr (n, p')"
    by (simp add: retry_blocks_eq)
  then obtain n p' where "retry_blocks (seconds 40) (new_piece 0 10) = Inr (n, p')"
    by blast
  with retry_blocks_releases [OF piece_reach.start this] show ?thesis
    by (simp add: new_piece_def)
qed

end
