(* ===== verification/Metainfo.thy ===== *)
theory Metainfo
  imports Bencode Text
begin

text \<open>
  The metainfo part of \<^verbatim>\<open>src/torrent.hpp\<close> and \<^verbatim>\<open>src/torrent.cpp\<close>: what the
  constructor of \<^verbatim>\<open>Torrent\<close> reads from a decoded torrent file, the layout of the files
  of a torrent in one stream of bytes, and the registry of torrents.  The SHA-1 digest is the
  parameter \<open>sha1\<close>.  64 bit lengths are integers; their sums are not wrapped.  The peer id,
  the ports and the check of existing files, the rest of the constructor, are in \<open>Client\<close>.
\<close>

section \<open>The data of a torrent file\<close>

record file_info =
  fi_length :: int
  fi_path :: string
  fi_md5sum :: string

record metainfo =
  m_announce :: string
  m_announce_list :: "string list list"
  m_creation_date :: int
  m_comment :: string
  m_created_by :: string
  m_encoding :: string
  m_piece_length :: u32
  m_pieces :: "string list"
  m_private :: bool
  m_name :: string
  m_length :: int
  m_md5sum :: string
  m_files :: "file_info list"
  m_info_hash :: string
  m_tmpfile :: string

definition tmpfileExtension :: string where
  "tmpfileExtension = ''.zit_downloading''"

definition beDictToFileInfo :: "elem \<Rightarrow> file_info result" where
  "beDictToFileInfo element =
     bindE (to_dict element) (\<lambda>dict.
     bindE (if map_of dict ''md5sum'' \<noteq> None then bindE (smap_at dict ''md5sum'') to_str else Inr []) (\<lambda>md5.
     bindE (bindE (smap_at dict ''path'') to_list) (\<lambda>path_list.
     bindE (foldE (\<lambda>b a. bindE (to_str b) (\<lambda>s. Inr (path_append a s))) path_list []) (\<lambda>path.
     bindE (bindE (smap_at dict ''length'') to_int) (\<lambda>len.
     Inr \<lparr>fi_length = len, fi_path = path, fi_md5sum = md5\<rparr>)))))"

definition opt_field :: "(string, elem) smap \<Rightarrow> string \<Rightarrow> (elem \<Rightarrow> 'a result) \<Rightarrow> 'a \<Rightarrow> 'a result" where
  "opt_field d k f dflt = (if map_of d k \<noteq> None then bindE (smap_at d k) f else Inr dflt)"

fun sha1_chunks :: "string \<Rightarrow> nat list \<Rightarrow> string list result" where
  "sha1_chunks s [] = Inr []"
| "sha1_chunks s (i # is) =
     bindE (sha1_from_string s i) (\<lambda>h. bindE (sha1_chunks s is) (\<lambda>hs. Inr (h # hs)))"

text \<open>
  The body of the constructor up to the scan of existing files, in its order, so that the first
  exception is the one thrown.
\<close>

definition parse_torrent :: "(string \<Rightarrow> string) \<Rightarrow> string \<Rightarrow> string \<Rightarrow> metainfo result" where
  "parse_torrent sha1 data_dir text =
     bindE (bindE (be_decode text) to_dict) (\<lambda>root.
     bindE (ensure (map_of root ''announce'' \<noteq> None)
       (Runtime_error ''Zit does not currently support torrents without the announce field'')) (\<lambda>_.
     bindE (bindE (smap_at root ''announce'') to_str) (\<lambda>announce.
     bindE (bindE (smap_at root ''info'') to_dict) (\<lambda>info.
     bindE (bindE (smap_at info ''name'') to_str) (\<lambda>nm.
     let name = path_append data_dir nm in
     bindE (bindE (smap_at info ''pieces'') to_str) (\<lambda>pieces.
     bindE (ensure (length pieces mod 20 = 0) (Runtime_error ''Unexpected pieces length'')) (\<lambda>_.
     bindE (sha1_chunks pieces (map (\<lambda>k. k * 20) [0..<length pieces div 20])) (\<lambda>hashes.
     bindE (bindE (smap_at info ''piece length'') to_int) (\<lambda>pl.
     bindE (numeric_cast uint32_t int64_t pl) (\<lambda>piece_len.
     bindE (opt_field info ''length'' to_int 0) (\<lambda>len.
     bindE (if map_of info ''files'' \<noteq> None then
              bindE (ensure (len = 0) (Runtime_error ''Invalid torrent: dual mode'')) (\<lambda>_.
              bindE (bindE (smap_at info ''files'') to_list) (mapE beDictToFileInfo))
            else Inr []) (\<lambda>files.
     bindE (ensure (\<not> (len = 0 \<and> files = [])) (Runtime_error ''Invalid torrent: no mode'')) (\<lambda>_.
     bindE (opt_field root ''creation date'' to_int 0) (\<lambda>created.
     bindE (opt_field root ''comment'' to_str []) (\<lambda>comment.
     bindE (opt_field root ''created by'' to_str []) (\<lambda>by_whom.
     bindE (opt_field root ''encoding'' to_str []) (\<lambda>enc.
     bindE (opt_field root ''md5sum'' to_str []) (\<lambda>md5.
     bindE (opt_field root ''private'' (\<lambda>e. bindE (to_int e) (\<lambda>i. Inr (i = 1))) False) (\<lambda>priv.
     bindE (opt_field root ''announce-list''
              (\<lambda>e. bindE (to_list e) (mapE (\<lambda>tier. bindE (to_list tier) (mapE to_str)))) []) (\<lambda>tiers.
     Inr \<lparr>m_announce = announce, m_announce_list = tiers, m_creation_date = created,
          m_comment = comment, m_created_by = by_whom, m_encoding = enc,
          m_piece_length = of_int piece_len, m_pieces = hashes, m_private = priv,
          m_name = name, m_length = len, m_md5sum = md5, m_files = files,
          m_info_hash = sha1 (be_encode (BeDict info)),
          m_tmpfile = name @ tmpfileExtension\<rparr>))))))))))))))))))))"

section \<open>Lengths and positions\<close>

definition is_single_file :: "metainfo \<Rightarrow> bool" where
  "is_single_file t \<longleftrightarrow> m_length t \<noteq> 0"

definition torrent_length :: "metainfo \<Rightarrow> int" where
  "torrent_length t =
     (if is_single_file t then m_length t else foldl (\<lambda>a b. a + fi_length b) 0 (m_files t))"

text \<open>The remainder of C++, with the sign of the dividend; a divisor 0 is undefined.\<close>

definition c_rem :: "int \<Rightarrow> int \<Rightarrow> int result" where
  "c_rem a b =
     (if b = 0 then Inl (Undefined_behaviour ''division by zero'')
      else Inr (if a < 0 then - ((- a) mod b) else a mod b))"

definition piece_length_at :: "metainfo \<Rightarrow> u32 \<Rightarrow> u32 result" where
  "piece_length_at t i =
     (if unat i = size_sub (length (m_pieces t)) 1 then
        bindE (bindE (c_rem (torrent_length t) (uint (m_piece_length t))) (numeric_cast uint32_t int64_t)) (\<lambda>r.
        Inr (if r \<noteq> 0 then of_int r else m_piece_length t))
      else Inr (m_piece_length t))"

fun file_in_list :: "file_info list \<Rightarrow> int \<Rightarrow> int \<Rightarrow> (file_info \<times> int \<times> int) result" where
  "file_in_list [] cpos pos = Inl (Runtime_error ''pos > torrent size'')"
| "file_in_list (fi # fis) cpos pos =
     (if pos < cpos + fi_length fi then Inr (fi, pos - cpos, cpos + fi_length fi - pos)
      else file_in_list fis (cpos + fi_length fi) pos)"

definition file_at_pos :: "metainfo \<Rightarrow> int \<Rightarrow> (file_info \<times> int \<times> int) result" where
  "file_at_pos t pos =
     (if is_single_file t then
        Inr (\<lparr>fi_length = torrent_length t, fi_path = m_tmpfile t, fi_md5sum = m_md5sum t\<rparr>,
             pos, torrent_length t - pos)
      else file_in_list (m_files t) 0 pos)"

text \<open>The registry of torrents, keyed by info hash; a torrent is a reference \<open>'r\<close>.\<close>

definition torrents_insert :: "string \<Rightarrow> 'r \<Rightarrow> (string, 'r) smap \<Rightarrow> (string, 'r) smap result" where
  "torrents_insert h t reg =
     (if map_of reg h \<noteq> None then Inl (Runtime_error ''Torrent already exists'')
      else Inr (smap_put h t reg))"

definition torrents_erase :: "string \<Rightarrow> (string, 'r) smap \<Rightarrow> (string, 'r) smap" where
  "torrents_erase h reg = smap_del h reg"

definition torrents_get :: "string \<Rightarrow> (string, 'r) smap \<Rightarrow> 'r option" where
  "torrents_get h reg = map_of reg h"

definition torrents_count :: "(string, 'r) smap \<Rightarrow> nat" where
  "torrents_count reg = length reg"

section \<open>What a parsed torrent satisfies\<close>

lemma sha1_chunks_length:
  "sha1_chunks s is = Inr hs \<Longrightarrow> length hs = length is \<and> (\<forall>h \<in> set hs. length h = 20)"
  by (induction "is" arbitrary: hs) (auto simp: result_simps sha1_from_string_def SHA_LENGTH_def split: if_splits)

lemma numeric_cast_u32:
  assumes "numeric_cast uint32_t int64_t v = Inr r" and "ity_has int64_t v"
  shows "r = v" and "0 \<le> v" and "v < 2 ^ 32"
proof -
  have "static_cast uint64_t v = v" if "0 \<le> v"
    using assms(2) that by (simp add: static_cast_def ity_has_def ity_max_def ity_min_def take_bit_int_eq_self)
  then have "0 \<le> v \<and> v \<le> ity_max uint32_t \<and> r = static_cast uint32_t v"
    using assms(1) by (auto simp: numeric_cast_def make_unsigned_def split: if_splits)
  then show "r = v" and "0 \<le> v" and "v < 2 ^ 32"
    by (simp_all add: static_cast_def ity_max_def take_bit_int_eq_self)
qed

text \<open>
  C29.  A torrent file that is accepted has hashes of 20 bytes only, is in exactly one of the
  single-file and multi-file modes, downloads under its name with the suffix, and is identified
  by the digest of the re-encoded \<open>info\<close> dictionary of the decoded file.
\<close>

theorem parse_torrent_ok:
  assumes "parse_torrent sha1 data_dir text = Inr t"
  shows "(\<forall>h \<in> set (m_pieces t). length h = 20)
    \<and> (m_length t \<noteq> 0 \<longleftrightarrow> m_files t = [])
    \<and> m_tmpfile t = m_name t @ tmpfileExtension
    \<and> (\<exists>root info nm. be_decode text = Inr (BeDict root) \<and> map_of root ''info'' = Some (BeDict info)
        \<and> map_of info ''name'' = Some (BeStr nm) \<and> m_name t = path_append data_dir nm
        \<and> m_info_hash t = sha1 (be_encode (BeDict info)))"
proof -
  have str: "to_str e = Inr s \<longleftrightarrow> e = BeStr s" and dict: "to_dict e = Inr m \<longleftrightarrow> e = BeDict m" for e s m
    by (cases e; simp)+
  show ?thesis
    using assms unfolding parse_torrent_def Let_def
    by (auto simp: result_simps str dict dest: sha1_chunks_length split: if_splits)
qed

definition sample_info :: "(string \<times> elem) list" where
  "sample_info = [(''length'', BeInt 40000), (''name'', BeStr ''f''),
     (''piece length'', BeInt 32768), (''pieces'', BeStr (replicate 40 (CHR ''x'')))]"

definition sample_root :: "(string \<times> elem) list" where
  "sample_root = [(''announce'', BeStr ''u''), (''info'', BeDict sample_info)]"

definition sample_meta :: metainfo where
  "sample_meta =
    \<lparr>m_announce = ''u'', m_announce_list = [], m_creation_date = 0, m_comment = [], m_created_by = [],
     m_encoding = [], m_piece_length = 32768, m_pieces = [replicate 20 (CHR ''x''), replicate 20 (CHR ''x'')],
     m_private = False, m_name = ''d/f'', m_length = 40000, m_md5sum = [], m_files = [],
     m_info_hash = ''h'', m_tmpfile = ''d/f.zit_downloading''\<rparr>"

lemma sample_parses:
  "parse_torrent (\<lambda>_. ''h'') ''d'' (be_encode (BeDict sample_root)) = Inr sample_meta"
proof -
  have "be_decode (be_encode (BeDict sample_root)) = Inr (BeDict sample_root)"
    using decode_internal_encode [of "BeDict sample_root" 0 "[]"]
    by (simp add: be_decode_def sample_root_def sample_info_def smap_ok_def MAX_STRING_LENGTH_def
        RECURSION_LIMIT_def ity_has_def ity_min_def ity_max_def del: be_encode.simps)
  moreover have "numeric_cast uint32_t int64_t 32768 = Inr 32768"
    by (rule numeric_cast_u32_exact) simp_all
  moreover have "map (\<lambda>k. k * 20) [0..<40 div 20] = [0, 20::nat]"
    by (simp add: upt_rec)
  ultimately show ?thesis
    unfolding parse_torrent_def Let_def
    by (simp add: sample_root_def sample_info_def smap_at_def sha1_from_string_def SHA_LENGTH_def
        opt_field_def path_append_def starts_with_def tmpfileExtension_def sample_meta_def del: be_encode.simps)
qed

theorem parse_torrent_ok_witness:
  "\<exists>t. parse_torrent (\<lambda>_. ''h'') ''d'' (be_encode (BeDict sample_root)) = Inr t
    \<and> (m_length t \<noteq> 0 \<longleftrightarrow> m_files t = []) \<and> m_tmpfile t = m_name t @ tmpfileExtension"
  using parse_torrent_ok [OF sample_parses] sample_parses by blast

section \<open>Where the bytes of a torrent are\<close>

definition files_length :: "file_info list \<Rightarrow> int" where
  "files_length fis = sum_list (map fi_length fis)"

lemma foldl_files_length: "foldl (\<lambda>a b. a + fi_length b) c fis = c + files_length fis"
  by (induction fis arbitrary: c) (simp_all add: files_length_def)

lemma files_length_nonneg: "\<forall>fi \<in> set fis. 0 \<le> fi_length fi \<Longrightarrow> 0 \<le> files_length fis"
  by (induction fis) (auto simp: files_length_def)

text \<open>\<open>located fis i off pos\<close>: position \<open>pos\<close> of the stream is byte \<open>off\<close> of file \<open>i\<close>.\<close>

definition located :: "file_info list \<Rightarrow> nat \<Rightarrow> int \<Rightarrow> int \<Rightarrow> bool" where
  "located fis i off pos \<longleftrightarrow> i < length fis \<and> 0 \<le> off \<and> off < fi_length (fis ! i)
     \<and> pos = files_length (take i fis) + off"

lemma file_in_list_located:
  assumes "\<forall>fi \<in> set fis. 0 \<le> fi_length fi" and "c \<le> pos"
  shows "if pos < c + files_length fis
    then \<exists>i off. located fis i off (pos - c) \<and> file_in_list fis c pos = Inr (fis ! i, off, fi_length (fis ! i) - off)
    else file_in_list fis c pos = Inl (Runtime_error ''pos > torrent size'')"
  using assms
proof (induction fis arbitrary: c)
  case Nil
  then show ?case
    by (simp add: files_length_def)
next
  case (Cons fi fis)
  show ?case
  proof (cases "pos < c + fi_length fi")
    case True
    then have "located (fi # fis) 0 (pos - c) (pos - c)"
      using Cons.prems by (simp add: located_def files_length_def)
    moreover have "pos < c + files_length (fi # fis)"
      using True files_length_nonneg [of fis] Cons.prems by (simp add: files_length_def)
    ultimately show ?thesis
      using True by (auto intro!: exI [of _ 0] exI [of _ "pos - c"])
  next
    case False
    have len: "c + files_length (fi # fis) = (c + fi_length fi) + files_length fis"
      by (simp add: files_length_def)
    have up: "located (fi # fis) (Suc i) off (pos - c)" if "located fis i off (pos - (c + fi_length fi))" for i off
      using that by (auto simp: located_def files_length_def)
    show ?thesis
      using Cons.IH [of "c + fi_length fi"] Cons.prems False up unfolding len
      by (auto split: if_splits) (metis nth_Cons_Suc)
  qed
qed

text \<open>
  In a multi-file torrent, \<open>file_at_pos\<close> finds for every position inside the torrent the
  file that holds it, the offset in that file and the number of bytes from there to its end, and
  throws for a position past the end.  Empty files are skipped.
\<close>

theorem file_at_pos_locates:
  assumes "m_length t = 0" and "\<forall>fi \<in> set (m_files t). 0 \<le> fi_length fi" and "0 \<le> pos"
  shows "if pos < torrent_length t
    then \<exists>i off. located (m_files t) i off pos
      \<and> file_at_pos t pos = Inr (m_files t ! i, off, fi_length (m_files t ! i) - off)
    else file_at_pos t pos = Inl (Runtime_error ''pos > torrent size'')"
  using file_in_list_located [OF assms(2), of 0 pos] assms(1,3)
  by (cases "pos < torrent_length t")
    (simp_all add: file_at_pos_def torrent_length_def is_single_file_def foldl_files_length)

definition sample_files :: "file_info list" where
  "sample_files = [\<lparr>fi_length = 3, fi_path = ''a'', fi_md5sum = []\<rparr>,
     \<lparr>fi_length = 0, fi_path = ''b'', fi_md5sum = []\<rparr>, \<lparr>fi_length = 5, fi_path = ''c'', fi_md5sum = []\<rparr>]"

definition sample_multi :: metainfo where
  "sample_multi = sample_meta\<lparr>m_length := 0, m_files := sample_files, m_piece_length := 4\<rparr>"

theorem file_at_pos_locates_witness:
  "\<exists>i off. located sample_files i off 4
    \<and> file_at_pos sample_multi 4 = Inr (sample_files ! i, off, fi_length (sample_files ! i) - off)"
  using file_at_pos_locates [of sample_multi 4]
  by (simp add: sample_multi_def sample_files_def torrent_length_def is_single_file_def)

text \<open>The pieces fit the torrent: their number is the length by the piece length, rounded up.\<close>

definition pieces_fit :: "metainfo \<Rightarrow> bool" where
  "pieces_fit t \<longleftrightarrow> length (m_pieces t) \<le> 2 ^ 32 \<and> torrent_length t < 2 ^ 63
     \<and> int (length (m_pieces t) - 1) * uint (m_piece_length t) < torrent_length t
     \<and> torrent_length t \<le> int (length (m_pieces t)) * uint (m_piece_length t)"

lemma piece_tiles:
  assumes "i < length (m_pieces t)" and "length (m_pieces t) \<le> 2 ^ 32" and "torrent_length t < 2 ^ 63"
    and "int (length (m_pieces t) - 1) * uint (m_piece_length t) < torrent_length t"
    and "torrent_length t \<le> int (length (m_pieces t)) * uint (m_piece_length t)"
  shows "\<exists>l. piece_length_at t (of_nat i) = Inr l \<and> 0 < uint l
    \<and> int i * uint (m_piece_length t) + uint l =
        (if i = length (m_pieces t) - 1 then torrent_length t else int (i + 1) * uint (m_piece_length t))"
proof -
  define n pl len where "n = length (m_pieces t)" and "pl = uint (m_piece_length t)" and "len = torrent_length t"
  note assms = assms [folded n_def pl_def len_def]
  have "0 \<le> pl"
    by (simp add: pl_def)
  have "pl \<noteq> 0"
    using assms(4,5) by auto
  with \<open>0 \<le> pl\<close> have pl: "0 < pl"
    by simp
  have pl32: "pl < 2 ^ 32"
  proof -
    have "uint (m_piece_length t) < 2 ^ LENGTH(32)"
      by (rule unsigned_less)
    then show ?thesis
      by (simp add: pl_def)
  qed
  have idx: "unat (of_nat i :: u32) = i"
    using assms(1,2) by (intro unat_of_nat_less) simp
  have last: "size_sub n 1 = n - 1"
    using assms(1,2) by simp
  show ?thesis
  proof (cases "i = n - 1")
    case False
    then show ?thesis
      using pl idx last assms(1)
      by (simp add: piece_length_at_def n_def [symmetric] pl_def [symmetric] algebra_simps)
  next
    case True
    define r where "r = len mod pl"
    have "0 \<le> int (n - 1) * pl"
      using pl by simp
    then have len: "0 < len"
      using assms(4) by linarith
    have r: "0 \<le> r" "r < pl"
      using pl by (simp_all add: r_def)
    have cast: "numeric_cast uint32_t int64_t r = Inr r"
      using r pl32 by (intro numeric_cast_u32_exact) simp_all
    have eq: "piece_length_at t (of_nat i) = Inr (if r \<noteq> 0 then of_int r else m_piece_length t)"
      using pl len idx last True cast
      by (simp add: piece_length_at_def c_rem_def n_def [symmetric] pl_def [symmetric] len_def [symmetric] r_def)
    have val: "uint (if r \<noteq> 0 then of_int r else m_piece_length t) = (if r \<noteq> 0 then r else pl)"
      using r pl32 by (simp add: pl_def uint_word_of_int_eq take_bit_int_eq_self)
    obtain m where m: "n = Suc m"
      using assms(1) by (cases n) simp_all
    then have "len \<le> int (n - 1) * pl + pl"
      using assms(5) by (simp add: distrib_right)
    define x where "x = len - int (n - 1) * pl"
    have x: "0 < x" "x \<le> pl" "len = x + int (n - 1) * pl"
      using assms(4) \<open>len \<le> int (n - 1) * pl + pl\<close> by (simp_all add: x_def)
    then have "r = x mod pl"
      by (simp add: r_def)
    then have "(if r \<noteq> 0 then r else pl) = x"
      using x(1,2) by (cases "x = pl") simp_all
    with eq val x True show ?thesis
      by (intro exI [of _ "if r \<noteq> 0 then of_int r else m_piece_length t"])
        (simp add: n_def [symmetric] pl_def [symmetric] len_def [symmetric])
  qed
qed

text \<open>
  C24.  When the number of hashes is the length divided by the piece length, rounded up, the pieces
  tile the torrent: piece \<open>i\<close> starts at \<open>i\<close> times the piece length and ends where the next one
  starts, and the last one ends at the length of the torrent.
\<close>

theorem pieces_tile_torrent:
  assumes "i < length (m_pieces t)" and "pieces_fit t"
  shows "\<exists>l. piece_length_at t (of_nat i) = Inr l \<and> 0 < uint l
    \<and> int i * uint (m_piece_length t) + uint l =
        (if i = length (m_pieces t) - 1 then torrent_length t else int (i + 1) * uint (m_piece_length t))"
  using assms piece_tiles by (simp add: pieces_fit_def)

theorem pieces_tile_torrent_witness:
  "\<exists>l. piece_length_at sample_meta 1 = Inr l \<and> 32768 + uint l = 40000"
  using pieces_tile_torrent [of 1 sample_meta]
  by (auto simp: sample_meta_def torrent_length_def is_single_file_def pieces_fit_def)

end
