(* ===== verification/Torrent.thy ===== *)
theory Torrent
  imports Metainfo Piece
begin

text \<open>
  The housekeeping of pieces in \<^verbatim>\<open>src/torrent.cpp\<close>.  Pieces are shared objects
  (\<^verbatim>\<open>shared_ptr<Piece>\<close>): they live in \<open>pieces_heap\<close> and are named by their index in it,
  so that the map of active pieces and the queue of the file writer can hold the same piece, and
  a piece dropped from the map lives on while the queue holds it.  \<open>writer_queue\<close> is the queue
  of \<^verbatim>\<open>FileWriter\<close>, for one torrent; a piece callback acts on it.  The two mutexes are
  held for the whole of an operation, which is one step; the digest and the disk come with
  \<open>FileWriter\<close>.
\<close>

section \<open>State and operations\<close>

record torrent =
  meta :: metainfo
  m_client_pieces :: bitfield
  m_active_pieces :: "(u32, nat) smap"
  pieces_heap :: "piece list"
  m_piece_callbacks :: "(nat \<Rightarrow> nat list \<Rightarrow> nat list) list"
  writer_queue :: "nat list"

definition new_torrent :: "metainfo \<Rightarrow> torrent" where
  "new_torrent mi =
     \<lparr>meta = mi, m_client_pieces = bf_empty, m_active_pieces = [], pieces_heap = [],
      m_piece_callbacks = [], writer_queue = []\<rparr>"

definition add_piece_callback :: "(nat \<Rightarrow> nat list \<Rightarrow> nat list) \<Rightarrow> torrent \<Rightarrow> torrent" where
  "add_piece_callback cb t = t\<lparr>m_piece_callbacks := m_piece_callbacks t @ [cb]\<rparr>"

definition init_client_pieces :: "nat \<Rightarrow> torrent \<Rightarrow> torrent" where
  "init_client_pieces count t =
     (if bf_size (m_client_pieces t) = 0 then t\<lparr>m_client_pieces := bf_make count\<rparr> else t)"

definition piece_status :: "torrent \<Rightarrow> nat \<times> nat" where
  "piece_status t = (bf_count (m_client_pieces t), length (m_pieces (meta t)))"

definition relevant_pieces :: "bitfield \<Rightarrow> torrent \<Rightarrow> bitfield" where
  "relevant_pieces remote t = bf_sub remote (m_client_pieces t)"

definition active_piece :: "u32 \<Rightarrow> bool \<Rightarrow> torrent \<Rightarrow> (nat option \<times> torrent) result" where
  "active_piece i create t =
     (case map_of (m_active_pieces t) i of
        Some loc \<Rightarrow> Inr (Some loc, t)
      | None \<Rightarrow>
          (if \<not> create then Inr (None, t)
           else
             bindE (piece_length_at (meta t) i) (\<lambda>len.
             let loc = length (pieces_heap t) in
             Inr (Some loc, t\<lparr>pieces_heap := pieces_heap t @ [new_piece i len],
                              m_active_pieces := smap_put i loc (m_active_pieces t)\<rparr>))))"

definition set_heap :: "nat \<Rightarrow> piece \<Rightarrow> torrent \<Rightarrow> torrent" where
  "set_heap loc p t = t\<lparr>pieces_heap := (pieces_heap t)[loc := p]\<rparr>"

definition piece_done :: "nat \<Rightarrow> torrent \<Rightarrow> torrent" where
  "piece_done loc t =
     t\<lparr>m_client_pieces := bf_set (m_client_pieces t) (unat (m_id (pieces_heap t ! loc))) True,
       writer_queue := foldl (\<lambda>q cb. cb loc q) (writer_queue t) (m_piece_callbacks t)\<rparr>"

definition t_set_block :: "int \<Rightarrow> u32 \<Rightarrow> u32 \<Rightarrow> bytes \<Rightarrow> torrent \<Rightarrow> (bool \<times> torrent) result" where
  "t_set_block now piece_id offset data t =
     (case map_of (m_active_pieces t) piece_id of
        None \<Rightarrow> Inr (False, t)
      | Some loc \<Rightarrow>
          bindE (set_block now offset data (pieces_heap t ! loc)) (\<lambda>r.
          let t' = set_heap loc (snd r) t in
          Inr (True, if fst r then piece_done loc t' else t')))"

definition torrent_done :: "torrent \<Rightarrow> bool" where
  "torrent_done t \<longleftrightarrow>
     (let received = (bf_count (m_client_pieces t) = length (m_pieces (meta t)) \<and> m_pieces (meta t) \<noteq> []);
          pending_writes = list_ex (\<lambda>e. \<not> m_piece_written (pieces_heap t ! snd e)) (m_active_pieces t)
      in received \<and> \<not> pending_writes)"

definition downloaded :: "torrent \<Rightarrow> int" where
  "downloaded t = foldl (\<lambda>sum e. sum +
     (if m_piece_written (pieces_heap t ! snd e) then uint (m_piece_size (pieces_heap t ! snd e)) else 0))
     0 (m_active_pieces t)"

definition left_bytes :: "torrent \<Rightarrow> int" where
  "left_bytes t = torrent_length (meta t) - downloaded t"

definition reset_piece :: "u32 \<Rightarrow> torrent \<Rightarrow> torrent" where
  "reset_piece piece_id t =
     (case map_of (m_active_pieces t) piece_id of
        None \<Rightarrow> t
      | Some loc \<Rightarrow>
          (set_heap loc (reset_piece_data (pieces_heap t ! loc)) t)
            \<lparr>m_client_pieces := bf_set (m_client_pieces t) (unat piece_id) False,
             m_active_pieces := smap_del piece_id (m_active_pieces t)\<rparr>)"

text \<open>What the verification of existing files does with a piece whose digest matches.\<close>

definition mark_verified :: "u32 \<Rightarrow> torrent \<Rightarrow> torrent result" where
  "mark_verified i t =
     bindE (active_piece i True (t\<lparr>m_client_pieces := bf_set (m_client_pieces t) (unat i) True\<rparr>)) (\<lambda>r.
     case fst r of
       None \<Rightarrow> Inr (snd r)
     | Some loc \<Rightarrow> Inr (set_heap loc (set_piece_written True (pieces_heap (snd r) ! loc)) (snd r)))"

section \<open>The invariant\<close>

text \<open>
  The map is sorted, every entry names a live piece of that id with the size the torrent gives it,
  no two entries share a piece, and every piece marked as received is active.
\<close>

definition torrent_ok :: "torrent \<Rightarrow> bool" where
  "torrent_ok t \<longleftrightarrow>
     smap_ok (m_active_pieces t)
     \<and> (\<forall>i loc. map_of (m_active_pieces t) i = Some loc \<longrightarrow>
          loc < length (pieces_heap t) \<and> piece_ok (pieces_heap t ! loc) \<and> m_id (pieces_heap t ! loc) = i
          \<and> piece_length_at (meta t) i = Inr (m_piece_size (pieces_heap t ! loc)))
     \<and> (\<forall>i. bf_test (m_client_pieces t) i \<longrightarrow>
          i < 2 ^ 32 \<and> map_of (m_active_pieces t) (of_nat i) \<noteq> None)"

inductive torrent_step :: "torrent \<Rightarrow> torrent \<Rightarrow> bool" where
  client: "torrent_step t (init_client_pieces n t)"
| callback: "torrent_step t (add_piece_callback cb t)"
| active: "active_piece i create t = Inr (r, t') \<Longrightarrow> torrent_step t t'"
| verified: "mark_verified i t = Inr t' \<Longrightarrow> torrent_step t t'"
| block: "t_set_block now i offset data t = Inr (b, t') \<Longrightarrow> torrent_step t t'"
| request: "map_of (m_active_pieces t) i = Some loc \<Longrightarrow>
    next_offset now mark (pieces_heap t ! loc) = Inr (r, p) \<Longrightarrow> torrent_step t (set_heap loc p t)"
| retry: "map_of (m_active_pieces t) i = Some loc \<Longrightarrow>
    retry_blocks now (pieces_heap t ! loc) = Inr (n, p) \<Longrightarrow> torrent_step t (set_heap loc p t)"
| written: "loc < length (pieces_heap t) \<Longrightarrow>
    torrent_step t (set_heap loc (set_piece_written True (pieces_heap t ! loc)) t)"
| pop: "writer_queue t = loc # q \<Longrightarrow> torrent_step t (t\<lparr>writer_queue := q\<rparr>)"
| reset: "torrent_step t (reset_piece i t)"

inductive torrent_reach :: "metainfo \<Rightarrow> torrent \<Rightarrow> bool" for mi where
  init: "torrent_reach mi (new_torrent mi)"
| step: "torrent_reach mi t \<Longrightarrow> torrent_step t t' \<Longrightarrow> torrent_reach mi t'"

lemma set_heap_simps [simp]:
  "meta (set_heap loc p t) = meta t" "m_client_pieces (set_heap loc p t) = m_client_pieces t"
  "m_active_pieces (set_heap loc p t) = m_active_pieces t"
  "length (pieces_heap (set_heap loc p t)) = length (pieces_heap t)"
  "writer_queue (set_heap loc p t) = writer_queue t"
  "m_piece_callbacks (set_heap loc p t) = m_piece_callbacks t"
  by (simp_all add: set_heap_def)

lemma nth_set_heap: "loc < length (pieces_heap t) \<Longrightarrow>
    pieces_heap (set_heap loc p t) ! k = (if k = loc then p else pieces_heap t ! k)"
  by (simp add: set_heap_def nth_list_update)

lemma torrent_ok_set_heap:
  assumes "torrent_ok t" and "loc < length (pieces_heap t)"
    and "piece_ok (pieces_heap t ! loc) \<Longrightarrow> piece_ok p"
    and "m_id p = m_id (pieces_heap t ! loc)" and "m_piece_size p = m_piece_size (pieces_heap t ! loc)"
  shows "torrent_ok (set_heap loc p t)"
  using assms by (auto simp: torrent_ok_def nth_set_heap)

lemma torrent_ok_active:
  assumes "torrent_ok t" and "active_piece i create t = Inr (r, t')"
  shows "torrent_ok t' \<and> meta t' = meta t \<and> m_client_pieces t' = m_client_pieces t
    \<and> (\<forall>loc. r = Some loc \<longrightarrow> map_of (m_active_pieces t') i = Some loc)
    \<and> (\<forall>j loc. map_of (m_active_pieces t) j = Some loc \<longrightarrow>
          map_of (m_active_pieces t') j = Some loc \<and> pieces_heap t' ! loc = pieces_heap t ! loc)
    \<and> (create \<longrightarrow> r \<noteq> None)"
proof (cases "map_of (m_active_pieces t) i")
  case None
  show ?thesis
  proof (cases create)
    case True
    then obtain len where len: "piece_length_at (meta t) i = Inr len"
      and r: "r = Some (length (pieces_heap t))"
      and t': "t' = t\<lparr>pieces_heap := pieces_heap t @ [new_piece i len],
         m_active_pieces := smap_put i (length (pieces_heap t)) (m_active_pieces t)\<rparr>"
      using assms(2) None by (auto simp: active_piece_def Let_def result_simps)
    have "m_id (new_piece i len) = i" and "m_piece_size (new_piece i len) = len"
      by (simp_all add: new_piece_def)
    then show ?thesis
      using assms(1) len None unfolding t' r
      by (auto simp: torrent_ok_def smap_simps smap_ok_put nth_append piece_ok_new less_Suc_eq)
  qed (use assms None in \<open>auto simp: active_piece_def\<close>)
next
  case (Some loc)
  with assms show ?thesis
    by (auto simp: active_piece_def dest: sym)
qed

lemma client_set_ok:
  assumes "torrent_ok t" and "map_of (m_active_pieces t) i \<noteq> None"
  shows "torrent_ok (t\<lparr>m_client_pieces := bf_set (m_client_pieces t) (unat i) True, writer_queue := q\<rparr>)"
proof -
  have "unat i < 2 ^ LENGTH(32)"
    by (rule unsigned_less)
  with assms show ?thesis
    by (auto simp: torrent_ok_def bf_test_set)
qed

lemma torrent_ok_block:
  assumes "torrent_ok t" and "t_set_block now i offset data t = Inr (b, t')"
  shows "torrent_ok t' \<and> meta t' = meta t"
proof (cases "map_of (m_active_pieces t) i")
  case None
  with assms show ?thesis
    by (simp add: t_set_block_def)
next
  case (Some loc)
  then obtain r where r: "set_block now offset data (pieces_heap t ! loc) = Inr r"
    and t': "t' = (if fst r then piece_done loc (set_heap loc (snd r) t) else set_heap loc (snd r) t)"
    using assms(2) by (auto simp: t_set_block_def Let_def result_simps)
  have loc: "loc < length (pieces_heap t)" "piece_ok (pieces_heap t ! loc)" "m_id (pieces_heap t ! loc) = i"
    using assms(1) Some by (simp_all add: torrent_ok_def)
  have eq: "m_id (snd r) = m_id (pieces_heap t ! loc)" "m_piece_size (snd r) = m_piece_size (pieces_heap t ! loc)"
    using set_block_Inr(5) [OF loc(2), of now offset data "fst r" "snd r"] r by simp_all
  have ok: "torrent_ok (set_heap loc (snd r) t)"
    using piece_ok_set_block [OF loc(2), of now offset data "fst r" "snd r"] r loc(1) eq
    by (intro torrent_ok_set_heap [OF assms(1)]) simp_all
  then have "torrent_ok (piece_done loc (set_heap loc (snd r) t))"
    using client_set_ok [of "set_heap loc (snd r) t" i] Some loc eq
    by (simp add: piece_done_def nth_set_heap)
  with ok show ?thesis
    by (simp add: t' piece_done_def)
qed

lemma torrent_ok_reset:
  assumes "torrent_ok t"
  shows "torrent_ok (reset_piece i t) \<and> meta (reset_piece i t) = meta t"
proof (cases "map_of (m_active_pieces t) i")
  case None
  with assms show ?thesis
    by (simp add: reset_piece_def)
next
  case (Some loc)
  define t1 where "t1 = set_heap loc (reset_piece_data (pieces_heap t ! loc)) t"
  have loc: "loc < length (pieces_heap t)"
    using assms Some by (simp add: torrent_ok_def)
  have "piece_ok (reset_piece_data p)" "m_id (reset_piece_data p) = m_id p"
    "m_piece_size (reset_piece_data p) = m_piece_size p" for p
    by (simp_all add: reset_piece_data_def piece_ok_def block_count_def bytes_resize_def)
  then have ok: "torrent_ok t1"
    unfolding t1_def using loc by (intro torrent_ok_set_heap [OF assms]) simp_all
  have inj: "j = unat i" if "j < 2 ^ 32" "of_nat j = i" for j
    using that unat_of_nat_less [of j, where 'a = 32] by auto
  have "reset_piece i t = t1\<lparr>m_client_pieces := bf_set (m_client_pieces t1) (unat i) False,
      m_active_pieces := smap_del i (m_active_pieces t1)\<rparr>"
    using Some by (simp add: reset_piece_def t1_def)
  then show ?thesis
    using ok inj by (auto simp: torrent_ok_def smap_simps smap_ok_del bf_test_set) (simp_all add: t1_def)
qed

lemma torrent_ok_verified:
  assumes "torrent_ok t" and "mark_verified i t = Inr t'"
  shows "torrent_ok t' \<and> meta t' = meta t"
proof -
  define t0 where "t0 = t\<lparr>m_client_pieces := bf_set (m_client_pieces t) (unat i) True\<rparr>"
  obtain r t1 where r: "active_piece i True t0 = Inr (r, t1)"
    using assms(2) by (auto simp: mark_verified_def t0_def result_simps)
  have "active_piece i True t = Inr (r, t1\<lparr>m_client_pieces := m_client_pieces t\<rparr>)"
    and t1: "m_client_pieces t1 = m_client_pieces t0"
    using r by (auto simp: active_piece_def t0_def Let_def result_simps split: option.splits dest: sym)
  from torrent_ok_active [OF assms(1) this(1)]
  have ok: "torrent_ok (t1\<lparr>m_client_pieces := m_client_pieces t\<rparr>)" and "meta t1 = meta t"
    and ri: "\<forall>loc. r = Some loc \<longrightarrow> map_of (m_active_pieces t1) i = Some loc" and "r \<noteq> None"
    by simp_all
  then obtain loc where loc: "r = Some loc" "map_of (m_active_pieces t1) i = Some loc"
    by auto
  have t': "t' = set_heap loc (set_piece_written True (pieces_heap t1 ! loc)) t1"
    using assms(2) r loc by (simp add: mark_verified_def t0_def result_simps)
  have "t1\<lparr>m_client_pieces := bf_set (m_client_pieces t) (unat i) True, writer_queue := writer_queue t1\<rparr> = t1"
    using t1 by (simp add: t0_def)
  then have "torrent_ok t1"
    using client_set_ok [OF ok, of i "writer_queue t1"] loc by simp
  moreover have "loc < length (pieces_heap t1)"
    using ok loc by (simp add: torrent_ok_def)
  ultimately have "torrent_ok t'"
    unfolding t' using set_piece_written_props(1)
    by (intro torrent_ok_set_heap) (simp_all add: set_piece_written_def)
  with \<open>meta t1 = meta t\<close> show ?thesis
    by (simp add: t')
qed

lemma torrent_ok_step:
  assumes "torrent_ok t" and "torrent_step t t'"
  shows "torrent_ok t' \<and> meta t' = meta t"
  using assms(2,1)
proof cases
  case (client n)
  with assms(1) show ?thesis
    by (auto simp: init_client_pieces_def torrent_ok_def)
next
  case (callback cb)
  with assms(1) show ?thesis
    by (auto simp: add_piece_callback_def torrent_ok_def)
next
  case (active i create r)
  with assms(1) show ?thesis
    using torrent_ok_active by blast
next
  case (verified i)
  with assms(1) show ?thesis
    using torrent_ok_verified by blast
next
  case (block now i offset data b)
  with assms(1) show ?thesis
    using torrent_ok_block by blast
next
  case (request i loc now mark r p)
  then have "loc < length (pieces_heap t)" "piece_ok (pieces_heap t ! loc)"
    using assms(1) by (simp_all add: torrent_ok_def)
  with request show ?thesis
    using torrent_ok_set_heap [OF assms(1)] piece_ok_next_offset by (metis set_heap_simps(1))
next
  case (retry i loc now n p)
  then have "loc < length (pieces_heap t)" "piece_ok (pieces_heap t ! loc)"
    using assms(1) by (simp_all add: torrent_ok_def)
  moreover have "piece_ok p \<and> m_id p = m_id (pieces_heap t ! loc) \<and> m_piece_size p = m_piece_size (pieces_heap t ! loc)"
    using retry(3) calculation(2) by (auto simp: retry_blocks_eq piece_ok_def block_count_def split: if_splits)
  ultimately show ?thesis
    using retry(1) torrent_ok_set_heap [OF assms(1)] by simp
next
  case (written loc)
  then show ?thesis
    using torrent_ok_set_heap [OF assms(1), of loc] set_piece_written_props(1)
    by (simp add: set_piece_written_def)
next
  case (pop loc q)
  with assms(1) show ?thesis
    by (simp add: torrent_ok_def)
next
  case (reset i)
  with assms(1) show ?thesis
    using torrent_ok_reset by blast
qed

lemma torrent_reach_ok: "torrent_reach mi t \<Longrightarrow> torrent_ok t \<and> meta t = mi"
proof (induction rule: torrent_reach.induct)
  case init
  then show ?case
    by (simp add: new_torrent_def torrent_ok_def)
next
  case (step t t')
  then show ?case
    using torrent_ok_step by metis
qed

text \<open>
  C11.  Whatever sequence of operations a torrent has seen, every entry of the map of active
  pieces names a piece of that id with the size the metainfo gives it and consistent bookkeeping,
  and a piece marked as received is active.
\<close>

theorem torrent_invariant:
  assumes "torrent_reach mi t"
  shows "smap_ok (m_active_pieces t)
     \<and> (\<forall>i loc. map_of (m_active_pieces t) i = Some loc \<longrightarrow>
          loc < length (pieces_heap t) \<and> piece_ok (pieces_heap t ! loc) \<and> m_id (pieces_heap t ! loc) = i
          \<and> piece_length_at mi i = Inr (m_piece_size (pieces_heap t ! loc)))
     \<and> (\<forall>i. bf_test (m_client_pieces t) i \<longrightarrow>
          i < 2 ^ 32 \<and> map_of (m_active_pieces t) (of_nat i) \<noteq> None)"
  using torrent_reach_ok [OF assms] by (auto simp: torrent_ok_def)

lemma sample_active:
  "active_piece 0 True (new_torrent sample_meta) = Inr (Some 0, (new_torrent sample_meta)
     \<lparr>pieces_heap := [new_piece 0 32768], m_active_pieces := [(0, 0)]\<rparr>)"
  by (simp add: active_piece_def new_torrent_def sample_meta_def piece_length_at_def)

theorem torrent_invariant_witness:
  "piece_ok (pieces_heap ((new_torrent sample_meta)
     \<lparr>pieces_heap := [new_piece 0 32768], m_active_pieces := [(0, 0)]\<rparr>) ! 0)"
proof -
  have "torrent_reach sample_meta ((new_torrent sample_meta)
     \<lparr>pieces_heap := [new_piece 0 32768], m_active_pieces := [(0, 0)]\<rparr>)"
    by (rule torrent_reach.step [OF torrent_reach.init torrent_step.active [OF sample_active]])
  from torrent_invariant [OF this, THEN conjunct2, THEN conjunct1, rule_format, of 0 0] show ?thesis
    by simp
qed

section \<open>Receiving blocks\<close>

text \<open>
  A block for an active piece changes that piece alone, as \<open>Piece::set_block\<close> does; when it
  leaves no block missing, the piece is marked as received and handed to every piece callback, and
  otherwise neither the received pieces nor the writer queue change.  A block for any other piece
  changes nothing.
\<close>

theorem t_set_block_effect:
  assumes "torrent_reach mi t" and "t_set_block now i offset data t = Inr (b, t')"
  shows "case map_of (m_active_pieces t) i of
      None \<Rightarrow> \<not> b \<and> t' = t
    | Some loc \<Rightarrow> b \<and> m_active_pieces t' = m_active_pieces t
        \<and> (\<forall>k. k \<noteq> loc \<longrightarrow> pieces_heap t' ! k = pieces_heap t ! k)
        \<and> pieces_heap t' ! loc = store_block now (unat (offset div m_block_size)) data (pieces_heap t ! loc)
        \<and> (if all_done (pieces_heap t' ! loc)
           then m_client_pieces t' = bf_set (m_client_pieces t) (unat i) True
             \<and> writer_queue t' = foldl (\<lambda>q cb. cb loc q) (writer_queue t) (m_piece_callbacks t)
           else m_client_pieces t' = m_client_pieces t \<and> writer_queue t' = writer_queue t)"
proof (cases "map_of (m_active_pieces t) i")
  case None
  with assms(2) show ?thesis
    by (simp add: t_set_block_def)
next
  case (Some loc)
  have loc: "loc < length (pieces_heap t)" "piece_ok (pieces_heap t ! loc)" "m_id (pieces_heap t ! loc) = i"
    using torrent_reach_ok [OF assms(1)] Some by (auto simp: torrent_ok_def)
  obtain c p where r: "set_block now offset data (pieces_heap t ! loc) = Inr (c, p)" and b: b
    and t': "t' = (if c then piece_done loc (set_heap loc p t) else set_heap loc p t)"
    using assms(2) Some by (auto simp: t_set_block_def Let_def result_simps)
  have eq: "p = store_block now (unat (offset div m_block_size)) data (pieces_heap t ! loc)"
    "c \<longleftrightarrow> all_done p"
    using set_block_Inr(5,6) [OF loc(2) r] by simp_all
  have heap: "pieces_heap t' = pieces_heap (set_heap loc p t)"
    by (simp add: t' piece_done_def)
  show ?thesis
    using Some b loc eq unfolding heap by (simp add: nth_set_heap) (simp add: t' piece_done_def nth_set_heap)
qed

definition sample_torrent :: torrent where
  "sample_torrent = (new_torrent sample_meta)
     \<lparr>pieces_heap := [new_piece 0 32768], m_active_pieces := [(0, 0)]\<rparr>"

lemma sample_torrent_reach: "torrent_reach sample_meta sample_torrent"
  unfolding sample_torrent_def
  by (rule torrent_reach.step [OF torrent_reach.init torrent_step.active [OF sample_active]])

theorem t_set_block_effect_witness:
  "\<exists>t'. t_set_block 9 0 16384 [1, 2, 3] sample_torrent = Inr (True, t') \<and> writer_queue t' = []"
proof -
  define p where "p = new_piece 0 32768"
  have nb: "blocks p = 2"
    by (simp add: p_def blocks_of_size) (simp add: new_piece_def)
  have idx: "unat (16384 div m_block_size) = 1"
    by (simp add: m_block_size_def)
  have "set_block 9 16384 [1, 2, 3] p = Inr (all_done (store_block 9 1 [1, 2, 3] p), store_block 9 1 [1, 2, 3] p)"
    using set_block_accepts [of p 16384 "[1, 2, 3]" 9] piece_ok_new [of 0 32768] nb idx
    by (simp add: p_def Let_def m_block_size_def) (simp add: new_piece_def)
  moreover have nd: "\<not> all_done (store_block 9 1 [1, 2, 3] p)"
    using nb by (auto simp: all_done_def is_done_store_block intro!: exI [of _ 0]) (simp add: p_def new_piece_def)
  ultimately obtain t' where t': "t_set_block 9 0 16384 [1, 2, 3] sample_torrent = Inr (True, t')"
    by (simp add: t_set_block_def sample_torrent_def p_def)
  with t_set_block_effect [OF sample_torrent_reach t'] nd idx show ?thesis
    by (simp add: sample_torrent_def p_def new_torrent_def)
qed

text \<open>
  Handling a request for a piece that is not active makes a finished torrent unfinished:
  the piece object created for it is never written, and \<open>done\<close> waits for it.  Nothing restricts
  the index of such a request to the pieces of the torrent.
\<close>

theorem unknown_request_undoes_done:
  assumes "torrent_done t" and "torrent_reach mi t" and "map_of (m_active_pieces t) i = None"
    and "active_piece i True t = Inr (r, t')"
  shows "\<not> torrent_done t'"
proof -
  obtain len where "t' = t\<lparr>pieces_heap := pieces_heap t @ [new_piece i len],
      m_active_pieces := smap_put i (length (pieces_heap t)) (m_active_pieces t)\<rparr>"
    using assms(3,4) by (auto simp: active_piece_def Let_def result_simps)
  moreover have "(i, length (pieces_heap t)) \<in> set (smap_put i (length (pieces_heap t)) (m_active_pieces t))"
    by (metis fun_upd_same map_of_SomeD map_of_smap_put)
  ultimately show ?thesis
    by (auto simp: torrent_done_def Let_def list_ex_iff new_piece_def intro!: bexI)
qed

definition verified_sample :: torrent where
  "verified_sample = (new_torrent sample_meta)
     \<lparr>m_client_pieces := bf_set (bf_set bf_empty 0 True) 1 True,
      pieces_heap := [set_piece_written True (new_piece 0 32768), set_piece_written True (new_piece 1 7232)],
      m_active_pieces := [(0, 0), (1, 1)]\<rparr>"

lemma piece_length_0: "piece_length_at sample_meta 0 = Inr 32768"
  by (simp add: piece_length_at_def sample_meta_def)

lemma piece_length_1: "piece_length_at sample_meta 1 = Inr 7232"
  by (simp add: piece_length_at_def sample_meta_def c_rem_def torrent_length_def is_single_file_def
      numeric_cast_def make_unsigned_def static_cast_def ity_max_def take_bit_int_eq_self)

lemma verified_sample_reach: "torrent_reach sample_meta verified_sample"
proof -
  define t0 where "t0 = new_torrent sample_meta"
  define t1 where "t1 = t0\<lparr>m_client_pieces := bf_set bf_empty 0 True,
      pieces_heap := [set_piece_written True (new_piece 0 32768)], m_active_pieces := [(0, 0)]\<rparr>"
  have "mark_verified 0 t0 = Inr t1"
    by (simp add: mark_verified_def active_piece_def t0_def t1_def new_torrent_def set_heap_def piece_length_0)
  moreover have "mark_verified 1 t1 = Inr verified_sample"
    using piece_length_1
    by (simp add: mark_verified_def active_piece_def t0_def t1_def new_torrent_def verified_sample_def set_heap_def)
  ultimately show ?thesis
    unfolding t0_def by (metis torrent_reach.intros torrent_step.verified)
qed

lemma verified_sample_done: "torrent_done verified_sample"
proof -
  have "bf_indices (bf_set (bf_set bf_empty 0 True) 1 True) = {0, 1}"
    by (auto simp: bf_indices_def bf_test_set)
  then have "bf_count (bf_set (bf_set bf_empty 0 True) 1 True) = 2"
    by (simp add: bf_count_card)
  then show ?thesis
    by (simp add: torrent_done_def verified_sample_def new_torrent_def sample_meta_def set_piece_written_def)
qed

theorem unknown_request_undoes_done_witness:
  "\<exists>t'. active_piece 7 True verified_sample = Inr (Some 2, t') \<and> \<not> torrent_done t'"
proof -
  obtain t' where t': "active_piece 7 True verified_sample = Inr (Some 2, t')"
    by (simp add: active_piece_def verified_sample_def new_torrent_def piece_length_at_def sample_meta_def)
  with unknown_request_undoes_done [OF verified_sample_done verified_sample_reach _ t'] show ?thesis
    by (simp add: verified_sample_def)
qed

section \<open>A finished torrent is complete\<close>

lemma piece_sizes_sum:
  assumes "pieces_fit mi" and "m \<le> length (m_pieces mi)" and "0 < m"
  shows "sum_list (map (\<lambda>i. uint (projr (piece_length_at mi (of_nat i)))) [0..<m])
    = (if m = length (m_pieces mi) then torrent_length mi else int m * uint (m_piece_length mi))"
  using assms(2,3)
proof (induction m)
  case (Suc m)
  have fit: "length (m_pieces mi) \<le> 2 ^ 32" "torrent_length mi < 2 ^ 63"
     "int (length (m_pieces mi) - 1) * uint (m_piece_length mi) < torrent_length mi"
     "torrent_length mi \<le> int (length (m_pieces mi)) * uint (m_piece_length mi)"
    using assms(1) by (simp_all add: pieces_fit_def)
  obtain l where l: "piece_length_at mi (of_nat m) = Inr l"
    "int m * uint (m_piece_length mi) + uint l =
       (if m = length (m_pieces mi) - 1 then torrent_length mi else int (m + 1) * uint (m_piece_length mi))"
    using piece_tiles [of m mi, OF _ fit] Suc.prems by auto
  show ?case
  proof (cases "m = 0")
    case True
    with l Suc.prems show ?thesis
      by (auto split: if_splits)
  next
    case False
    then have "sum_list (map (\<lambda>i. uint (projr (piece_length_at mi (of_nat i)))) [0..<m])
        = int m * uint (m_piece_length mi)"
      using Suc by simp
    then show ?thesis
      using l Suc.prems by (auto split: if_splits)
  qed
qed simp

lemma foldl_sum_list: "foldl (\<lambda>s e. s + f e) c xs = c + sum_list (map f xs)"
  for f :: "'a \<Rightarrow> int"
  by (induction xs arbitrary: c) simp_all

lemma sorted_ids:
  assumes "sorted_wrt (<) (ks :: u32 list)" and "set ks = of_nat ` {..<n}" and "n \<le> 2 ^ 32"
  shows "ks = map of_nat [0..<n]"
proof -
  have "sorted_wrt (<) (map of_nat [0..<n] :: u32 list)"
    using assms(3) unat_of_nat_less [where 'a = 32]
    by (auto simp: sorted_wrt_iff_nth_less word_less_nat_alt)
  moreover have "set (map of_nat [0..<n]) = set ks"
    using assms(2) by (auto simp: atLeast0LessThan)
  ultimately show ?thesis
    using assms(1) strict_sorted_equal by metis
qed

text \<open>
  When a torrent is done, nothing is left to download: the sizes of the written pieces add
  up to the length of the torrent, provided its pieces fit its length and no piece outside of them
  was marked or made active.
\<close>

theorem done_nothing_left:
  assumes "torrent_reach mi t" and "torrent_done t" and "pieces_fit mi"
    and "bf_indices (m_client_pieces t) \<subseteq> {..<length (m_pieces mi)}"
    and "fst ` set (m_active_pieces t) \<subseteq> of_nat ` {..<length (m_pieces mi)}"
  shows "left_bytes t = 0"
proof -
  define n where "n = length (m_pieces mi)"
  have ok: "torrent_ok t" and mi: "meta t = mi"
    using torrent_reach_ok [OF assms(1)] by auto
  have n: "0 < n" "card (bf_indices (m_client_pieces t)) = n"
    and written: "\<forall>e \<in> set (m_active_pieces t). m_piece_written (pieces_heap t ! snd e)"
    using assms(2) by (auto simp: torrent_done_def Let_def bf_count_card mi n_def list_ex_iff)
  then have all: "bf_indices (m_client_pieces t) = {..<n}"
    using assms(4) by (intro card_subset_eq) (simp_all add: n_def)
  have "of_nat i \<in> fst ` set (m_active_pieces t)" if "i < n" for i
  proof -
    have "bf_test (m_client_pieces t) i"
      using all that by (auto simp: bf_indices_def)
    then show ?thesis
      using ok by (auto simp: torrent_ok_def map_of_eq_None_iff)
  qed
  then have "set (map fst (m_active_pieces t)) = of_nat ` {..<n}"
    using assms(5) by (auto simp: n_def)
  then have keys: "map fst (m_active_pieces t) = map of_nat [0..<n]"
    using ok assms(3) by (intro sorted_ids) (auto simp: torrent_ok_def smap_ok_def pieces_fit_def n_def)
  have "(if m_piece_written (pieces_heap t ! snd e) then uint (m_piece_size (pieces_heap t ! snd e)) else 0)
      = uint (projr (piece_length_at mi (fst e)))" if "e \<in> set (m_active_pieces t)" for e
  proof -
    have "map_of (m_active_pieces t) (fst e) = Some (snd e)"
      using that ok by (auto simp: torrent_ok_def map_of_eq_Some_iff_smap)
    then show ?thesis
      using ok written that mi by (auto simp: torrent_ok_def)
  qed
  then have "downloaded t = sum_list (map (\<lambda>e. uint (projr (piece_length_at mi (fst e)))) (m_active_pieces t))"
    by (simp add: downloaded_def foldl_sum_list cong: map_cong)
  also have "\<dots> = sum_list (map (\<lambda>k. uint (projr (piece_length_at mi k))) (map fst (m_active_pieces t)))"
    by (simp add: comp_def)
  also have "\<dots> = torrent_length mi"
    using piece_sizes_sum [OF assms(3), of n] n(1) by (simp add: keys comp_def n_def)
  finally show ?thesis
    by (simp add: left_bytes_def mi)
qed

theorem done_nothing_left_witness: "left_bytes verified_sample = 0"
proof (rule done_nothing_left [OF verified_sample_reach verified_sample_done])
  show "pieces_fit sample_meta"
    by (simp add: pieces_fit_def sample_meta_def torrent_length_def is_single_file_def)
  show "bf_indices (m_client_pieces verified_sample) \<subseteq> {..<length (m_pieces sample_meta)}"
    by (auto simp: verified_sample_def bf_indices_def bf_test_set sample_meta_def)
  show "fst ` set (m_active_pieces verified_sample) \<subseteq> of_nat ` {..<length (m_pieces sample_meta)}"
    by (simp add: verified_sample_def sample_meta_def lessThan_Suc)
qed

end
