(* ===== verification/FileWriter.thy ===== *)
theory FileWriter
  imports Torrent
begin

text \<open>
  \<^verbatim>\<open>src/file_writer.hpp\<close>, \<^verbatim>\<open>src/file_writer.cpp\<close>: verifying, writing and
  reading pieces on disk.  The file system is a map from paths to contents and a set of
  directories; an operation on it either succeeds or throws, and what was done before an
  exception stays done, so a computation \<open>'a io\<close> returns its result together with the file
  system.  The thread of the writer is the step \<open>write_next_piece\<close> on the queue; it holds the
  file mutex for its whole length, as \<open>read_block\<close> does.  \<open>last_piece_written\<close>, which informs
  peers and tracker, is a parameter.
\<close>

section \<open>The file system\<close>

record filesystem =
  fs_files :: "string \<Rightarrow> bytes option"
  fs_dirs :: "string set"

type_synonym 'a io = "(filesystem, 'a) st"

definition fs_exists :: "string \<Rightarrow> bool io" where
  "fs_exists p = (\<lambda>s. (Inr (fs_files s p \<noteq> None \<or> p \<in> fs_dirs s), s))"

definition fs_file_size :: "string \<Rightarrow> nat io" where
  "fs_file_size p = (\<lambda>s. case fs_files s p of
      None \<Rightarrow> (Inl (System_error ''file_size''), s) | Some c \<Rightarrow> (Inr (length c), s))"

definition parent_exists :: "string \<Rightarrow> filesystem \<Rightarrow> bool" where
  "parent_exists p s \<longleftrightarrow> parent_path p = [] \<or> parent_path p \<in> fs_dirs s"

text \<open>An \<^verbatim>\<open>ofstream\<close> opened for output creates or empties the file.\<close>

definition fs_create :: "string \<Rightarrow> unit io" where
  "fs_create p = (\<lambda>s.
     if p \<in> fs_dirs s \<or> \<not> parent_exists p s then (Inl (System_error ''open''), s)
     else (Inr (), s\<lparr>fs_files := (fs_files s)(p := Some [])\<rparr>))"

definition fs_resize :: "string \<Rightarrow> nat \<Rightarrow> unit io" where
  "fs_resize p n = (\<lambda>s. case fs_files s p of
      None \<Rightarrow> (Inl (System_error ''resize_file''), s)
    | Some c \<Rightarrow> (Inr (), s\<lparr>fs_files := (fs_files s)(p := Some (bytes_resize c n))\<rparr>))"

definition fs_create_directory :: "string \<Rightarrow> unit io" where
  "fs_create_directory p = (\<lambda>s.
     if p \<in> fs_dirs s then (Inr (), s)
     else if fs_files s p \<noteq> None \<or> \<not> parent_exists p s then (Inl (System_error ''create_directory''), s)
     else (Inr (), s\<lparr>fs_dirs := insert p (fs_dirs s)\<rparr>))"

fun ancestors :: "nat \<Rightarrow> string \<Rightarrow> string list" where
  "ancestors 0 p = []"
| "ancestors (Suc n) p = (if p = [] then [] else ancestors n (parent_path p) @ [p])"

definition fs_create_directories :: "string \<Rightarrow> unit io" where
  "fs_create_directories p = iterIO fs_create_directory (ancestors (length p) p)"

definition fs_rename :: "string \<Rightarrow> string \<Rightarrow> unit io" where
  "fs_rename p q = (\<lambda>s. case fs_files s p of
      None \<Rightarrow> (Inl (System_error ''rename''), s)
    | Some c \<Rightarrow> (Inr (), s\<lparr>fs_files := ((fs_files s)(p := None))(q := Some c)\<rparr>))"

definition fs_remove :: "string \<Rightarrow> unit io" where
  "fs_remove p = (\<lambda>s. (Inr (), s\<lparr>fs_files := (fs_files s)(p := None)\<rparr>))"

text \<open>Writing into an existing file, padded with zeros up to the offset.\<close>

definition put_at :: "nat \<Rightarrow> bytes \<Rightarrow> bytes \<Rightarrow> bytes" where
  "put_at off d c = take off c @ replicate (off - length c) 0 @ d @ drop (off + length d) c"

definition fs_write_at :: "string \<Rightarrow> nat \<Rightarrow> bytes \<Rightarrow> unit io" where
  "fs_write_at p off d = (\<lambda>s. case fs_files s p of
      None \<Rightarrow> (Inl (System_error ''open''), s)
    | Some c \<Rightarrow> (Inr (), s\<lparr>fs_files := (fs_files s)(p := Some (put_at off d c))\<rparr>))"

definition fs_read_at :: "string \<Rightarrow> nat \<Rightarrow> nat \<Rightarrow> bytes io" where
  "fs_read_at p off n = (\<lambda>s. case fs_files s p of
      None \<Rightarrow> (Inl (System_error ''open''), s)
    | Some c \<Rightarrow> (if off + n \<le> length c then Inr (take n (drop off c)) else Inl (System_error ''read''), s))"

section \<open>Reading blocks\<close>

text \<open>
  The loop of \<open>read_block\<close>, with fuel: \<open>None\<close> says that the fuel ran out.  \<open>cpos\<close> is a 32 bit
  position, \<open>remaining\<close> a 64 bit count.
\<close>

fun read_loop :: "nat \<Rightarrow> metainfo \<Rightarrow> string \<Rightarrow> u32 \<Rightarrow> int \<Rightarrow> bytes \<Rightarrow> filesystem \<Rightarrow> bytes result option" where
  "read_loop fuel t base cpos remaining acc s =
     (if remaining \<le> 0 then Some (Inr acc)
      else case fuel of
          0 \<Rightarrow> None
        | Suc fuel' \<Rightarrow>
            (case file_at_pos t (uint cpos) of
               Inl e \<Rightarrow> Some (Inl e)
             | Inr (fi, off, left) \<Rightarrow>
                 (case numeric_cast uint32_t int64_t (min remaining left) of
                    Inl e \<Rightarrow> Some (Inl e)
                  | Inr len \<Rightarrow>
                      (case fst (fs_read_at (path_append base (fi_path fi)) (nat off) (nat len) s) of
                         Inl e \<Rightarrow> Some (Inl e)
                       | Inr d \<Rightarrow>
                           read_loop fuel' t base (cpos + of_int len) (remaining - len) (acc @ d) s))))"

declare read_loop.simps [simp del]

definition read_block :: "nat \<Rightarrow> metainfo \<Rightarrow> u32 \<Rightarrow> u32 \<Rightarrow> filesystem \<Rightarrow> bytes result option" where
  "read_block fuel t offset len s =
     (let base = (if is_single_file t then parent_path (m_tmpfile t) else m_tmpfile t)
      in read_loop fuel t base offset (uint len) [] s)"

section \<open>Destinations\<close>

definition single_allocate :: "metainfo \<Rightarrow> unit io" where
  "single_allocate t =
     bindIO (fs_exists (m_tmpfile t)) (\<lambda>ex.
     if ex then retIO ()
     else
       bindIO (liftIO (numeric_cast uint64_t int64_t (torrent_length t))) (\<lambda>len.
       bindIO (fs_create (m_tmpfile t)) (\<lambda>_. fs_resize (m_tmpfile t) (nat len))))"

definition single_verify :: "metainfo \<Rightarrow> unit io" where
  "single_verify t =
     bindIO (fs_file_size (m_tmpfile t)) (\<lambda>fsize.
     bindIO (liftIO (numeric_cast uint64_t int64_t (torrent_length t))) (\<lambda>len.
     liftIO (ensure (int fsize = len) (Runtime_error ''Unexpected (A) file size''))))"

definition single_write :: "metainfo \<Rightarrow> piece \<Rightarrow> unit io" where
  "single_write t p =
     bindIO (fs_file_size (m_tmpfile t)) (\<lambda>_.
     bindIO (liftIO (ensure (length (m_data p) = unat (m_piece_size p)) (Runtime_error ''Unexpected size''))) (\<lambda>_.
     fs_write_at (m_tmpfile t) (unat (m_id p * m_piece_length t)) (m_data p)))"

definition single_complete :: "(unit \<Rightarrow> unit result) \<Rightarrow> metainfo \<Rightarrow> unit io" where
  "single_complete last_piece_written t =
     bindIO (fs_rename (m_tmpfile t) (m_name t)) (\<lambda>_. liftIO (last_piece_written ()))"

definition multi_allocate :: "metainfo \<Rightarrow> unit io" where
  "multi_allocate t =
     bindIO (fs_exists (m_tmpfile t)) (\<lambda>ex.
     if ex then retIO ()
     else
       bindIO (fs_create (m_tmpfile t)) (\<lambda>_.
       bindIO (fs_resize (m_tmpfile t) 1) (\<lambda>_.
       bindIO (fs_create_directory (m_name t)) (\<lambda>_.
       iterIO (\<lambda>fi.
         let dst = path_append (m_name t) (fi_path fi) in
         bindIO (fs_create_directories (parent_path dst)) (\<lambda>_.
         bindIO (fs_create dst) (\<lambda>_.
         bindIO (liftIO (numeric_cast uint64_t int64_t (fi_length fi))) (\<lambda>len.
         fs_resize dst (nat len))))) (m_files t)))))"

fun multi_verify_files :: "string \<Rightarrow> file_info list \<Rightarrow> bool io" where
  "multi_verify_files name [] = retIO True"
| "multi_verify_files name (fi # fis) =
     bindIO (liftIO (numeric_cast uint64_t int64_t (fi_length fi))) (\<lambda>expected.
     bindIO (fs_file_size (path_append name (fi_path fi))) (\<lambda>actual.
     if int actual = expected then multi_verify_files name fis else retIO False))"

definition multi_verify :: "metainfo \<Rightarrow> unit io" where
  "multi_verify t =
     bindIO (multi_verify_files (m_name t) (m_files t)) (\<lambda>ok.
     liftIO (ensure ok (Runtime_error ''Unexpected multi torrent file size'')))"

text \<open>The loop of \<open>writePiece\<close>; each round writes at least one byte, so \<open>remaining\<close> is enough fuel.\<close>

fun multi_write_loop :: "nat \<Rightarrow> metainfo \<Rightarrow> piece \<Rightarrow> int \<Rightarrow> unit io" where
  "multi_write_loop fuel t p remaining =
     (if remaining \<le> 0 then retIO ()
      else case fuel of
          0 \<Rightarrow> throwIO (Undefined_behaviour ''out of fuel'')
        | Suc fuel' \<Rightarrow>
            (let done = uint (m_piece_size p) - remaining;
                 pos = uint (m_id p * m_piece_length t) + done
             in
             bindIO (liftIO (file_at_pos t pos)) (\<lambda>(fi, off, left).
             let len = min remaining left in
             bindIO (fs_file_size (path_append (m_name t) (fi_path fi))) (\<lambda>_.
             if nat done + nat len > length (m_data p)
             then throwIO (Undefined_behaviour ''writePiece: read past the data'')
             else
               bindIO (fs_write_at (path_append (m_name t) (fi_path fi)) (nat off)
                         (take (nat len) (drop (nat done) (m_data p)))) (\<lambda>_.
               multi_write_loop fuel' t p (remaining - len))))))"

declare multi_write_loop.simps [simp del]

definition multi_write :: "metainfo \<Rightarrow> piece \<Rightarrow> unit io" where
  "multi_write t p = multi_write_loop (unat (m_piece_size p)) t p (uint (m_piece_size p))"

definition multi_complete :: "(unit \<Rightarrow> unit result) \<Rightarrow> metainfo \<Rightarrow> unit io" where
  "multi_complete last_piece_written t =
     (let tmpfile = (if ends_with tmpfileExtension (m_tmpfile t) then m_tmpfile t
                     else m_tmpfile t @ tmpfileExtension)
      in bindIO (fs_remove tmpfile) (\<lambda>_. liftIO (last_piece_written ())))"

text \<open>The destination of \<^verbatim>\<open>TorrentDestination::create\<close>.\<close>

record destination =
  d_allocate :: "unit io"
  d_verify :: "unit io"
  d_write :: "piece \<Rightarrow> unit io"
  d_complete :: "unit io"

definition create_destination :: "(unit \<Rightarrow> unit result) \<Rightarrow> metainfo \<Rightarrow> destination" where
  "create_destination last_piece_written t =
     (if is_single_file t
      then \<lparr>d_allocate = single_allocate t, d_verify = single_verify t, d_write = single_write t,
            d_complete = single_complete last_piece_written t\<rparr>
      else \<lparr>d_allocate = multi_allocate t, d_verify = multi_verify t, d_write = multi_write t,
            d_complete = multi_complete last_piece_written t\<rparr>)"

section \<open>The writer\<close>

definition writer_add :: "nat \<Rightarrow> nat list \<Rightarrow> nat list" where
  "writer_add loc q = q @ [loc]"

definition register_torrent :: "torrent \<Rightarrow> torrent" where
  "register_torrent t = add_piece_callback writer_add t"

record writer_state =
  w_torrent :: torrent
  w_fs :: filesystem
  w_completed :: nat

text \<open>
  One round of the writer thread: the piece at the front of the queue is taken; every exception is
  caught and logged, and leaves the state as it is at that point.  \<open>w_completed\<close> counts the calls
  of the completion callback.
\<close>

definition write_next_piece ::
    "(bytes \<Rightarrow> string) \<Rightarrow> (unit \<Rightarrow> unit result) \<Rightarrow> writer_state \<Rightarrow> writer_state" where
  "write_next_piece sha1 last_piece_written w =
     (case writer_queue (w_torrent w) of
        [] \<Rightarrow> w
      | loc # q \<Rightarrow>
          (let t = (w_torrent w)\<lparr>writer_queue := q\<rparr>;
               p = pieces_heap t ! loc;
               w1 = w\<lparr>w_torrent := t\<rparr>
           in
           case vec_at (m_pieces (meta t)) (unat (m_id p)) of
             Inl e \<Rightarrow> w1
           | Inr expected \<Rightarrow>
               (if sha1 (m_data p) \<noteq> expected then w1\<lparr>w_torrent := reset_piece (m_id p) t\<rparr>
                else
                  let dest = create_destination last_piece_written (meta t);
                      (r, s1) = bindIO (d_allocate dest) (\<lambda>_. bindIO (d_verify dest) (\<lambda>_.
                                bindIO (d_write dest p) (\<lambda>_. d_verify dest))) (w_fs w)
                  in case r of
                       Inl e \<Rightarrow> w1\<lparr>w_fs := s1\<rparr>
                     | Inr _ \<Rightarrow>
                         (let t2 = set_heap loc (set_piece_written True p) t;
                              w2 = w1\<lparr>w_torrent := t2, w_fs := s1\<rparr>
                          in
                          if torrent_done t2 then
                            (case d_complete dest s1 of
                               (Inl e, s2) \<Rightarrow> w2\<lparr>w_fs := s2\<rparr>
                             | (Inr _, s2) \<Rightarrow> w2\<lparr>w_fs := s2, w_completed := w_completed w + 1\<rparr>)
                          else w2))))"

section \<open>The files of a torrent as one stream\<close>

lemmas fs_defs = fs_exists_def fs_file_size_def fs_write_at_def fs_read_at_def fs_rename_def fs_remove_def

lemma put_at_inside:
  "off + length d \<le> length c \<Longrightarrow> put_at off d c = take off c @ d @ drop (off + length d) c"
  by (simp add: put_at_def)

lemma length_put_at: "off + length d \<le> length c \<Longrightarrow> length (put_at off d c) = length c"
  by (simp add: put_at_inside)

lemma put_at_put_at:
  assumes "off + length d + length d' \<le> length c"
  shows "put_at (off + length d) d' (put_at off d c) = put_at off (d @ d') c"
  using assms by (simp add: put_at_inside ac_simps)

lemma put_at_append: "off + length d \<le> length b \<Longrightarrow>
    put_at (length a + off) d (a @ b @ c) = a @ put_at off d b @ c"
  by (simp add: put_at_inside add.assoc)

lemma concat_update_put_at:
  assumes "i < length cs" and "off + length d \<le> length (cs ! i)"
  shows "concat (cs[i := put_at off d (cs ! i)]) = put_at (length (concat (take i cs)) + off) d (concat cs)"
proof -
  have "concat cs = concat (take i cs) @ cs ! i @ concat (drop (Suc i) cs)"
    using assms(1) by (metis concat.simps(2) concat_append id_take_nth_drop)
  moreover have "concat (cs[i := x]) = concat (take i cs) @ x @ concat (drop (Suc i) cs)" for x
    using assms(1) by (simp add: upd_conv_take_nth_drop)
  ultimately show ?thesis
    using assms(2) by (simp add: put_at_append)
qed

lemma slice_concat:
  assumes "i < length cs" and "off + n \<le> length (cs ! i)"
  shows "take n (drop (length (concat (take i cs)) + off) (concat cs)) = take n (drop off (cs ! i))"
proof -
  have "concat cs = concat (take i cs) @ cs ! i @ concat (drop (Suc i) cs)"
    using assms(1) by (metis concat.simps(2) concat_append id_take_nth_drop)
  then show ?thesis
    using assms(2) by simp
qed

definition file_path :: "string \<Rightarrow> file_info \<Rightarrow> string" where
  "file_path dir fi = path_append dir (fi_path fi)"

definition file_bytes :: "filesystem \<Rightarrow> string \<Rightarrow> file_info \<Rightarrow> bytes" where
  "file_bytes s dir fi = the (fs_files s (file_path dir fi))"

definition disk_stream :: "filesystem \<Rightarrow> string \<Rightarrow> file_info list \<Rightarrow> bytes" where
  "disk_stream s dir fis = concat (map (file_bytes s dir) fis)"

text \<open>Every file is there with its size, under a path of its own.\<close>

definition files_present :: "filesystem \<Rightarrow> string \<Rightarrow> file_info list \<Rightarrow> bool" where
  "files_present s dir fis \<longleftrightarrow> distinct (map (file_path dir) fis)
     \<and> (\<forall>fi \<in> set fis. fs_files s (file_path dir fi) \<noteq> None \<and> int (length (file_bytes s dir fi)) = fi_length fi)"

lemma files_present_nonneg: "files_present s dir fis \<Longrightarrow> \<forall>fi \<in> set fis. 0 \<le> fi_length fi"
  by (auto simp: files_present_def)

lemma length_files: "\<forall>fi \<in> set fis. int (length (file_bytes s dir fi)) = fi_length fi \<Longrightarrow>
    int (length (concat (map (file_bytes s dir) fis))) = files_length fis"
  by (induction fis) (simp_all add: files_length_def)

lemma length_disk_stream: "files_present s dir fis \<Longrightarrow> int (length (disk_stream s dir fis)) = files_length fis"
  by (simp add: disk_stream_def files_present_def length_files)

lemma located_start:
  assumes "files_present s dir fis" and "located fis i off pos"
  shows "nat pos = length (concat (take i (map (file_bytes s dir) fis))) + nat off" and "0 \<le> pos"
proof -
  have "int (length (concat (take i (map (file_bytes s dir) fis)))) = files_length (take i fis)"
    using length_files [of "take i fis" s dir] assms(1)
    by (simp add: files_present_def take_map) (metis in_set_takeD)
  then show "nat pos = length (concat (take i (map (file_bytes s dir) fis))) + nat off" and "0 \<le> pos"
    using assms(2) by (auto simp: located_def)
qed

lemma write_in_stream:
  assumes "files_present s dir fis" and "located fis i off pos" and "off + int (length d) \<le> fi_length (fis ! i)"
  defines "s' \<equiv> s\<lparr>fs_files := (fs_files s)(file_path dir (fis ! i) := Some (put_at (nat off) d (file_bytes s dir (fis ! i))))\<rparr>"
  shows "files_present s' dir fis" and "disk_stream s' dir fis = put_at (nat pos) d (disk_stream s dir fis)"
proof -
  have i: "i < length fis" and off: "0 \<le> off"
    using assms(2) by (simp_all add: located_def)
  have len: "int (length (file_bytes s dir (fis ! i))) = fi_length (fis ! i)"
    using assms(1) i by (simp add: files_present_def)
  then have fits: "nat off + length d \<le> length (file_bytes s dir (fis ! i))"
    using assms(3) off by linarith
  have inj: "file_path dir (fis ! j) = file_path dir (fis ! i) \<longleftrightarrow> j = i" if "j < length fis" for j
    using assms(1) i that nth_eq_iff_index_eq [of "map (file_path dir) fis" j i] by (simp add: files_present_def)
  have bytes: "file_bytes s' dir (fis ! j) =
      (if j = i then put_at (nat off) d (file_bytes s dir (fis ! i)) else file_bytes s dir (fis ! j))"
    if "j < length fis" for j
    using inj [OF that] by (simp add: file_bytes_def s'_def)
  have upd: "map (file_bytes s' dir) fis = (map (file_bytes s dir) fis)[i := put_at (nat off) d (file_bytes s dir (fis ! i))]"
    using i bytes by (intro nth_equalityI) (simp_all add: nth_list_update)
  show "disk_stream s' dir fis = put_at (nat pos) d (disk_stream s dir fis)"
    using concat_update_put_at [of i "map (file_bytes s dir) fis" "nat off" d] i fits
    by (simp add: disk_stream_def upd located_start(1) [OF assms(1,2)])
  show "files_present s' dir fis"
    using assms(1) bytes fits len
    using nth_mem by (fastforce simp: files_present_def in_set_conv_nth length_put_at s'_def)
qed

lemma file_at_pos_multi:
  assumes "files_present s dir (m_files t)" and "m_length t = 0" and "0 \<le> pos" and "pos < files_length (m_files t)"
  obtains i off where "located (m_files t) i off pos"
    and "file_at_pos t pos = Inr (m_files t ! i, off, fi_length (m_files t ! i) - off)"
proof -
  have "\<exists>i off. located (m_files t) i off (pos - 0)
      \<and> file_in_list (m_files t) 0 pos = Inr (m_files t ! i, off, fi_length (m_files t ! i) - off)"
    using file_in_list_located [OF files_present_nonneg [OF assms(1)], of 0 pos] assms(3,4) by simp
  then show ?thesis
    using that assms(2) by (auto simp: file_at_pos_def is_single_file_def)
qed

lemma put_at_empty: "n \<le> length c \<Longrightarrow> put_at n [] c = c"
  by (simp add: put_at_inside)

lemma multi_write_loop_stream:
  assumes "files_present s (m_name t) (m_files t)" and "m_length t = 0"
    and "length (m_data p) = sz"
    and "int base + int sz \<le> files_length (m_files t)"
    and "0 \<le> r" and "r \<le> int sz" and "nat r \<le> fuel"
    and words: "uint (m_id p * m_piece_length t) = int base" "uint (m_piece_size p) = int sz"
  shows "\<exists>s'. multi_write_loop fuel t p r s = (Inr (), s') \<and> files_present s' (m_name t) (m_files t)
    \<and> disk_stream s' (m_name t) (m_files t) =
        put_at (base + (sz - nat r)) (drop (sz - nat r) (m_data p)) (disk_stream s (m_name t) (m_files t))
    \<and> fs_dirs s' = fs_dirs s
    \<and> (\<forall>q. q \<notin> file_path (m_name t) ` set (m_files t) \<longrightarrow> fs_files s' q = fs_files s q)"
  using assms(1-7)
proof (induction fuel arbitrary: r s)
  case 0
  then have "r = 0"
    by simp
  moreover have "int (length (disk_stream s (m_name t) (m_files t))) = files_length (m_files t)"
    using 0 length_disk_stream by blast
  ultimately show ?case
    using 0 by (simp add: multi_write_loop.simps io_simps put_at_empty)
next
  case (Suc fuel)
  have len_stream: "int (length (disk_stream s (m_name t) (m_files t))) = files_length (m_files t)"
    using Suc.prems(1) by (rule length_disk_stream)
  show ?case
  proof (cases "r = 0")
    case True
    then show ?thesis
      using Suc.prems len_stream by (simp add: multi_write_loop.simps io_simps put_at_empty)
  next
    case False
    define dn where "dn = sz - nat r"
    have r: "0 < r" "int dn = int sz - r" "dn + nat r = sz"
      using False Suc.prems(5,6) by (simp_all add: dn_def)
    define pos where "pos = int base + int dn"
    have pos: "0 \<le> pos" "pos < files_length (m_files t)"
      using Suc.prems(4) r by (simp_all add: pos_def)
    obtain i off where loc: "located (m_files t) i off pos"
      and at: "file_at_pos t pos = Inr (m_files t ! i, off, fi_length (m_files t ! i) - off)"
      using file_at_pos_multi [OF Suc.prems(1,2) pos] by blast
    define len where "len = min r (fi_length (m_files t ! i) - off)"
    have len: "0 < len" "len \<le> r"
      using loc r(1) by (auto simp: located_def len_def)
    define d where "d = take (nat len) (drop dn (m_data p))"
    have dlen: "int (length d) = len"
      using len r(3) Suc.prems(3) by (simp add: d_def)
    define s1 where "s1 = s\<lparr>fs_files := (fs_files s)(file_path (m_name t) (m_files t ! i)
        := Some (put_at (nat off) d (file_bytes s (m_name t) (m_files t ! i))))\<rparr>"
    have fits: "off + int (length d) \<le> fi_length (m_files t ! i)"
      unfolding dlen by (simp add: len_def)
    note wr = write_in_stream [OF Suc.prems(1) loc fits, folded s1_def]
    have i: "i < length (m_files t)"
      using loc by (simp add: located_def)
    then have "m_files t ! i \<in> set (m_files t)"
      by simp
    then obtain c where c: "fs_files s (file_path (m_name t) (m_files t ! i)) = Some c"
      using Suc.prems(1) unfolding files_present_def by blast
    have rr: "int sz - r = int dn" and inside: "\<not> sz < dn + nat len"
      using r len by linarith+
    have step: "multi_write_loop (Suc fuel) t p r s = multi_write_loop fuel t p (r - len) s1"
      using r(1) at c inside Suc.prems(3)
      by (subst multi_write_loop.simps)
        (simp add: io_simps Let_def words rr fs_defs file_path_def [symmetric] pos_def [symmetric]
          len_def [symmetric] d_def [symmetric] s1_def file_bytes_def)
    have "\<exists>s'. multi_write_loop fuel t p (r - len) s1 = (Inr (), s') \<and> files_present s' (m_name t) (m_files t)
      \<and> disk_stream s' (m_name t) (m_files t) =
          put_at (base + (sz - nat (r - len))) (drop (sz - nat (r - len)) (m_data p))
            (disk_stream s1 (m_name t) (m_files t))
      \<and> fs_dirs s' = fs_dirs s1
      \<and> (\<forall>q. q \<notin> file_path (m_name t) ` set (m_files t) \<longrightarrow> fs_files s' q = fs_files s1 q)"
      using Suc.prems len wr(1) by (intro Suc.IH) simp_all
    then obtain s' where s': "multi_write_loop fuel t p (r - len) s1 = (Inr (), s')"
      "files_present s' (m_name t) (m_files t)"
      "disk_stream s' (m_name t) (m_files t) =
          put_at (base + (sz - nat (r - len))) (drop (sz - nat (r - len)) (m_data p))
            (disk_stream s1 (m_name t) (m_files t))"
      "fs_dirs s' = fs_dirs s1"
      "\<forall>q. q \<notin> file_path (m_name t) ` set (m_files t) \<longrightarrow> fs_files s' q = fs_files s1 q"
      by blast
    have next_off: "sz - nat (r - len) = dn + length d"
      using r len dlen by linarith
    have dd: "d @ drop (dn + length d) (m_data p) = drop dn (m_data p)"
      using dlen len by (simp add: d_def) (metis add.commute append_take_drop_id drop_drop length_take min.absorb2)
    have np: "nat pos = base + dn"
      by (simp add: pos_def)
    have "disk_stream s' (m_name t) (m_files t)
        = put_at (base + dn) (drop dn (m_data p)) (disk_stream s (m_name t) (m_files t))"
      using s'(3) wr(2) [unfolded np] put_at_put_at [of "base + dn" d "drop (dn + length d) (m_data p)"]
        Suc.prems(3,4) r(3) dlen len len_stream
      by (simp add: next_off dd add.assoc)
    moreover have "fs_files s1 q = fs_files s q" if "q \<notin> file_path (m_name t) ` set (m_files t)" for q
      using that i by (auto simp: s1_def)
    ultimately show ?thesis
      using s' unfolding step dn_def by (auto simp: s1_def)
  qed
qed

lemma multi_write_stream:
  assumes "files_present s (m_name t) (m_files t)" and "m_length t = 0"
    and "length (m_data p) = unat (m_piece_size p)"
    and "uint (m_id p * m_piece_length t) + uint (m_piece_size p) \<le> files_length (m_files t)"
  shows "\<exists>s'. multi_write t p s = (Inr (), s') \<and> files_present s' (m_name t) (m_files t)
    \<and> disk_stream s' (m_name t) (m_files t) =
        put_at (unat (m_id p * m_piece_length t)) (m_data p) (disk_stream s (m_name t) (m_files t))
    \<and> fs_dirs s' = fs_dirs s
    \<and> (\<forall>q. q \<notin> file_path (m_name t) ` set (m_files t) \<longrightarrow> fs_files s' q = fs_files s q)"
proof -
  have "\<exists>s'. multi_write_loop (unat (m_piece_size p)) t p (uint (m_piece_size p)) s = (Inr (), s')
    \<and> files_present s' (m_name t) (m_files t)
    \<and> disk_stream s' (m_name t) (m_files t) =
        put_at (unat (m_id p * m_piece_length t) + (unat (m_piece_size p) - nat (uint (m_piece_size p))))
          (drop (unat (m_piece_size p) - nat (uint (m_piece_size p))) (m_data p))
          (disk_stream s (m_name t) (m_files t))
    \<and> fs_dirs s' = fs_dirs s
    \<and> (\<forall>q. q \<notin> file_path (m_name t) ` set (m_files t) \<longrightarrow> fs_files s' q = fs_files s q)"
    by (rule multi_write_loop_stream [OF assms(1-3)]) (use assms(4) in simp_all)
  moreover have "unat (m_piece_size p) - nat (uint (m_piece_size p)) = 0"
    by simp
  ultimately show ?thesis
    unfolding multi_write_def by (metis add_0_right drop0)
qed

text \<open>
  C6.  Writing a piece of a multi-file torrent, which cuts it at the file boundaries, stores its
  data at its position of the stream made of the files in their order: files keep their sizes and
  no other file or directory is touched.
\<close>

theorem multi_write_refines:
  assumes "files_present s (m_name t) (m_files t)" and "m_length t = 0"
    and "length (m_data p) = unat (m_piece_size p)"
    and "uint (m_id p * m_piece_length t) + uint (m_piece_size p) \<le> files_length (m_files t)"
  shows "\<exists>s'. multi_write t p s = (Inr (), s') \<and> files_present s' (m_name t) (m_files t)
    \<and> disk_stream s' (m_name t) (m_files t) =
        put_at (unat (m_id p * m_piece_length t)) (m_data p) (disk_stream s (m_name t) (m_files t))
    \<and> fs_dirs s' = fs_dirs s
    \<and> (\<forall>q. q \<notin> file_path (m_name t) ` set (m_files t) \<longrightarrow> fs_files s' q = fs_files s q)"
  using multi_write_stream [OF assms] .

definition sample_fs :: filesystem where
  "sample_fs = \<lparr>fs_files = [''d/f/a'' \<mapsto> [0, 0, 0], ''d/f/b'' \<mapsto> [], ''d/f/c'' \<mapsto> [0, 0, 0, 0, 0]], fs_dirs = {''d/f''}\<rparr>"

lemma sample_present: "files_present sample_fs ''d/f'' sample_files"
  by (simp add: files_present_def sample_fs_def sample_files_def file_path_def file_bytes_def
      path_append_def starts_with_def)

theorem multi_write_refines_witness:
  "\<exists>s'. multi_write sample_multi ((new_piece 0 4)\<lparr>m_data := [1, 2, 3, 4]\<rparr>) sample_fs = (Inr (), s')
    \<and> disk_stream s' ''d/f'' sample_files = [1, 2, 3, 4, 0, 0, 0, 0]"
proof -
  have "disk_stream sample_fs ''d/f'' sample_files = [0, 0, 0, 0, 0, 0, 0, 0]"
    by (simp add: disk_stream_def sample_fs_def sample_files_def file_path_def file_bytes_def
        path_append_def starts_with_def)
  then show ?thesis
    using multi_write_refines [of sample_fs sample_multi "(new_piece 0 4)\<lparr>m_data := [1, 2, 3, 4]\<rparr>"] sample_present
    by (auto simp: sample_multi_def sample_meta_def new_piece_def put_at_inside)
      (auto simp: sample_files_def files_length_def)
qed

end
