(* ===== verification/WriterThread.thy ===== *)
theory WriterThread
  imports FileWriter
begin

text \<open>
  The thread of \<^verbatim>\<open>FileWriter\<close> (\<^verbatim>\<open>src/file_writer.hpp\<close>,
  \<^verbatim>\<open>src/file_writer.cpp\<close>): the loop of \<^verbatim>\<open>run\<close>, the queue behind its mutex, the condition
  variable and the flag \<^verbatim>\<open>m_stop\<close>, interleaved with the threads that add pieces and with
  the destructor of \<^verbatim>\<open>FileWriterThread\<close>, which stops the writer and joins it.  What a round
  does with a piece is \<open>write_next_piece\<close>; here it is cut at its points of synchronisation.
\<close>

section \<open>State and steps\<close>

text \<open>
  Where the thread is: before \<^verbatim>\<open>m_stop = false\<close>; at the head of the loop; about to lock the
  queue, for the first time or after it was woken; about to evaluate the predicate of
  \<^verbatim>\<open>wait\<close>; between its evaluation to false and blocking; blocked; past \<^verbatim>\<open>wait\<close>, with
  the lock; at work on a piece; returned.
\<close>

datatype writer_pc = At_start | At_loop | At_lock | At_test | At_block | Blocked | Past_wait | Working nat | Returned

datatype stop_progress = Not_called | Flag_set | Notified

record writer_thread =
  wt_pc :: writer_pc
  wt_stop :: bool
  wt_world :: writer_state
  wt_stopper :: stop_progress
  wt_added :: "nat list"
  wt_taken :: "nat list"

abbreviation wt_queue :: "writer_thread \<Rightarrow> nat list" where
  "wt_queue s \<equiv> writer_queue (w_torrent (wt_world s))"

definition set_queue :: "nat list \<Rightarrow> writer_state \<Rightarrow> writer_state" where
  "set_queue q w = w\<lparr>w_torrent := (w_torrent w)\<lparr>writer_queue := q\<rparr>\<rparr>"

definition queue_locked :: "writer_thread \<Rightarrow> bool" where
  "queue_locked s \<longleftrightarrow> wt_pc s \<in> {At_test, At_block, Past_wait}"

text \<open>The steps of \<^verbatim>\<open>FileWriter::run\<close>; the flag is read at the head of the loop and after the wait.\<close>

inductive writer_step ::
    "(bytes \<Rightarrow> string) \<Rightarrow> (unit \<Rightarrow> unit result) \<Rightarrow> writer_thread \<Rightarrow> writer_thread \<Rightarrow> bool" for sha1 lpw where
  begin_run: "wt_pc s = At_start \<Longrightarrow> writer_step sha1 lpw s (s\<lparr>wt_stop := False, wt_pc := At_loop\<rparr>)"
| again: "wt_pc s = At_loop \<Longrightarrow> \<not> wt_stop s \<Longrightarrow> writer_step sha1 lpw s (s\<lparr>wt_pc := At_lock\<rparr>)"
| leave: "wt_pc s = At_loop \<Longrightarrow> wt_stop s \<Longrightarrow> writer_step sha1 lpw s (s\<lparr>wt_pc := Returned\<rparr>)"
| lock: "wt_pc s = At_lock \<Longrightarrow> writer_step sha1 lpw s (s\<lparr>wt_pc := At_test\<rparr>)"
| pass: "wt_pc s = At_test \<Longrightarrow> wt_queue s \<noteq> [] \<or> wt_stop s \<Longrightarrow> writer_step sha1 lpw s (s\<lparr>wt_pc := Past_wait\<rparr>)"
| miss: "wt_pc s = At_test \<Longrightarrow> wt_queue s = [] \<Longrightarrow> \<not> wt_stop s \<Longrightarrow> writer_step sha1 lpw s (s\<lparr>wt_pc := At_block\<rparr>)"
| block: "wt_pc s = At_block \<Longrightarrow> writer_step sha1 lpw s (s\<lparr>wt_pc := Blocked\<rparr>)"
| stopped: "wt_pc s = Past_wait \<Longrightarrow> wt_stop s \<Longrightarrow> writer_step sha1 lpw s (s\<lparr>wt_pc := At_loop\<rparr>)"
| fetch: "wt_pc s = Past_wait \<Longrightarrow> \<not> wt_stop s \<Longrightarrow> wt_queue s = loc # q \<Longrightarrow>
    writer_step sha1 lpw s (s\<lparr>wt_pc := Working loc, wt_world := set_queue q (wt_world s), wt_taken := wt_taken s @ [loc]\<rparr>)"
| work: "wt_pc s = Working loc \<Longrightarrow> writer_step sha1 lpw s (s\<lparr>wt_pc := At_loop,
    wt_world := write_next_piece sha1 lpw (set_queue (loc # wt_queue s) (wt_world s))\<rparr>)"

text \<open>
  The other threads: \<open>add\<close> with its notification under the lock of the queue; the two statements of
  \<^verbatim>\<open>stop\<close>, which take no lock; whatever else happens to the torrent; and the spurious wakeups
  that the standard allows.
\<close>

inductive other_step :: "writer_thread \<Rightarrow> writer_thread \<Rightarrow> bool" where
  add: "\<not> queue_locked s \<Longrightarrow> other_step s (s\<lparr>wt_world := set_queue (writer_add loc (wt_queue s)) (wt_world s),
    wt_added := wt_added s @ [loc], wt_pc := (if wt_pc s = Blocked then At_lock else wt_pc s)\<rparr>)"
| flag: "wt_stopper s = Not_called \<Longrightarrow> other_step s (s\<lparr>wt_stop := True, wt_stopper := Flag_set\<rparr>)"
| notify: "wt_stopper s = Flag_set \<Longrightarrow> other_step s (s\<lparr>wt_stopper := Notified,
    wt_pc := (if wt_pc s = Blocked then At_lock else wt_pc s)\<rparr>)"
| network: "writer_queue t = wt_queue s \<Longrightarrow> other_step s (s\<lparr>wt_world := (wt_world s)\<lparr>w_torrent := t\<rparr>\<rparr>)"
| spurious: "wt_pc s = Blocked \<Longrightarrow> other_step s (s\<lparr>wt_pc := At_lock\<rparr>)"

definition new_writer_thread :: "writer_state \<Rightarrow> writer_thread" where
  "new_writer_thread w = \<lparr>wt_pc = At_start, wt_stop = False, wt_world = w, wt_stopper = Not_called,
     wt_added = wt_queue \<lparr>wt_pc = At_start, wt_stop = False, wt_world = w, wt_stopper = Not_called, wt_added = [], wt_taken = []\<rparr>,
     wt_taken = []\<rparr>"

text \<open>Runs, with the number of steps the writer itself has made.\<close>

inductive thread_run ::
    "(bytes \<Rightarrow> string) \<Rightarrow> (unit \<Rightarrow> unit result) \<Rightarrow> writer_thread \<Rightarrow> nat \<Rightarrow> writer_thread \<Rightarrow> bool" for sha1 lpw where
  refl: "thread_run sha1 lpw s 0 s"
| own: "thread_run sha1 lpw s n s1 \<Longrightarrow> writer_step sha1 lpw s1 s2 \<Longrightarrow> thread_run sha1 lpw s (Suc n) s2"
| other: "thread_run sha1 lpw s n s1 \<Longrightarrow> other_step s1 s2 \<Longrightarrow> thread_run sha1 lpw s n s2"

inductive_cases writer_stepE: "writer_step sha1 lpw s s'"
inductive_cases other_stepE: "other_step s s'"

section \<open>The queue\<close>

lemma set_queue_simps [simp]: "writer_queue (w_torrent (set_queue q w)) = q" "w_fs (set_queue q w) = w_fs w"
  by (simp_all add: set_queue_def)

lemma write_next_piece_queue:
  "writer_queue (w_torrent (write_next_piece sha1 lpw (set_queue (loc # q) w))) = q"
  by (auto simp: write_next_piece_def set_queue_def Let_def reset_piece_def split: sum.splits prod.splits option.splits)

lemma writer_step_queue:
  "writer_step sha1 lpw s s' \<Longrightarrow> wt_added s = wt_taken s @ wt_queue s \<Longrightarrow> wt_added s' = wt_taken s' @ wt_queue s'"
  by (erule writer_stepE) (auto simp: write_next_piece_queue)

lemma other_step_queue:
  "other_step s s' \<Longrightarrow> wt_added s = wt_taken s @ wt_queue s \<Longrightarrow> wt_added s' = wt_taken s' @ wt_queue s'"
  by (erule other_stepE) (auto simp: writer_add_def)

lemma thread_queue:
  "thread_run sha1 lpw s n s' \<Longrightarrow> wt_added s = wt_taken s @ wt_queue s \<Longrightarrow> wt_added s' = wt_taken s' @ wt_queue s'"
  by (induction rule: thread_run.induct) (blast intro: writer_step_queue other_step_queue)+

text \<open>While the writer sleeps, or is about to, no piece waits in the queue.\<close>

definition sleeps_idle :: "writer_thread \<Rightarrow> bool" where
  "sleeps_idle s \<longleftrightarrow> (wt_pc s \<in> {At_block, Blocked} \<longrightarrow> wt_queue s = []) \<and> (wt_pc s = Past_wait \<longrightarrow> wt_queue s \<noteq> [] \<or> wt_stop s)"

lemma writer_step_idle: "writer_step sha1 lpw s s' \<Longrightarrow> sleeps_idle s \<Longrightarrow> sleeps_idle s'"
  by (erule writer_stepE) (auto simp: sleeps_idle_def)

lemma other_step_idle: "other_step s s' \<Longrightarrow> sleeps_idle s \<Longrightarrow> sleeps_idle s'"
  by (erule other_stepE) (auto simp: sleeps_idle_def queue_locked_def writer_add_def)

lemma thread_idle: "thread_run sha1 lpw s n s' \<Longrightarrow> sleeps_idle s \<Longrightarrow> sleeps_idle s'"
  by (induction rule: thread_run.induct) (blast intro: writer_step_idle other_step_idle)+

lemma new_writer_thread_simps [simp]:
  "wt_pc (new_writer_thread w) = At_start" "wt_world (new_writer_thread w) = w" "wt_stopper (new_writer_thread w) = Not_called"
  "wt_added (new_writer_thread w) = writer_queue (w_torrent w)" "wt_taken (new_writer_thread w) = []"
  "wt_stop (new_writer_thread w) = False"
  by (simp_all add: new_writer_thread_def)

lemma awake_progress:
  assumes "sleeps_idle s" and "wt_pc s \<notin> {Blocked, Returned}"
  shows "\<exists>s'. writer_step sha1 lpw s s'"
proof (cases "wt_pc s")
  case Past_wait
  then show ?thesis
    using assms(1) by (cases "wt_queue s"; cases "wt_stop s") (auto simp: sleeps_idle_def intro: writer_step.stopped writer_step.fetch)
next
  case At_test
  then show ?thesis
    using writer_step.pass writer_step.miss by blast
next
  case At_loop
  then show ?thesis
    using writer_step.again writer_step.leave by blast
qed (use assms(2) in \<open>auto intro: writer_step.intros\<close>)

text \<open>
  C38.  However the writer thread is interleaved with the threads that add pieces and with the one
  that stops it, it takes the pieces in the order in which they were added, each once, and none of
  them is left in the queue while it sleeps: the notification of \<open>add\<close> is never lost.  As long as it
  neither sleeps nor has returned, it has a step to make.
\<close>

theorem writer_takes_in_order:
  assumes "thread_run sha1 lpw (new_writer_thread w) n s"
  shows "wt_added s = wt_taken s @ wt_queue s \<and> (wt_pc s = Blocked \<longrightarrow> wt_queue s = [])
    \<and> (wt_pc s = Blocked \<or> wt_pc s = Returned \<or> (\<exists>s'. writer_step sha1 lpw s s'))"
proof -
  have "sleeps_idle s"
    by (rule thread_idle [OF assms]) (simp add: sleeps_idle_def)
  moreover have "wt_added s = wt_taken s @ wt_queue s"
    by (rule thread_queue [OF assms]) simp
  ultimately show ?thesis
    using awake_progress [of s] by (auto simp: sleeps_idle_def)
qed

section \<open>Stopping\<close>

text \<open>
  The writer sees the flag: it is set, and the thread is neither before the statement that clears
  it nor between the evaluation of the predicate and the end of its sleep.
\<close>

definition sees_stop :: "writer_thread \<Rightarrow> bool" where
  "sees_stop s \<longleftrightarrow> wt_stop s \<and> wt_pc s \<notin> {At_start, At_block, Blocked}"

fun steps_left :: "writer_pc \<Rightarrow> nat" where
  "steps_left At_lock = 4"
| "steps_left At_test = 3"
| "steps_left Past_wait = 2"
| "steps_left (Working _) = 2"
| "steps_left At_loop = 1"
| "steps_left _ = 0"

lemma writer_step_sees:
  "writer_step sha1 lpw s s' \<Longrightarrow> sees_stop s \<Longrightarrow>
    sees_stop s' \<and> Suc (steps_left (wt_pc s')) = steps_left (wt_pc s) \<and> wt_taken s' = wt_taken s"
  by (erule writer_stepE) (auto simp: sees_stop_def)

lemma other_step_sees:
  "other_step s s' \<Longrightarrow> sees_stop s \<Longrightarrow> sees_stop s' \<and> wt_pc s' = wt_pc s \<and> wt_taken s' = wt_taken s"
  by (erule other_stepE) (auto simp: sees_stop_def)

lemma sees_stop_progress:
  assumes "sees_stop s"
  shows "wt_pc s = Returned \<or> (\<exists>s'. writer_step sha1 lpw s s')"
  using assms by (cases "wt_pc s") (auto simp: sees_stop_def intro: writer_step.intros)

text \<open>
  C33.  A writer that sees the flag finishes the piece it is at, takes no other one, and returns: it
  makes at most four more steps of its own, and is never held up by the other threads.
\<close>

theorem stop_ends_writer:
  assumes "sees_stop s" and "thread_run sha1 lpw s n s'"
  shows "n + steps_left (wt_pc s') = steps_left (wt_pc s) \<and> n \<le> 4 \<and> wt_taken s' = wt_taken s
    \<and> (wt_pc s' = Returned \<or> (\<exists>s2. writer_step sha1 lpw s' s2))"
proof -
  have "sees_stop s' \<and> n + steps_left (wt_pc s') = steps_left (wt_pc s) \<and> wt_taken s' = wt_taken s"
    using assms(2,1)
  proof (induction rule: thread_run.induct)
    case (own s n s1 s2)
    then show ?case
      using writer_step_sees [OF own.hyps(2)] by auto
  next
    case (other s n s1 s2)
    then show ?case
      using other_step_sees [OF other.hyps(2)] by auto
  qed simp
  moreover have "steps_left (wt_pc s) \<le> 4"
    by (cases "wt_pc s") simp_all
  ultimately show ?thesis
    using sees_stop_progress by auto
qed

text \<open>The two ways in which \<^verbatim>\<open>stop\<close> is missed.\<close>

lemma cleared_flag:
  assumes "thread_run sha1 lpw s n s'" and "wt_stopper s = Notified" and "\<not> wt_stop s" and "wt_pc s \<noteq> Returned"
  shows "\<not> wt_stop s' \<and> wt_pc s' \<noteq> Returned \<and> wt_stopper s' = Notified"
  using assms
proof (induction rule: thread_run.induct)
  case (own s n s1 s2)
  then have "\<not> wt_stop s1 \<and> wt_pc s1 \<noteq> Returned \<and> wt_stopper s1 = Notified"
    by simp
  with own.hyps(2) show ?case
    by (elim writer_stepE) auto
next
  case (other s n s1 s2)
  then have "\<not> wt_stop s1 \<and> wt_pc s1 \<noteq> Returned \<and> wt_stopper s1 = Notified"
    by simp
  with other.hyps(2) show ?case
    by (elim other_stepE) auto
qed simp

text \<open>The steps of \<^verbatim>\<open>stop\<close> against a writer that is not asleep.\<close>

lemma other_step_flag:
  "wt_stopper s = Not_called \<Longrightarrow> s' = s\<lparr>wt_stop := True, wt_stopper := Flag_set\<rparr> \<Longrightarrow> other_step s s'"
  using other_step.flag by simp

lemma other_step_notify:
  "wt_stopper s = Flag_set \<Longrightarrow> wt_pc s \<noteq> Blocked \<Longrightarrow> s' = s\<lparr>wt_stopper := Notified\<rparr> \<Longrightarrow> other_step s s'"
  using other_step.notify [of s] by simp

lemma stop_before_start:
  "\<exists>s. thread_run sha1 lpw (new_writer_thread w) 1 s \<and> wt_stopper s = Notified \<and> \<not> wt_stop s \<and> wt_pc s = At_loop"
proof -
  define s1 where "s1 = (new_writer_thread w)\<lparr>wt_stop := True, wt_stopper := Flag_set\<rparr>"
  define s2 where "s2 = s1\<lparr>wt_stopper := Notified\<rparr>"
  define s3 where "s3 = s2\<lparr>wt_stop := False, wt_pc := At_loop\<rparr>"
  have "other_step (new_writer_thread w) s1" "other_step s1 s2"
    by (simp_all add: s1_def s2_def other_step_flag other_step_notify)
  moreover have "writer_step sha1 lpw s2 s3"
    using writer_step.begin_run [of s2] by (simp add: s1_def s2_def s3_def)
  ultimately have "thread_run sha1 lpw (new_writer_thread w) (Suc 0) s3"
    using thread_run.refl by (blast intro: thread_run.own thread_run.other)
  then show ?thesis
    by (auto simp: s3_def s2_def)
qed

lemma stop_before_sleep:
  assumes "writer_queue (w_torrent w) = []"
  shows "\<exists>n s. thread_run sha1 lpw (new_writer_thread w) n s \<and> wt_stopper s = Notified \<and> wt_stop s \<and> wt_pc s = Blocked"
proof -
  define t1 where "t1 = (new_writer_thread w)\<lparr>wt_stop := False, wt_pc := At_loop\<rparr>"
  define t2 where "t2 = t1\<lparr>wt_pc := At_lock\<rparr>"
  define t3 where "t3 = t2\<lparr>wt_pc := At_test\<rparr>"
  define t4 where "t4 = t3\<lparr>wt_pc := At_block\<rparr>"
  define t5 where "t5 = t4\<lparr>wt_stop := True, wt_stopper := Flag_set\<rparr>"
  define t6 where "t6 = t5\<lparr>wt_stopper := Notified\<rparr>"
  define t7 where "t7 = t6\<lparr>wt_pc := Blocked\<rparr>"
  note defs = t1_def t2_def t3_def t4_def t5_def t6_def t7_def
  have own: "writer_step sha1 lpw (new_writer_thread w) t1" "writer_step sha1 lpw t1 t2"
      "writer_step sha1 lpw t2 t3" "writer_step sha1 lpw t3 t4" "writer_step sha1 lpw t6 t7"
    using writer_step.begin_run [of "new_writer_thread w"] writer_step.again [of t1] writer_step.lock [of t2]
      writer_step.miss [of t3] writer_step.block [of t6] assms
    by (simp_all add: defs)
  have late: "other_step t4 t5" "other_step t5 t6"
    by (simp_all add: defs other_step_flag other_step_notify)
  note asleep = thread_run.own [OF thread_run.own [OF thread_run.own [OF thread_run.own [OF thread_run.refl own(1)] own(2)] own(3)] own(4)]
  have "\<exists>n. thread_run sha1 lpw (new_writer_thread w) n t7"
    using thread_run.own [OF thread_run.other [OF thread_run.other [OF asleep late(1)] late(2)] own(5)] by blast
  moreover have "wt_stopper t7 = Notified" "wt_stop t7" "wt_pc t7 = Blocked"
    by (simp_all add: t7_def t6_def t5_def)
  ultimately show ?thesis
    by blast
qed

text \<open>
  C39.  The stop of the writer can be missed, and the destructor that joins the thread then hangs.
  When \<open>stop\<close> is called before the thread has cleared the flag, the thread never returns, whatever
  happens.  When it is called between the evaluation of the predicate to false and the beginning of
  the sleep, which no lock prevents, the notification is lost: the thread is blocked with the flag
  set and has no step of its own, until someone adds a piece or a spurious wakeup comes.
\<close>

theorem stop_can_be_missed:
  assumes "writer_queue (w_torrent w) = []"
  shows "(\<exists>n s. thread_run sha1 lpw (new_writer_thread w) n s \<and> wt_stopper s = Notified
      \<and> (\<nexists>m s'. thread_run sha1 lpw s m s' \<and> wt_pc s' = Returned))
    \<and> (\<exists>n s. thread_run sha1 lpw (new_writer_thread w) n s \<and> wt_stopper s = Notified \<and> wt_stop s
      \<and> wt_pc s \<noteq> Returned \<and> (\<nexists>s'. writer_step sha1 lpw s s'))"
proof (intro conjI)
  obtain s where s: "thread_run sha1 lpw (new_writer_thread w) 1 s" "wt_stopper s = Notified" "\<not> wt_stop s" "wt_pc s = At_loop"
    using stop_before_start by blast
  have "\<nexists>m s'. thread_run sha1 lpw s m s' \<and> wt_pc s' = Returned"
    using cleared_flag [of sha1 lpw s] s by auto
  with s show "\<exists>n s. thread_run sha1 lpw (new_writer_thread w) n s \<and> wt_stopper s = Notified
      \<and> (\<nexists>m s'. thread_run sha1 lpw s m s' \<and> wt_pc s' = Returned)"
    by blast
next
  obtain n s where s: "thread_run sha1 lpw (new_writer_thread w) n s" "wt_stopper s = Notified" "wt_stop s" "wt_pc s = Blocked"
    using stop_before_sleep [OF assms] by blast
  then have "\<nexists>s'. writer_step sha1 lpw s s'"
    by (auto elim: writer_stepE)
  with s show "\<exists>n s. thread_run sha1 lpw (new_writer_thread w) n s \<and> wt_stopper s = Notified \<and> wt_stop s
      \<and> wt_pc s \<noteq> Returned \<and> (\<nexists>s'. writer_step sha1 lpw s s')"
    by (metis writer_pc.distinct)
qed

section \<open>Runs of a small writer\<close>

definition idle_writer :: writer_state where
  "idle_writer = \<lparr>w_torrent = sample_torrent\<lparr>writer_queue := []\<rparr>, w_fs = sample_fs, w_completed = 0\<rparr>"

text \<open>A piece is added before the thread has started; the thread then takes it.\<close>

lemma takes_first:
  "\<exists>s. thread_run sha1 lpw (new_writer_thread idle_writer) 5 s \<and> wt_added s = [7] \<and> wt_queue s = [] \<and> wt_pc s = Working 7"
proof -
  define s1 where "s1 = (new_writer_thread idle_writer)\<lparr>wt_world := set_queue [7] idle_writer, wt_added := [7]\<rparr>"
  define s2 where "s2 = s1\<lparr>wt_stop := False, wt_pc := At_loop\<rparr>"
  define s3 where "s3 = s2\<lparr>wt_pc := At_lock\<rparr>"
  define s4 where "s4 = s3\<lparr>wt_pc := At_test\<rparr>"
  define s5 where "s5 = s4\<lparr>wt_pc := Past_wait\<rparr>"
  define s6 where "s6 = s5\<lparr>wt_pc := Working 7, wt_world := set_queue [] (wt_world s5), wt_taken := [7]\<rparr>"
  note defs = s1_def s2_def s3_def s4_def s5_def s6_def
  have "other_step (new_writer_thread idle_writer) s1"
    using other_step.add [of "new_writer_thread idle_writer" 7]
    by (simp add: s1_def queue_locked_def idle_writer_def writer_add_def new_writer_thread_def)
  note run = thread_run.other [OF thread_run.refl this]
  have own: "writer_step sha1 lpw s1 s2" "writer_step sha1 lpw s2 s3" "writer_step sha1 lpw s3 s4" "writer_step sha1 lpw s4 s5"
      "writer_step sha1 lpw s5 s6"
    using writer_step.begin_run [of s1] writer_step.again [of s2] writer_step.lock [of s3]
      writer_step.pass [of s4] writer_step.fetch [of s5 7 "[]"]
    by (simp_all add: defs)
  have "thread_run sha1 lpw (new_writer_thread idle_writer) 5 s6"
    using thread_run.own [OF thread_run.own [OF thread_run.own [OF thread_run.own [OF thread_run.own
      [OF run own(1)] own(2)] own(3)] own(4)] own(5)] by (simp add: eval_nat_numeral)
  then show ?thesis
    by (intro exI [of _ s6]) (simp add: defs)
qed

theorem writer_takes_in_order_witness:
  "\<exists>s. thread_run (\<lambda>_. ''x'') (\<lambda>_. Inr ()) (new_writer_thread idle_writer) 5 s
    \<and> wt_added s = [7] \<and> wt_pc s = Working 7 \<and> wt_taken s = [7]"
proof -
  obtain s where s: "thread_run (\<lambda>_. ''x'') (\<lambda>_. Inr ()) (new_writer_thread idle_writer) 5 s"
      "wt_added s = [7]" "wt_queue s = []" "wt_pc s = Working 7"
    using takes_first by blast
  then have "wt_taken s = [7]"
    using writer_takes_in_order [OF s(1)] by simp
  with s show ?thesis
    by blast
qed

text \<open>Stopped as it is about to wait, the writer makes four steps and returns.\<close>

definition stopping_thread :: writer_thread where
  "stopping_thread = (new_writer_thread idle_writer)\<lparr>wt_stop := True, wt_pc := At_lock\<rparr>"

lemma stopping_run: "thread_run sha1 lpw stopping_thread 4 (stopping_thread\<lparr>wt_pc := Returned\<rparr>)"
proof -
  define s1 where "s1 = stopping_thread\<lparr>wt_pc := At_test\<rparr>"
  define s2 where "s2 = s1\<lparr>wt_pc := Past_wait\<rparr>"
  define s3 where "s3 = s2\<lparr>wt_pc := At_loop\<rparr>"
  define s4 where "s4 = s3\<lparr>wt_pc := Returned\<rparr>"
  have own: "writer_step sha1 lpw stopping_thread s1" "writer_step sha1 lpw s1 s2" "writer_step sha1 lpw s2 s3" "writer_step sha1 lpw s3 s4"
    using writer_step.lock [of stopping_thread] writer_step.pass [of s1] writer_step.stopped [of s2] writer_step.leave [of s3]
    by (simp_all add: s1_def s2_def s3_def s4_def stopping_thread_def)
  have "thread_run sha1 lpw stopping_thread 4 s4"
    using thread_run.own [OF thread_run.own [OF thread_run.own [OF thread_run.own [OF thread_run.refl own(1)] own(2)] own(3)] own(4)]
    by (simp add: eval_nat_numeral)
  then show ?thesis
    by (simp add: s1_def s2_def s3_def s4_def)
qed

theorem stop_ends_writer_witness:
  "sees_stop stopping_thread \<and> (\<exists>s. thread_run (\<lambda>_. ''x'') (\<lambda>_. Inr ()) stopping_thread 4 s \<and> steps_left (wt_pc s) = 0 \<and> wt_taken s = [])"
proof -
  have "sees_stop stopping_thread" "wt_pc stopping_thread = At_lock" "wt_taken stopping_thread = []"
    by (simp_all add: sees_stop_def stopping_thread_def)
  then show ?thesis
    using stop_ends_writer [OF _ stopping_run] stopping_run by fastforce
qed

theorem stop_can_be_missed_witness:
  "\<exists>n s. thread_run (\<lambda>_. ''x'') (\<lambda>_. Inr ()) (new_writer_thread idle_writer) n s \<and> wt_stopper s = Notified
    \<and> wt_stop s \<and> wt_pc s \<noteq> Returned \<and> (\<nexists>s'. writer_step (\<lambda>_. ''x'') (\<lambda>_. Inr ()) s s')"
proof -
  have "writer_queue (w_torrent idle_writer) = []"
    by (simp add: idle_writer_def)
  then show ?thesis
    by (rule stop_can_be_missed [THEN conjunct2])
qed

end
