(* ===== verification/Disk_Integrity.thy ===== *)
theory Disk_Integrity
  imports FileWriter
begin

text \<open>
  What is on disk, for both kinds of torrents.  \<open>TorrentDestination\<close> of
  \<^verbatim>\<open>src/file_writer.cpp\<close> is the interface \<open>piece_store\<close>; single-file and multi-file
  destinations are interpretations of it.  On top of them, \<open>download_step\<close> interleaves the
  network side of a torrent with the rounds of the writer thread, and the theorems say what the
  disk holds for every piece that counts as written.
\<close>

section \<open>The interface of a destination\<close>

text \<open>
  The temporary file is there, so that the writer does not make the files.  The torrent has no path
  twice, neither is the temporary file among the files, and lengths are 64 bit numbers.
\<close>

definition store_started :: "metainfo \<Rightarrow> filesystem \<Rightarrow> bool" where
  "store_started t s \<longleftrightarrow> fs_files s (m_tmpfile t) \<noteq> None \<or> m_tmpfile t \<in> fs_dirs s"

definition suffixed_tmpfile :: "metainfo \<Rightarrow> string" where
  "suffixed_tmpfile t = (if ends_with tmpfileExtension (m_tmpfile t) then m_tmpfile t
     else m_tmpfile t @ tmpfileExtension)"

definition files_ok :: "metainfo \<Rightarrow> bool" where
  "files_ok t \<longleftrightarrow> distinct (map (file_path (m_name t)) (m_files t))
     \<and> (\<forall>fi \<in> set (m_files t). fi_length fi < 2 ^ 63)
     \<and> {m_tmpfile t, suffixed_tmpfile t} \<inter> file_path (m_name t) ` set (m_files t) = {}"

locale piece_store =
  fixes mode :: "metainfo \<Rightarrow> bool"
    and present :: "metainfo \<Rightarrow> filesystem \<Rightarrow> bool"
    and stream :: "metainfo \<Rightarrow> filesystem \<Rightarrow> bytes"
    and allocate :: "metainfo \<Rightarrow> unit io"
    and check :: "metainfo \<Rightarrow> unit io"
    and store :: "metainfo \<Rightarrow> piece \<Rightarrow> unit io"
    and complete :: "(unit \<Rightarrow> unit result) \<Rightarrow> metainfo \<Rightarrow> unit io"
  assumes present_started: "mode t \<Longrightarrow> present t s \<Longrightarrow> store_started t s"
    and allocate_started: "mode t \<Longrightarrow> store_started t s \<Longrightarrow> allocate t s = (Inr (), s)"
    and allocate_starts: "mode t \<Longrightarrow> files_ok t \<Longrightarrow> torrent_length t < 2 ^ 63 \<Longrightarrow> \<not> store_started t s \<Longrightarrow>
      allocate t s = (Inr (), s') \<Longrightarrow> present t s'"
    and check_present: "mode t \<Longrightarrow> torrent_length t < 2 ^ 63 \<Longrightarrow> present t s \<Longrightarrow> check t s = (Inr (), s)"
    and check_means: "mode t \<Longrightarrow> files_ok t \<Longrightarrow> torrent_length t < 2 ^ 63 \<Longrightarrow> store_started t s \<Longrightarrow>
      present t s \<or> (\<exists>e. check t s = (Inl e, s))"
    and stream_length: "mode t \<Longrightarrow> present t s \<Longrightarrow> int (length (stream t s)) = torrent_length t"
    and store_present: "mode t \<Longrightarrow> present t s \<Longrightarrow> length (m_data p) = unat (m_piece_size p) \<Longrightarrow>
      uint (m_id p * m_piece_length t) + uint (m_piece_size p) \<le> torrent_length t \<Longrightarrow>
      \<exists>s'. store t p s = (Inr (), s') \<and> present t s'
        \<and> stream t s' = put_at (unat (m_id p * m_piece_length t)) (m_data p) (stream t s)"
    and store_empty: "mode t \<Longrightarrow> m_data p = [] \<Longrightarrow> m_piece_size p \<noteq> 0 \<Longrightarrow> \<exists>e. store t p s = (Inl e, s)"
    and complete_stream: "mode t \<Longrightarrow> present t s \<Longrightarrow> stream t (snd (complete lpw t s)) = stream t s"
begin

lemma write_sequence:
  assumes "mode t" and "present t s" and "torrent_length t < 2 ^ 63" and "length (m_data p) = unat (m_piece_size p)"
    and "uint (m_id p * m_piece_length t) + uint (m_piece_size p) \<le> torrent_length t"
  shows "\<exists>s'. bindIO (allocate t) (\<lambda>_. bindIO (check t) (\<lambda>_. bindIO (store t p) (\<lambda>_. check t))) s = (Inr (), s')
    \<and> present t s' \<and> stream t s' = put_at (unat (m_id p * m_piece_length t)) (m_data p) (stream t s)"
proof -
  obtain s' where s': "store t p s = (Inr (), s')" "present t s'"
    "stream t s' = put_at (unat (m_id p * m_piece_length t)) (m_data p) (stream t s)"
    using store_present [OF assms(1,2,4,5)] by blast
  then have "bindIO (allocate t) (\<lambda>_. bindIO (check t) (\<lambda>_. bindIO (store t p) (\<lambda>_. check t))) s = (Inr (), s')"
    using assms by (simp add: io_simps allocate_started present_started check_present)
  with s' show ?thesis
    by blast
qed

text \<open>When the files are made first, the rest goes on from what was made.\<close>

lemma write_sequence_made:
  assumes "mode t" and "allocate t s = (Inr (), s0)" and "present t s0"
  shows "bindIO (allocate t) (\<lambda>_. bindIO (check t) (\<lambda>_. bindIO (store t p) (\<lambda>_. check t))) s
    = bindIO (allocate t) (\<lambda>_. bindIO (check t) (\<lambda>_. bindIO (store t p) (\<lambda>_. check t))) s0"
  using assms allocate_started [OF assms(1) present_started [OF assms(1,3)]] by (simp add: io_simps)

text \<open>Whatever is on the disk, writing a piece either does so, or changes nothing once the files were started.\<close>

lemma write_any:
  assumes "mode t" and "files_ok t" and "torrent_length t < 2 ^ 63"
    and "length (m_data p) = unat (m_piece_size p) \<or> m_data p = []"
    and "uint (m_id p * m_piece_length t) + uint (m_piece_size p) \<le> torrent_length t"
    and "bindIO (allocate t) (\<lambda>_. bindIO (check t) (\<lambda>_. bindIO (store t p) (\<lambda>_. check t))) s = (r, s')"
  shows "case r of
      Inl e \<Rightarrow> store_started t s \<longrightarrow> s' = s
    | Inr _ \<Rightarrow> length (m_data p) = unat (m_piece_size p) \<and> present t s' \<and> (\<exists>d. int (length d) = torrent_length t
        \<and> stream t s' = put_at (unat (m_id p * m_piece_length t)) (m_data p) d \<and> (store_started t s \<longrightarrow> d = stream t s))"
proof -
  have in_place: ?thesis if pr: "present t s0" and run: "bindIO (allocate t) (\<lambda>_. bindIO (check t) (\<lambda>_. bindIO (store t p) (\<lambda>_. check t))) s0 = (r, s')"
    and same: "store_started t s \<Longrightarrow> s0 = s" for s0
  proof (cases "length (m_data p) = unat (m_piece_size p)")
    case True
    then show ?thesis
      using write_sequence [OF assms(1) pr assms(3) True assms(5)] run same stream_length [OF assms(1) pr] by auto
  next
    case False
    then have "m_data p = []" "m_piece_size p \<noteq> 0"
      using assms(4) by auto
    then obtain e where "store t p s0 = (Inl e, s0)"
      using store_empty assms(1) by blast
    then show ?thesis
      using run same allocate_started [OF assms(1) present_started [OF assms(1) pr]] check_present [OF assms(1,3) pr]
      by (auto simp: io_simps)
  qed
  show ?thesis
  proof (cases "store_started t s")
    case True
    then consider "present t s" | e where "check t s = (Inl e, s)"
      using check_means assms(1-3) by blast
    then show ?thesis
      using in_place [of s] assms(6) allocate_started [OF assms(1) True] by cases (auto simp: io_simps)
  next
    case False
    obtain r0 s0 where al: "allocate t s = (r0, s0)"
      by fastforce
    show ?thesis
    proof (cases r0)
      case (Inl e)
      then show ?thesis
        using False al assms(6) by (auto simp: io_simps)
    next
      case (Inr u)
      then have pr: "present t s0"
        using allocate_starts [OF assms(1-3) False] al by simp
      then show ?thesis
        using in_place [OF pr] write_sequence_made [OF assms(1) _ pr] al Inr assms(6) False by simp
    qed
  qed
qed

end

section \<open>The two destinations\<close>

definition single_present :: "metainfo \<Rightarrow> filesystem \<Rightarrow> bool" where
  "single_present t s \<longleftrightarrow> (case fs_files s (m_tmpfile t) of
     None \<Rightarrow> False | Some c \<Rightarrow> int (length c) = torrent_length t)"

text \<open>The content of the download, before and after it got its final name.\<close>

definition single_stream :: "metainfo \<Rightarrow> filesystem \<Rightarrow> bytes" where
  "single_stream t s = (case fs_files s (m_tmpfile t) of
     Some c \<Rightarrow> c | None \<Rightarrow> (case fs_files s (m_name t) of None \<Rightarrow> [] | Some c \<Rightarrow> c))"

definition multi_present :: "metainfo \<Rightarrow> filesystem \<Rightarrow> bool" where
  "multi_present t s \<longleftrightarrow> files_present s (m_name t) (m_files t)
     \<and> (fs_files s (m_tmpfile t) \<noteq> None \<or> m_tmpfile t \<in> fs_dirs s)
     \<and> {m_tmpfile t, suffixed_tmpfile t} \<inter> file_path (m_name t) ` set (m_files t) = {}"

definition multi_stream :: "metainfo \<Rightarrow> filesystem \<Rightarrow> bytes" where
  "multi_stream t s = disk_stream s (m_name t) (m_files t)"

subsection \<open>Making and checking the files\<close>

lemma cast_u64: "v < 2 ^ 63 \<Longrightarrow> numeric_cast uint64_t int64_t v = (if 0 \<le> v then Inr v else Inl (Out_of_range ''out of range''))"
  using numeric_cast_u64_exact [of v] by (simp add: numeric_cast_def)

lemma single_allocate_makes:
  assumes "torrent_length t < 2 ^ 63" and "\<not> store_started t s" and "single_allocate t s = (Inr (), s')"
  shows "single_present t s'"
  using assms(2,3) unfolding single_allocate_def io_simps cast_u64 [OF assms(1)]
  by (auto simp: store_started_def fs_exists_def fs_create_def fs_resize_def single_present_def bytes_resize_def
      io_simps split: if_splits)

lemma single_verify_means:
  assumes "torrent_length t < 2 ^ 63"
  shows "single_present t s \<or> (\<exists>e. single_verify t s = (Inl e, s))"
  unfolding single_verify_def io_simps cast_u64 [OF assms]
  by (auto simp: fs_file_size_def single_present_def io_simps ensure_def split: option.splits)

definition make_file :: "string \<Rightarrow> file_info \<Rightarrow> unit io" where
  "make_file name fi =
     (let dst = path_append name (fi_path fi) in
      bindIO (fs_create_directories (parent_path dst)) (\<lambda>_.
      bindIO (fs_create dst) (\<lambda>_.
      bindIO (liftIO (numeric_cast uint64_t int64_t (fi_length fi))) (\<lambda>len.
      fs_resize dst (nat len)))))"

lemma directories_same: "snd (fs_create_directories p s) = s1 \<Longrightarrow> fs_files s1 = fs_files s"
proof -
  have "keeps (\<lambda>s'. fs_files s' = fs_files s) (fs_create_directories p)"
    unfolding fs_create_directories_def by (intro keeps_iter) (simp add: keeps_def fs_create_directory_def)
  then show "snd (fs_create_directories p s) = s1 \<Longrightarrow> fs_files s1 = fs_files s"
    by (auto simp: keeps_def)
qed

lemma make_file_makes:
  assumes "make_file name fi s = (Inr (), s')" and "fi_length fi < 2 ^ 63"
  shows "0 \<le> fi_length fi" and "fs_files s' = (fs_files s)(file_path name fi := Some (replicate (nat (fi_length fi)) 0))"
proof -
  obtain r s1 where r: "fs_create_directories (parent_path (path_append name (fi_path fi))) s = (r, s1)"
    by fastforce
  then have same: "fs_files s1 = fs_files s"
    using directories_same by (metis snd_conv)
  show "0 \<le> fi_length fi" and "fs_files s' = (fs_files s)(file_path name fi := Some (replicate (nat (fi_length fi)) 0))"
    using assms(1) r same unfolding make_file_def io_simps Let_def cast_u64 [OF assms(2)]
    by (auto simp: fs_create_def fs_resize_def bytes_resize_def file_path_def io_simps split: sum.splits if_splits)
qed

lemma make_files:
  assumes "iterIO (make_file name) fis s = (Inr (), s')" and "distinct (map (file_path name) fis)"
    and "\<forall>fi \<in> set fis. fi_length fi < 2 ^ 63"
  shows "(\<forall>fi \<in> set fis. 0 \<le> fi_length fi \<and> fs_files s' (file_path name fi) = Some (replicate (nat (fi_length fi)) 0))
    \<and> (\<forall>q. q \<notin> file_path name ` set fis \<longrightarrow> fs_files s' q = fs_files s q)"
  using assms
proof (induction fis arbitrary: s)
  case (Cons fi fis)
  obtain s1 where s1: "make_file name fi s = (Inr (), s1)" "iterIO (make_file name) fis s1 = (Inr (), s')"
    using Cons.prems(1) by (auto simp: io_simps split: prod.splits sum.splits)
  have "file_path name fi \<notin> file_path name ` set fis"
    using Cons.prems(2) by simp
  moreover note make_file_makes [OF s1(1)] Cons.IH [OF s1(2)] Cons.prems(2,3)
  ultimately show ?case
    by auto
qed (simp add: io_simps)

lemma multi_allocate_eq: "multi_allocate t =
    bindIO (fs_exists (m_tmpfile t)) (\<lambda>ex.
    if ex then retIO ()
    else
      bindIO (fs_create (m_tmpfile t)) (\<lambda>_.
      bindIO (fs_resize (m_tmpfile t) 1) (\<lambda>_.
      bindIO (fs_create_directory (m_name t)) (\<lambda>_.
      iterIO (make_file (m_name t)) (m_files t)))))"
  unfolding multi_allocate_def make_file_def [abs_def] ..

lemma multi_allocate_makes:
  assumes "files_ok t" and "\<not> store_started t s" and "multi_allocate t s = (Inr (), s')"
  shows "multi_present t s'"
proof -
  have dir: "fs_files s2 = fs_files s1" if "fs_create_directory d s1 = (Inr (), s2)" for d s1 s2
    using that by (auto simp: fs_create_directory_def split: if_splits)
  obtain s1 where s1: "fs_files s1 (m_tmpfile t) \<noteq> None" "iterIO (make_file (m_name t)) (m_files t) s1 = (Inr (), s')"
    using assms(2,3) unfolding multi_allocate_eq
    by (auto simp: store_started_def io_simps fs_exists_def fs_create_def fs_resize_def
        split: if_splits prod.splits sum.splits dest!: dir intro!: that)
  have "distinct (map (file_path (m_name t)) (m_files t))" "\<forall>fi \<in> set (m_files t). fi_length fi < 2 ^ 63"
    "{m_tmpfile t, suffixed_tmpfile t} \<inter> file_path (m_name t) ` set (m_files t) = {}"
    using assms(1) by (simp_all add: files_ok_def)
  with make_files [OF s1(2)] s1(1) show ?thesis
    by (auto simp: multi_present_def files_present_def file_bytes_def)
qed

lemma multi_verify_means:
  assumes "\<forall>fi \<in> set fis. fi_length fi < 2 ^ 63"
  shows "(\<exists>e. multi_verify_files name fis s = (Inl e, s)) \<or> multi_verify_files name fis s = (Inr False, s)
    \<or> multi_verify_files name fis s = (Inr True, s)
      \<and> (\<forall>fi \<in> set fis. fs_files s (file_path name fi) \<noteq> None \<and> int (length (file_bytes s name fi)) = fi_length fi)"
  using assms
proof (induction fis)
  case (Cons fi fis)
  then have "fi_length fi < 2 ^ 63"
    by simp
  then show ?case
    using Cons by (auto simp: io_simps cast_u64 fs_file_size_def file_path_def file_bytes_def split: option.splits)
qed (simp add: io_simps)

lemma file_in_list_left: "file_in_list fis cpos pos = Inr (fi, off, left) \<Longrightarrow> 0 < left"
  by (induction fis cpos pos rule: file_in_list.induct) (auto split: if_splits)

lemma multi_write_empty:
  assumes "m_data p = []" and "m_piece_size p \<noteq> 0"
    and "\<not> is_single_file t"
  shows "\<exists>e. multi_write t p s = (Inl e, s)"
proof -
  have pos: "0 < uint (m_piece_size p)"
    using assms(2) by (simp add: word_neq_0_conv word_less_def)
  have "0 < unat (m_piece_size p)"
    using assms(2) by (simp add: unat_gt_0)
  then have fuel: "unat (m_piece_size p) = Suc (unat (m_piece_size p) - 1)"
    by (rule Suc_pred')
  show ?thesis
  proof (cases "file_at_pos t (uint (m_id p * m_piece_length t))")
    case (Inl e)
    then show ?thesis
      using pos unfolding multi_write_def by (subst fuel, subst multi_write_loop.simps) (simp add: io_simps)
  next
    case (Inr a)
    then obtain fi off left where a: "file_at_pos t (uint (m_id p * m_piece_length t)) = Inr (fi, off, left)"
      by (cases a) auto
    then have "0 < left"
      using assms(3) file_in_list_left by (simp add: file_at_pos_def)
    with a pos assms(1) show ?thesis
      unfolding multi_write_def
      by (subst fuel, subst multi_write_loop.simps) (auto simp: io_simps fs_file_size_def Let_def split: option.splits)
  qed
qed

interpretation single: piece_store is_single_file single_present single_stream
    single_allocate single_verify single_write single_complete
proof
  show "single_allocate t s = (Inr (), s)" if "store_started t s" for t s
    using that by (simp add: single_allocate_def store_started_def io_simps fs_defs)
  show "single_present t s \<or> (\<exists>e. single_verify t s = (Inl e, s))"
    if "torrent_length t < 2 ^ 63" "store_started t s" for t s
    using that single_verify_means [of t s] by blast
  show "single_present t s'" if "torrent_length t < 2 ^ 63" "\<not> store_started t s" "single_allocate t s = (Inr (), s')" for t s s'
    using single_allocate_makes [OF that] .
  show "\<exists>e. single_write t p s = (Inl e, s)" if "m_data p = []" "m_piece_size p \<noteq> 0" for t p s
    using that by (auto simp: single_write_def io_simps fs_file_size_def ensure_def unat_eq_zero split: option.splits)
  fix t s
  assume "is_single_file t" and pr: "single_present t s"
  then obtain c where c: "fs_files s (m_tmpfile t) = Some c" "int (length c) = torrent_length t"
    by (auto simp: single_present_def split: option.splits)
  show "store_started t s"
    by (simp add: store_started_def c)
  show "int (length (single_stream t s)) = torrent_length t"
    by (simp add: single_stream_def c)
  show "single_verify t s = (Inr (), s)" if "torrent_length t < 2 ^ 63"
  proof -
    have "numeric_cast uint64_t int64_t (torrent_length t) = Inr (torrent_length t)"
      using that c(2) by (intro numeric_cast_u64_exact) linarith+
    then show ?thesis
      using c by (simp add: single_verify_def io_simps fs_defs)
  qed
  show "single_stream t (snd (single_complete lpw t s)) = single_stream t s" for lpw
    using c by (simp add: single_complete_def io_simps fs_defs single_stream_def)
  fix p :: piece
  assume p: "length (m_data p) = unat (m_piece_size p)"
    "uint (m_id p * m_piece_length t) + uint (m_piece_size p) \<le> torrent_length t"
  have "int (unat (m_id p * m_piece_length t) + length (m_data p)) \<le> int (length c)"
    using p c by simp
  then have fits: "unat (m_id p * m_piece_length t) + length (m_data p) \<le> length c"
    by linarith
  show "\<exists>s'. single_write t p s = (Inr (), s') \<and> single_present t s' \<and> single_stream t s' =
      put_at (unat (m_id p * m_piece_length t)) (m_data p) (single_stream t s)"
    using p(1) c length_put_at [OF fits]
    by (simp add: single_write_def io_simps fs_defs single_present_def single_stream_def)
qed

lemma file_length_le: "\<forall>fi \<in> set fis. 0 \<le> fi_length fi \<Longrightarrow> fi \<in> set fis \<Longrightarrow> fi_length fi \<le> files_length fis"
proof (induction fis)
  case (Cons x fis)
  then show ?case
    using files_length_nonneg [of fis] by (auto simp: files_length_def)
qed simp

lemma multi_verify_present:
  assumes "\<forall>fi \<in> set fis. fs_files s (file_path name fi) \<noteq> None
      \<and> int (length (file_bytes s name fi)) = fi_length fi \<and> fi_length fi < 2 ^ 63"
  shows "multi_verify_files name fis s = (Inr True, s)"
  using assms
proof (induction fis)
  case (Cons fi fis)
  then obtain c where c: "fs_files s (path_append name (fi_path fi)) = Some c" "int (length c) = fi_length fi"
    by (auto simp: file_path_def file_bytes_def)
  then have "numeric_cast uint64_t int64_t (fi_length fi) = Inr (fi_length fi)"
    using Cons.prems by (metis list.set_intros(1) numeric_cast_u64_exact of_nat_0_le_iff)
  with Cons c show ?case
    by (simp add: io_simps fs_defs)
qed (simp add: io_simps)

lemma multi_length: "\<not> is_single_file t \<Longrightarrow> torrent_length t = files_length (m_files t)"
  by (simp add: torrent_length_def foldl_files_length)

interpretation multi: piece_store "\<lambda>t. \<not> is_single_file t" multi_present multi_stream
    multi_allocate multi_verify multi_write multi_complete
proof
  show "multi_allocate t s = (Inr (), s)" if "store_started t s" for t s
    using that by (simp add: multi_allocate_def store_started_def io_simps fs_defs)
  show "multi_present t s'" if "files_ok t" "\<not> store_started t s" "multi_allocate t s = (Inr (), s')" for t s s'
    using multi_allocate_makes [OF that] .
  show "multi_present t s \<or> (\<exists>e. multi_verify t s = (Inl e, s))" if "files_ok t" "store_started t s" for t s
    using that multi_verify_means [of "m_files t" "m_name t" s]
    by (auto simp: multi_verify_def io_simps multi_present_def files_present_def files_ok_def store_started_def)
  show "\<exists>e. multi_write t p s = (Inl e, s)" if "m_data p = []" "m_piece_size p \<noteq> 0" "\<not> is_single_file t" for t p s
    using multi_write_empty [OF that] .
  fix t s
  assume multi: "\<not> is_single_file t" and pr: "multi_present t s"
  then have files: "files_present s (m_name t) (m_files t)"
    by (simp add: multi_present_def)
  show "store_started t s"
    using pr by (simp add: store_started_def multi_present_def)
  show "int (length (multi_stream t s)) = torrent_length t"
    using length_disk_stream [OF files] multi by (simp add: multi_stream_def multi_length)
  show "multi_verify t s = (Inr (), s)" if "torrent_length t < 2 ^ 63"
  proof -
    have "\<forall>fi \<in> set (m_files t). fi_length fi < 2 ^ 63"
      using that file_length_le [OF files_present_nonneg [OF files]] multi
      by (auto simp: multi_length intro: le_less_trans)
    then have "multi_verify_files (m_name t) (m_files t) s = (Inr True, s)"
      using files by (intro multi_verify_present) (simp add: files_present_def)
    then show ?thesis
      by (simp add: multi_verify_def io_simps)
  qed
  have frame: "disk_stream s' dir fis = disk_stream s dir fis"
    if "\<forall>q \<in> file_path dir ` set fis. fs_files s' q = fs_files s q" for s' :: filesystem and dir fis
    using that by (auto simp: disk_stream_def file_bytes_def intro!: arg_cong [of _ _ concat])
  show "multi_stream t (snd (multi_complete lpw t s)) = multi_stream t s" for lpw
  proof -
    have "fs_files (snd (multi_complete lpw t s)) = (fs_files s)(suffixed_tmpfile t := None)"
      by (simp add: multi_complete_def suffixed_tmpfile_def io_simps fs_defs)
    moreover have "suffixed_tmpfile t \<notin> file_path (m_name t) ` set (m_files t)"
      using pr by (simp add: multi_present_def)
    ultimately show ?thesis
      unfolding multi_stream_def by (intro frame) (metis fun_upd_other)
  qed
  fix p :: piece
  assume p: "length (m_data p) = unat (m_piece_size p)"
    "uint (m_id p * m_piece_length t) + uint (m_piece_size p) \<le> torrent_length t"
  have "m_length t = 0"
    using multi by (simp add: is_single_file_def)
  from multi_write_stream [OF files this p(1) p(2) [unfolded multi_length [OF multi]]]
  obtain s' where s': "multi_write t p s = (Inr (), s')" "files_present s' (m_name t) (m_files t)"
    "disk_stream s' (m_name t) (m_files t) =
        put_at (unat (m_id p * m_piece_length t)) (m_data p) (disk_stream s (m_name t) (m_files t))"
    "fs_dirs s' = fs_dirs s" "\<forall>q. q \<notin> file_path (m_name t) ` set (m_files t) \<longrightarrow> fs_files s' q = fs_files s q"
    by blast
  then show "\<exists>s'. multi_write t p s = (Inr (), s') \<and> multi_present t s' \<and> multi_stream t s' =
      put_at (unat (m_id p * m_piece_length t)) (m_data p) (multi_stream t s)"
    using pr by (auto simp: multi_present_def multi_stream_def)
qed

section \<open>Pieces on disk\<close>

definition store_present :: "metainfo \<Rightarrow> filesystem \<Rightarrow> bool" where
  "store_present t s = (if is_single_file t then single_present t s else multi_present t s)"

definition store_stream :: "metainfo \<Rightarrow> filesystem \<Rightarrow> bytes" where
  "store_stream t s = (if is_single_file t then single_stream t s else multi_stream t s)"

lemma store_stream_length: "store_present t s \<Longrightarrow> int (length (store_stream t s)) = torrent_length t"
  using single.stream_length multi.stream_length by (simp add: store_present_def store_stream_def)

lemma destination_writes:
  assumes "store_present t s" and "torrent_length t < 2 ^ 63" and "length (m_data p) = unat (m_piece_size p)"
    and "uint (m_id p * m_piece_length t) + uint (m_piece_size p) \<le> torrent_length t"
  shows "\<exists>s'. bindIO (d_allocate (create_destination lpw t)) (\<lambda>_. bindIO (d_verify (create_destination lpw t)) (\<lambda>_.
      bindIO (d_write (create_destination lpw t) p) (\<lambda>_. d_verify (create_destination lpw t)))) s = (Inr (), s')
    \<and> store_present t s' \<and> store_stream t s' = put_at (unat (m_id p * m_piece_length t)) (m_data p) (store_stream t s)"
  using assms single.write_sequence [of t s p] multi.write_sequence [of t s p]
  by (cases "is_single_file t") (simp_all add: store_present_def store_stream_def create_destination_def)

lemma destination_any:
  assumes "files_ok t" and "torrent_length t < 2 ^ 63" and "length (m_data p) = unat (m_piece_size p) \<or> m_data p = []"
    and "uint (m_id p * m_piece_length t) + uint (m_piece_size p) \<le> torrent_length t"
    and "bindIO (d_allocate (create_destination lpw t)) (\<lambda>_. bindIO (d_verify (create_destination lpw t)) (\<lambda>_.
      bindIO (d_write (create_destination lpw t) p) (\<lambda>_. d_verify (create_destination lpw t)))) s = (r, s')"
  shows "case r of
      Inl e \<Rightarrow> store_started t s \<longrightarrow> s' = s
    | Inr _ \<Rightarrow> length (m_data p) = unat (m_piece_size p) \<and> store_present t s' \<and> (\<exists>d. int (length d) = torrent_length t
        \<and> store_stream t s' = put_at (unat (m_id p * m_piece_length t)) (m_data p) d
        \<and> (store_started t s \<longrightarrow> d = store_stream t s))"
  using assms single.write_any [of t p s r s'] multi.write_any [of t p s r s']
  by (cases "is_single_file t"; cases r) (simp_all add: store_present_def store_stream_def create_destination_def)

lemma store_present_started: "store_present t s \<Longrightarrow> store_started t s"
  using single.present_started multi.present_started by (simp add: store_present_def split: if_splits)

text \<open>A disk on which the download has not begun and the files can be made.\<close>

definition can_start :: "metainfo \<Rightarrow> filesystem \<Rightarrow> bool" where
  "can_start t s \<longleftrightarrow> files_ok t \<and> \<not> store_started t s \<and> fst (d_allocate (create_destination (\<lambda>_. Inr ()) t) s) = Inr ()"

lemma destination_starts:
  assumes "can_start t s" and "torrent_length t < 2 ^ 63" and "length (m_data p) = unat (m_piece_size p)"
    and "uint (m_id p * m_piece_length t) + uint (m_piece_size p) \<le> torrent_length t"
  shows "\<exists>s' d. bindIO (d_allocate (create_destination lpw t)) (\<lambda>_. bindIO (d_verify (create_destination lpw t)) (\<lambda>_.
      bindIO (d_write (create_destination lpw t) p) (\<lambda>_. d_verify (create_destination lpw t)))) s = (Inr (), s')
    \<and> store_present t s' \<and> int (length d) = torrent_length t
    \<and> store_stream t s' = put_at (unat (m_id p * m_piece_length t)) (m_data p) d"
proof -
  obtain s0 where al: "d_allocate (create_destination lpw t) s = (Inr (), s0)"
    using assms(1) by (cases "is_single_file t") (auto simp: can_start_def create_destination_def prod_eq_iff)
  then have s0: "store_present t s0"
    using assms(1,2) single.allocate_starts multi.allocate_starts
    by (auto simp: can_start_def create_destination_def store_present_def split: if_splits)
  obtain s' where "bindIO (d_allocate (create_destination lpw t)) (\<lambda>_. bindIO (d_verify (create_destination lpw t)) (\<lambda>_.
      bindIO (d_write (create_destination lpw t) p) (\<lambda>_. d_verify (create_destination lpw t)))) s0 = (Inr (), s')"
    "store_present t s'" "store_stream t s' = put_at (unat (m_id p * m_piece_length t)) (m_data p) (store_stream t s0)"
    using destination_writes [OF s0 assms(2-4), of lpw] by blast
  then show ?thesis
    using al s0 store_stream_length [OF s0] single.write_sequence_made [of t s s0 p] multi.write_sequence_made [of t s s0 p]
    by (cases "is_single_file t") (auto simp: create_destination_def store_present_def)
qed

text \<open>For a single file it is enough that the directory is there.\<close>

lemma can_start_single:
  assumes "is_single_file t" and "files_ok t" and "\<not> store_started t s" and "parent_exists (m_tmpfile t) s"
    and "0 \<le> torrent_length t" and "torrent_length t < 2 ^ 63"
  shows "can_start t s"
  using assms by (simp add: can_start_def create_destination_def single_allocate_def io_simps cast_u64 store_started_def
      fs_exists_def fs_create_def fs_resize_def)

lemma destination_completes:
  assumes "store_present t s"
  shows "store_stream t (snd (d_complete (create_destination lpw t) s)) = store_stream t s"
  using assms single.complete_stream [of t s lpw] multi.complete_stream [of t s lpw]
  by (cases "is_single_file t") (simp_all add: store_present_def store_stream_def create_destination_def)

text \<open>The bytes of piece \<open>i\<close> in the content \<open>d\<close>, and that they have the digest of the metainfo.\<close>

definition slice :: "metainfo \<Rightarrow> bytes \<Rightarrow> u32 \<Rightarrow> bytes" where
  "slice mi d i = take (unat (projr (piece_length_at mi i))) (drop (unat i * unat (m_piece_length mi)) d)"

definition piece_verified :: "(bytes \<Rightarrow> string) \<Rightarrow> metainfo \<Rightarrow> bytes \<Rightarrow> u32 \<Rightarrow> bool" where
  "piece_verified sha1 mi d i \<longleftrightarrow> unat i < length (m_pieces mi) \<and> sha1 (slice mi d i) = m_pieces mi ! unat i"

text \<open>A torrent below 4 GiB, so that the 32 bit positions of its pieces do not wrap.\<close>

definition small_torrent :: "metainfo \<Rightarrow> bool" where
  "small_torrent mi \<longleftrightarrow> pieces_fit mi \<and> torrent_length mi < 2 ^ 32"

lemma piece_position:
  assumes "small_torrent mi" and "unat i < length (m_pieces mi)" and "piece_length_at mi i = Inr l"
  shows "uint (i * m_piece_length mi) = uint i * uint (m_piece_length mi)"
    and "unat (i * m_piece_length mi) = unat i * unat (m_piece_length mi)"
    and "uint i * uint (m_piece_length mi) + uint l \<le> torrent_length mi"
    and "uint i * uint (m_piece_length mi) + uint l \<le> (uint i + 1) * uint (m_piece_length mi)"
proof -
  define n pl where "n = length (m_pieces mi)" and "pl = uint (m_piece_length mi)"
  have "int (unat i) \<le> int (n - 1)"
    using assms(2) by (simp only: of_nat_le_iff n_def)
  then have pl: "0 \<le> pl" and i: "int (unat i) = uint i" "uint i \<le> int (n - 1)"
    by (simp_all add: pl_def)
  have fit: "torrent_length mi \<le> int n * pl" "int (n - 1) * pl < torrent_length mi" "torrent_length mi < 2 ^ 32"
    using assms(1) by (simp_all add: small_torrent_def pieces_fit_def n_def pl_def)
  have tile: "uint i * pl + uint l = (if unat i = n - 1 then torrent_length mi else (uint i + 1) * pl)"
    using piece_tiles [of "unat i" mi] assms i(1)
    by (auto simp: small_torrent_def pieces_fit_def n_def pl_def add.commute)
  have "(uint i + 1) * pl \<le> int (n - 1) * pl" if "unat i \<noteq> n - 1"
  proof -
    have "int (unat i + 1) \<le> int (n - 1)"
      using that assms(2) by (simp only: of_nat_le_iff n_def)
    then show ?thesis
      using pl by (intro mult_right_mono) simp_all
  qed
  then show le: "uint i * uint (m_piece_length mi) + uint l \<le> torrent_length mi"
    using tile fit(2) by (auto simp: pl_def)
  have "torrent_length mi \<le> (uint i + 1) * pl" if "unat i = n - 1"
  proof -
    have "int n = int (unat i + 1)"
      using that assms(2) by (simp only: of_nat_eq_iff n_def)
    with fit(1) show ?thesis
      by (simp add: add.commute)
  qed
  then show "uint i * uint (m_piece_length mi) + uint l \<le> (uint i + 1) * uint (m_piece_length mi)"
    using tile by (auto simp: pl_def)
  have "0 \<le> uint l"
    by simp
  with le fit(3) have "uint i * uint (m_piece_length mi) < 2 ^ 32"
    by linarith
  then have "uint i * uint (m_piece_length mi) < 2 ^ LENGTH(32)"
    by simp
  then show eq: "uint (i * m_piece_length mi) = uint i * uint (m_piece_length mi)"
    by (simp add: uint_word_ariths)
  then have "int (unat (i * m_piece_length mi)) = int (unat i * unat (m_piece_length mi))"
    by simp
  then show "unat (i * m_piece_length mi) = unat i * unat (m_piece_length mi)"
    by (rule of_nat_eq_iff [THEN iffD1])
qed

lemma drop_put_at: "off + length e \<le> length d \<Longrightarrow> off + length e \<le> m \<Longrightarrow> drop m (put_at off e d) = drop m d"
  by (simp add: put_at_inside)

lemma take_drop_put_at:
  "off + length e \<le> length d \<Longrightarrow> m + n \<le> off \<Longrightarrow> take n (drop m (put_at off e d)) = take n (drop m d)"
  by (simp add: put_at_inside take_drop)

lemma slice_store:
  assumes "small_torrent mi" and "unat i < length (m_pieces mi)" and "piece_length_at mi i = Inr l"
    and "int (length d) = torrent_length mi" and "length data = unat l"
  shows "slice mi (put_at (unat (i * m_piece_length mi)) data d) i = data"
    and "unat j < length (m_pieces mi) \<Longrightarrow> j \<noteq> i \<Longrightarrow>
      slice mi (put_at (unat (i * m_piece_length mi)) data d) j = slice mi d j"
proof -
  define pl where "pl = unat (m_piece_length mi)"
  note pos = piece_position [OF assms(1-3)]
  have "int (unat i * pl + unat l) \<le> int (length d)"
    using pos(3) assms(4) by (simp add: pl_def)
  then have fits: "unat i * pl + length data \<le> length d"
    using assms(5) by linarith
  have put: "put_at (unat (i * m_piece_length mi)) data d = take (unat i * pl) d @ data @ drop (unat i * pl + length data) d"
    using fits pos(2) by (simp add: put_at_inside pl_def)
  have len: "length (take (unat i * pl) d) = unat i * pl"
    using fits by simp
  show "slice mi (put_at (unat (i * m_piece_length mi)) data d) i = data"
    using len assms(3,5) by (simp add: slice_def put flip: pl_def)
  show "slice mi (put_at (unat (i * m_piece_length mi)) data d) j = slice mi d j"
    if j: "unat j < length (m_pieces mi)" "j \<noteq> i"
  proof -
    obtain l' where l': "piece_length_at mi j = Inr l'"
      using piece_tiles [of "unat j" mi] assms(1) j(1) by (auto simp: small_torrent_def pieces_fit_def)
    have ub: "unat k * pl + unat m \<le> (unat k + 1) * pl"
      if "unat k < length (m_pieces mi)" "piece_length_at mi k = Inr m" for k m
    proof -
      have "int (unat k * pl + unat m) \<le> int ((unat k + 1) * pl)"
        using piece_position(4) [OF assms(1) that, unfolded uint_nat]
        by (simp only: of_nat_mult of_nat_add of_nat_1 pl_def)
      then show ?thesis
        by linarith
    qed
    have "unat j \<noteq> unat i"
      using j(2) word_unat_eq_iff by blast
    then consider "unat j + 1 \<le> unat i" | "unat i + 1 \<le> unat j"
      by linarith
    then show ?thesis
    proof cases
      case 1
      then have "(unat j + 1) * pl \<le> unat i * pl"
        by (rule mult_le_mono1)
      then have "unat j * pl + unat l' \<le> unat i * pl"
        using ub [OF j(1) l'] by linarith
      then have "take (unat l') (drop (unat j * pl) (put_at (unat (i * m_piece_length mi)) data d))
          = take (unat l') (drop (unat j * pl) d)"
        using take_drop_put_at [OF fits] pos(2) by (simp add: pl_def)
      then show ?thesis
        using l' by (simp add: slice_def pl_def)
    next
      case 2
      then have "(unat i + 1) * pl \<le> unat j * pl"
        by (rule mult_le_mono1)
      then have le: "unat i * pl + length data \<le> unat j * pl"
        using ub [OF assms(2,3)] assms(5) by linarith
      then have "drop (unat j * pl) (put_at (unat (i * m_piece_length mi)) data d) = drop (unat j * pl) d"
        using drop_put_at [OF fits le] pos(2) by (simp add: pl_def)
      then show ?thesis
        by (simp add: slice_def pl_def)
    qed
  qed
qed

section \<open>A download: the network side and the writer thread\<close>

text \<open>What peers do to a torrent; the disk is not touched.\<close>

inductive net_step :: "torrent \<Rightarrow> torrent \<Rightarrow> bool" where
  client: "net_step t (init_client_pieces n t)"
| active: "active_piece i create t = Inr (r, t') \<Longrightarrow> net_step t t'"
| block: "t_set_block now i offset data t = Inr (b, t') \<Longrightarrow> net_step t t'"
| request: "map_of (m_active_pieces t) i = Some loc \<Longrightarrow>
    next_offset now mark (pieces_heap t ! loc) = Inr (r, p) \<Longrightarrow> net_step t (set_heap loc p t)"
| retry: "map_of (m_active_pieces t) i = Some loc \<Longrightarrow>
    retry_blocks now (pieces_heap t ! loc) = Inr (n, p) \<Longrightarrow> net_step t (set_heap loc p t)"

text \<open>
  The next round of the writer would make the files anew although pieces count as written: the
  temporary file is gone, as it is after the download was completed, and a piece with its digest is
  at the front of the queue.  \<open>rewrite_wipes_download\<close> below shows what becomes of the disk.
\<close>

definition wipes :: "(bytes \<Rightarrow> string) \<Rightarrow> writer_state \<Rightarrow> bool" where
  "wipes sha1 w \<longleftrightarrow>
     (let t = w_torrent w in
      \<not> store_started (meta t) (w_fs w)
      \<and> list_ex (\<lambda>e. m_piece_written (pieces_heap t ! snd e)) (m_active_pieces t)
      \<and> (case writer_queue t of [] \<Rightarrow> False
         | loc # _ \<Rightarrow> unat (m_id (pieces_heap t ! loc)) < length (m_pieces (meta t))
             \<and> sha1 (m_data (pieces_heap t ! loc)) = m_pieces (meta t) ! unat (m_id (pieces_heap t ! loc))))"

text \<open>
  Every other round of the writer is a step: the first one, which makes the files, rounds that fail
  and rounds that throw a piece away.  \<open>verified\<close> is what the verification of existing files does
  for a piece it finds on disk.
\<close>

inductive download_step ::
    "(bytes \<Rightarrow> string) \<Rightarrow> (unit \<Rightarrow> unit result) \<Rightarrow> writer_state \<Rightarrow> writer_state \<Rightarrow> bool" for sha1 lpw where
  net: "net_step (w_torrent w) t' \<Longrightarrow> download_step sha1 lpw w (w\<lparr>w_torrent := t'\<rparr>)"
| verified: "piece_verified sha1 (meta (w_torrent w)) (store_stream (meta (w_torrent w)) (w_fs w)) i \<Longrightarrow>
    mark_verified i (w_torrent w) = Inr t' \<Longrightarrow> download_step sha1 lpw w (w\<lparr>w_torrent := t'\<rparr>)"
| written: "\<not> wipes sha1 w \<Longrightarrow> download_step sha1 lpw w (write_next_piece sha1 lpw w)"

inductive download_reach ::
    "(bytes \<Rightarrow> string) \<Rightarrow> (unit \<Rightarrow> unit result) \<Rightarrow> metainfo \<Rightarrow> filesystem \<Rightarrow> writer_state \<Rightarrow> bool"
    for sha1 lpw mi fs where
  init: "download_reach sha1 lpw mi fs \<lparr>w_torrent = register_torrent (new_torrent mi), w_fs = fs, w_completed = 0\<rparr>"
| step: "download_reach sha1 lpw mi fs w \<Longrightarrow> download_step sha1 lpw w w' \<Longrightarrow> download_reach sha1 lpw mi fs w'"

definition disk_ok :: "(bytes \<Rightarrow> string) \<Rightarrow> torrent \<Rightarrow> filesystem \<Rightarrow> bool" where
  "disk_ok sha1 t s \<longleftrightarrow> (\<forall>i loc. map_of (m_active_pieces t) i = Some loc \<and> m_piece_written (pieces_heap t ! loc) \<longrightarrow>
     piece_verified sha1 (meta t) (store_stream (meta t) s) i)"

text \<open>
  Every piece object, active or not, has the size of its id, with its data in memory or freed, and
  the queue holds piece objects.
\<close>

definition data_ok :: "piece \<Rightarrow> bool" where
  "data_ok p \<longleftrightarrow> length (m_data p) = unat (m_piece_size p) \<or> m_data p = []"

definition sizes_ok :: "torrent \<Rightarrow> bool" where
  "sizes_ok t \<longleftrightarrow> (\<forall>p \<in> set (pieces_heap t). piece_length_at (meta t) (m_id p) = Inr (m_piece_size p) \<and> data_ok p)
     \<and> set (writer_queue t) \<subseteq> {..<length (pieces_heap t)} \<and> m_piece_callbacks t = [writer_add]"

definition heap_ok :: "torrent \<Rightarrow> bool" where
  "heap_ok t \<longleftrightarrow> torrent_ok t \<and> sizes_ok t"

lemma data_ok_simps [simp]:
  "data_ok (new_piece i sz)" "data_ok (set_piece_written b p)" "data_ok (reset_piece_data p)"
  by (simp_all add: data_ok_def new_piece_def set_piece_written_def reset_piece_data_def bytes_resize_def)

lemma data_ok_set_block:
  assumes "piece_ok p" and "data_ok p" and "set_block now offset data p = Inr (b, p')"
  shows "data_ok p'"
proof -
  define i where "i = unat (offset div m_block_size)"
  note facts = set_block_Inr [OF assms(1,3), folded i_def]
  have off: "unat offset = i * 16384"
    using facts(2) aligned_offset [of offset] by (simp add: i_def)
  show ?thesis
  proof (cases "is_done p i \<or> length (m_data p) = unat (m_piece_size p)")
    case True
    then show ?thesis
      using assms(2) facts(4,5) off by (auto simp: data_ok_def store_block_def)
  next
    case False
    then have "m_data p = []" "\<forall>j < blocks p. is_done p j"
      using assms(1,2) by (auto simp: piece_ok_def data_ok_def)
    moreover from this False have "\<not> i * 16384 < unat (m_piece_size p)"
      using block_index_less [of "i * 16384" p] by auto
    ultimately have "length data = 0 \<or> is_done p i"
      using facts(4) off by linarith
    then show ?thesis
      using \<open>m_data p = []\<close> facts(4,5) off by (auto simp: data_ok_def store_block_def)
  qed
qed

lemma data_ok_next_offset:
  assumes "piece_ok p" and "data_ok p" and "next_offset now mark p = Inr (r, p')"
  shows "data_ok p' \<and> m_piece_written p' = m_piece_written p \<and> m_id p' = m_id p \<and> m_piece_size p' = m_piece_size p"
  using assms(2,3) unfolding next_offset_eq [OF assms(1)]
  by (cases "free_block p") (auto simp: data_ok_def split: if_splits)

lemma data_ok_retry_blocks:
  assumes "data_ok p" and "retry_blocks now p = Inr (n, p')"
  shows "data_ok p' \<and> m_piece_written p' = m_piece_written p \<and> m_id p' = m_id p \<and> m_piece_size p' = m_piece_size p"
  using assms unfolding retry_blocks_eq by (auto simp: data_ok_def split: if_splits)

lemma sizes_ok_set_heap:
  assumes "sizes_ok t" and "loc < length (pieces_heap t)"
    and "m_id p = m_id (pieces_heap t ! loc)" and "m_piece_size p = m_piece_size (pieces_heap t ! loc)" and "data_ok p"
  shows "sizes_ok (set_heap loc p t)"
proof -
  have "piece_length_at (meta t) (m_id x) = Inr (m_piece_size x) \<and> data_ok x"
    if "x \<in> set ((pieces_heap t)[loc := p])" for x
    using assms set_update_subset_insert [of "pieces_heap t" loc p] that nth_mem
    by (fastforce simp: sizes_ok_def)
  then show ?thesis
    using assms(1) unfolding sizes_ok_def set_heap_simps by (simp add: set_heap_def)
qed

text \<open>A step of the network side keeps the bookkeeping and writes no piece.\<close>

definition quiet :: "torrent \<Rightarrow> torrent \<Rightarrow> bool" where
  "quiet t t' \<longleftrightarrow> heap_ok t' \<and> meta t' = meta t
     \<and> (\<forall>i loc. map_of (m_active_pieces t') i = Some loc \<and> m_piece_written (pieces_heap t' ! loc) \<longrightarrow>
          (\<exists>loc0. map_of (m_active_pieces t) i = Some loc0 \<and> m_piece_written (pieces_heap t ! loc0)))"

lemma quiet_disk_ok: "quiet t t' \<Longrightarrow> disk_ok sha1 t s \<Longrightarrow> disk_ok sha1 t' s"
  unfolding quiet_def disk_ok_def by metis

lemma quiet_set_heap:
  assumes "heap_ok t" and "loc < length (pieces_heap t)" and "torrent_ok (set_heap loc p t)"
    and "m_id p = m_id (pieces_heap t ! loc)" and "m_piece_size p = m_piece_size (pieces_heap t ! loc)"
    and "m_piece_written p = m_piece_written (pieces_heap t ! loc)" and "data_ok p"
  shows "quiet t (set_heap loc p t)"
  using sizes_ok_set_heap [OF _ assms(2,4,5,7)] assms(1,2,3,6)
  by (auto simp: quiet_def heap_ok_def nth_set_heap split: if_splits)

lemma heap_ok_torrent_ok: "heap_ok t \<Longrightarrow> torrent_ok t"
  by (simp add: heap_ok_def)

lemma heap_ok_active:
  assumes "heap_ok t" and "map_of (m_active_pieces t) i = Some loc"
  shows "loc < length (pieces_heap t)" and "piece_ok (pieces_heap t ! loc)" and "m_id (pieces_heap t ! loc) = i"
  using heap_ok_torrent_ok [OF assms(1)] assms(2) by (auto simp: torrent_ok_def)

lemma heap_ok_data: "heap_ok t \<Longrightarrow> loc < length (pieces_heap t) \<Longrightarrow> data_ok (pieces_heap t ! loc)"
  by (simp add: heap_ok_def sizes_ok_def)

lemma heap_ok_inj: "heap_ok t \<Longrightarrow> map_of (m_active_pieces t) i = Some loc \<Longrightarrow>
    map_of (m_active_pieces t) j = Some loc \<Longrightarrow> j = i"
  using heap_ok_active(3) by metis

lemma quiet_active:
  assumes "heap_ok t" and "active_piece i create t = Inr (r, t')"
  shows "quiet t t'"
proof -
  have ok: "torrent_ok t'" "meta t' = meta t"
    using torrent_ok_active [OF heap_ok_torrent_ok [OF assms(1)] assms(2)] by simp_all
  show ?thesis
  proof (cases "t' = t")
    case True
    with assms(1) show ?thesis
      by (auto simp: quiet_def)
  next
    case False
    then obtain len where len: "piece_length_at (meta t) i = Inr len"
      and t': "t' = t\<lparr>pieces_heap := pieces_heap t @ [new_piece i len],
         m_active_pieces := smap_put i (length (pieces_heap t)) (m_active_pieces t)\<rparr>"
      using assms(2) by (auto simp: active_piece_def Let_def result_simps split: option.splits if_splits)
    have "heap_ok t'"
      using ok(1) assms(1) len by (auto simp: heap_ok_def sizes_ok_def t' new_piece_def data_ok_def bytes_resize_def)
    moreover have "smap_ok (m_active_pieces t)"
      and locs: "map_of (m_active_pieces t) j = Some loc \<Longrightarrow> loc < length (pieces_heap t)" for j loc
      using heap_ok_torrent_ok [OF assms(1)] by (auto simp: torrent_ok_def)
    ultimately show ?thesis
      by (auto simp: quiet_def t' smap_simps nth_append new_piece_def split: if_splits dest: locs)
  qed
qed

lemma quiet_block:
  assumes "heap_ok t" and "t_set_block now i offset data t = Inr (b, t')"
  shows "quiet t t'"
proof (cases "map_of (m_active_pieces t) i")
  case None
  with assms show ?thesis
    by (auto simp: t_set_block_def quiet_def)
next
  case (Some loc)
  have loc: "loc < length (pieces_heap t)" "piece_ok (pieces_heap t ! loc)"
    using heap_ok_torrent_ok [OF assms(1)] Some by (auto simp: torrent_ok_def)
  obtain c p where r: "set_block now offset data (pieces_heap t ! loc) = Inr (c, p)"
    and t': "t' = (if c then piece_done loc (set_heap loc p t) else set_heap loc p t)"
    using assms(2) Some by (auto simp: t_set_block_def Let_def result_simps)
  have p: "p = store_block now (unat (offset div m_block_size)) data (pieces_heap t ! loc)"
    using set_block_Inr(5) [OF loc(2) r] .
  have "torrent_ok (set_heap loc p t)"
    using piece_ok_set_block [OF loc(2) r] loc(1)
    by (intro torrent_ok_set_heap [OF heap_ok_torrent_ok [OF assms(1)]]) (simp_all add: p)
  then have q: "quiet t (set_heap loc p t)"
    using loc data_ok_set_block [OF loc(2) heap_ok_data [OF assms(1) loc(1)] r]
    by (intro quiet_set_heap [OF assms(1)]) (simp_all add: p)
  moreover have "quiet t (piece_done loc (set_heap loc p t))" if "t' = piece_done loc (set_heap loc p t)"
  proof -
    have "torrent_ok t'"
      using torrent_ok_block [OF heap_ok_torrent_ok [OF assms(1)] assms(2)] by simp
    then show ?thesis
      using q loc(1) unfolding that by (auto simp: quiet_def heap_ok_def sizes_ok_def piece_done_def writer_add_def)
  qed
  ultimately show ?thesis
    using t' by (cases c) simp_all
qed

lemma net_step_quiet:
  assumes "heap_ok t" and "net_step t t'"
  shows "quiet t t'"
  using assms(2)
proof cases
  case (client n)
  have "torrent_ok (init_client_pieces n t)"
    using torrent_ok_step [OF heap_ok_torrent_ok [OF assms(1)] torrent_step.client] by blast
  with assms(1) show ?thesis
    unfolding client by (auto simp: quiet_def heap_ok_def sizes_ok_def init_client_pieces_def)
next
  case (active i create r)
  with assms(1) show ?thesis
    by (rule quiet_active)
next
  case (block now i offset data b)
  with assms(1) show ?thesis
    by (rule quiet_block)
next
  case (request i loc now mark r p)
  have loc: "loc < length (pieces_heap t)" "piece_ok (pieces_heap t ! loc)"
    using heap_ok_torrent_ok [OF assms(1)] request(2) by (auto simp: torrent_ok_def)
  have "torrent_ok (set_heap loc p t)"
    using torrent_ok_step [OF heap_ok_torrent_ok [OF assms(1)] torrent_step.request [OF request(2,3)]] by blast
  then show ?thesis
    unfolding request(1) using data_ok_next_offset [OF loc(2) heap_ok_data [OF assms(1) loc(1)] request(3)]
    by (intro quiet_set_heap [OF assms(1) loc(1)]) simp_all
next
  case (retry i loc now n p)
  have loc: "loc < length (pieces_heap t)"
    using heap_ok_torrent_ok [OF assms(1)] retry(2) by (auto simp: torrent_ok_def)
  have "torrent_ok (set_heap loc p t)"
    using torrent_ok_step [OF heap_ok_torrent_ok [OF assms(1)] torrent_step.retry [OF retry(2,3)]] by blast
  then show ?thesis
    unfolding retry(1) using data_ok_retry_blocks [OF heap_ok_data [OF assms(1) loc] retry(3)]
    by (intro quiet_set_heap [OF assms(1) loc]) simp_all
qed

lemma verified_step:
  assumes "heap_ok t" and "disk_ok sha1 t s" and "piece_verified sha1 (meta t) (store_stream (meta t) s) i"
    and "mark_verified i t = Inr t'"
  shows "heap_ok t' \<and> disk_ok sha1 t' s \<and> meta t' = meta t"
proof -
  define t0 where "t0 = t\<lparr>m_client_pieces := bf_set (m_client_pieces t) (unat i) True\<rparr>"
  obtain r t1 where r: "active_piece i True t0 = Inr (r, t1)"
    using assms(4) by (auto simp: mark_verified_def t0_def result_simps)
  define t1' where "t1' = t1\<lparr>m_client_pieces := m_client_pieces t\<rparr>"
  have act: "active_piece i True t = Inr (r, t1')"
    using r by (auto simp: active_piece_def t0_def t1'_def Let_def result_simps split: option.splits dest: sym)
  then have q: "quiet t t1'"
    by (rule quiet_active [OF assms(1)])
  obtain loc where ri: "r = Some loc" and m: "map_of (m_active_pieces t1') i = Some loc"
    using torrent_ok_active [OF heap_ok_torrent_ok [OF assms(1)] act] by auto
  have h: "heap_ok t1'" and same: "m_active_pieces t1 = m_active_pieces t1'" "pieces_heap t1 = pieces_heap t1'"
    using q by (simp_all add: quiet_def t1'_def)
  note loc = m [folded same] heap_ok_active(1) [OF h m, folded same]
    and others = heap_ok_inj [OF h m, folded same]
  have t': "t' = set_heap loc (set_piece_written True (pieces_heap t1 ! loc)) t1"
    using assms(4) r ri by (simp add: mark_verified_def t0_def result_simps)
  have ok: "torrent_ok t'" "meta t' = meta t"
    using torrent_ok_verified [OF heap_ok_torrent_ok [OF assms(1)] assms(4)] by simp_all
  have "sizes_ok t1"
    using h by (simp add: heap_ok_def t1'_def sizes_ok_def)
  then have "sizes_ok t'"
    using loc(2) unfolding t' by (intro sizes_ok_set_heap) (simp_all add: set_piece_written_def data_ok_def)
  moreover have "disk_ok sha1 t1' s"
    using q assms(2) by (rule quiet_disk_ok)
  then have "disk_ok sha1 t' s"
    using assms(3) ok(2) loc(2) others unfolding disk_ok_def t' same [symmetric]
    by (simp add: nth_set_heap t1'_def) metis
  ultimately show ?thesis
    using ok by (simp add: heap_ok_def)
qed

lemma quiet_reset:
  assumes "heap_ok t"
  shows "quiet t (reset_piece i t)"
proof (cases "map_of (m_active_pieces t) i")
  case None
  with assms show ?thesis
    by (auto simp: quiet_def reset_piece_def)
next
  case (Some loc)
  define t1 where "t1 = set_heap loc (reset_piece_data (pieces_heap t ! loc)) t"
  have loc: "loc < length (pieces_heap t)"
    using heap_ok_active(1) [OF assms Some] .
  have "sizes_ok t1"
    unfolding t1_def using assms loc
    by (intro sizes_ok_set_heap) (simp_all add: heap_ok_def reset_piece_data_def data_ok_def bytes_resize_def)
  moreover have eq: "reset_piece i t = t1\<lparr>m_client_pieces := bf_set (m_client_pieces t) (unat i) False,
      m_active_pieces := smap_del i (m_active_pieces t)\<rparr>"
    using Some by (simp add: reset_piece_def t1_def)
  ultimately have "heap_ok (reset_piece i t)"
    using torrent_ok_reset [OF heap_ok_torrent_ok [OF assms], of i] by (simp add: heap_ok_def sizes_ok_def)
  moreover have "smap_ok (m_active_pieces t)"
    using heap_ok_torrent_ok [OF assms] by (simp add: torrent_ok_def)
  ultimately show ?thesis
    using heap_ok_inj [OF assms Some] loc
    by (auto simp: quiet_def eq smap_simps t1_def nth_set_heap split: if_splits)
qed

definition store_sequence :: "(unit \<Rightarrow> unit result) \<Rightarrow> metainfo \<Rightarrow> piece \<Rightarrow> unit io" where
  "store_sequence lpw mi p = bindIO (d_allocate (create_destination lpw mi)) (\<lambda>_.
     bindIO (d_verify (create_destination lpw mi)) (\<lambda>_.
     bindIO (d_write (create_destination lpw mi) p) (\<lambda>_. d_verify (create_destination lpw mi))))"

lemma write_next_piece_cases:
  assumes "writer_queue (w_torrent w) = loc # q"
  defines "t \<equiv> (w_torrent w)\<lparr>writer_queue := q\<rparr>"
  defines "p \<equiv> pieces_heap t ! loc"
  defines "t2 \<equiv> set_heap loc (set_piece_written True p) t"
  shows "length (m_pieces (meta t)) \<le> unat (m_id p) \<Longrightarrow> write_next_piece sha1 lpw w = w\<lparr>w_torrent := t\<rparr>"
    and "unat (m_id p) < length (m_pieces (meta t)) \<Longrightarrow> sha1 (m_data p) \<noteq> m_pieces (meta t) ! unat (m_id p) \<Longrightarrow>
      write_next_piece sha1 lpw w = w\<lparr>w_torrent := reset_piece (m_id p) t\<rparr>"
    and "unat (m_id p) < length (m_pieces (meta t)) \<Longrightarrow> sha1 (m_data p) = m_pieces (meta t) ! unat (m_id p) \<Longrightarrow>
      store_sequence lpw (meta t) p (w_fs w) = (Inr (), s1) \<Longrightarrow>
      w_torrent (write_next_piece sha1 lpw w) = t2
      \<and> w_fs (write_next_piece sha1 lpw w) =
          (if torrent_done t2 then snd (d_complete (create_destination lpw (meta t)) s1) else s1)"
    and "unat (m_id p) < length (m_pieces (meta t)) \<Longrightarrow> sha1 (m_data p) = m_pieces (meta t) ! unat (m_id p) \<Longrightarrow>
      store_sequence lpw (meta t) p (w_fs w) = (Inl e, s1) \<Longrightarrow>
      write_next_piece sha1 lpw w = w\<lparr>w_torrent := t, w_fs := s1\<rparr>"
  unfolding write_next_piece_def Let_def store_sequence_def assms(1) p_def t2_def t_def
  by (simp_all split: prod.splits sum.splits)

text \<open>The round that stores a piece with its digest.\<close>

lemma written_step:
  assumes "small_torrent mi" and "heap_ok t" and "meta t = mi" and "loc < length (pieces_heap t)" and "p = pieces_heap t ! loc"
    and "unat (m_id p) < length (m_pieces mi)" and "sha1 (m_data p) = m_pieces mi ! unat (m_id p)"
    and "length (m_data p) = unat (m_piece_size p)" and "int (length d) = torrent_length mi"
    and "store_stream mi s' = put_at (unat (m_id p * m_piece_length mi)) (m_data p) d"
    and old: "\<And>i k. map_of (m_active_pieces t) i = Some k \<Longrightarrow> m_piece_written (pieces_heap t ! k) \<Longrightarrow> piece_verified sha1 mi d i"
  shows "heap_ok (set_heap loc (set_piece_written True p) t) \<and> disk_ok sha1 (set_heap loc (set_piece_written True p) t) s'"
proof -
  define t2 where "t2 = set_heap loc (set_piece_written True p) t"
  have sz: "piece_length_at mi (m_id p) = Inr (m_piece_size p)"
    using assms(2-5) by (auto simp: heap_ok_def sizes_ok_def)
  have sl: "slice mi (store_stream mi s') (m_id p) = m_data p"
    "unat j < length (m_pieces mi) \<Longrightarrow> j \<noteq> m_id p \<Longrightarrow> slice mi (store_stream mi s') j = slice mi d j" for j
    unfolding assms(10) using slice_store [OF assms(1,6) sz assms(9,8)] by auto
  have "torrent_ok t2"
    using torrent_ok_step [OF heap_ok_torrent_ok [OF assms(2)] torrent_step.written [OF assms(4)]]
    by (simp add: t2_def assms(5))
  moreover have "sizes_ok t2"
    unfolding t2_def using assms(2,4) by (intro sizes_ok_set_heap) (simp_all add: heap_ok_def assms(5) set_piece_written_def data_ok_def)
  moreover have "piece_verified sha1 mi (store_stream mi s') i"
    if i: "map_of (m_active_pieces t2) i = Some k" "m_piece_written (pieces_heap t2 ! k)" for i k
  proof (cases "i = m_id p")
    case True
    with assms(6,7) sl(1) show ?thesis
      by (simp add: piece_verified_def)
  next
    case False
    have mk: "map_of (m_active_pieces t) i = Some k"
      using i(1) by (simp add: t2_def)
    then have "k \<noteq> loc"
      using heap_ok_active(3) [OF assms(2)] False by (auto simp: assms(5))
    then have "m_piece_written (pieces_heap t ! k)"
      using i(2) assms(4) by (simp add: t2_def nth_set_heap)
    then show ?thesis
      using old [OF mk] sl(2) False by (simp add: piece_verified_def)
  qed
  ultimately show ?thesis
    using assms(3) by (auto simp: t2_def [symmetric] heap_ok_def disk_ok_def) (simp_all add: t2_def)
qed

lemma write_next_piece_step:
  fixes lpw :: "unit \<Rightarrow> unit result" and w :: writer_state
  assumes "small_torrent mi" and "files_ok mi" and "heap_ok (w_torrent w)" and mi: "meta (w_torrent w) = mi"
    and "disk_ok sha1 (w_torrent w) (w_fs w)" and "\<not> wipes sha1 w"
  defines "w' \<equiv> write_next_piece sha1 lpw w"
  shows "heap_ok (w_torrent w') \<and> meta (w_torrent w') = mi \<and> disk_ok sha1 (w_torrent w') (w_fs w')"
proof (cases "writer_queue (w_torrent w)")
  case Nil
  with assms show ?thesis
    by (simp add: write_next_piece_def)
next
  case (Cons loc q)
  define t p where "t = (w_torrent w)\<lparr>writer_queue := q\<rparr>" and "p = pieces_heap t ! loc"
  have loc: "loc < length (pieces_heap t)" and t: "heap_ok t" "meta t = mi" "disk_ok sha1 t (w_fs w)"
    using assms(3,5) mi Cons by (auto simp: t_def heap_ok_def sizes_ok_def torrent_ok_def disk_ok_def)
  then have sz: "piece_length_at mi (m_id p) = Inr (m_piece_size p)" and data: "data_ok p"
    by (auto simp: heap_ok_def sizes_ok_def p_def)
  note step = write_next_piece_cases [OF Cons, folded t_def, folded p_def, unfolded t(2), of sha1 lpw, folded w'_def]
  consider "length (m_pieces mi) \<le> unat (m_id p)"
    | "unat (m_id p) < length (m_pieces mi)" "sha1 (m_data p) \<noteq> m_pieces mi ! unat (m_id p)"
    | "unat (m_id p) < length (m_pieces mi)" "sha1 (m_data p) = m_pieces mi ! unat (m_id p)"
    by fastforce
  then show ?thesis
  proof cases
    case 1
    then have "w' = w\<lparr>w_torrent := t\<rparr>"
      by (rule step(1))
    with t show ?thesis
      by simp
  next
    case 2
    then have "w' = w\<lparr>w_torrent := reset_piece (m_id p) t\<rparr>"
      by (rule step(2))
    moreover have "quiet t (reset_piece (m_id p) t)"
      using t(1) by (rule quiet_reset)
    ultimately show ?thesis
      using t quiet_disk_ok by (auto simp: quiet_def)
  next
    case 3
    have fresh: "\<not> m_piece_written (pieces_heap t ! k)" if "\<not> store_started mi (w_fs w)" "map_of (m_active_pieces t) i = Some k" for i k
      using assms(6) that mi Cons 3 map_of_SomeD [OF that(2)]
      by (auto simp: wipes_def Let_def list_ex_iff t_def p_def)
    have pos: "uint (m_id p * m_piece_length mi) + uint (m_piece_size p) \<le> torrent_length mi" "torrent_length mi < 2 ^ 63"
      using piece_position [OF assms(1) 3(1) sz] assms(1) by (simp_all add: small_torrent_def)
    obtain r s1 where r: "store_sequence lpw mi p (w_fs w) = (r, s1)"
      by fastforce
    note any = destination_any [OF assms(2) pos(2) data [unfolded data_ok_def] pos(1) r [unfolded store_sequence_def]]
    show ?thesis
    proof (cases r)
      case (Inl e)
      then have "w' = w\<lparr>w_torrent := t, w_fs := s1\<rparr>"
        using step(4) [OF 3] r by simp
      moreover have "disk_ok sha1 t s1"
        using any Inl t fresh by (cases "store_started mi (w_fs w)") (auto simp: disk_ok_def)
      ultimately show ?thesis
        using t by simp
    next
      case (Inr u)
      then obtain d where d: "length (m_data p) = unat (m_piece_size p)" "store_present mi s1" "int (length d) = torrent_length mi"
        "store_stream mi s1 = put_at (unat (m_id p * m_piece_length mi)) (m_data p) d"
        "store_started mi (w_fs w) \<Longrightarrow> d = store_stream mi (w_fs w)"
        using any by auto
      have old: "piece_verified sha1 mi d i" if "map_of (m_active_pieces t) i = Some k" "m_piece_written (pieces_heap t ! k)" for i k
        using fresh that d(5) t(2,3) by (cases "store_started mi (w_fs w)") (auto simp: disk_ok_def)
      define t2 where "t2 = set_heap loc (set_piece_written True p) t"
      define s2 where "s2 = (if torrent_done t2 then snd (d_complete (create_destination lpw mi) s1) else s1)"
      have w': "w_torrent w' = t2 \<and> w_fs w' = s2"
        using step(3) [OF 3] r Inr by (simp add: t2_def s2_def)
      have "store_stream mi s2 = put_at (unat (m_id p * m_piece_length mi)) (m_data p) d"
        using destination_completes [OF d(2)] d(4) by (simp add: s2_def)
      from written_step [OF assms(1) t(1,2) loc p_def 3 d(1,3) this old, folded t2_def] w' show ?thesis
        using t(2) by (simp add: t2_def)
    qed
  qed
qed

lemma download_reach_ok:
  assumes "small_torrent mi" and "files_ok mi" and "download_reach sha1 lpw mi fs w"
  shows "heap_ok (w_torrent w) \<and> meta (w_torrent w) = mi \<and> disk_ok sha1 (w_torrent w) (w_fs w)"
  using assms(3)
proof (induction rule: download_reach.induct)
  case init
  then show ?case
    by (simp add: register_torrent_def add_piece_callback_def new_torrent_def heap_ok_def sizes_ok_def
        torrent_ok_def disk_ok_def)
next
  case (step w w')
  from step.hyps(2) show ?case
  proof cases
    case (net t')
    with step.IH net_step_quiet [of "w_torrent w" t'] quiet_disk_ok [of "w_torrent w" t'] show ?thesis
      by (auto simp: quiet_def)
  next
    case (verified i t')
    with step.IH verified_step [of "w_torrent w" sha1 "w_fs w" i t'] show ?thesis
      by simp
  next
    case written
    with step.IH write_next_piece_step [OF assms(1,2)] show ?thesis
      by simp
  qed
qed

text \<open>
  C2.  Whatever peers send and in whatever order blocks arrive and the writer runs, from the moment
  a torrent is registered with no file on disk, some or all of them: every piece that counts as
  written has, on disk at its place in the torrent, bytes with the digest of the metainfo.  The
  torrent is below 4 GiB and its files have paths of their own, and the runs are those in which
  nothing but the client touches the files and the writer does not make them anew while pieces
  count as written (\<open>wipes\<close>; \<open>rewrite_wipes_download\<close> shows the loss if it does).  Nothing is
  assumed of the digest.
\<close>

theorem written_pieces_verified:
  assumes "small_torrent mi" and "files_ok mi" and "download_reach sha1 lpw mi fs w"
    and "map_of (m_active_pieces (w_torrent w)) i = Some loc" and "m_piece_written (pieces_heap (w_torrent w) ! loc)"
  shows "unat i < length (m_pieces mi) \<and> sha1 (slice mi (store_stream mi (w_fs w)) i) = m_pieces mi ! unat i"
  using download_reach_ok [OF assms(1-3)] assms(4,5) by (auto simp: disk_ok_def piece_verified_def)

definition tiny_meta :: metainfo where
  "tiny_meta = sample_meta\<lparr>m_piece_length := 4, m_length := 8\<rparr>"

definition tiny_sha1 :: "bytes \<Rightarrow> string" where
  "tiny_sha1 d = (if length d = 4 then replicate 20 (CHR ''x'') else [])"

definition tiny_fs :: filesystem where
  "tiny_fs = \<lparr>fs_files = [m_tmpfile tiny_meta \<mapsto> [1, 2, 3, 4, 5, 6, 7, 8]], fs_dirs = {''d''}\<rparr>"

lemma tiny_length: "torrent_length tiny_meta = 8" "is_single_file tiny_meta" "length (m_pieces tiny_meta) = 2"
  by (simp_all add: torrent_length_def is_single_file_def tiny_meta_def sample_meta_def)

lemma tiny_small: "small_torrent tiny_meta"
  using tiny_length by (simp add: small_torrent_def pieces_fit_def tiny_meta_def sample_meta_def)

lemma tiny_piece_length: "unat i < 2 \<Longrightarrow> piece_length_at tiny_meta i = Inr 4"
  using tiny_length
  by (simp add: piece_length_at_def tiny_meta_def sample_meta_def c_rem_def numeric_cast_def make_unsigned_def
      static_cast_def ity_max_def)

lemma tiny_files: "files_ok tiny_meta"
  by (simp add: files_ok_def tiny_meta_def sample_meta_def)

definition tiny_done :: writer_state where
  "tiny_done = \<lparr>w_torrent = (register_torrent (new_torrent tiny_meta))
     \<lparr>m_client_pieces := bf_set (bf_set bf_empty 0 True) 1 True,
      pieces_heap := [set_piece_written True (new_piece 0 4), set_piece_written True (new_piece 1 4)],
      m_active_pieces := [(0, 0), (1, 1)]\<rparr>, w_fs = tiny_fs, w_completed = 0\<rparr>"

text \<open>A whole download of the two pieces on a disk that has nothing but the directory.\<close>

definition fresh_fs :: filesystem where
  "fresh_fs = \<lparr>fs_files = Map.empty, fs_dirs = {''d''}\<rparr>"

definition tiny_start :: writer_state where
  "tiny_start = \<lparr>w_torrent = register_torrent (new_torrent tiny_meta), w_fs = fresh_fs, w_completed = 0\<rparr>"

definition tiny_piece :: "u32 \<Rightarrow> bytes \<Rightarrow> piece" where
  "tiny_piece i d = store_block 9 0 d (new_piece i 4)"

definition tiny_torrent :: "piece list \<Rightarrow> nat list \<Rightarrow> torrent" where
  "tiny_torrent ps q = (register_torrent (new_torrent tiny_meta))
     \<lparr>m_client_pieces := fold (\<lambda>p b. bf_set b (unat (m_id p)) True) (filter all_done ps) bf_empty, pieces_heap := ps,
      m_active_pieces := map (\<lambda>i. (m_id (ps ! i), i)) [0..<length ps], writer_queue := q\<rparr>"

definition tiny_received :: writer_state where
  "tiny_received = tiny_start\<lparr>w_torrent := tiny_torrent [tiny_piece 0 [1, 2, 3, 4], tiny_piece 1 [5, 6, 7, 8]] [0, 1]\<rparr>"

definition tiny_half :: writer_state where
  "tiny_half = write_next_piece tiny_sha1 (\<lambda>_. Inr ()) tiny_received"

definition tiny_whole :: writer_state where
  "tiny_whole = write_next_piece tiny_sha1 (\<lambda>_. Inr ()) tiny_half"

lemma tiny_piece_simps [simp]:
  "m_id (tiny_piece i d) = i" "m_piece_size (tiny_piece i d) = 4"
  "m_piece_size (new_piece i 4) = 4" "\<not> m_piece_written (tiny_piece i d)"
  by (simp_all add: tiny_piece_def store_block_def new_piece_def)

lemma blocks_new_piece_4 [simp]: "blocks (new_piece i 4) = 1"
  by (simp add: blocks_of_size)

lemma tiny_piece_data [simp]: "length d = 4 \<Longrightarrow> m_data (tiny_piece i d) = d"
  by (simp add: tiny_piece_def store_block_def new_piece_def bytes_resize_def)

lemma tiny_piece_done [simp]: "all_done (tiny_piece i d)"
  by (simp add: tiny_piece_def all_done_def is_done_store_block)

lemma tiny_block:
  assumes "length d = 4"
  shows "set_block 9 0 d (new_piece i 4) = Inr (True, tiny_piece i d)"
  using set_block_accepts [OF piece_ok_new, of 0 d i 4 9] assms
  by (simp add: Let_def tiny_piece_def [symmetric])

lemma tiny_torrent_meta [simp]:
  "meta (tiny_torrent ps q) = tiny_meta" "pieces_heap (tiny_torrent ps q) = ps" "writer_queue (tiny_torrent ps q) = q"
  "m_active_pieces (tiny_torrent ps q) = map (\<lambda>i. (m_id (ps ! i), i)) [0..<length ps]"
  by (simp_all add: tiny_torrent_def register_torrent_def add_piece_callback_def new_torrent_def)

lemma tiny_net_steps:
  "net_step (tiny_torrent [] []) (tiny_torrent [new_piece 0 4] [])"
  "net_step (tiny_torrent [new_piece 0 4] []) (tiny_torrent [tiny_piece 0 [1, 2, 3, 4]] [0])"
  "net_step (tiny_torrent [tiny_piece 0 d] [0]) (tiny_torrent [tiny_piece 0 d, new_piece 1 4] [0])"
  "net_step (tiny_torrent [tiny_piece 0 d, new_piece 1 4] [0]) (tiny_torrent [tiny_piece 0 d, tiny_piece 1 [5, 6, 7, 8]] [0, 1])"
proof -
  have new: "\<not> all_done (new_piece i 4)" "m_id (new_piece i 4) = i" for i
    by (simp_all add: all_done_def) (simp_all add: new_piece_def)
  have len: "piece_length_at tiny_meta 0 = Inr 4" "piece_length_at tiny_meta 1 = Inr 4"
    using tiny_piece_length [of 0] tiny_piece_length [of 1] by simp_all
  have a: "active_piece 0 True (tiny_torrent [] []) = Inr (Some 0, tiny_torrent [new_piece 0 4] [])"
    using len new by (simp add: active_piece_def) (simp add: tiny_torrent_def new)
  have b: "t_set_block 9 0 0 [1, 2, 3, 4] (tiny_torrent [new_piece 0 4] []) = Inr (True, tiny_torrent [tiny_piece 0 [1, 2, 3, 4]] [0])"
    using new by (simp add: t_set_block_def tiny_block)
      (simp add: tiny_torrent_def new piece_done_def set_heap_def register_torrent_def add_piece_callback_def new_torrent_def writer_add_def)
  show "net_step (tiny_torrent [] []) (tiny_torrent [new_piece 0 4] [])"
    using a by (rule net_step.active)
  show "net_step (tiny_torrent [new_piece 0 4] []) (tiny_torrent [tiny_piece 0 [1, 2, 3, 4]] [0])"
    using b by (rule net_step.block)
  have a: "active_piece 1 True (tiny_torrent [tiny_piece 0 d] [0]) = Inr (Some 1, tiny_torrent [tiny_piece 0 d, new_piece 1 4] [0])"
    using len new by (simp add: active_piece_def) (simp add: tiny_torrent_def new)
  have b: "t_set_block 9 1 0 [5, 6, 7, 8] (tiny_torrent [tiny_piece 0 d, new_piece 1 4] [0])
      = Inr (True, tiny_torrent [tiny_piece 0 d, tiny_piece 1 [5, 6, 7, 8]] [0, 1])"
    using new by (simp add: t_set_block_def tiny_block)
      (simp add: tiny_torrent_def new piece_done_def set_heap_def register_torrent_def add_piece_callback_def new_torrent_def writer_add_def)
  show "net_step (tiny_torrent [tiny_piece 0 d] [0]) (tiny_torrent [tiny_piece 0 d, new_piece 1 4] [0])"
    using a by (rule net_step.active)
  show "net_step (tiny_torrent [tiny_piece 0 d, new_piece 1 4] [0]) (tiny_torrent [tiny_piece 0 d, tiny_piece 1 [5, 6, 7, 8]] [0, 1])"
    using b by (rule net_step.block)
qed

lemma tiny_received_reach: "download_reach tiny_sha1 lpw tiny_meta fresh_fs tiny_received"
proof -
  have net: "download_reach tiny_sha1 lpw tiny_meta fresh_fs (tiny_start\<lparr>w_torrent := t'\<rparr>)"
    if "download_reach tiny_sha1 lpw tiny_meta fresh_fs (tiny_start\<lparr>w_torrent := t\<rparr>)" "net_step t t'" for t t'
    using download_reach.step [OF that(1) download_step.net [of _ t']] that(2) by simp
  have "tiny_start = tiny_start\<lparr>w_torrent := tiny_torrent [] []\<rparr>"
    by (simp add: tiny_start_def tiny_torrent_def register_torrent_def add_piece_callback_def new_torrent_def)
  then have "download_reach tiny_sha1 lpw tiny_meta fresh_fs (tiny_start\<lparr>w_torrent := tiny_torrent [] []\<rparr>)"
    using download_reach.init by (metis tiny_start_def)
  then show ?thesis
    unfolding tiny_received_def
    by (rule net [OF net [OF net [OF net [OF _ tiny_net_steps(1)] tiny_net_steps(2)] tiny_net_steps(3)] tiny_net_steps(4)])
qed

lemma tiny_names: "m_tmpfile tiny_meta = ''d/f.zit_downloading''" "m_name tiny_meta = ''d/f''" "m_piece_length tiny_meta = 4"
  "m_pieces tiny_meta = [replicate 20 (CHR ''x''), replicate 20 (CHR ''x'')]"
  by (simp_all add: tiny_meta_def sample_meta_def)

lemma tiny_stores:
  "store_sequence lpw tiny_meta (tiny_piece 0 [1, 2, 3, 4]) fresh_fs =
     (Inr (), fresh_fs\<lparr>fs_files := [''d/f.zit_downloading'' \<mapsto> [1, 2, 3, 4, 0, 0, 0, 0]]\<rparr>)"
  "store_sequence lpw tiny_meta (tiny_piece 1 [5, 6, 7, 8])
       (fresh_fs\<lparr>fs_files := [''d/f.zit_downloading'' \<mapsto> [1, 2, 3, 4, 0, 0, 0, 0]]\<rparr>) =
     (Inr (), fresh_fs\<lparr>fs_files := [''d/f.zit_downloading'' \<mapsto> [1, 2, 3, 4, 5, 6, 7, 8]]\<rparr>)"
proof -
  have cast: "numeric_cast uint64_t int64_t 8 = Inr 8"
    by (rule numeric_cast_u64_exact) simp_all
  have zeros: "replicate 8 0 = [0, 0, 0, 0, 0, 0, 0, 0 :: 8 word]"
    by (simp add: eval_nat_numeral)
  note defs = store_sequence_def create_destination_def tiny_length tiny_names single_allocate_def single_verify_def
    single_write_def io_simps fs_defs fs_create_def fs_resize_def cast fresh_fs_def parent_exists_def parent_path_def
    bytes_resize_def zeros put_at_def
  show "store_sequence lpw tiny_meta (tiny_piece 0 [1, 2, 3, 4]) fresh_fs =
     (Inr (), fresh_fs\<lparr>fs_files := [''d/f.zit_downloading'' \<mapsto> [1, 2, 3, 4, 0, 0, 0, 0]]\<rparr>)"
    by (simp add: defs)
  show "store_sequence lpw tiny_meta (tiny_piece 1 [5, 6, 7, 8])
       (fresh_fs\<lparr>fs_files := [''d/f.zit_downloading'' \<mapsto> [1, 2, 3, 4, 0, 0, 0, 0]]\<rparr>) =
     (Inr (), fresh_fs\<lparr>fs_files := [''d/f.zit_downloading'' \<mapsto> [1, 2, 3, 4, 5, 6, 7, 8]]\<rparr>)"
    by (simp add: defs)
qed

lemma tiny_torrent_update:
  "(tiny_torrent ps q)\<lparr>writer_queue := q'\<rparr> = tiny_torrent ps q'"
  "all_done p = all_done (ps ! k) \<Longrightarrow> m_id p = m_id (ps ! k) \<Longrightarrow> k < length ps \<Longrightarrow>
    set_heap k p (tiny_torrent ps q) = tiny_torrent (ps[k := p]) q"
proof -
  show "(tiny_torrent ps q)\<lparr>writer_queue := q'\<rparr> = tiny_torrent ps q'"
    by (simp add: tiny_torrent_def)
  assume p: "all_done p = all_done (ps ! k)" "m_id p = m_id (ps ! k)" "k < length ps"
  have "fold (\<lambda>p b. bf_set b (unat (m_id p)) True) (filter all_done (ps[k := p])) b =
      fold (\<lambda>p b. bf_set b (unat (m_id p)) True) (filter all_done ps) b" for b
    using p
  proof (induction ps arbitrary: k b)
    case (Cons x xs)
    then show ?case
      by (cases k) simp_all
  qed simp
  moreover have "map (\<lambda>i. (m_id (ps[k := p] ! i), i)) [0..<length ps] = map (\<lambda>i. (m_id (ps ! i), i)) [0..<length ps]"
    using p(2,3) by (auto simp: nth_list_update)
  ultimately show "set_heap k p (tiny_torrent ps q) = tiny_torrent (ps[k := p]) q"
    by (simp add: tiny_torrent_def set_heap_def register_torrent_def add_piece_callback_def new_torrent_def)
qed

lemma tiny_written [simp]:
  "m_id (set_piece_written b p) = m_id p" "m_piece_written (set_piece_written b p) = b"
  "length d = 4 \<Longrightarrow> all_done (set_piece_written b (tiny_piece i d))"
proof -
  show ids: "m_id (set_piece_written b p) = m_id p" "m_piece_written (set_piece_written b p) = b" for p
    by (simp_all add: set_piece_written_def)
  assume "length d = 4"
  then have "piece_ok (tiny_piece i d)"
    using piece_ok_set_block [OF piece_ok_new tiny_block] by blast
  then have "is_done (set_piece_written b (tiny_piece i d)) j" if "j < blocks (tiny_piece i d)" for j
    using that set_piece_written_props(2) by blast
  moreover have "blocks (set_piece_written b (tiny_piece i d)) = blocks (tiny_piece i d)"
    by (simp add: set_piece_written_def block_count_def)
  ultimately show "all_done (set_piece_written b (tiny_piece i d))"
    by (simp add: all_done_def)
qed

lemma tiny_half_world:
  "w_torrent tiny_half = tiny_torrent [set_piece_written True (tiny_piece 0 [1, 2, 3, 4]), tiny_piece 1 [5, 6, 7, 8]] [1]"
  "w_fs tiny_half = fresh_fs\<lparr>fs_files := [''d/f.zit_downloading'' \<mapsto> [1, 2, 3, 4, 0, 0, 0, 0]]\<rparr>"
proof -
  define t2 where "t2 = tiny_torrent [set_piece_written True (tiny_piece 0 [1, 2, 3, 4]), tiny_piece 1 [5, 6, 7, 8]] [1]"
  have "\<not> torrent_done t2"
    by (simp add: torrent_done_def t2_def list_ex_iff)
  moreover have "w_torrent tiny_received = tiny_torrent [tiny_piece 0 [1, 2, 3, 4], tiny_piece 1 [5, 6, 7, 8]] [0, 1]"
    "w_fs tiny_received = fresh_fs"
    by (simp_all add: tiny_received_def tiny_start_def)
  ultimately show "w_torrent tiny_half = tiny_torrent [set_piece_written True (tiny_piece 0 [1, 2, 3, 4]), tiny_piece 1 [5, 6, 7, 8]] [1]"
    and "w_fs tiny_half = fresh_fs\<lparr>fs_files := [''d/f.zit_downloading'' \<mapsto> [1, 2, 3, 4, 0, 0, 0, 0]]\<rparr>"
    using write_next_piece_cases(3) [of tiny_received 0 "[1]" tiny_sha1 "\<lambda>_. Inr ()"] tiny_stores(1) [of "\<lambda>_. Inr ()"]
    by (simp_all add: tiny_half_def tiny_torrent_update tiny_names tiny_sha1_def t2_def)
qed

lemma tiny_whole_world:
  "w_torrent tiny_whole = tiny_torrent [set_piece_written True (tiny_piece 0 [1, 2, 3, 4]),
     set_piece_written True (tiny_piece 1 [5, 6, 7, 8])] []"
  "w_fs tiny_whole = fresh_fs\<lparr>fs_files := [''d/f'' \<mapsto> [1, 2, 3, 4, 5, 6, 7, 8]]\<rparr>"
  "torrent_done (w_torrent tiny_whole)" "bf_indices (m_client_pieces (w_torrent tiny_whole)) = {0, 1}"
proof -
  define t2 where "t2 = tiny_torrent [set_piece_written True (tiny_piece 0 [1, 2, 3, 4]),
     set_piece_written True (tiny_piece 1 [5, 6, 7, 8])] []"
  have bits: "bf_indices (m_client_pieces t2) = {0, 1}"
    by (auto simp: bf_indices_def bf_test_set t2_def tiny_torrent_def)
  have don: "torrent_done t2"
    using bits by (simp add: torrent_done_def bf_count_card t2_def list_ex_iff tiny_names)
  have "w_torrent tiny_whole = t2 \<and> w_fs tiny_whole = fresh_fs\<lparr>fs_files := [''d/f'' \<mapsto> [1, 2, 3, 4, 5, 6, 7, 8]]\<rparr>"
    using write_next_piece_cases(3) [of tiny_half 1 "[]" tiny_sha1 "\<lambda>_. Inr ()"] tiny_stores(2) [of "\<lambda>_. Inr ()"]
      don tiny_half_world
    by (simp add: tiny_whole_def tiny_torrent_update tiny_names tiny_sha1_def t2_def create_destination_def tiny_length
      single_complete_def io_simps fs_defs fun_upd_twist)
  with bits don show
    "w_torrent tiny_whole = tiny_torrent [set_piece_written True (tiny_piece 0 [1, 2, 3, 4]),
       set_piece_written True (tiny_piece 1 [5, 6, 7, 8])] []"
    "w_fs tiny_whole = fresh_fs\<lparr>fs_files := [''d/f'' \<mapsto> [1, 2, 3, 4, 5, 6, 7, 8]]\<rparr>"
    "torrent_done (w_torrent tiny_whole)" "bf_indices (m_client_pieces (w_torrent tiny_whole)) = {0, 1}"
    by (simp_all add: t2_def)
qed

lemma tiny_not_wipes: "\<not> wipes tiny_sha1 tiny_received" "\<not> wipes tiny_sha1 tiny_half"
proof -
  show "\<not> wipes tiny_sha1 tiny_received"
    by (simp add: wipes_def Let_def tiny_received_def list_ex_iff)
  show "\<not> wipes tiny_sha1 tiny_half"
    by (simp add: wipes_def Let_def tiny_half_world store_started_def tiny_names)
qed

lemma tiny_whole_reach: "download_reach tiny_sha1 (\<lambda>_. Inr ()) tiny_meta fresh_fs tiny_whole"
proof -
  have "download_reach tiny_sha1 (\<lambda>_. Inr ()) tiny_meta fresh_fs tiny_half"
    unfolding tiny_half_def by (rule download_reach.step [OF tiny_received_reach download_step.written [OF tiny_not_wipes(1)]])
  then show ?thesis
    unfolding tiny_whole_def by (rule download_reach.step [OF _ download_step.written [OF tiny_not_wipes(2)]])
qed

theorem written_pieces_verified_witness:
  "download_reach tiny_sha1 (\<lambda>_. Inr ()) tiny_meta fresh_fs tiny_whole
   \<and> fs_files (w_fs tiny_whole) ''d/f'' = Some [1, 2, 3, 4, 5, 6, 7, 8]
   \<and> tiny_sha1 (slice tiny_meta (store_stream tiny_meta (w_fs tiny_whole)) 1) = m_pieces tiny_meta ! 1"
  using written_pieces_verified [OF tiny_small tiny_files tiny_whole_reach, of 1 1] tiny_whole_reach
  by (simp add: tiny_whole_world)

text \<open>
  C3.  When such a download (below 4 GiB, files with paths of their own, started on any disk, the
  files never made anew while pieces count as written) is done and no piece outside the torrent was
  marked as received, every piece of the torrent is on disk with its digest: a finished download is
  the content the metainfo describes.
\<close>

theorem finished_download_verified:
  assumes "small_torrent mi" and "files_ok mi" and "download_reach sha1 lpw mi fs w"
    and "torrent_done (w_torrent w)" and "bf_indices (m_client_pieces (w_torrent w)) \<subseteq> {..<length (m_pieces mi)}"
    and "k < length (m_pieces mi)"
  shows "sha1 (slice mi (store_stream mi (w_fs w)) (of_nat k)) = m_pieces mi ! k"
proof -
  define t where "t = w_torrent w"
  have ok: "heap_ok t" "meta t = mi" "disk_ok sha1 t (w_fs w)"
    using download_reach_ok [OF assms(1-3)] by (simp_all add: t_def)
  have "length (m_pieces mi) \<le> 2 ^ 32"
    using assms(1) by (simp add: small_torrent_def pieces_fit_def)
  then have k: "unat (of_nat k :: u32) = k"
    using assms(6) by (intro unat_of_nat_less) simp
  have "card (bf_indices (m_client_pieces t)) = length (m_pieces mi)"
    and written: "\<forall>e \<in> set (m_active_pieces t). m_piece_written (pieces_heap t ! snd e)"
    using assms(4) ok(2) by (auto simp: torrent_done_def Let_def bf_count_card list_ex_iff t_def)
  then have "bf_indices (m_client_pieces t) = {..<length (m_pieces mi)}"
    using assms(5) by (intro card_subset_eq) (simp_all add: t_def)
  then have "bf_test (m_client_pieces t) k"
    using assms(6) by (auto simp: bf_indices_def)
  then obtain loc where loc: "map_of (m_active_pieces t) (of_nat k) = Some loc"
    using heap_ok_torrent_ok [OF ok(1)] by (auto simp: torrent_ok_def)
  then have "m_piece_written (pieces_heap t ! loc)"
    using written map_of_SomeD by fastforce
  with loc ok k show ?thesis
    by (auto simp: disk_ok_def piece_verified_def)
qed

lemma tiny_done_done: "torrent_done (w_torrent tiny_done)" "bf_indices (m_client_pieces (w_torrent tiny_done)) = {0, 1}"
proof -
  show "bf_indices (m_client_pieces (w_torrent tiny_done)) = {0, 1}"
    by (auto simp: bf_indices_def bf_test_set tiny_done_def)
  then have "bf_count (m_client_pieces (w_torrent tiny_done)) = 2"
    by (simp add: bf_count_card)
  moreover have "m_pieces tiny_meta \<noteq> []"
    using tiny_length(3) by auto
  ultimately show "torrent_done (w_torrent tiny_done)"
    using tiny_length
    by (simp add: torrent_done_def tiny_done_def new_torrent_def set_piece_written_def register_torrent_def
        add_piece_callback_def)
qed

theorem finished_download_verified_witness:
  "torrent_done (w_torrent tiny_whole)
   \<and> tiny_sha1 (slice tiny_meta (store_stream tiny_meta (w_fs tiny_whole)) 0) = m_pieces tiny_meta ! 0
   \<and> tiny_sha1 (slice tiny_meta (store_stream tiny_meta (w_fs tiny_whole)) 1) = m_pieces tiny_meta ! 1"
proof -
  have "bf_indices (m_client_pieces (w_torrent tiny_whole)) \<subseteq> {..<length (m_pieces tiny_meta)}"
    using tiny_whole_world(4) tiny_length by auto
  note whole = finished_download_verified [OF tiny_small tiny_files tiny_whole_reach tiny_whole_world(3) this]
  show ?thesis
    using whole [of 0] whole [of 1] tiny_length tiny_whole_world(3) by simp
qed

text \<open>
  C21.  A piece whose data does not have its digest is not written: the disk stays as it is, the
  piece is neither received nor active any more, so that it is requested again from its first
  block, and every other piece stays active as it was.
\<close>

theorem bad_digest_discards:
  assumes "torrent_reach mi (w_torrent w)" and "writer_queue (w_torrent w) = loc # q"
    and "unat (m_id (pieces_heap (w_torrent w) ! loc)) < length (m_pieces mi)"
    and "sha1 (m_data (pieces_heap (w_torrent w) ! loc)) \<noteq> m_pieces mi ! unat (m_id (pieces_heap (w_torrent w) ! loc))"
    and "map_of (m_active_pieces (w_torrent w)) (m_id (pieces_heap (w_torrent w) ! loc)) \<noteq> None"
  shows "let w' = write_next_piece sha1 lpw w; i = m_id (pieces_heap (w_torrent w) ! loc) in
    w_fs w' = w_fs w \<and> writer_queue (w_torrent w') = q
    \<and> \<not> bf_test (m_client_pieces (w_torrent w')) (unat i)
    \<and> map_of (m_active_pieces (w_torrent w')) = (map_of (m_active_pieces (w_torrent w)))(i := None)
    \<and> (\<forall>j k. j \<noteq> i \<and> map_of (m_active_pieces (w_torrent w)) j = Some k \<longrightarrow>
          pieces_heap (w_torrent w') ! k = pieces_heap (w_torrent w) ! k)"
proof -
  define t p where "t = (w_torrent w)\<lparr>writer_queue := q\<rparr>" and "p = pieces_heap t ! loc"
  have ok: "torrent_ok t" "meta t = mi"
    using torrent_reach_ok [OF assms(1)] by (auto simp: t_def torrent_ok_def)
  have step: "write_next_piece sha1 lpw w = w\<lparr>w_torrent := reset_piece (m_id p) t\<rparr>"
    using write_next_piece_cases(2) [OF assms(2), folded t_def, folded p_def, of sha1 lpw] assms(3,4) ok(2)
    by (simp add: t_def p_def)
  obtain k where k: "map_of (m_active_pieces t) (m_id p) = Some k"
    using assms(5) by (auto simp: t_def p_def)
  have other: "pieces_heap (set_heap k x t) ! l = pieces_heap t ! l"
    if "map_of (m_active_pieces t) j = Some l" "j \<noteq> m_id p" for j l x
  proof -
    have "m_id (pieces_heap t ! l) = j" and "m_id (pieces_heap t ! k) = m_id p" and "k < length (pieces_heap t)"
      using ok(1) that(1) k unfolding torrent_ok_def by metis+
    then show ?thesis
      using that(2) by (auto simp: nth_set_heap)
  qed
  show ?thesis
    using k ok(1) other
    by (auto simp: step Let_def reset_piece_def bf_test_set smap_simps torrent_ok_def p_def [symmetric])
      (simp_all add: t_def p_def)
qed

lemma tiny_torrent_reach: "torrent_reach tiny_meta (register_torrent (new_torrent tiny_meta))"
  unfolding register_torrent_def
  by (rule torrent_reach.step [OF torrent_reach.init torrent_step.callback])

definition one_active :: torrent where
  "one_active = (register_torrent (new_torrent tiny_meta))
     \<lparr>pieces_heap := [new_piece 0 4], m_active_pieces := [(0, 0)]\<rparr>"

lemma one_active_reach: "torrent_reach tiny_meta one_active"
proof -
  have "active_piece 0 True (register_torrent (new_torrent tiny_meta)) = Inr (Some 0, one_active)"
    using tiny_piece_length [of 0]
    by (simp add: active_piece_def one_active_def new_torrent_def register_torrent_def add_piece_callback_def)
  then show ?thesis
    by (rule torrent_reach.step [OF tiny_torrent_reach torrent_step.active])
qed

definition one_received :: torrent where
  "one_received = piece_done 0 (set_heap 0 (store_block 9 0 [1, 2, 3, 4] (new_piece 0 4)) one_active)"

lemma one_received_reach: "torrent_reach tiny_meta one_received"
proof -
  have "set_block 9 0 [1, 2, 3, 4] (new_piece 0 4) = Inr (True, store_block 9 0 [1, 2, 3, 4] (new_piece 0 4))"
    using tiny_block [of "[1, 2, 3, 4]" 0] by (simp add: tiny_piece_def)
  then have "t_set_block 9 0 0 [1, 2, 3, 4] one_active = Inr (True, one_received)"
    by (simp add: t_set_block_def one_received_def one_active_def)
  then show ?thesis
    by (rule torrent_reach.step [OF one_active_reach torrent_step.block])
qed

theorem bad_digest_discards_witness:
  "w_fs (write_next_piece (\<lambda>_. []) (\<lambda>_. Inr ()) \<lparr>w_torrent = one_received, w_fs = tiny_fs, w_completed = 0\<rparr>) = tiny_fs"
proof -
  have "writer_queue one_received = [0]" "m_id (pieces_heap one_received ! 0) = 0"
    "map_of (m_active_pieces one_received) 0 = Some 0"
    by (simp_all add: one_received_def piece_done_def one_active_def register_torrent_def add_piece_callback_def
        new_torrent_def writer_add_def nth_set_heap) (simp_all add: new_piece_def)
  then show ?thesis
    using bad_digest_discards [of tiny_meta "\<lparr>w_torrent = one_received, w_fs = tiny_fs, w_completed = 0\<rparr>" 0 "[]" "\<lambda>_. []" "\<lambda>_. Inr ()"]
      one_received_reach tiny_length
    by (simp add: Let_def tiny_meta_def sample_meta_def)
qed

lemma tiny_done_torrent_reach: "torrent_reach tiny_meta (w_torrent tiny_done)"
proof -
  define t1 where "t1 = (register_torrent (new_torrent tiny_meta))\<lparr>m_client_pieces := bf_set bf_empty 0 True,
      pieces_heap := [set_piece_written True (new_piece 0 4)], m_active_pieces := [(0, 0)]\<rparr>"
  have "mark_verified 0 (register_torrent (new_torrent tiny_meta)) = Inr t1"
    using tiny_piece_length [of 0]
    by (simp add: mark_verified_def active_piece_def t1_def new_torrent_def set_heap_def register_torrent_def
        add_piece_callback_def)
  moreover have "mark_verified 1 t1 = Inr (w_torrent tiny_done)"
    using tiny_piece_length [of 1]
    by (simp add: mark_verified_def active_piece_def tiny_done_def t1_def new_torrent_def set_heap_def
        register_torrent_def add_piece_callback_def)
  ultimately show ?thesis
    by (metis torrent_reach.step torrent_step.verified tiny_torrent_reach)
qed

text \<open>
  Once a piece has been written, its data is freed; a block of it that arrives once more
  still counts as completing the piece, which is queued again, fails the digest and is thrown away
  although its bytes are on disk.
\<close>

theorem late_block_discards:
  assumes "torrent_reach mi (w_torrent w)" and "m_piece_callbacks (w_torrent w) = [writer_add]"
    and "writer_queue (w_torrent w) = []" and "map_of (m_active_pieces (w_torrent w)) i = Some loc"
    and "pieces_heap (w_torrent w) ! loc = set_piece_written True p" and "piece_ok p"
    and "unat i < length (m_pieces mi)" and "sha1 [] \<noteq> m_pieces mi ! unat i"
    and "offset mod m_block_size = 0" and "length data \<le> 16384"
    and "unat offset + length data \<le> unat (m_piece_size p)" and "unat (offset div m_block_size) < blocks p"
  shows "\<exists>t'. t_set_block now i offset data (w_torrent w) = Inr (True, t')
    \<and> (let w' = write_next_piece sha1 lpw (w\<lparr>w_torrent := t'\<rparr>) in
        map_of (m_active_pieces (w_torrent w')) i = None \<and> \<not> bf_test (m_client_pieces (w_torrent w')) (unat i)
        \<and> w_fs w' = w_fs w)"
proof -
  define t where "t = w_torrent w"
  define p1 where "p1 = store_block now (unat (offset div m_block_size)) data (set_piece_written True p)"
  have ok: "torrent_ok t" "meta t = mi"
    using torrent_reach_ok [OF assms(1)] by (simp_all add: t_def)
  have loc: "loc < length (pieces_heap t)" "m_id (pieces_heap t ! loc) = i"
    using ok(1) assms(4) by (auto simp: torrent_ok_def t_def)
  note sp = set_piece_written_props [OF assms(6), of True]
  have sz: "m_piece_size (set_piece_written True p) = m_piece_size p" "blocks (set_piece_written True p) = blocks p"
    by (simp_all add: set_piece_written_def block_count_def)
  have p1: "m_data p1 = []" "all_done p1" "m_id p1 = i"
    using sp(2) sz assms(5,12) loc(2) by (auto simp: p1_def all_done_def is_done_store_block t_def)
      (simp_all add: store_block_def set_piece_written_def)
  have "set_block now offset data (set_piece_written True p) = Inr (True, p1)"
    using set_block_accepts [OF sp(1) assms(9,10)] assms(11,12) sz p1(2) by (simp add: p1_def)
  then have st: "t_set_block now i offset data t = Inr (True, piece_done loc (set_heap loc p1 t))"
    using assms(4,5) by (simp add: t_set_block_def t_def)
  define t1 where "t1 = (piece_done loc (set_heap loc p1 t))\<lparr>writer_queue := []\<rparr>"
  have t1: "pieces_heap t1 ! loc = p1" "meta t1 = mi" "m_active_pieces t1 = m_active_pieces t"
    using loc(1) ok(2) by (simp_all add: t1_def piece_done_def nth_set_heap)
  have q: "writer_queue (piece_done loc (set_heap loc p1 t)) = [loc]"
    using assms(2,3) by (simp add: piece_done_def writer_add_def t_def)
  have "write_next_piece sha1 lpw (w\<lparr>w_torrent := piece_done loc (set_heap loc p1 t)\<rparr>)
      = (w\<lparr>w_torrent := piece_done loc (set_heap loc p1 t)\<rparr>)\<lparr>w_torrent := reset_piece i t1\<rparr>"
    using write_next_piece_cases(2) [of "w\<lparr>w_torrent := piece_done loc (set_heap loc p1 t)\<rparr>" loc "[]" sha1 lpw]
      q t1 p1 assms(7,8) by (simp flip: t1_def)
  moreover have "smap_ok (m_active_pieces t1)"
    using ok(1) t1(3) by (simp add: torrent_ok_def)
  ultimately show ?thesis
    using st assms(4) t1(3) by (auto simp: Let_def reset_piece_def bf_test_set smap_simps t_def)
qed

theorem late_block_discards_witness:
  "\<exists>t'. t_set_block 9 1 0 [5, 6, 7, 8] (w_torrent tiny_done) = Inr (True, t')
    \<and> map_of (m_active_pieces (w_torrent (write_next_piece tiny_sha1 (\<lambda>_. Inr ()) (tiny_done\<lparr>w_torrent := t'\<rparr>)))) 1 = None"
proof -
  have nb: "blocks (new_piece 1 4) = 1" "m_piece_size (new_piece 1 4) = 4"
    by simp_all
  have "m_piece_callbacks (w_torrent tiny_done) = [writer_add]" "writer_queue (w_torrent tiny_done) = []"
    "map_of (m_active_pieces (w_torrent tiny_done)) 1 = Some 1"
    "pieces_heap (w_torrent tiny_done) ! 1 = set_piece_written True (new_piece 1 4)"
    by (simp_all add: tiny_done_def register_torrent_def add_piece_callback_def new_torrent_def)
  moreover have "tiny_sha1 [] \<noteq> m_pieces tiny_meta ! unat (1 :: u32)"
    by (simp add: tiny_sha1_def tiny_meta_def sample_meta_def)
  ultimately have "\<exists>t'. t_set_block 9 1 0 [5, 6, 7, 8] (w_torrent tiny_done) = Inr (True, t')
      \<and> (let w' = write_next_piece tiny_sha1 (\<lambda>_. Inr ()) (tiny_done\<lparr>w_torrent := t'\<rparr>) in
          map_of (m_active_pieces (w_torrent w')) 1 = None \<and> \<not> bf_test (m_client_pieces (w_torrent w')) (unat (1 :: u32))
          \<and> w_fs w' = w_fs tiny_done)"
    using tiny_length nb
    by (intro late_block_discards [OF tiny_done_torrent_reach _ _ _ _ piece_ok_new [of 1 4]]) simp_all
  then show ?thesis
    by (auto simp: Let_def)
qed

text \<open>
  When the temporary file of a finished single-file download is gone and a piece is written
  after all, the writer makes a new file of zeros, stores that piece only, and, the torrent being
  done again, renames it over the download: every other byte of it is lost.
\<close>

theorem rewrite_wipes_download:
  assumes "is_single_file (meta t)" and "w_torrent w = t" and "writer_queue t = loc # q"
    and "fs_files (w_fs w) (m_tmpfile (meta t)) = None" and "m_tmpfile (meta t) \<notin> fs_dirs (w_fs w)"
    and "parent_exists (m_tmpfile (meta t)) (w_fs w)" and "m_tmpfile (meta t) \<noteq> m_name (meta t)"
    and "0 \<le> torrent_length (meta t)" and "torrent_length (meta t) < 2 ^ 63"
    and p: "pieces_heap t ! loc = p" "unat (m_id p) < length (m_pieces (meta t))"
      "sha1 (m_data p) = m_pieces (meta t) ! unat (m_id p)" "length (m_data p) = unat (m_piece_size p)"
      "uint (m_id p * m_piece_length (meta t)) + uint (m_piece_size p) \<le> torrent_length (meta t)"
    and "torrent_done (set_heap loc (set_piece_written True p) (t\<lparr>writer_queue := q\<rparr>))"
  shows "fs_files (w_fs (write_next_piece sha1 lpw w)) (m_name (meta t)) =
    Some (put_at (unat (m_id p * m_piece_length (meta t))) (m_data p)
      (replicate (nat (torrent_length (meta t))) 0))"
proof -
  define mi where "mi = meta t"
  define s0 where "s0 = (w_fs w)\<lparr>fs_files := (fs_files (w_fs w))(m_tmpfile mi := Some (replicate (nat (torrent_length mi)) 0))\<rparr>"
  have cast: "numeric_cast uint64_t int64_t (torrent_length mi) = Inr (torrent_length mi)"
    using assms(8,9) by (intro numeric_cast_u64_exact) (simp_all add: mi_def)
  have alloc: "single_allocate mi (w_fs w) = (Inr (), s0)"
    using assms(4-6) cast
    by (simp add: single_allocate_def io_simps fs_defs fs_create_def fs_resize_def s0_def mi_def bytes_resize_def)
  have pr: "single_present mi s0"
    using assms(8) by (simp add: single_present_def s0_def mi_def)
  obtain s1 where s1: "store_sequence lpw mi p s0 = (Inr (), s1)" "store_present mi s1"
    "store_stream mi s1 = put_at (unat (m_id p * m_piece_length mi)) (m_data p) (store_stream mi s0)"
    using destination_writes [of mi s0 p lpw] pr p(4,5) assms(1,9)
    by (auto simp: store_present_def mi_def store_sequence_def)
  have "store_sequence lpw mi p (w_fs w) = (Inr (), s1)"
    using s1(1) alloc single.allocate_started [of mi s0] single.present_started [of mi s0] pr assms(1)
    by (simp add: store_sequence_def io_simps create_destination_def mi_def)
  from write_next_piece_cases(3) [of w loc q sha1 lpw s1] assms(2,3,15) p this
  have "w_fs (write_next_piece sha1 lpw w) = snd (d_complete (create_destination lpw mi) s1)"
    by (simp add: mi_def)
  moreover obtain c where "fs_files s1 (m_tmpfile mi) = Some c"
    using s1(2) assms(1) by (auto simp: store_present_def single_present_def mi_def split: option.splits)
  ultimately show ?thesis
    using s1(3) assms(1)
    by (simp add: create_destination_def single_complete_def io_simps fs_defs store_stream_def
        single_stream_def s0_def flip: mi_def)
qed

definition rewriting :: writer_state where
  "rewriting = \<lparr>w_torrent = (w_torrent tiny_done)\<lparr>writer_queue := [1],
       pieces_heap := [set_piece_written True (new_piece 0 4), (new_piece 1 4)\<lparr>m_data := [5, 6, 7, 8]\<rparr>]\<rparr>,
     w_fs = \<lparr>fs_files = [''d/f'' \<mapsto> [1, 2, 3, 4, 5, 6, 7, 8]], fs_dirs = {''d''}\<rparr>, w_completed = 1\<rparr>"

theorem rewrite_wipes_download_witness:
  "fs_files (w_fs (write_next_piece tiny_sha1 (\<lambda>_. Inr ()) rewriting)) ''d/f'' = Some [0, 0, 0, 0, 5, 6, 7, 8]"
proof -
  define p where "p = (new_piece 1 4)\<lparr>m_data := [5, 6, 7, 8]\<rparr>"
  have meta: "meta (w_torrent rewriting) = tiny_meta"
    by (simp add: rewriting_def tiny_done_def register_torrent_def add_piece_callback_def new_torrent_def)
  have tiny: "m_tmpfile tiny_meta = ''d/f.zit_downloading''" "m_name tiny_meta = ''d/f''" "m_piece_length tiny_meta = 4"
    by (simp_all add: tiny_meta_def sample_meta_def)
  have p: "m_id p = 1" "m_piece_size p = 4" "m_data p = [5, 6, 7, 8]" "pieces_heap (w_torrent rewriting) ! 1 = p"
    by (simp_all add: p_def rewriting_def) (simp_all add: new_piece_def)
  have fs: "fs_files (w_fs rewriting) (m_tmpfile tiny_meta) = None" "m_tmpfile tiny_meta \<notin> fs_dirs (w_fs rewriting)"
    "parent_exists (m_tmpfile tiny_meta) (w_fs rewriting)" "m_tmpfile tiny_meta \<noteq> m_name tiny_meta"
    by (simp_all add: rewriting_def parent_exists_def tiny parent_path_def)
  have sha: "tiny_sha1 (m_data p) = m_pieces tiny_meta ! unat (m_id p)"
    by (simp add: p tiny_sha1_def tiny_meta_def sample_meta_def)
  have eq: "set_heap 1 (set_piece_written True p) ((w_torrent rewriting)\<lparr>writer_queue := []\<rparr>) = w_torrent tiny_done"
    by (simp add: rewriting_def set_heap_def tiny_done_def p_def set_piece_written_def block_count_def
        register_torrent_def add_piece_callback_def new_torrent_def)
  have "fs_files (w_fs (write_next_piece tiny_sha1 (\<lambda>_. Inr ()) rewriting)) (m_name tiny_meta) =
      Some (put_at (unat (m_id p * m_piece_length tiny_meta)) (m_data p) (replicate (nat (torrent_length tiny_meta)) 0))"
    by (rule rewrite_wipes_download [of "w_torrent rewriting" rewriting 1 "[]", unfolded meta])
      (use fs p sha eq tiny tiny_length tiny_done_done in \<open>simp_all\<close>; simp add: rewriting_def)+
  moreover have "replicate 8 0 = [0, 0, 0, 0, 0, 0, 0, 0 :: 8 word]"
    by (simp add: eval_nat_numeral)
  ultimately show ?thesis
    by (simp add: p tiny tiny_length put_at_inside)
qed

section \<open>Positions past 4 GiB\<close>

text \<open>
  The position of a piece is computed in 32 bits, so in a torrent of 4 GiB or more a piece
  is stored modulo \<open>2 ^ 32\<close>, over the bytes of an earlier piece.
\<close>

theorem single_write_wraps:
  assumes "is_single_file t" and "single_present t s" and "length (m_data p) = unat (m_piece_size p)"
    and "uint (m_id p) * uint (m_piece_length t) = 2 ^ 32 + r" and "0 \<le> r" and "r < 2 ^ 32"
    and "r + uint (m_piece_size p) \<le> torrent_length t"
  shows "\<exists>s'. single_write t p s = (Inr (), s')
    \<and> single_stream t s' = put_at (nat r) (m_data p) (single_stream t s)"
proof -
  have "uint (m_id p * m_piece_length t) = (2 ^ 32 + r) mod 2 ^ 32"
    using assms(4) by (simp add: uint_word_ariths)
  then have eq: "uint (m_id p * m_piece_length t) = r"
    using assms(5,6) by simp
  then have "unat (m_id p * m_piece_length t) = nat r"
    using assms(5) by (simp add: unat_eq_nat_uint)
  then show ?thesis
    using single.store_present [OF assms(1-3)] eq assms(7) by metis
qed

theorem single_write_wraps_witness:
  "\<exists>t s s'. single_write t ((new_piece 65537 1)\<lparr>m_data := [9]\<rparr>) s = (Inr (), s')
    \<and> single_stream t s' = put_at 65536 [9] (single_stream t s)"
proof -
  define t where "t = sample_meta\<lparr>m_piece_length := 65536, m_length := 65537\<rparr>"
  define s where "s = \<lparr>fs_files = [m_tmpfile t \<mapsto> replicate 65537 0], fs_dirs = {}\<rparr>"
  have "is_single_file t" "torrent_length t = 65537"
    by (simp_all add: t_def is_single_file_def torrent_length_def)
  then show ?thesis
    using single_write_wraps [of t s "(new_piece 65537 1)\<lparr>m_data := [9]\<rparr>" 65536]
    by (auto simp: t_def s_def single_present_def new_piece_def)
qed

section \<open>Reading\<close>

lemma read_loop_stream:
  assumes "multi_present t s" and "\<not> is_single_file t" and "m_tmpfile t = m_name t"
    and "torrent_length t < 2 ^ 32" and "uint cpos + rem \<le> torrent_length t" and "0 \<le> rem" and "nat rem \<le> fuel"
  shows "read_loop fuel t (m_tmpfile t) cpos rem acc s =
    Some (Inr (acc @ take (nat rem) (drop (unat cpos) (multi_stream t s))))"
  using assms(5-7)
proof (induction fuel arbitrary: cpos rem acc)
  case 0
  then show ?case
    by (simp add: read_loop.simps)
next
  case (Suc fuel)
  show ?case
  proof (cases "rem = 0")
    case True
    then show ?thesis
      by (simp add: read_loop.simps)
  next
    case False
    have files: "files_present s (m_name t) (m_files t)" and len0: "m_length t = 0"
      using assms(1,2) by (simp_all add: multi_present_def is_single_file_def)
    have total: "torrent_length t = files_length (m_files t)"
      using assms(2) by (rule multi_length)
    obtain i off where loc: "located (m_files t) i off (uint cpos)"
      and at: "file_at_pos t (uint cpos) = Inr (m_files t ! i, off, fi_length (m_files t ! i) - off)"
      using file_at_pos_multi [OF files len0, of "uint cpos"] Suc.prems False total by auto
    define l where "l = min rem (fi_length (m_files t ! i) - off)"
    have l: "0 < l" "l \<le> rem" "off + l \<le> fi_length (m_files t ! i)" "0 \<le> off"
      using loc False Suc.prems by (auto simp: located_def l_def)
    have "0 \<le> uint cpos"
      by simp
    then have l32: "l < 2 ^ 32" "uint cpos + l < 2 ^ 32"
      using l(2) Suc.prems(1) assms(4) by linarith+
    have i: "i < length (m_files t)" "m_files t ! i \<in> set (m_files t)"
      using loc by (simp_all add: located_def)
    define c where "c = file_bytes s (m_name t) (m_files t ! i)"
    have c: "fs_files s (path_append (m_name t) (fi_path (m_files t ! i))) = Some c" "int (length c) = fi_length (m_files t ! i)"
      using files i(2) by (auto simp: files_present_def c_def file_bytes_def file_path_def)
    have fits: "nat off + nat l \<le> length c"
      using l(1,3,4) c(2) by linarith
    have cast: "numeric_cast uint32_t int64_t l = Inr l"
      using l l32 by (intro numeric_cast_u32_exact) simp_all
    define cpos' where "cpos' = cpos + of_int l"
    have cpos': "uint cpos' = uint cpos + l"
      using l l32 by (simp add: cpos'_def uint_word_ariths uint_word_of_int_eq take_bit_int_eq_self)
    then have "int (unat cpos') = int (unat cpos + nat l)"
      using l(1) by simp
    then have ucpos': "unat cpos' = unat cpos + nat l"
      by (rule of_nat_eq_iff [THEN iffD1])
    have piece: "take (nat l) (drop (nat off) c) = take (nat l) (drop (unat cpos) (multi_stream t s))"
      using slice_concat [of i "map (file_bytes s (m_name t)) (m_files t)" "nat off" "nat l"] fits i(1)
        located_start(1) [OF files loc]
      by (simp add: multi_stream_def disk_stream_def c_def)
    have "read_loop (Suc fuel) t (m_tmpfile t) cpos rem acc s =
        read_loop fuel t (m_tmpfile t) cpos' (rem - l) (acc @ take (nat l) (drop (nat off) c)) s"
    proof -
      have "fst (fs_read_at (path_append (m_tmpfile t) (fi_path (m_files t ! i))) (nat off) (nat l) s) =
          Inr (take (nat l) (drop (nat off) c))"
        using c(1) fits assms(3) by (simp add: fs_read_at_def)
      moreover have "\<not> rem \<le> 0"
        using False Suc.prems(2) by simp
      ultimately show ?thesis
        unfolding read_loop.simps [of "Suc fuel"] at l_def [symmetric] cpos'_def [symmetric] using cast
        by (simp add: l_def [symmetric] cpos'_def [symmetric])
    qed
    also have "\<dots> = Some (Inr ((acc @ take (nat l) (drop (nat off) c))
        @ take (nat (rem - l)) (drop (unat cpos') (multi_stream t s))))"
      using Suc.prems l cpos' by (intro Suc.IH) linarith+
    also have "(acc @ take (nat l) (drop (nat off) c)) @ take (nat (rem - l)) (drop (unat cpos') (multi_stream t s))
        = acc @ take (nat rem) (drop (unat cpos) (multi_stream t s))"
    proof -
      have "nat rem = nat l + nat (rem - l)"
        using l by linarith
      then show ?thesis
        unfolding piece ucpos' by (simp add: take_add add.commute [of _ "nat l"])
    qed
    finally show ?thesis .
  qed
qed

text \<open>
  In a multi-file torrent that was resumed, reading a block inside the torrent returns these
  bytes of the files taken as one stream, across file boundaries, and the loop ends within as
  many rounds as there are bytes.
\<close>

theorem read_block_multi:
  assumes "multi_present t s" and "\<not> is_single_file t" and "m_tmpfile t = m_name t"
    and "torrent_length t < 2 ^ 32" and "uint offset + uint len \<le> torrent_length t" and "unat len \<le> fuel"
  shows "read_block fuel t offset len s = Some (Inr (take (unat len) (drop (unat offset) (multi_stream t s))))"
  using read_loop_stream [OF assms(1-5), of fuel "[]"] assms(2,6) by (simp add: read_block_def)

definition resumed_multi :: metainfo where
  "resumed_multi = sample_multi\<lparr>m_tmpfile := ''d/f''\<rparr>"

theorem read_block_multi_witness:
  "read_block 2 resumed_multi 2 2
     \<lparr>fs_files = [''d/f/a'' \<mapsto> [1, 2, 3], ''d/f/b'' \<mapsto> [], ''d/f/c'' \<mapsto> [4, 5, 6, 7, 8]], fs_dirs = {''d/f''}\<rparr>
   = Some (Inr [3, 4])"
proof -
  define s where "s = \<lparr>fs_files = [''d/f/a'' \<mapsto> [1, 2, 3 :: 8 word], ''d/f/b'' \<mapsto> [], ''d/f/c'' \<mapsto> [4, 5, 6, 7, 8]],
    fs_dirs = {''d/f''}\<rparr>"
  have eqs: "m_tmpfile resumed_multi = ''d/f''" "m_name resumed_multi = ''d/f''" "m_files resumed_multi = sample_files"
    "\<not> is_single_file resumed_multi"
    by (simp_all add: resumed_multi_def sample_multi_def sample_meta_def is_single_file_def)
  have tl: "torrent_length resumed_multi = 8"
    using eqs by (simp add: torrent_length_def sample_files_def)
  have "multi_present resumed_multi s"
    by (simp add: multi_present_def eqs files_present_def s_def sample_files_def file_path_def file_bytes_def
        path_append_def starts_with_def suffixed_tmpfile_def ends_with_def tmpfileExtension_def)
  moreover have "multi_stream resumed_multi s = [1, 2, 3, 4, 5, 6, 7, 8]"
    by (simp add: multi_stream_def disk_stream_def eqs s_def sample_files_def file_path_def file_bytes_def
        path_append_def starts_with_def)
  ultimately show ?thesis
    using read_block_multi [of resumed_multi s 2 2 2] eqs tl by (simp add: s_def)
qed

text \<open>A round past the end of a single file reads nothing and starts over.\<close>

lemma read_loop_stuck:
  assumes "is_single_file t" and "fs_files s (path_append base (m_tmpfile t)) = Some c" and "0 < rem"
    and "uint cpos = torrent_length t" and "int (length c) = torrent_length t"
  shows "read_loop fuel t base cpos rem acc s = None"
proof (induction fuel arbitrary: acc)
  case 0
  then show ?case
    using assms(3) by (simp add: read_loop.simps)
next
  case (Suc fuel)
  have "numeric_cast uint32_t int64_t 0 = Inr 0"
    by (rule numeric_cast_u32_exact) simp_all
  moreover have "nat (torrent_length t) \<le> length c"
    using assms(5) by simp
  ultimately have "read_loop (Suc fuel) t base cpos rem acc s = read_loop fuel t base cpos rem acc s"
    unfolding read_loop.simps [of "Suc fuel"]
    using assms by (simp add: file_at_pos_def fs_read_at_def)
  with Suc show ?case
    by simp
qed

lemma read_loop_single_round:
  assumes "is_single_file t" and "fs_files s (path_append base (m_tmpfile t)) = Some c" and "0 < rem"
    and "int (length c) = torrent_length t" and "uint cpos \<le> torrent_length t" and "torrent_length t < 2 ^ 32"
  defines "l \<equiv> min rem (torrent_length t - uint cpos)"
  shows "read_loop (Suc fuel) t base cpos rem acc s =
      read_loop fuel t base (cpos + of_int l) (rem - l) (acc @ take (nat l) (drop (unat cpos) c)) s"
    and "uint (cpos + of_int l :: u32) = uint cpos + l"
proof -
  have l: "0 \<le> l" "l < 2 ^ 32" "uint cpos + l \<le> torrent_length t"
  proof -
    have "0 \<le> uint cpos"
      by simp
    then show "0 \<le> l" "l < 2 ^ 32" "uint cpos + l \<le> torrent_length t"
      using assms(3,5,6) unfolding l_def by linarith+
  qed
  have "int (unat cpos + nat l) \<le> int (length c)"
    using l assms(4) by simp
  then have fits: "unat cpos + nat l \<le> length c"
    by linarith
  have cast: "numeric_cast uint32_t int64_t l = Inr l"
    using l by (intro numeric_cast_u32_exact)
  show "uint (cpos + of_int l :: u32) = uint cpos + l"
    using l assms(6) by (simp add: uint_word_ariths uint_word_of_int_eq take_bit_int_eq_self)
  have at: "file_at_pos t (uint cpos) = Inr (\<lparr>fi_length = torrent_length t, fi_path = m_tmpfile t, fi_md5sum = m_md5sum t\<rparr>,
      uint cpos, torrent_length t - uint cpos)"
    using assms(1) by (simp add: file_at_pos_def)
  have "fst (fs_read_at (path_append base (m_tmpfile t)) (nat (uint cpos)) (nat l) s) = Inr (take (nat l) (drop (unat cpos) c))"
    using assms(2) fits by (simp add: fs_read_at_def)
  then show "read_loop (Suc fuel) t base cpos rem acc s =
      read_loop fuel t base (cpos + of_int l) (rem - l) (acc @ take (nat l) (drop (unat cpos) c)) s"
    unfolding read_loop.simps [of "Suc fuel"] at using assms(3) cast
    by (simp add: l_def [symmetric])
qed

lemma single_on_disk:
  assumes "is_single_file t" and "path_append (parent_path (m_tmpfile t)) (m_tmpfile t) = m_tmpfile t" and "single_present t s"
  shows "fs_files s (path_append (parent_path (m_tmpfile t)) (m_tmpfile t)) = Some (single_stream t s)"
    and "int (length (single_stream t s)) = torrent_length t"
    and "read_block n t offset len s = read_loop n t (parent_path (m_tmpfile t)) offset (uint len) [] s"
  using assms by (auto simp: single_present_def single_stream_def read_block_def split: option.splits)

lemma read_block_single_inside:
  assumes "is_single_file t" and "path_append (parent_path (m_tmpfile t)) (m_tmpfile t) = m_tmpfile t"
    and "single_present t s" and "torrent_length t < 2 ^ 32" and "len \<noteq> 0" and "uint offset + uint len \<le> torrent_length t"
  shows "read_block (Suc n) t offset len s = Some (Inr (take (unat len) (drop (unat offset) (single_stream t s))))"
proof -
  note disk = single_on_disk [OF assms(1-3)]
  have pos: "0 < uint len" "uint offset \<le> torrent_length t"
    using assms(5) assms(6) uint_ge_0 [of len] by (simp add: word_neq_0_conv word_less_def, linarith)
  have m: "min (uint len) (torrent_length t - uint offset) = uint len"
    using assms(6) by linarith
  show ?thesis
    using read_loop_single_round(1) [OF assms(1) disk(1) pos(1) disk(2) pos(2) assms(4), of n "[]"]
    unfolding disk(3) m by (simp add: read_loop.simps)
qed

lemma read_block_single_past:
  assumes "is_single_file t" and "path_append (parent_path (m_tmpfile t)) (m_tmpfile t) = m_tmpfile t"
    and "single_present t s" and "torrent_length t < 2 ^ 32" and "uint offset \<le> torrent_length t"
    and "torrent_length t < uint offset + uint len"
  shows "read_block fuel t offset len s = None"
proof -
  note disk = single_on_disk [OF assms(1-3)]
  have pos: "0 < uint len"
    using assms(5,6) by linarith
  have m: "min (uint len) (torrent_length t - uint offset) = torrent_length t - uint offset"
    using assms(6) by linarith
  note round = read_loop_single_round [OF assms(1) disk(1) pos disk(2) assms(5,4), unfolded m]
  have "read_loop n t (parent_path (m_tmpfile t)) (offset + of_int (torrent_length t - uint offset))
      (uint len - (torrent_length t - uint offset)) acc s = None" for n acc
    using assms(6) round(2) disk(2) by (intro read_loop_stuck [OF assms(1) disk(1)]) simp_all
  then show ?thesis
    using pos unfolding disk(3) by (cases fuel) (simp_all add: round(1), simp add: read_loop.simps)
qed

text \<open>
  C36.  In a single-file torrent, reading a block inside the file returns its bytes in one round,
  but a block that starts inside the file and runs past its end makes \<open>read_block\<close> loop for ever:
  no number of rounds is enough.  Nothing between a peer's request and this call bounds the length.
\<close>

theorem read_block_single:
  assumes "is_single_file t" and "path_append (parent_path (m_tmpfile t)) (m_tmpfile t) = m_tmpfile t"
    and "single_present t s" and "torrent_length t < 2 ^ 32" and "uint offset \<le> torrent_length t"
  shows "read_block fuel t offset len s =
    (if len = 0 then Some (Inr [])
     else if uint offset + uint len \<le> torrent_length t
     then (if fuel = 0 then None else Some (Inr (take (unat len) (drop (unat offset) (single_stream t s)))))
     else None)"
proof (cases "len = 0 \<or> fuel = 0")
  case True
  have "uint len \<le> 0 \<longleftrightarrow> len = 0"
    using uint_0_iff [of len] by (simp add: order_le_less)
  then show ?thesis
    using True unfolding single_on_disk(3) [OF assms(1-3)] by (auto simp: read_loop.simps)
next
  case False
  then show ?thesis
    using read_block_single_inside [OF assms(1-4), of len offset] read_block_single_past [OF assms(1-5), of len fuel]
    by (cases fuel) auto
qed

theorem read_block_single_witness:
  "\<forall>fuel. read_block fuel (tiny_meta\<lparr>m_tmpfile := ''f''\<rparr>) 6 4
     \<lparr>fs_files = [''f'' \<mapsto> [1, 2, 3, 4, 5, 6, 7, 8]], fs_dirs = {}\<rparr> = None"
proof
  fix fuel
  have "is_single_file (tiny_meta\<lparr>m_tmpfile := ''f''\<rparr>)" "torrent_length (tiny_meta\<lparr>m_tmpfile := ''f''\<rparr>) = 8"
    using tiny_length by (simp_all add: is_single_file_def torrent_length_def)
  then show "read_block fuel (tiny_meta\<lparr>m_tmpfile := ''f''\<rparr>) 6 4
     \<lparr>fs_files = [''f'' \<mapsto> [1, 2, 3, 4, 5, 6, 7, 8]], fs_dirs = {}\<rparr> = None"
    using read_block_single [of "tiny_meta\<lparr>m_tmpfile := ''f''\<rparr>"
        "\<lparr>fs_files = [''f'' \<mapsto> [1, 2, 3, 4, 5, 6, 7, 8]], fs_dirs = {}\<rparr>" 6 fuel 4]
    by (simp add: single_present_def path_append_def parent_path_def starts_with_def)
qed

end
