(* ===== verification/WriterRefinement.thy ===== *)
theory WriterRefinement
  imports WriterThread Disk_Integrity
begin

text \<open>
  The writer's thread and the network together.  In \<open>Disk_Integrity\<close> a round of the writer is one
  step, with the piece taken from the queue in the same step.  Here the thread runs as it is in
  \<open>WriterThread\<close>, where pieces are taken and then worked on, with steps of the network in between;
  it is shown that what it does is a run of the simpler model.
\<close>

section \<open>Steps\<close>

text \<open>
  A step of the network may add a completed piece, which needs the lock of the queue and wakes the
  writer.  The writer makes every step it can, the making of the files included; only the round that
  would make them anew although pieces count as written (\<open>wipes\<close>) is left out.
\<close>

inductive session_step ::
    "(bytes \<Rightarrow> string) \<Rightarrow> (unit \<Rightarrow> unit result) \<Rightarrow> writer_thread \<Rightarrow> writer_thread \<Rightarrow> bool" for sha1 lpw where
  writer: "writer_step sha1 lpw s s' \<Longrightarrow>
    (\<And>loc. wt_pc s = Working loc \<Longrightarrow> \<not> wipes sha1 (set_queue (loc # wt_queue s) (wt_world s))) \<Longrightarrow>
    session_step sha1 lpw s s'"
| network: "net_step (w_torrent (wt_world s)) t \<Longrightarrow> writer_queue t = wt_queue s \<Longrightarrow>
    session_step sha1 lpw s (s\<lparr>wt_world := (wt_world s)\<lparr>w_torrent := t\<rparr>\<rparr>)"
| complete: "net_step (w_torrent (wt_world s)) t \<Longrightarrow> writer_queue t = wt_queue s @ [loc] \<Longrightarrow> \<not> queue_locked s \<Longrightarrow>
    session_step sha1 lpw s (s\<lparr>wt_world := (wt_world s)\<lparr>w_torrent := t\<rparr>, wt_added := wt_added s @ [loc],
      wt_pc := (if wt_pc s = Blocked then At_lock else wt_pc s)\<rparr>)"
| stopper: "other_step s s' \<Longrightarrow> wt_world s' = wt_world s \<Longrightarrow> session_step sha1 lpw s s'"

inductive session_run ::
    "(bytes \<Rightarrow> string) \<Rightarrow> (unit \<Rightarrow> unit result) \<Rightarrow> writer_thread \<Rightarrow> writer_thread \<Rightarrow> bool" for sha1 lpw s where
  refl: "session_run sha1 lpw s s"
| step: "session_run sha1 lpw s s1 \<Longrightarrow> session_step sha1 lpw s1 s2 \<Longrightarrow> session_run sha1 lpw s s2"

inductive_cases session_stepE: "session_step sha1 lpw s s'"

section \<open>Steps of the network do not look at the queue\<close>

definition push_front :: "nat \<Rightarrow> torrent \<Rightarrow> torrent" where
  "push_front loc t = t\<lparr>writer_queue := loc # writer_queue t\<rparr>"

lemma push_front_simps [simp]:
  "m_active_pieces (push_front loc t) = m_active_pieces t" "pieces_heap (push_front loc t) = pieces_heap t"
  "meta (push_front loc t) = meta t" "m_piece_callbacks (push_front loc t) = m_piece_callbacks t"
  "m_client_pieces (push_front loc t) = m_client_pieces t" "writer_queue (push_front loc t) = loc # writer_queue t"
  by (simp_all add: push_front_def)

lemma push_set_heap: "push_front loc (set_heap l p t) = set_heap l p (push_front loc t)"
  by (simp add: set_heap_def push_front_def)

lemma push_piece_done:
  "m_piece_callbacks t = [writer_add] \<Longrightarrow> push_front loc (piece_done l t) = piece_done l (push_front loc t)"
  by (simp add: piece_done_def push_front_def writer_add_def)

lemma active_piece_push:
  assumes "active_piece i create t = Inr (r, t')"
  shows "active_piece i create (push_front loc t) = Inr (r, push_front loc t')"
proof (cases "map_of (m_active_pieces t) i")
  case None
  with assms show ?thesis
    by (auto simp: active_piece_def Let_def push_front_def result_simps split: if_splits)
next
  case (Some l)
  with assms have "r = Some l" "t' = t"
    by (simp_all add: active_piece_def)
  with Some show ?thesis
    by (simp add: active_piece_def)
qed

lemma t_set_block_push:
  assumes "t_set_block now i offset data t = Inr (b, t')" and "m_piece_callbacks t = [writer_add]"
  shows "t_set_block now i offset data (push_front loc t) = Inr (b, push_front loc t')"
proof (cases "map_of (m_active_pieces t) i")
  case None
  with assms show ?thesis
    by (simp add: t_set_block_def)
next
  case (Some l)
  then obtain c p where r: "set_block now offset data (pieces_heap t ! l) = Inr (c, p)" "b"
      "t' = (if c then piece_done l (set_heap l p t) else set_heap l p t)"
    using assms(1) by (auto simp: t_set_block_def Let_def result_simps)
  have "m_piece_callbacks (set_heap l p t) = [writer_add]"
    using assms(2) by simp
  with Some r show ?thesis
    by (simp add: t_set_block_def push_set_heap push_piece_done)
qed

lemma net_step_push:
  assumes "net_step t t'" and "m_piece_callbacks t = [writer_add]"
  shows "net_step (push_front loc t) (push_front loc t')"
  using assms(1)
proof cases
  case (client n)
  then have "push_front loc t' = init_client_pieces n (push_front loc t)"
    by (simp add: init_client_pieces_def push_front_def)
  then show ?thesis
    using net_step.client [of "push_front loc t" n] by simp
next
  case (active i create r)
  then show ?thesis
    using net_step.active active_piece_push by blast
next
  case (block now i offset data b)
  then show ?thesis
    using net_step.block t_set_block_push assms(2) by blast
next
  case (request i l now mark r p)
  then show ?thesis
    using net_step.request [of "push_front loc t" i l now mark r p] by (simp add: push_set_heap)
next
  case (retry i l now n p)
  then show ?thesis
    using net_step.retry [of "push_front loc t" i l now n p] by (simp add: push_set_heap)
qed

text \<open>Every step of the network is one of the two kinds: nothing it can do is left out.\<close>

lemma net_step_queue:
  assumes "net_step t t'" and "m_piece_callbacks t = [writer_add]"
  shows "writer_queue t' = writer_queue t \<or> (\<exists>loc. writer_queue t' = writer_queue t @ [loc])"
  using assms
  by (induction rule: net_step.induct)
    (auto simp: init_client_pieces_def active_piece_def t_set_block_def piece_done_def writer_add_def Let_def result_simps
      split: option.splits if_splits)

section \<open>Refinement\<close>

text \<open>A piece that was taken counts as in the queue until the work on it is done.\<close>

definition abs_world :: "writer_thread \<Rightarrow> writer_state" where
  "abs_world s =
     (case wt_pc s of
        Working loc \<Rightarrow> (wt_world s)\<lparr>w_torrent := push_front loc (w_torrent (wt_world s))\<rparr>
      | _ \<Rightarrow> wt_world s)"

lemma writer_step_refines:
  assumes "writer_step sha1 lpw s s'"
    and "\<And>loc. wt_pc s = Working loc \<Longrightarrow> \<not> wipes sha1 (set_queue (loc # wt_queue s) (wt_world s))"
  shows "abs_world s' = abs_world s \<or> download_step sha1 lpw (abs_world s) (abs_world s')"
  using assms(1)
proof cases
  case (fetch loc q)
  then show ?thesis
    by (simp add: abs_world_def set_queue_def push_front_def)
next
  case (work loc)
  then have "abs_world s = set_queue (loc # wt_queue s) (wt_world s)"
    by (simp add: abs_world_def set_queue_def push_front_def)
  then have "\<not> wipes sha1 (abs_world s)" "abs_world s' = write_next_piece sha1 lpw (abs_world s)"
    using assms(2) work by (simp_all add: abs_world_def)
  then show ?thesis
    using download_step.written by metis
qed (simp_all add: abs_world_def)

lemma session_step_refines:
  assumes "session_step sha1 lpw s s'" and "m_piece_callbacks (w_torrent (wt_world s)) = [writer_add]"
  shows "abs_world s' = abs_world s \<or> download_step sha1 lpw (abs_world s) (abs_world s')"
  using assms(1)
proof cases
  case writer
  then show ?thesis
    using writer_step_refines by blast
next
  case (network t)
  have "net_step (w_torrent (abs_world s)) (w_torrent (abs_world s'))"
    using network net_step_push [OF _ assms(2)] by (auto simp: abs_world_def split: writer_pc.splits)
  moreover have "abs_world s' = (abs_world s)\<lparr>w_torrent := w_torrent (abs_world s')\<rparr>"
    using network by (auto simp: abs_world_def split: writer_pc.splits)
  ultimately show ?thesis
    using download_step.net by metis
next
  case (complete t loc)
  have "net_step (w_torrent (abs_world s)) (w_torrent (abs_world s'))"
    using complete net_step_push [OF _ assms(2)] by (auto simp: abs_world_def split: writer_pc.splits)
  moreover have "abs_world s' = (abs_world s)\<lparr>w_torrent := w_torrent (abs_world s')\<rparr>"
    using complete by (auto simp: abs_world_def split: writer_pc.splits)
  ultimately show ?thesis
    using download_step.net by metis
next
  case stopper
  then have "abs_world s' = abs_world s"
    by (auto simp: abs_world_def elim!: other_stepE split: writer_pc.splits)
  then show ?thesis
    by simp
qed

lemma abs_world_same [simp]:
  "w_fs (abs_world s) = w_fs (wt_world s)" "w_completed (abs_world s) = w_completed (wt_world s)"
  "m_active_pieces (w_torrent (abs_world s)) = m_active_pieces (w_torrent (wt_world s))"
  "pieces_heap (w_torrent (abs_world s)) = pieces_heap (w_torrent (wt_world s))"
  "m_piece_callbacks (w_torrent (abs_world s)) = m_piece_callbacks (w_torrent (wt_world s))"
  by (simp_all add: abs_world_def split: writer_pc.split)

text \<open>
  C4.  The writer's thread with its queue, lock and condition variable, interleaved in any way with
  the network and with whoever stops it, implements the model in which a round of the writer is one
  step: every state it reaches is one of that model, in which a piece that is being worked on is
  still at the front of the queue.  So a piece that counts as written is on disk with its digest
  at every moment of every such run, from a disk with no file of the torrent on.  The torrent is
  below 4 GiB, its files have paths of their own, and the runs are those in which the writer does
  not make the files anew while pieces count as written (\<open>wipes\<close>).
\<close>

theorem thread_refines_download:
  assumes "small_torrent mi" and "files_ok mi" and "download_reach sha1 lpw mi fs w"
    and "session_run sha1 lpw (new_writer_thread w) s"
  shows "download_reach sha1 lpw mi fs (abs_world s)
    \<and> (\<forall>i loc. map_of (m_active_pieces (w_torrent (wt_world s))) i = Some loc
        \<and> m_piece_written (pieces_heap (w_torrent (wt_world s)) ! loc) \<longrightarrow>
      sha1 (slice mi (store_stream mi (w_fs (wt_world s))) i) = m_pieces mi ! unat i)"
proof -
  have reach: "download_reach sha1 lpw mi fs (abs_world s)"
    using assms(4)
  proof (induction rule: session_run.induct)
    case refl
    then show ?case
      using assms(3) by (simp add: abs_world_def)
  next
    case (step s1 s2)
    have "m_piece_callbacks (w_torrent (wt_world s1)) = [writer_add]"
      using download_reach_ok [OF assms(1,2) step.IH] by (simp add: heap_ok_def sizes_ok_def)
    then show ?case
      using session_step_refines [OF step.hyps(2)] download_reach.step [OF step.IH] step.IH by metis
  qed
  then show ?thesis
    using download_reach_ok [OF assms(1,2) reach] by (auto simp: disk_ok_def piece_verified_def)
qed

text \<open>These runs are runs of the thread as well, so that what is shown of those holds of them.\<close>

lemma session_step_thread:
  assumes "session_step sha1 lpw s1 s2" and "thread_run sha1 lpw s n s1"
  shows "\<exists>m. thread_run sha1 lpw s m s2"
  using assms(1)
proof cases
  case writer
  then show ?thesis
    using thread_run.own assms(2) by blast
next
  case (network t)
  then show ?thesis
    using thread_run.other [OF assms(2) other_step.network [of t s1]] by blast
next
  case (complete t loc)
  define s' where "s' = s1\<lparr>wt_world := (wt_world s1)\<lparr>w_torrent := t\<lparr>writer_queue := wt_queue s1\<rparr>\<rparr>\<rparr>"
  have "other_step s1 s'"
    using other_step.network [of "t\<lparr>writer_queue := wt_queue s1\<rparr>" s1] by (simp add: s'_def)
  moreover have "t\<lparr>writer_queue := wt_queue s1 @ [loc]\<rparr> = t"
    using \<open>writer_queue t = wt_queue s1 @ [loc]\<close> by (cases t) simp
  then have "set_queue (writer_add loc (wt_queue s')) (wt_world s') = (wt_world s1)\<lparr>w_torrent := t\<rparr>"
    by (simp add: s'_def set_queue_def writer_add_def)
  then have "other_step s' s2"
    using other_step.add [of s' loc] complete by (cases "wt_pc s1 = Blocked") (simp_all add: s'_def queue_locked_def)
  ultimately show ?thesis
    using thread_run.other assms(2) by blast
next
  case stopper
  then show ?thesis
    using thread_run.other assms(2) by blast
qed

lemma session_run_thread: "session_run sha1 lpw s s' \<Longrightarrow> \<exists>n. thread_run sha1 lpw s n s'"
  by (induction rule: session_run.induct) (blast intro: thread_run.refl, blast dest: session_step_thread)

text \<open>A run of the writer's thread from two received pieces and no file to the first piece on disk.\<close>

lemma tiny_session:
  "\<exists>s. session_run tiny_sha1 (\<lambda>_. Inr ()) (new_writer_thread tiny_received) s
    \<and> wt_pc s = At_loop \<and> wt_taken s = [0] \<and> wt_world s = tiny_half"
proof -
  let ?step = "session_step tiny_sha1 (\<lambda>_. Inr ())"
  define s0 where "s0 = new_writer_thread tiny_received"
  define s1 where "s1 = s0\<lparr>wt_stop := False, wt_pc := At_loop\<rparr>"
  define s2 where "s2 = s1\<lparr>wt_pc := At_lock\<rparr>"
  define s3 where "s3 = s2\<lparr>wt_pc := At_test\<rparr>"
  define s4 where "s4 = s3\<lparr>wt_pc := Past_wait\<rparr>"
  define s5 where "s5 = s4\<lparr>wt_pc := Working 0, wt_world := set_queue [1] (wt_world s4), wt_taken := wt_taken s4 @ [0]\<rparr>"
  define s6 where "s6 = s5\<lparr>wt_pc := At_loop,
    wt_world := write_next_piece tiny_sha1 (\<lambda>_. Inr ()) (set_queue (0 # wt_queue s5) (wt_world s5))\<rparr>"
  have queue: "w_torrent tiny_received = tiny_torrent [tiny_piece 0 [1, 2, 3, 4], tiny_piece 1 [5, 6, 7, 8]] [0, 1]"
    by (simp add: tiny_received_def)
  then have again: "set_queue [0, 1] (set_queue [1] tiny_received) = tiny_received"
    by (simp add: set_queue_def tiny_torrent_update)
  have "?step s0 s1"
    unfolding s1_def by (intro session_step.writer writer_step.begin_run) (simp_all add: s0_def)
  moreover have "?step s1 s2"
    unfolding s2_def by (intro session_step.writer writer_step.again) (simp_all add: s1_def)
  moreover have "?step s2 s3"
    unfolding s3_def by (intro session_step.writer writer_step.lock) (simp_all add: s2_def)
  moreover have "?step s3 s4"
    unfolding s4_def by (intro session_step.writer writer_step.pass) (simp_all add: s3_def s2_def s1_def s0_def queue)
  moreover have "?step s4 s5"
    unfolding s5_def by (intro session_step.writer writer_step.fetch) (simp_all add: s4_def s3_def s2_def s1_def s0_def queue)
  moreover have "wt_world s5 = set_queue [1] tiny_received" "wt_pc s5 = Working 0"
    by (simp_all add: s5_def s4_def s3_def s2_def s1_def s0_def)
  moreover from this have "?step s5 s6"
    unfolding s6_def using tiny_not_wipes(1) again by (intro session_step.writer writer_step.work) simp_all
  ultimately have "session_run tiny_sha1 (\<lambda>_. Inr ()) s0 s6"
    by (meson session_run.refl session_run.step)
  moreover have "wt_pc s6 = At_loop" "wt_taken s6 = [0]" "wt_world s6 = tiny_half"
    using again by (simp_all add: s6_def s5_def s4_def s3_def s2_def s1_def s0_def tiny_half_def)
  ultimately show ?thesis
    unfolding s0_def by blast
qed

theorem thread_refines_download_witness:
  "\<exists>s. session_run tiny_sha1 (\<lambda>_. Inr ()) (new_writer_thread tiny_received) s \<and> wt_taken s = [0]
    \<and> w_fs tiny_received = fresh_fs
    \<and> fs_files (w_fs (wt_world s)) ''d/f.zit_downloading'' = Some [1, 2, 3, 4, 0, 0, 0, 0]
    \<and> download_reach tiny_sha1 (\<lambda>_. Inr ()) tiny_meta fresh_fs (abs_world s)
    \<and> tiny_sha1 (slice tiny_meta (store_stream tiny_meta (w_fs (wt_world s))) 0) = m_pieces tiny_meta ! 0"
proof -
  obtain s where run: "session_run tiny_sha1 (\<lambda>_. Inr ()) (new_writer_thread tiny_received) s" "wt_taken s = [0]"
    "wt_world s = tiny_half"
    using tiny_session by blast
  have "w_fs tiny_received = fresh_fs"
    by (simp add: tiny_received_def tiny_start_def)
  moreover have "map_of (m_active_pieces (w_torrent (wt_world s))) 0 = Some 0" "m_piece_written (pieces_heap (w_torrent (wt_world s)) ! 0)"
    by (simp_all add: run(3) tiny_half_world)
  ultimately show ?thesis
    using thread_refines_download [OF tiny_small tiny_files tiny_received_reach run(1)] run tiny_half_world(2)
    by (intro exI [of _ s]) simp
qed

end
