(* ===== verification/Wire.thy ===== *)
theory Wire
  imports Text Bitfield Types
begin

text \<open>
  The wire format of \<^verbatim>\<open>src/messages.hpp\<close> and \<^verbatim>\<open>src/messages.cpp\<close>: the message
  identifiers, the frames peers send, and \<open>HandshakeMsg::parse\<close>.
\<close>

section \<open>Identifiers\<close>

datatype peer_wire_id =
    CHOKE | UNCHOKE | INTERESTED | NOT_INTERESTED | HAVE | BITFIELD | REQUEST | PIECE | CANCEL | PORT
  | UNKNOWN

fun pwid :: "peer_wire_id \<Rightarrow> byte" where
  "pwid CHOKE = 0"
| "pwid UNCHOKE = 1"
| "pwid INTERESTED = 2"
| "pwid NOT_INTERESTED = 3"
| "pwid HAVE = 4"
| "pwid BITFIELD = 5"
| "pwid REQUEST = 6"
| "pwid PIECE = 7"
| "pwid CANCEL = 8"
| "pwid PORT = 9"
| "pwid UNKNOWN = 255"

fun pwid_name :: "peer_wire_id \<Rightarrow> string" where
  "pwid_name CHOKE = ''CHOKE''"
| "pwid_name UNCHOKE = ''UNCHOKE''"
| "pwid_name INTERESTED = ''INTERESTED''"
| "pwid_name NOT_INTERESTED = ''NOT_INTERESTED''"
| "pwid_name HAVE = ''HAVE''"
| "pwid_name BITFIELD = ''BITFIELD''"
| "pwid_name REQUEST = ''REQUEST''"
| "pwid_name PIECE = ''PIECE''"
| "pwid_name CANCEL = ''CANCEL''"
| "pwid_name PORT = ''PORT''"
| "pwid_name UNKNOWN = ''UNKNOWN''"

definition to_peer_wire_id :: "byte \<Rightarrow> peer_wire_id" where
  "to_peer_wire_id val =
     (if val = pwid CHOKE then CHOKE
      else if val = pwid UNCHOKE then UNCHOKE
      else if val = pwid INTERESTED then INTERESTED
      else if val = pwid NOT_INTERESTED then NOT_INTERESTED
      else if val = pwid HAVE then HAVE
      else if val = pwid BITFIELD then BITFIELD
      else if val = pwid REQUEST then REQUEST
      else if val = pwid PIECE then PIECE
      else if val = pwid CANCEL then CANCEL
      else if val = pwid PORT then PORT
      else UNKNOWN)"

lemma to_peer_wire_id_pwid [simp]: "to_peer_wire_id (pwid i) = i"
  by (cases i) (simp_all add: to_peer_wire_id_def)

declare pwid.simps [simp del]

lemma pwid_name_inject: "pwid_name i = pwid_name j \<longleftrightarrow> i = j"
  by (cases i; cases j) simp_all

text \<open>The start of a buffer in lower-case hex, for the log.\<close>

definition debugMsg :: "bytes \<Rightarrow> string" where
  "debugMsg msg = concat (map (\<lambda>b. to_lower [hex_digit (unat b div 16), hex_digit (unat b mod 16)] @ '' '') msg)"

section \<open>Frames\<close>

text \<open>A frame: the length of what follows in 4 bytes, the identifier, the payload.\<close>

definition frame :: "peer_wire_id \<Rightarrow> bytes \<Rightarrow> bytes" where
  "frame i payload = to_big_endian (of_nat (1 + length payload) :: u32) @ pwid i # payload"

lemma length_be32 [simp]: "length (to_big_endian (v :: u32)) = 4"
  by (rule be32.length_enc)

lemma length_frame [simp]: "length (frame i payload) = 5 + length payload"
  by (simp add: frame_def)

lemma frame_length_field:
  assumes "5 + length payload + length rest < 2 ^ 64"
  shows "from_big_endian (frame i payload @ rest) 0 = Inr (of_nat (1 + length payload) :: u32)"
  using be32.dec_at [of "[]" "pwid i # payload @ rest" "of_nat (1 + length payload)"] assms
  by (simp add: frame_def)

lemma nth_frame_id: "(frame i payload @ rest) ! 4 = pwid i"
  by (simp add: frame_def nth_append)

lemma take_frame: "take (5 + length payload) (frame i payload @ rest) = frame i payload"
  and drop_frame: "drop (5 + length payload) (frame i payload @ rest) = rest"
  by (simp_all add: frame_def)

lemma frame_field:
  assumes "5 + 4 * length vs + length payload + length rest < 2 ^ 64" and "k < length vs"
  shows "from_big_endian (frame i (concat (map to_big_endian vs) @ payload) @ rest) (5 + 4 * k) = Inr (vs ! k :: u32)"
proof -
  define pre where "pre = to_big_endian (of_nat (1 + length (concat (map to_big_endian vs) @ payload)) :: u32) @ [pwid i]"
  have "from_big_endian (pre @ concat (map to_big_endian vs) @ (payload @ rest)) (length pre + 4 * k) = Inr (vs ! k)"
    using assms by (intro be32.dec_field) (simp_all add: pre_def)
  then show ?thesis
    by (simp add: frame_def pre_def)
qed

section \<open>The handshake\<close>

definition MIN_BT_MSG_LENGTH :: nat where
  "MIN_BT_MSG_LENGTH = 68"

definition BT_START :: bytes where
  "BT_START = 0x13 # bytes_of_string ''BitTorrent protocol''"

record handshake_msg =
  hs_reserved :: bytes
  hs_info_hash :: string
  hs_peer_id :: string
  hs_bitfield :: bitfield
  hs_consumed :: nat

text \<open>\<^verbatim>\<open>std::ranges::search\<close>: where the pattern first occurs.\<close>

fun search :: "'a list \<Rightarrow> 'a list \<Rightarrow> nat option" where
  "search [] pat = (if pat = [] then Some 0 else None)"
| "search (x # xs) pat =
     (if take (length pat) (x # xs) = pat then Some 0 else map_option Suc (search xs pat))"

lemma search_Some:
  "search xs pat = Some n \<Longrightarrow> n \<le> length xs \<and> take (length pat) (drop n xs) = pat
    \<and> (\<forall>m < n. take (length pat) (drop m xs) \<noteq> pat)"
proof (induction xs arbitrary: n)
  case (Cons x xs)
  then show ?case
    by (auto simp: less_Suc_eq_0_disj split: if_splits)
qed (auto split: if_splits)

lemma search_None: "search xs pat = None \<longleftrightarrow> (\<forall>m \<le> length xs. take (length pat) (drop m xs) \<noteq> pat)"
proof (induction xs)
  case (Cons x xs)
  have "(\<forall>m \<le> length (x # xs). take (length pat) (drop m (x # xs)) \<noteq> pat) \<longleftrightarrow>
      take (length pat) (x # xs) \<noteq> pat \<and> (\<forall>m \<le> length xs. take (length pat) (drop m xs) \<noteq> pat)"
    by (metis Suc_le_mono drop0 drop_Suc_Cons le0 length_Cons not0_implies_Suc)
  with Cons show ?case
    by simp
qed auto

text \<open>
  The part after the 68 bytes of a handshake is an optional bitfield message.  The end of the
  bitfield is computed in 32 bits; a length of 0, or one close to \<open>2 ^ 32\<close>, makes it lie before
  its start.
\<close>

definition handshake_body :: "bytes \<Rightarrow> handshake_msg option result" where
  "handshake_body msg =
     bindE (if 28 < length msg then Inr (take 8 (drop 20 msg)) else Inl (Out_of_range ''at'')) (\<lambda>reserved.
     bindE (sha1_from_buffer msg 28) (\<lambda>info_hash.
     bindE (from_bytes msg 48 68) (\<lambda>peer_id.
     let hs = \<lparr>hs_reserved = reserved, hs_info_hash = info_hash, hs_peer_id = peer_id,
               hs_bitfield = bf_empty, hs_consumed = length msg\<rparr>
     in
     if length msg > MIN_BT_MSG_LENGTH then
       if length msg < 73 then Inr None
       else
         bindE (vec_at msg 72) (\<lambda>b.
         if to_peer_wire_id b \<noteq> BITFIELD then Inr None
         else
           bindE (from_big_endian msg 68) (\<lambda>len :: u32.
           let end = unat (73 + len - 1) in
           if end > length msg then Inr (Some (hs\<lparr>hs_consumed := 0\<rparr>))
           else if end < 73 then Inl (Undefined_behaviour ''HandshakeMsg: bitfield ends before its start'')
           else Inr (Some (hs\<lparr>hs_bitfield := bf_raw (take (end - 73) (drop 73 msg)), hs_consumed := end\<rparr>))))
     else Inr (Some hs))))"

function handshake_parse :: "bytes \<Rightarrow> handshake_msg option result" where
  "handshake_parse msg =
     (if length msg < MIN_BT_MSG_LENGTH then Inr None
      else case search msg BT_START of
          None \<Rightarrow> Inr None
        | Some n \<Rightarrow> if n \<noteq> 0 then handshake_parse (drop n msg) else handshake_body msg)"
  by pat_completeness auto
termination
  by (relation "measure length") (auto simp: MIN_BT_MSG_LENGTH_def)

declare handshake_parse.simps [simp del]

text \<open>What a handshake looks like when it is sent.\<close>

definition handshake_bytes :: "bytes \<Rightarrow> string \<Rightarrow> string \<Rightarrow> bytes" where
  "handshake_bytes reserved info_hash peer_id =
     BT_START @ reserved @ bytes_of_string info_hash @ bytes_of_string peer_id"

lemma length_BT_START [simp]: "length BT_START = 20"
  by (simp add: BT_START_def bytes_of_string_def)

lemma search_prefix: "search (pat @ rest) pat = Some 0"
  by (cases "pat @ rest") (auto, metis append_eq_conv_conj)

lemma handshake_parse_skip:
  assumes "0x13 \<notin> set pre" and "length msg \<ge> 68" and "take 20 msg = BT_START"
  shows "handshake_parse (pre @ msg) = handshake_parse msg"
proof (cases "pre = []")
  case False
  have "search (pre @ msg) BT_START = Some (length pre)"
    using assms(1)
  proof (induction pre)
    case Nil
    have "msg = BT_START @ drop 20 msg"
      using assms(3) by (metis append_take_drop_id)
    then show ?case
      by (metis append_Nil list.size(3) search_prefix)
  next
    case (Cons x pre)
    then have "x \<noteq> 0x13"
      by auto
    then have "take (length BT_START) (x # pre @ msg) \<noteq> BT_START"
      by (simp add: BT_START_def)
    with Cons show ?case
      by simp
  qed
  with False assms(2) show ?thesis
    by (subst handshake_parse.simps) (simp add: MIN_BT_MSG_LENGTH_def)
qed simp

lemma length_handshake_bytes:
  "length r = 8 \<Longrightarrow> length h = 20 \<Longrightarrow> length i = 20 \<Longrightarrow> length (handshake_bytes r h i) = 68"
  by (simp add: handshake_bytes_def)

lemma handshake_parse_bytes:
  assumes "length r = 8" and "length h = 20" and "length i = 20"
  shows "handshake_parse (handshake_bytes r h i @ rest) = handshake_body (handshake_bytes r h i @ rest)"
  using assms search_prefix [of BT_START "r @ bytes_of_string h @ bytes_of_string i @ rest"]
  by (subst handshake_parse.simps) (simp add: handshake_bytes_def MIN_BT_MSG_LENGTH_def)

lemma handshake_fields:
  assumes "length r = 8" and "length h = 20" and "length i = 20" and "length rest < 2 ^ 63"
  defines "msg \<equiv> handshake_bytes r h i @ rest"
  shows "take 8 (drop 20 msg) = r" and "sha1_from_buffer msg 28 = Inr h" and "from_bytes msg 48 68 = Inr i"
proof -
  show "take 8 (drop 20 msg) = r"
    using assms(1) by (simp add: msg_def handshake_bytes_def)
  have d28: "drop 28 msg = bytes_of_string h @ bytes_of_string i @ rest"
    using assms(1) by (simp add: msg_def handshake_bytes_def)
  have len: "length msg = 68 + length rest"
    using assms(1-3) by (simp add: msg_def length_handshake_bytes)
  show "sha1_from_buffer msg 28 = Inr h"
    using assms(2,4) d28 len by (simp add: sha1_from_buffer_def SHA_LENGTH_def)
  have "drop 48 msg = bytes_of_string i @ rest"
    using assms(1,2) by (simp add: msg_def handshake_bytes_def)
  then show "from_bytes msg 48 68 = Inr i"
    using assms(3) len by (simp add: from_bytes_def)
qed

lemma handshake_alone:
  assumes "length r = 8" and "length h = 20" and "length i = 20"
  shows "handshake_parse (handshake_bytes r h i) =
    Inr (Some \<lparr>hs_reserved = r, hs_info_hash = h, hs_peer_id = i, hs_bitfield = bf_empty, hs_consumed = 68\<rparr>)"
  using handshake_parse_bytes [OF assms, of "[]"] handshake_fields [OF assms, of "[]"] length_handshake_bytes [OF assms]
  by (simp add: handshake_body_def MIN_BT_MSG_LENGTH_def)

lemma handshake_body_bitfield:
  assumes "length r = 8" and "length h = 20" and "length i = 20" and "length rest < 2 ^ 63" and "5 \<le> length rest"
  shows "handshake_parse (handshake_bytes r h i @ rest) = bindE (vec_at (handshake_bytes r h i @ rest) 72) (\<lambda>b.
      if to_peer_wire_id b \<noteq> BITFIELD then Inr None
      else bindE (from_big_endian (handshake_bytes r h i @ rest) 68) (\<lambda>len :: u32.
        let end = unat (73 + len - 1);
            hs = \<lparr>hs_reserved = r, hs_info_hash = h, hs_peer_id = i, hs_bitfield = bf_empty, hs_consumed = 0\<rparr>
        in
        if end > length (handshake_bytes r h i @ rest) then Inr (Some hs)
        else if end < 73 then Inl (Undefined_behaviour ''HandshakeMsg: bitfield ends before its start'')
        else Inr (Some (hs\<lparr>hs_bitfield := bf_raw (take (end - 73) (drop 73 (handshake_bytes r h i @ rest))),
                           hs_consumed := end\<rparr>))))"
proof -
  have "\<not> length (handshake_bytes r h i @ rest) < 73" "length (handshake_bytes r h i @ rest) > 68" "rest \<noteq> []"
    using assms(5) length_handshake_bytes [OF assms(1-3)] by auto
  moreover have "\<exists>b. vec_at (handshake_bytes r h i @ rest) 72 = Inr b"
    using calculation by (simp add: vec_at_def)
  ultimately show ?thesis
    unfolding handshake_parse_bytes [OF assms(1-3)] handshake_body_def MIN_BT_MSG_LENGTH_def
    using handshake_fields [OF assms(1-4)]
    by (auto simp: Let_def intro!: arg_cong [of _ _ "bindE _"])
qed

text \<open>A handshake with something behind it that is not, or not yet, recognisable as a bitfield message.\<close>

lemma handshake_unfinished:
  assumes "length r = 8" and "length h = 20" and "length i = 20" and "rest \<noteq> []"
    and "length rest < 5 \<or> to_peer_wire_id (rest ! 4) \<noteq> BITFIELD" and "length rest < 2 ^ 63"
  shows "handshake_parse (handshake_bytes r h i @ rest) = Inr None"
proof -
  let ?m = "handshake_bytes r h i @ rest"
  have len: "length ?m = 68 + length rest"
    using length_handshake_bytes [OF assms(1-3)] by simp
  have "handshake_parse ?m = (if length rest < 5 then Inr None
      else bindE (vec_at ?m 72) (\<lambda>b. if to_peer_wire_id b \<noteq> BITFIELD then Inr None
        else bindE (from_big_endian ?m 68) (\<lambda>len :: u32.
          let end = unat (73 + len - 1);
              hs = \<lparr>hs_reserved = r, hs_info_hash = h, hs_peer_id = i, hs_bitfield = bf_empty, hs_consumed = 0\<rparr>
          in
          if end > length ?m then Inr (Some hs)
          else if end < 73 then Inl (Undefined_behaviour ''HandshakeMsg: bitfield ends before its start'')
          else Inr (Some (hs\<lparr>hs_bitfield := bf_raw (take (end - 73) (drop 73 ?m)), hs_consumed := end\<rparr>)))))"
  proof (cases "length rest < 5")
    case True
    then show ?thesis
      using len assms(4) handshake_fields [OF assms(1-3,6)] unfolding handshake_parse_bytes [OF assms(1-3)] handshake_body_def
      by (simp add: MIN_BT_MSG_LENGTH_def Let_def)
  next
    case False
    then show ?thesis
      using handshake_body_bitfield [OF assms(1-3,6)] by simp
  qed
  moreover have "vec_at ?m 72 = Inr (rest ! 4)" if "\<not> length rest < 5"
    using that len length_handshake_bytes [OF assms(1-3)] by (simp add: vec_at_def nth_append)
  ultimately show ?thesis
    using assms(5) by auto
qed

text \<open>The bytes of a handshake followed by a part of a bitfield message.\<close>

lemma handshake_part_fields:
  assumes "length r = 8" and "length h = 20" and "length i = 20" and "length bf + length rest < 2 ^ 31" and "5 \<le> k"
  shows "from_big_endian (handshake_bytes r h i @ take k (frame BITFIELD bf) @ rest) 68 = Inr (of_nat (1 + length bf) :: u32)"
    and "vec_at (handshake_bytes r h i @ take k (frame BITFIELD bf) @ rest) 72 = Inr (pwid BITFIELD)"
    and "unat (73 + of_nat (1 + length bf) - 1 :: u32) = 73 + length bf"
proof -
  let ?h = "handshake_bytes r h i"
  have len: "length ?h = 68"
    using assms(1-3) by (rule length_handshake_bytes)
  have "take k (frame BITFIELD bf) = to_big_endian (of_nat (1 + length bf) :: u32) @ take (k - 4) (pwid BITFIELD # bf)"
    using assms(5) by (simp add: frame_def)
  then show "from_big_endian (?h @ take k (frame BITFIELD bf) @ rest) 68 = Inr (of_nat (1 + length bf) :: u32)"
    using be32.dec_at [of ?h "take (k - 4) (pwid BITFIELD # bf) @ rest" "of_nat (1 + length bf)"] len assms(4)
    by simp
  show "vec_at (?h @ take k (frame BITFIELD bf) @ rest) 72 = Inr (pwid BITFIELD)"
    using assms(5) len by (simp add: vec_at_def nth_append frame_def)
  have "73 + of_nat (1 + length bf) - 1 = (of_nat (73 + length bf) :: u32)"
    by simp
  then show "unat (73 + of_nat (1 + length bf) - 1 :: u32) = 73 + length bf"
    using assms(4) unat_of_nat_less [of "73 + length bf", where 'a = 32] by (simp only: ) simp
qed

lemma handshake_with_bitfield:
  assumes "length r = 8" and "length h = 20" and "length i = 20" and "length bf + length rest < 2 ^ 31"
  shows "handshake_parse (handshake_bytes r h i @ frame BITFIELD bf @ rest) =
      Inr (Some \<lparr>hs_reserved = r, hs_info_hash = h, hs_peer_id = i, hs_bitfield = bf_raw bf,
             hs_consumed = 73 + length bf\<rparr>)"
proof -
  have len: "length (handshake_bytes r h i) = 68"
    using assms(1-3) by (rule length_handshake_bytes)
  then have "drop 73 (handshake_bytes r h i @ frame BITFIELD bf @ rest) = bf @ rest"
    by (simp add: frame_def)
  then show ?thesis
    using handshake_body_bitfield [OF assms(1-3), of "frame BITFIELD bf @ rest"] assms(4) len
      handshake_part_fields [OF assms, of "5 + length bf"]
    by simp
qed

text \<open>
  C25.  Parsing a handshake as it is sent gives back its fields: alone it is consumed whole with
  no bitfield; followed by a complete bitfield message it yields that bitfield and consumes both
  but not what comes after; followed by the first five bytes of one or more, it is recognised and
  nothing is consumed yet.  When only one to four bytes of the next message have come with it, it is
  not recognised as a handshake at all (and the connection is closed, \<open>cut_handshake_closes\<close>).
\<close>

theorem handshake_roundtrip:
  assumes "length r = 8" and "length h = 20" and "length i = 20" and "bf \<noteq> []"
    and "length bf + length rest < 2 ^ 31"
  shows "handshake_parse (handshake_bytes r h i) =
      Inr (Some \<lparr>hs_reserved = r, hs_info_hash = h, hs_peer_id = i, hs_bitfield = bf_empty, hs_consumed = 68\<rparr>)
    \<and> handshake_parse (handshake_bytes r h i @ frame BITFIELD bf @ rest) =
      Inr (Some \<lparr>hs_reserved = r, hs_info_hash = h, hs_peer_id = i, hs_bitfield = bf_raw bf,
             hs_consumed = 73 + length bf\<rparr>)
    \<and> (\<forall>k. 0 < k \<and> k < 5 + length bf \<longrightarrow>
        handshake_parse (handshake_bytes r h i @ take k (frame BITFIELD bf)) =
        Inr (if k < 5 then None
             else Some \<lparr>hs_reserved = r, hs_info_hash = h, hs_peer_id = i, hs_bitfield = bf_empty, hs_consumed = 0\<rparr>))"
proof (intro conjI allI impI)
  show "handshake_parse (handshake_bytes r h i) =
      Inr (Some \<lparr>hs_reserved = r, hs_info_hash = h, hs_peer_id = i, hs_bitfield = bf_empty, hs_consumed = 68\<rparr>)"
    using assms(1-3) by (rule handshake_alone)
  show "handshake_parse (handshake_bytes r h i @ frame BITFIELD bf @ rest) =
      Inr (Some \<lparr>hs_reserved = r, hs_info_hash = h, hs_peer_id = i, hs_bitfield = bf_raw bf, hs_consumed = 73 + length bf\<rparr>)"
    using assms(1,2,3,5) by (rule handshake_with_bitfield)
  fix k
  assume k: "0 < k \<and> k < 5 + length bf"
  show "handshake_parse (handshake_bytes r h i @ take k (frame BITFIELD bf)) =
      Inr (if k < 5 then None
           else Some \<lparr>hs_reserved = r, hs_info_hash = h, hs_peer_id = i, hs_bitfield = bf_empty, hs_consumed = 0\<rparr>)"
  proof (cases "k < 5")
    case True
    have "length (take k (frame BITFIELD bf)) = k"
      using k by (auto simp: frame_def min_def)
    then have "take k (frame BITFIELD bf) \<noteq> []" "length (take k (frame BITFIELD bf)) < 5"
      using k True by (metis list.size(3) less_irrefl, simp)
    with True show ?thesis
      using handshake_unfinished [OF assms(1-3)] by simp
  next
    case False
    then show ?thesis
      using handshake_body_bitfield [OF assms(1-3), of "take k (frame BITFIELD bf)"] assms(5) k length_handshake_bytes [OF assms(1-3)]
        handshake_part_fields [OF assms(1-3), of bf "[]" k]
      by simp
  qed
qed

theorem handshake_roundtrip_witness:
  "handshake_parse (handshake_bytes (replicate 8 0) (replicate 20 (CHR ''h'')) (replicate 20 (CHR ''p''))
       @ frame BITFIELD [0xA0] @ [1, 2]) =
    Inr (Some \<lparr>hs_reserved = replicate 8 0, hs_info_hash = replicate 20 (CHR ''h''),
      hs_peer_id = replicate 20 (CHR ''p''), hs_bitfield = bf_raw [0xA0], hs_consumed = 74\<rparr>)
   \<and> handshake_parse (handshake_bytes (replicate 8 0) (replicate 20 (CHR ''h'')) (replicate 20 (CHR ''p''))
       @ take 3 (frame BITFIELD [0xA0])) = Inr None"
  using handshake_roundtrip [of "replicate 8 0" "replicate 20 (CHR ''h'')" "replicate 20 (CHR ''p'')" "[0xA0]" "[1, 2]",
      THEN conjunct2, THEN conjunct2, rule_format, of 3]
    handshake_roundtrip [of "replicate 8 0" "replicate 20 (CHR ''h'')" "replicate 20 (CHR ''p'')" "[0xA0]" "[1, 2]"]
  by simp

text \<open>
  A handshake followed by a bitfield message whose length field is 0 or at least
  \<open>2 ^ 32 - 72\<close> is undefined behaviour: the end of the bitfield, computed in 32 bits, lies before
  its start and the bytes between them are copied.
\<close>

theorem handshake_length_wraps:
  assumes "length r = 8" and "length h = 20" and "length i = 20" and "length rest < 2 ^ 31"
    and "len = 0 \<or> 2 ^ 32 - 72 \<le> unat (len :: u32)"
  shows "handshake_parse (handshake_bytes r h i @ to_big_endian len @ pwid BITFIELD # rest) =
    Inl (Undefined_behaviour ''HandshakeMsg: bitfield ends before its start'')"
proof -
  let ?h = "handshake_bytes r h i" and ?rest = "to_big_endian len @ pwid BITFIELD # rest"
  have hl: "length ?h = 68"
    using assms(1-3) by (rule length_handshake_bytes)
  have "unat (73 + len - 1) = (unat len + 72) mod 2 ^ 32"
  proof -
    have "73 + len - 1 = len + 72"
      by simp
    then show ?thesis
      by (simp only: unat_word_ariths) simp
  qed
  moreover have "unat len < 2 ^ LENGTH(32)"
    by (rule unsigned_less)
  ultimately have e: "unat (73 + len - 1) < 73"
    using assms(5) by (auto simp: mod_if)
  have "from_big_endian (?h @ ?rest) 68 = Inr len"
    using be32.dec_at [of ?h "pwid BITFIELD # rest" len] hl assms(4) by simp
  moreover have "vec_at (?h @ ?rest) 72 = Inr (pwid BITFIELD)"
    using hl by (simp add: vec_at_def nth_append)
  ultimately show ?thesis
    using handshake_body_bitfield [OF assms(1-3), of ?rest] assms(4) hl e
    by (simp add: Let_def)
qed

theorem handshake_length_wraps_witness:
  "handshake_parse (handshake_bytes (replicate 8 0) (replicate 20 (CHR ''h'')) (replicate 20 (CHR ''p''))
       @ to_big_endian (0 :: u32) @ [pwid BITFIELD]) =
    Inl (Undefined_behaviour ''HandshakeMsg: bitfield ends before its start'')"
  using handshake_length_wraps [of "replicate 8 0" "replicate 20 (CHR ''h'')" "replicate 20 (CHR ''p'')" "[]" 0]
  by simp

end
