(* ===== verification/Peer.thy ===== *)
theory Peer
  imports Torrent Wire
begin

text \<open>
  \<^verbatim>\<open>class Peer\<close> of \<^verbatim>\<open>src/peer.hpp\<close> and \<^verbatim>\<open>src/peer.cpp\<close>: the state kept
  for a remote peer and the reactions to its messages.  A peer acts on its torrent and on its
  connection, so its operations are computations on a \<open>session\<close>, the pair of both; the messages
  handed to \<^verbatim>\<open>PeerConnection::write\<close> are collected in \<open>p_sent\<close>, in their order;
  \<open>p_stopped\<close> is the flag of the connection, and the calls of the torrent's callbacks for
  \<^verbatim>\<open>not_interested\<close> and \<^verbatim>\<open>disconnected\<close> are counted.  The
  clock, the configuration and the disk are arguments, collected in \<open>peer_env\<close>.  The URL
  of a peer is kept as its printed text.
\<close>

section \<open>State\<close>

record peer =
  p_url :: string
  m_am_choking :: bool
  m_am_interested :: bool
  m_choking :: bool
  m_interested :: bool
  m_listening :: bool
  m_pending_requests :: int
  m_remote_pieces :: bitfield
  m_last_activity :: int
  p_connection :: bool
  p_sent :: "bytes list"
  p_stopped :: bool
  p_not_interested_calls :: nat
  p_disconnected_calls :: nat

record session =
  se_torrent :: torrent
  se_peer :: peer

record peer_env =
  e_now :: int
  e_max_pending :: int
  e_peer_id :: string
  e_read_block :: "u32 \<Rightarrow> u32 \<Rightarrow> bytes result"

text \<open>The two constructors: a peer to connect to, and an accepted connection.\<close>

definition new_peer :: "int \<Rightarrow> string \<Rightarrow> peer" where
  "new_peer now url =
     \<lparr>p_url = url, m_am_choking = True, m_am_interested = False, m_choking = True, m_interested = False,
      m_listening = False, m_pending_requests = 0, m_remote_pieces = bf_empty, m_last_activity = now,
      p_connection = False, p_sent = [], p_stopped = False, p_not_interested_calls = 0,
      p_disconnected_calls = 0\<rparr>"

definition init_io_service :: "peer \<Rightarrow> peer" where
  "init_io_service p = (if p_connection p then p else p\<lparr>p_connection := True\<rparr>)"

definition accepted_peer :: "int \<Rightarrow> string \<Rightarrow> peer" where
  "accepted_peer now url = init_io_service ((new_peer now url)\<lparr>m_listening := True\<rparr>)"

section \<open>Access to the session\<close>

definition on_peer :: "(peer \<Rightarrow> peer) \<Rightarrow> (session, unit) st" where
  "on_peer f = modIO (\<lambda>s. s\<lparr>se_peer := f (se_peer s)\<rparr>)"

definition on_torrent :: "(torrent \<Rightarrow> torrent) \<Rightarrow> (session, unit) st" where
  "on_torrent f = modIO (\<lambda>s. s\<lparr>se_torrent := f (se_torrent s)\<rparr>)"

text \<open>An operation of the torrent that returns a value and a new torrent, or throws and leaves it.\<close>

definition with_torrent :: "(torrent \<Rightarrow> ('a \<times> torrent) result) \<Rightarrow> (session, 'a) st" where
  "with_torrent f = (\<lambda>s. case f (se_torrent s) of
     Inl e \<Rightarrow> (Inl e, s) | Inr (a, t) \<Rightarrow> (Inr a, s\<lparr>se_torrent := t\<rparr>))"

text \<open>\<^verbatim>\<open>m_connection->write\<close>; without a connection it dereferences a null pointer.\<close>

definition send_msg :: "bytes \<Rightarrow> (session, unit) st" where
  "send_msg msg = (\<lambda>s. if p_connection (se_peer s)
     then (Inr (), s\<lparr>se_peer := (se_peer s)\<lparr>p_sent := p_sent (se_peer s) @ [msg]\<rparr>\<rparr>)
     else (Inl (Undefined_behaviour ''null connection''), s))"

text \<open>\<^verbatim>\<open>piece->next_offset(mark)\<close> on a piece of the heap.\<close>

definition piece_next_offset :: "int \<Rightarrow> bool \<Rightarrow> nat \<Rightarrow> torrent \<Rightarrow> (u32 option \<times> torrent) result" where
  "piece_next_offset now mark loc t =
     bindE (next_offset now mark (pieces_heap t ! loc)) (\<lambda>r. Inr (fst r, set_heap loc (snd r) t))"

section \<open>Choking and interest\<close>

definition set_am_choking :: "bool \<Rightarrow> (session, unit) st" where
  "set_am_choking am =
     bindIO (getIO (\<lambda>s. m_am_choking (se_peer s))) (\<lambda>cur.
     bindIO (whenIO (\<not> cur \<and> am) (send_msg (frame CHOKE []))) (\<lambda>_.
     bindIO (whenIO (cur \<and> \<not> am) (send_msg (frame UNCHOKE []))) (\<lambda>_.
     on_peer (m_am_choking_update (\<lambda>_. am)))))"

definition set_am_interested :: "bool \<Rightarrow> (session, unit) st" where
  "set_am_interested am =
     bindIO (getIO (\<lambda>s. m_am_interested (se_peer s))) (\<lambda>cur.
     bindIO (getIO (\<lambda>s. torrent_done (se_torrent s))) (\<lambda>done.
     if \<not> cur \<and> am \<and> done then retIO ()
     else
       bindIO (whenIO (\<not> cur \<and> am) (send_msg (frame INTERESTED []))) (\<lambda>_.
       bindIO (whenIO (cur \<and> \<not> am) (send_msg (frame NOT_INTERESTED []))) (\<lambda>_.
       on_peer (m_am_interested_update (\<lambda>_. am))))))"

definition set_interested :: "bool \<Rightarrow> (session, unit) st" where
  "set_interested interested =
     bindIO (getIO (\<lambda>s. m_interested (se_peer s))) (\<lambda>cur.
     bindIO (whenIO (\<not> cur \<and> interested) (set_am_choking False)) (\<lambda>_.
     bindIO (whenIO (cur \<and> \<not> interested)
               (on_peer (p_not_interested_calls_update (\<lambda>n. n + 1)))) (\<lambda>_.
     on_peer (m_interested_update (\<lambda>_. interested)))))"

section \<open>Requesting\<close>

text \<open>
  \<open>next_piece\<close>: the loop over the pieces the remote has and we have not.  With
  \<open>non_requested\<close>, pieces without a free block are skipped; their objects are created all the
  same.
\<close>

function next_piece_from :: "int \<Rightarrow> bitfield \<Rightarrow> bool \<Rightarrow> nat \<Rightarrow> session \<Rightarrow> nat option result \<times> session" where
  "next_piece_from now rel non_requested n s =
     (case bf_next rel True n of
        Inl e \<Rightarrow> (Inl e, s)
      | Inr None \<Rightarrow> (Inr None, s)
      | Inr (Some k) \<Rightarrow>
          (case numeric_cast uint32_t uint64_t (int k) of
             Inl e \<Rightarrow> (Inl e, s)
           | Inr ident \<Rightarrow>
               (case with_torrent (active_piece (of_int ident) True) s of
                  (Inl e, s1) \<Rightarrow> (Inl e, s1)
                | (Inr None, s1) \<Rightarrow>
                    if \<not> non_requested then (Inr None, s1)
                    else next_piece_from now rel non_requested (k + 1) s1
                | (Inr (Some loc), s1) \<Rightarrow>
                    if \<not> non_requested then (Inr (Some loc), s1)
                    else
                      (case with_torrent (piece_next_offset now False loc) s1 of
                         (Inl e, s2) \<Rightarrow> (Inl e, s2)
                       | (Inr off, s2) \<Rightarrow>
                           if off \<noteq> None then (Inr (Some loc), s2)
                           else next_piece_from now rel non_requested (k + 1) s2))))"
  by pat_completeness auto
termination
  by (relation "measure (\<lambda>(now, rel, non_requested, n, s). bf_size rel - n)")
    (auto simp: bf_next_find find_Some_iff)

declare next_piece_from.simps [simp del]

definition next_piece :: "int \<Rightarrow> bool \<Rightarrow> (session, nat option) st" where
  "next_piece now non_requested =
     bindIO (getIO (\<lambda>s. relevant_pieces (m_remote_pieces (se_peer s)) (se_torrent s))) (\<lambda>rel.
     next_piece_from now rel non_requested 0)"

text \<open>The length of a request: the last block of a piece may be shorter.\<close>

definition request_length :: "u32 \<Rightarrow> piece \<Rightarrow> u32" where
  "request_length offset p =
     (if offset + m_block_size > m_piece_size p then m_piece_size p mod m_block_size else m_block_size)"

definition request_frame :: "u32 \<Rightarrow> u32 \<Rightarrow> u32 \<Rightarrow> bytes" where
  "request_frame index begin len = to_big_endian (13 :: u32) @ pwid REQUEST #
     (to_big_endian index @ to_big_endian begin @ to_big_endian len)"

fun request_loop :: "int \<Rightarrow> nat \<Rightarrow> bytes \<Rightarrow> nat \<Rightarrow> (session, bytes \<times> nat) st" where
  "request_loop now 0 req requests = retIO (req, requests)"
| "request_loop now (Suc n) req requests =
     bindIO (next_piece now True) (\<lambda>has_piece.
     case has_piece of
       None \<Rightarrow> retIO (req, requests)
     | Some loc \<Rightarrow>
         bindIO (with_torrent (piece_next_offset now True loc)) (\<lambda>block_offset.
         case block_offset of
           None \<Rightarrow> retIO (req, requests)
         | Some off \<Rightarrow>
             bindIO (getIO (\<lambda>s. pieces_heap (se_torrent s) ! loc)) (\<lambda>p.
             bindIO (on_peer (m_pending_requests_update (\<lambda>k. k + 1))) (\<lambda>_.
             request_loop now n (req @ request_frame (m_id p) off (request_length off p)) (requests + 1)))))"

text \<open>The limit of pending requests: the argument, or the configured one when it is 0.\<close>

definition pending_limit :: "peer_env \<Rightarrow> int \<Rightarrow> int result" where
  "pending_limit env max_pending =
     (if max_pending = 0 then numeric_cast uint16_t int32_t (e_max_pending env) else Inr max_pending)"

definition request_next_block :: "peer_env \<Rightarrow> int \<Rightarrow> (session, nat) st" where
  "request_next_block env max_pending =
     bindIO (getIO se_peer) (\<lambda>p.
     if \<not> m_am_interested p then retIO 0
     else if m_choking p then retIO 0
     else
       bindIO (liftIO (pending_limit env max_pending)) (\<lambda>mx.
       if mx = 0 then throwIO (Runtime_error ''Max pending requests cannot be zero'')
       else
         let needed = mx - m_pending_requests p in
         if needed \<le> 0 then retIO 0
         else
           bindIO (request_loop (e_now env) (nat needed) [] 0) (\<lambda>(req, requests).
           bindIO (whenIO (req \<noteq> []) (send_msg req)) (\<lambda>_. retIO requests))))"

definition set_choking :: "peer_env \<Rightarrow> bool \<Rightarrow> (session, unit) st" where
  "set_choking env choking =
     bindIO (getIO (\<lambda>s. m_choking (se_peer s))) (\<lambda>cur.
     bindIO (whenIO (cur \<and> \<not> choking)
       (bindIO (on_peer (m_choking_update (\<lambda>_. choking))) (\<lambda>_.
        bindIO (request_next_block env 0) (\<lambda>_. retIO ())))) (\<lambda>_.
     bindIO (getIO (\<lambda>s. m_choking (se_peer s))) (\<lambda>cur'.
     whenIO (\<not> cur' \<and> choking)
       (on_peer (\<lambda>p. p\<lparr>m_choking := choking, m_pending_requests := 0\<rparr>)))))"

section \<open>What the remote has\<close>

definition set_remote_pieces :: "bitfield \<Rightarrow> (session, unit) st" where
  "set_remote_pieces bf =
     bindIO (on_peer (m_remote_pieces_update (\<lambda>_. bf))) (\<lambda>_. on_torrent (init_client_pieces (bf_size bf)))"

definition peer_have :: "peer_env \<Rightarrow> u32 \<Rightarrow> (session, unit) st" where
  "peer_have env i =
     bindIO (getIO (\<lambda>s. bf_count (m_remote_pieces (se_peer s)))) (\<lambda>cnt.
     bindIO
       (if cnt = 0 then
          bindIO (getIO (\<lambda>s. snd (piece_status (se_torrent s)))) (\<lambda>number_of_pieces.
          bindIO (on_torrent (init_client_pieces number_of_pieces)) (\<lambda>_.
          bindIO (on_peer (m_remote_pieces_update (\<lambda>_. bf_make number_of_pieces))) (\<lambda>_.
          bindIO (liftIO (bf_fill (bf_make number_of_pieces) number_of_pieces True 0)) (\<lambda>bf.
          on_peer (m_remote_pieces_update (\<lambda>_. bf))))))
        else on_peer (\<lambda>p. p\<lparr>m_remote_pieces := bf_set (m_remote_pieces p) (unat i) True\<rparr>)) (\<lambda>_.
     bindIO (request_next_block env 0) (\<lambda>_. retIO ())))"

section \<open>Blocks\<close>

definition p_set_block :: "peer_env \<Rightarrow> u32 \<Rightarrow> u32 \<Rightarrow> bytes \<Rightarrow> (session, unit) st" where
  "p_set_block env piece_id offset data =
     bindIO (on_peer (\<lambda>p. if m_pending_requests p > 0
                          then p\<lparr>m_pending_requests := m_pending_requests p - 1\<rparr> else p)) (\<lambda>_.
     bindIO (with_torrent (t_set_block (e_now env) piece_id offset data)) (\<lambda>_.
     bindIO (request_next_block env 0) (\<lambda>_. retIO ())))"

definition piece_message :: "u32 \<Rightarrow> u32 \<Rightarrow> u32 \<Rightarrow> bytes \<Rightarrow> bytes" where
  "piece_message len index begin data = to_big_endian len @ pwid PIECE #
     (to_big_endian index @ to_big_endian begin @ data)"

definition request :: "peer_env \<Rightarrow> u32 \<Rightarrow> u32 \<Rightarrow> u32 \<Rightarrow> (session, unit) st" where
  "request env index begin len =
     bindIO (getIO se_peer) (\<lambda>p.
     if m_am_choking p then retIO ()
     else if \<not> m_interested p then retIO ()
     else
       bindIO (with_torrent (active_piece index True)) (\<lambda>piece.
       case piece of
         None \<Rightarrow> retIO ()
       | Some loc \<Rightarrow>
           bindIO (getIO se_torrent) (\<lambda>t.
           bindIO (liftIO (get_block (m_piece_length (meta t)) (e_read_block env) begin len (pieces_heap t ! loc))) (\<lambda>data.
           if data = [] then retIO ()
           else
             bindIO (liftIO (numeric_cast uint32_t uint64_t (int (9 + length data)))) (\<lambda>l.
             send_msg (piece_message (of_int l) index begin data))))))"

section \<open>Handshake\<close>

definition verify_info_hash :: "string \<Rightarrow> session \<Rightarrow> bool" where
  "verify_info_hash info_hash s \<longleftrightarrow> m_info_hash (meta (se_torrent s)) = info_hash"

definition report_bitfield :: "(session, unit) st" where
  "report_bitfield =
     bindIO (getIO (\<lambda>s. m_client_pieces (se_torrent s))) (\<lambda>bf.
     bindIO (liftIO (bf_next bf True 0)) (\<lambda>nxt.
     if nxt \<noteq> None then
       bindIO (liftIO (numeric_cast uint32_t uint64_t (int (1 + bf_size_bytes bf)))) (\<lambda>len.
       send_msg (to_big_endian (of_int len :: u32) @ pwid BITFIELD # m_bytes bf))
     else retIO ()))"

definition handshake :: "peer_env \<Rightarrow> (session, unit) st" where
  "handshake env =
     bindIO (on_peer init_io_service) (\<lambda>_.
     bindIO (getIO (\<lambda>s. m_info_hash (meta (se_torrent s)))) (\<lambda>h.
     send_msg (handshake_bytes (replicate 8 0) h (e_peer_id env))))"

definition update_activity :: "int \<Rightarrow> peer \<Rightarrow> peer" where
  "update_activity now p = p\<lparr>m_last_activity := now\<rparr>"

definition is_inactive :: "int \<Rightarrow> peer \<Rightarrow> bool" where
  "is_inactive now p \<longleftrightarrow> now - m_last_activity p \<ge> seconds 120"

definition peer_disconnected :: "peer \<Rightarrow> peer" where
  "peer_disconnected p = p\<lparr>p_disconnected_calls := p_disconnected_calls p + 1\<rparr>"

definition stop_peer :: "peer \<Rightarrow> peer" where
  "stop_peer p = p\<lparr>p_stopped := True\<rparr>"

section \<open>Looking for a piece\<close>

lemma with_torrent_eq [io_simps]:
  "with_torrent f s = (case f (se_torrent s) of Inl e \<Rightarrow> (Inl e, s) | Inr (a, t) \<Rightarrow> (Inr a, s\<lparr>se_torrent := t\<rparr>))"
  by (simp add: with_torrent_def)

lemma on_peer_eq [io_simps]: "on_peer f s = (Inr (), s\<lparr>se_peer := f (se_peer s)\<rparr>)"
  and on_torrent_eq [io_simps]: "on_torrent g s = (Inr (), s\<lparr>se_torrent := g (se_torrent s)\<rparr>)"
  by (simp_all add: on_peer_def on_torrent_def io_simps)

text \<open>Block \<open>b\<close> of piece \<open>i\<close> was requested or has arrived.\<close>

definition taken :: "torrent \<Rightarrow> u32 \<Rightarrow> nat \<Rightarrow> bool" where
  "taken t i b \<longleftrightarrow> (\<exists>loc. map_of (m_active_pieces t) i = Some loc
     \<and> (is_requested (pieces_heap t ! loc) b \<or> is_done (pieces_heap t ! loc) b))"

text \<open>Two torrents that differ in untouched pieces only.\<close>

definition same_blocks :: "torrent \<Rightarrow> torrent \<Rightarrow> bool" where
  "same_blocks t t' \<longleftrightarrow> meta t' = meta t \<and> m_client_pieces t' = m_client_pieces t
     \<and> writer_queue t' = writer_queue t \<and> taken t' = taken t"

lemma same_blocks_trans: "same_blocks t t' \<Longrightarrow> same_blocks t' t'' \<Longrightarrow> same_blocks t t''"
  by (simp add: same_blocks_def)

lemma same_blocks_active:
  assumes "torrent_ok t" and "active_piece i True t = Inr (r, t')"
  shows "same_blocks t t' \<and> (\<exists>loc. r = Some loc \<and> map_of (m_active_pieces t') i = Some loc)"
proof -
  note act = torrent_ok_active [OF assms]
  have locs: "loc < length (pieces_heap t)" if "map_of (m_active_pieces t) j = Some loc" for j loc
    using assms(1) that by (auto simp: torrent_ok_def)
  have "taken t' j b \<longleftrightarrow> taken t j b" for j b
  proof (cases "map_of (m_active_pieces t) i")
    case None
    then obtain len where t': "t' = t\<lparr>pieces_heap := pieces_heap t @ [new_piece i len],
        m_active_pieces := smap_put i (length (pieces_heap t)) (m_active_pieces t)\<rparr>"
      using assms(2) by (auto simp: active_piece_def Let_def result_simps)
    show ?thesis
      using None by (auto simp: t' taken_def smap_simps nth_append new_piece_def dest: locs)
  next
    case (Some loc)
    with assms(2) have "t' = t"
      by (simp add: active_piece_def)
    then show ?thesis
      by simp
  qed
  moreover have "writer_queue t' = writer_queue t"
    using assms(2) by (auto simp: active_piece_def Let_def result_simps split: option.splits)
  ultimately show ?thesis
    using act by (auto simp: same_blocks_def fun_eq_iff)
qed

lemma set_heap_same: "loc < length (pieces_heap t) \<Longrightarrow> set_heap loc (pieces_heap t ! loc) t = t"
  by (simp add: set_heap_def)

lemma piece_next_offset_peek:
  assumes "torrent_ok t" and "map_of (m_active_pieces t) i = Some loc"
  shows "piece_next_offset now False loc t =
    Inr (map_option (\<lambda>b. of_nat b * m_block_size) (free_block (pieces_heap t ! loc)), t)"
proof -
  have "loc < length (pieces_heap t)" and "piece_ok (pieces_heap t ! loc)"
    using assms by (auto simp: torrent_ok_def)
  then show ?thesis
    by (simp add: piece_next_offset_def next_offset_eq set_heap_same split: option.splits)
qed

lemma numeric_cast_u32_of_nat:
  assumes "numeric_cast uint32_t uint64_t (int k) = Inr r"
  shows "r = int k" and "k < 2 ^ 32"
proof -
  have "int k \<le> 2 ^ 32 - 1 \<and> r = take_bit 32 (int k)"
    using assms by (auto simp: numeric_cast_def static_cast_def ity_max_def split: if_splits)
  then show "r = int k" and "k < 2 ^ 32"
    by (simp_all add: take_bit_int_eq_self)
qed

text \<open>One round of the loop.\<close>

lemma next_piece_from_round:
  assumes "torrent_reach mi (se_torrent s)"
  shows "(\<exists>e s'. next_piece_from now rel True n s = (Inl e, s') \<and> s' = s)
    \<or> next_piece_from now rel True n s = (Inr None, s)
    \<or> (\<exists>k loc t'. n \<le> k \<and> k < bf_size rel \<and> k < 2 ^ 32 \<and> bf_test rel k
        \<and> active_piece (of_nat k) True (se_torrent s) = Inr (Some loc, t')
        \<and> map_of (m_active_pieces t') (of_nat k) = Some loc
        \<and> next_piece_from now rel True n s =
            (if free_block (pieces_heap t' ! loc) \<noteq> None then (Inr (Some loc), s\<lparr>se_torrent := t'\<rparr>)
             else next_piece_from now rel True (k + 1) (s\<lparr>se_torrent := t'\<rparr>)))"
proof (cases "List.find (\<lambda>i. bf_test rel i = True) [n..<bf_size rel]")
  case None
  then show ?thesis
    by (subst next_piece_from.simps) (simp add: bf_next_find)
next
  case (Some k)
  then have k: "n \<le> k" "k < bf_size rel" "bf_test rel k"
    by (auto simp: find_Some_iff)
  have nxt: "bf_next rel True n = Inr (Some k)"
    using Some by (simp add: bf_next_find)
  show ?thesis
  proof (cases "numeric_cast uint32_t uint64_t (int k)")
    case (Inl e)
    then show ?thesis
      by (subst (1) next_piece_from.simps) (simp add: nxt)
  next
    case (Inr ident)
    then have ident: "ident = int k" "k < 2 ^ 32"
      using numeric_cast_u32_of_nat by blast+
    show ?thesis
    proof (cases "active_piece (of_nat k) True (se_torrent s)")
      case act: (Inl e)
      then show ?thesis
        by (subst (1) next_piece_from.simps) (simp add: nxt Inr ident io_simps)
    next
      case act: (Inr rt)
      obtain loc t' where rt: "rt = (Some loc, t')" and m: "map_of (m_active_pieces t') (of_nat k) = Some loc"
        using same_blocks_active [of "se_torrent s" "of_nat k" "fst rt" "snd rt"] act torrent_reach_ok [OF assms]
        by (cases rt) auto
      have "torrent_ok t'"
        using torrent_ok_active act rt torrent_reach_ok [OF assms] by blast
      then have "with_torrent (piece_next_offset now False loc) (s\<lparr>se_torrent := t'\<rparr>) =
          (Inr (map_option (\<lambda>b. of_nat b * m_block_size) (free_block (pieces_heap t' ! loc))), s\<lparr>se_torrent := t'\<rparr>)"
        using piece_next_offset_peek [OF _ m] by (simp add: io_simps)
      then have "next_piece_from now rel True n s =
            (if free_block (pieces_heap t' ! loc) \<noteq> None then (Inr (Some loc), s\<lparr>se_torrent := t'\<rparr>)
             else next_piece_from now rel True (k + 1) (s\<lparr>se_torrent := t'\<rparr>))"
        by (subst (1) next_piece_from.simps) (simp add: nxt Inr ident(1) with_torrent_def [of "active_piece _ _"] act rt)
      then show ?thesis
        using k ident(2) act rt m by blast
    qed
  qed
qed

lemma next_piece_from_spec:
  assumes "torrent_reach mi (se_torrent s)" and "next_piece_from now rel True n s = (r, s')"
  shows "torrent_reach mi (se_torrent s') \<and> se_peer s' = se_peer s \<and> same_blocks (se_torrent s) (se_torrent s')
    \<and> (\<forall>loc. r = Inr (Some loc) \<longrightarrow> (\<exists>i. map_of (m_active_pieces (se_torrent s')) i = Some loc
          \<and> bf_test rel (unat i) \<and> free_block (pieces_heap (se_torrent s') ! loc) \<noteq> None))"
  using assms
proof (induction "bf_size rel - n" arbitrary: n s rule: less_induct)
  case less
  have refl: "same_blocks (se_torrent s) (se_torrent s)"
    by (simp add: same_blocks_def)
  from next_piece_from_round [OF less.prems(1), of now rel n]
  consider "\<exists>e. (r, s') = (Inl e, s)" | "(r, s') = (Inr None, s)"
    | k loc t' where "n \<le> k" "k < bf_size rel" "k < 2 ^ 32" "bf_test rel k"
        "active_piece (of_nat k) True (se_torrent s) = Inr (Some loc, t')"
        "map_of (m_active_pieces t') (of_nat k) = Some loc"
        "(r, s') = (if free_block (pieces_heap t' ! loc) \<noteq> None then (Inr (Some loc), s\<lparr>se_torrent := t'\<rparr>)
             else next_piece_from now rel True (k + 1) (s\<lparr>se_torrent := t'\<rparr>))"
    unfolding less.prems(2) by blast
  then show ?case
  proof cases
    case 1
    with less.prems(1) refl show ?thesis
      by auto
  next
    case 2
    with less.prems(1) refl show ?thesis
      by auto
  next
    case (3 k loc t')
    have t': "torrent_reach mi t'" "same_blocks (se_torrent s) t'"
      using torrent_reach.step [OF less.prems(1) torrent_step.active [OF 3(5)]]
        same_blocks_active [OF _ 3(5)] torrent_reach_ok [OF less.prems(1)] by blast+
    show ?thesis
    proof (cases "free_block (pieces_heap t' ! loc) = None")
      case True
      have "bf_size rel - (k + 1) < bf_size rel - n"
        using 3(1,2) by simp
      moreover have "next_piece_from now rel True (k + 1) (s\<lparr>se_torrent := t'\<rparr>) = (r, s')"
        using 3(7) True by simp
      ultimately show ?thesis
        using less.hyps [of "k + 1" "s\<lparr>se_torrent := t'\<rparr>"] t' same_blocks_trans [OF t'(2)] by simp
    next
      case False
      have "unat (of_nat k :: u32) = k"
        using 3(3) by (intro unat_of_nat_less) simp
      with 3 False t' show ?thesis
        by (auto intro!: exI [of _ "of_nat k"])
    qed
  qed
qed

section \<open>The requests of a peer\<close>

lemma taken_iff: "map_of (m_active_pieces t) i = Some loc \<Longrightarrow>
    taken t i b \<longleftrightarrow> is_requested (pieces_heap t ! loc) b \<or> is_done (pieces_heap t ! loc) b"
  by (simp add: taken_def)

lemma free_block_Some: "free_block p = Some b \<Longrightarrow> b < blocks p \<and> \<not> is_requested p b \<and> \<not> is_done p b"
  by (auto simp: free_block_def find_Some_iff)

lemma block_inside: "b < blocks p \<Longrightarrow> b * 16384 < unat (m_piece_size p)"
proof -
  assume "b < blocks p"
  then have "Suc b \<le> (unat (m_piece_size p) + 16383) div 16384"
    by (simp add: blocks_of_size)
  then have "Suc b * 16384 \<le> unat (m_piece_size p) + 16383"
    by (simp add: less_eq_div_iff_mult_less_eq)
  then show ?thesis
    by simp
qed

lemma count_up: "m_pending_requests_update (\<lambda>k. k + 1) p = p\<lparr>m_pending_requests := m_pending_requests p + 1\<rparr>"
  by (cases p) simp

lemma mark_requested:
  assumes "torrent_reach mi t" and "map_of (m_active_pieces t) i = Some loc"
    and "free_block (pieces_heap t ! loc) = Some b"
  shows "\<exists>t'. piece_next_offset now True loc t = Inr (Some (of_nat b * m_block_size), t') \<and> torrent_reach mi t'
    \<and> m_client_pieces t' = m_client_pieces t \<and> writer_queue t' = writer_queue t
    \<and> (\<forall>j c. taken t' j c \<longleftrightarrow> taken t j c \<or> (j = i \<and> c = b))
    \<and> m_id (pieces_heap t' ! loc) = i \<and> piece_length_at mi i = Inr (m_piece_size (pieces_heap t' ! loc))
    \<and> \<not> taken t i b \<and> b * 16384 < unat (m_piece_size (pieces_heap t' ! loc))"
proof -
  define p where "p = pieces_heap t ! loc"
  define p' where "p' = p\<lparr>m_blocks_requested := bf_set (m_blocks_requested p) b True, m_last_request := now\<rparr>"
  have ok: "torrent_ok t" "meta t = mi"
    using torrent_reach_ok [OF assms(1)] by simp_all
  then have loc: "loc < length (pieces_heap t)" "piece_ok p" "m_id p = i" "piece_length_at mi i = Inr (m_piece_size p)"
    using assms(2) by (auto simp: torrent_ok_def p_def)
  have other: "loc' \<noteq> loc" if "map_of (m_active_pieces t) j = Some loc'" "j \<noteq> i" for j loc'
    using ok(1) that loc(3) unfolding torrent_ok_def p_def by metis
  have nxt: "next_offset now True p = Inr (Some (of_nat b * m_block_size), p')"
    using next_offset_eq [OF loc(2), of now True] assms(3) by (simp add: p_def p'_def)
  have fb: "b < blocks p" "\<not> is_requested p b" "\<not> is_done p b"
    using free_block_Some assms(3) by (auto simp: p_def)
  have "taken (set_heap loc p' t) j c \<longleftrightarrow> taken t j c \<or> (j = i \<and> c = b)" for j c
  proof (cases "j = i")
    case True
    then show ?thesis
      using assms(2) loc(1) by (auto simp: taken_def nth_set_heap p'_def bf_test_set simp flip: p_def)
  next
    case False
    then show ?thesis
      using other loc(1) by (auto simp: taken_def nth_set_heap)
  qed
  moreover have "torrent_reach mi (set_heap loc p' t)"
    using nxt assms(1,2) by (intro torrent_reach.step [OF _ torrent_step.request]) (simp_all add: p_def)
  moreover have "\<not> taken t i b"
    using assms(2) fb by (simp add: taken_iff flip: p_def)
  ultimately show ?thesis
    using nxt loc fb block_inside [OF fb(1)]
    by (auto simp: piece_next_offset_def nth_set_heap p'_def simp flip: p_def)
qed

definition piece_size_of :: "metainfo \<Rightarrow> u32 \<Rightarrow> u32" where
  "piece_size_of mi i = projr (piece_length_at mi i)"

definition block_request :: "metainfo \<Rightarrow> u32 \<times> nat \<Rightarrow> bytes" where
  "block_request mi ib = request_frame (fst ib) (of_nat (snd ib) * m_block_size)
     (request_length (of_nat (snd ib) * m_block_size) (new_piece (fst ib) (piece_size_of mi (fst ib))))"

text \<open>The blocks \<open>bl\<close> are free ones that the remote has, each once.\<close>

definition fresh_blocks :: "metainfo \<Rightarrow> bitfield \<Rightarrow> torrent \<Rightarrow> (u32 \<times> nat) list \<Rightarrow> bool" where
  "fresh_blocks mi remote t bl \<longleftrightarrow> distinct bl \<and> (\<forall>(i, b) \<in> set bl.
     bf_test remote (unat i) \<and> \<not> bf_test (m_client_pieces t) (unat i)
     \<and> \<not> taken t i b \<and> b * 16384 < unat (piece_size_of mi i))"

definition requested_blocks :: "metainfo \<Rightarrow> torrent \<Rightarrow> torrent \<Rightarrow> (u32 \<times> nat) list \<Rightarrow> bool" where
  "requested_blocks mi t t' bl \<longleftrightarrow> torrent_reach mi t' \<and> m_client_pieces t' = m_client_pieces t
     \<and> writer_queue t' = writer_queue t \<and> (\<forall>i b. taken t' i b \<longleftrightarrow> taken t i b \<or> (i, b) \<in> set bl)"

lemma request_loop_spec:
  assumes "torrent_reach mi (se_torrent s)" and "request_loop now n req k s = (r, s')"
  shows "\<exists>bl. length bl \<le> n \<and> fresh_blocks mi (m_remote_pieces (se_peer s)) (se_torrent s) bl
    \<and> requested_blocks mi (se_torrent s) (se_torrent s') bl
    \<and> se_peer s' = (se_peer s)\<lparr>m_pending_requests := m_pending_requests (se_peer s) + int (length bl)\<rparr>
    \<and> (\<forall>req' k'. r = Inr (req', k') \<longrightarrow> k' = k + length bl \<and> req' = req @ concat (map (block_request mi) bl))"
  using assms
proof (induction n arbitrary: req k s)
  case 0
  then show ?case
    by (auto simp: io_simps fresh_blocks_def requested_blocks_def)
next
  case (Suc n)
  have none: "fresh_blocks mi (m_remote_pieces (se_peer s)) (se_torrent s) []"
    by (simp add: fresh_blocks_def)
  define rel where "rel = relevant_pieces (m_remote_pieces (se_peer s)) (se_torrent s)"
  obtain r1 s1 where np: "next_piece_from now rel True 0 s = (r1, s1)"
    by fastforce
  note np' = next_piece_from_spec [OF Suc.prems(1) np]
  have step1: "next_piece now True s = (r1, s1)"
    by (simp add: next_piece_def io_simps rel_def [symmetric] np)
  have quiet1: "requested_blocks mi (se_torrent s) (se_torrent s1) []"
    using np' by (simp add: requested_blocks_def same_blocks_def)
  show ?case
  proof (cases "\<exists>loc. r1 = Inr (Some loc)")
    case False
    have "s' = s1 \<and> (r = Inr (req, k) \<or> (\<exists>e. r = Inl e))"
      using Suc.prems(2) False by (cases r1) (auto simp: io_simps step1 split: option.splits)
    with none quiet1 np' show ?thesis
      by (intro exI [of _ "[]"]) auto
  next
    case True
    then obtain loc where r1: "r1 = Inr (Some loc)"
      by blast
    then obtain i b where m: "map_of (m_active_pieces (se_torrent s1)) i = Some loc" and rel_i: "bf_test rel (unat i)"
      and fb: "free_block (pieces_heap (se_torrent s1) ! loc) = Some b"
      using np' by auto
    obtain t2 where t2: "piece_next_offset now True loc (se_torrent s1) = Inr (Some (of_nat b * m_block_size), t2)"
      "torrent_reach mi t2" "m_client_pieces t2 = m_client_pieces (se_torrent s1)"
      "writer_queue t2 = writer_queue (se_torrent s1)"
      "\<forall>j c. taken t2 j c \<longleftrightarrow> taken (se_torrent s1) j c \<or> (j = i \<and> c = b)"
      "m_id (pieces_heap t2 ! loc) = i" "piece_length_at mi i = Inr (m_piece_size (pieces_heap t2 ! loc))"
      "\<not> taken (se_torrent s1) i b" "b * 16384 < unat (m_piece_size (pieces_heap t2 ! loc))"
      using mark_requested [OF _ m fb, of mi now] np' by blast
    define s2 where "s2 = s1\<lparr>se_torrent := t2,
        se_peer := (se_peer s)\<lparr>m_pending_requests := m_pending_requests (se_peer s) + 1\<rparr>\<rparr>"
    define rq where "rq = request_frame (m_id (pieces_heap t2 ! loc)) (of_nat b * m_block_size)
        (request_length (of_nat b * m_block_size) (pieces_heap t2 ! loc))"
    have rq: "rq = block_request mi (i, b)"
      using t2(6,7) by (simp add: rq_def block_request_def request_length_def new_piece_def piece_size_of_def)
    have "request_loop now (Suc n) req k s = request_loop now n (req @ rq) (k + 1) s2"
      using np' by (simp add: io_simps step1 r1 t2(1) s2_def rq_def count_up)
    then obtain bl where bl: "length bl \<le> n" "fresh_blocks mi (m_remote_pieces (se_peer s2)) (se_torrent s2) bl"
      "requested_blocks mi (se_torrent s2) (se_torrent s') bl"
      "se_peer s' = (se_peer s2)\<lparr>m_pending_requests := m_pending_requests (se_peer s2) + int (length bl)\<rparr>"
      "\<forall>req' k'. r = Inr (req', k') \<longrightarrow> k' = k + 1 + length bl \<and> req' = (req @ rq) @ concat (map (block_request mi) bl)"
      using Suc.IH [of s2 "req @ rq" "k + 1"] Suc.prems(2) t2(2) by (auto simp: s2_def)
    have "fresh_blocks mi (m_remote_pieces (se_peer s)) (se_torrent s) ((i, b) # bl)"
      using bl(2) t2 np' rel_i
      by (auto simp: fresh_blocks_def s2_def same_blocks_def rel_def relevant_pieces_def bf_test_sub piece_size_of_def)
    moreover have "requested_blocks mi (se_torrent s) (se_torrent s') ((i, b) # bl)"
      using bl(3) t2(3,4,5) np' by (auto simp: requested_blocks_def s2_def same_blocks_def)
    ultimately show ?thesis
      using bl(1,4,5) rq by (intro exI [of _ "(i, b) # bl"]) (auto simp: s2_def)
  qed
qed

lemma block_request_nonempty: "block_request mi ib \<noteq> []"
  by (simp add: block_request_def request_frame_def)

lemma concat_requests_empty: "concat (map (block_request mi) bl) = [] \<longleftrightarrow> bl = []"
  using block_request_nonempty by (cases bl) auto

lemma requested_blocks_refl: "torrent_reach mi t \<Longrightarrow> requested_blocks mi t t []"
  by (simp add: requested_blocks_def)

lemma fresh_blocks_Nil: "fresh_blocks mi rem t []"
  by (simp add: fresh_blocks_def)

text \<open>What was sent for the blocks: one message with a request for each.\<close>

definition request_log :: "metainfo \<Rightarrow> (u32 \<times> nat) list \<Rightarrow> bytes list" where
  "request_log mi bl = (if bl = [] then [] else [concat (map (block_request mi) bl)])"

lemma request_next_block_spec:
  assumes "torrent_reach mi (se_torrent s)" and "request_next_block env mp s = (r, s')"
  shows "\<exists>bl out. fresh_blocks mi (m_remote_pieces (se_peer s)) (se_torrent s) bl
    \<and> requested_blocks mi (se_torrent s) (se_torrent s') bl
    \<and> se_peer s' = (se_peer s)\<lparr>m_pending_requests := m_pending_requests (se_peer s) + int (length bl),
        p_sent := p_sent (se_peer s) @ out\<rparr>
    \<and> (bl \<noteq> [] \<longrightarrow> m_am_interested (se_peer s) \<and> \<not> m_choking (se_peer s)
        \<and> (\<exists>lim. pending_limit env mp = Inr lim \<and> m_pending_requests (se_peer s') \<le> lim))
    \<and> (out = [] \<or> out = request_log mi bl) \<and> (\<forall>k. r = Inr k \<longrightarrow> k = length bl \<and> out = request_log mi bl)"
proof -
  show ?thesis
  proof (cases "m_am_interested (se_peer s) \<and> \<not> m_choking (se_peer s)
      \<and> (\<exists>lim. pending_limit env mp = Inr lim \<and> lim \<noteq> 0 \<and> m_pending_requests (se_peer s) < lim)")
    case False
    then have "s' = s \<and> (r = Inr 0 \<or> (\<exists>e. r = Inl e))"
      using assms(2) by (auto simp: request_next_block_def io_simps Let_def split: if_splits sum.splits)
    then show ?thesis
      using assms(1)
      by (intro exI [of _ "[]"] exI [of _ "[]"]) (auto simp: request_log_def fresh_blocks_Nil requested_blocks_refl)
  next
    case True
    then obtain lim where lim: "pending_limit env mp = Inr lim" "lim \<noteq> 0" "m_pending_requests (se_peer s) < lim"
      and on: "m_am_interested (se_peer s)" "\<not> m_choking (se_peer s)"
      by blast
    define n where "n = nat (lim - m_pending_requests (se_peer s))"
    obtain r1 s1 where rl: "request_loop (e_now env) n [] 0 s = (r1, s1)"
      by fastforce
    then obtain bl where bl: "length bl \<le> n" "fresh_blocks mi (m_remote_pieces (se_peer s)) (se_torrent s) bl"
      "requested_blocks mi (se_torrent s) (se_torrent s1) bl"
      "se_peer s1 = (se_peer s)\<lparr>m_pending_requests := m_pending_requests (se_peer s) + int (length bl)\<rparr>"
      "\<forall>req' k'. r1 = Inr (req', k') \<longrightarrow> k' = length bl \<and> req' = concat (map (block_request mi) bl)"
      using request_loop_spec [OF assms(1) rl] by auto
    have bound: "m_pending_requests (se_peer s) + int (length bl) \<le> lim"
      using bl(1) lim(3) by (simp add: n_def)
    have eq: "request_next_block env mp s = (case r1 of Inl e \<Rightarrow> (Inl e, s1)
        | Inr (req, k) \<Rightarrow> bindIO (whenIO (req \<noteq> []) (send_msg req)) (\<lambda>_. retIO k) s1)"
      using lim on rl by (simp add: request_next_block_def io_simps n_def Let_def split: sum.splits prod.splits)
    show ?thesis
    proof (cases r1)
      case (Inl e)
      then show ?thesis
        using eq assms(2) bl(2,3,4) bound lim(1) on
        by (intro exI [of _ bl] exI [of _ "[]"]) auto
    next
      case (Inr rk)
      define cr where "cr = concat (map (block_request mi) bl)"
      have cr: "cr = [] \<longleftrightarrow> bl = []"
        unfolding cr_def by (rule concat_requests_empty)
      have rk: "rk = (cr, length bl)"
        using bl(5) Inr by (cases rk) (simp add: cr_def)
      consider "bl = []" | "bl \<noteq> []" "p_connection (se_peer s)" | "bl \<noteq> []" "\<not> p_connection (se_peer s)"
        by blast
      then show ?thesis
      proof cases
        case 1
        then have "r = Inr 0 \<and> s' = s1"
          using eq Inr rk assms(2) cr by (simp add: io_simps)
        then show ?thesis
          using 1 bl(2,3,4) by (intro exI [of _ "[]"] exI [of _ "[]"]) (simp add: request_log_def)
      next
        case 2
        then have "r = Inr (length bl) \<and> s' = s1\<lparr>se_peer := (se_peer s1)\<lparr>p_sent := p_sent (se_peer s1) @ request_log mi bl\<rparr>\<rparr>"
          using eq Inr rk assms(2) bl(4) by (simp add: io_simps send_msg_def cr request_log_def flip: cr_def)
        then show ?thesis
          using bl(2,3,4) bound lim(1) on by (intro exI [of _ bl] exI [of _ "request_log mi bl"]) simp
      next
        case 3
        then have "(\<exists>e. r = Inl e) \<and> s' = s1"
          using eq Inr rk assms(2) bl(4) by (auto simp: io_simps send_msg_def cr)
        then show ?thesis
          using bl(2,3,4) bound lim(1) on by (intro exI [of _ bl] exI [of _ "[]"]) auto
      qed
    qed
  qed
qed

text \<open>
  C14.  The blocks one call of \<open>request_next_block\<close> asks for are pairwise different, the remote has
  them, we do not, and at the time of the call none of them is marked as requested or as received;
  afterwards exactly these are marked in addition.  (A block is asked for again once its mark was
  cleared, by the retry after a timeout or when a piece failed its digest.)  They go out in one message, the number of pending requests grows by their
  number and stays within the limit, and a peer that chokes us or that we are not interested in is
  asked for nothing.
\<close>

theorem request_next_block_fresh:
  assumes "torrent_reach mi (se_torrent s)" and "request_next_block env mp s = (Inr k, s')"
  shows "\<exists>bl. k = length bl \<and> fresh_blocks mi (m_remote_pieces (se_peer s)) (se_torrent s) bl
    \<and> requested_blocks mi (se_torrent s) (se_torrent s') bl
    \<and> se_peer s' = (se_peer s)\<lparr>m_pending_requests := m_pending_requests (se_peer s) + int k,
        p_sent := p_sent (se_peer s) @ request_log mi bl\<rparr>
    \<and> (k \<noteq> 0 \<longrightarrow> m_am_interested (se_peer s) \<and> \<not> m_choking (se_peer s)
        \<and> (\<exists>lim. pending_limit env mp = Inr lim \<and> m_pending_requests (se_peer s') \<le> lim))"
  using request_next_block_spec [OF assms] by fastforce

definition sample_session :: session where
  "sample_session = \<lparr>se_torrent = init_client_pieces 2 (new_torrent sample_meta),
     se_peer = (init_io_service (new_peer 0 ''u''))
       \<lparr>m_am_interested := True, m_choking := False, m_remote_pieces := bf_raw [0x80]\<rparr>\<rparr>"

definition sample_env :: peer_env where
  "sample_env = \<lparr>e_now = 7, e_max_pending = 1, e_peer_id = replicate 20 (CHR ''p''),
     e_read_block = (\<lambda>_ _. Inr [])\<rparr>"

lemma sample_session_reach: "torrent_reach sample_meta (se_torrent sample_session)"
  unfolding sample_session_def
  by (simp, rule torrent_reach.step [OF torrent_reach.init torrent_step.client])

lemma sample_piece: "active_piece 0 True (se_torrent sample_session) = Inr (Some 0, (se_torrent sample_session)
     \<lparr>pieces_heap := [new_piece 0 32768], m_active_pieces := [(0, 0)]\<rparr>)"
  by (simp add: active_piece_def sample_session_def new_torrent_def init_client_pieces_def piece_length_0)

lemma sample_free: "free_block (new_piece 0 32768) = Some 0"
proof -
  have "blocks (new_piece 0 32768) = 2"
    by (simp add: blocks_of_size) (simp add: new_piece_def)
  then show ?thesis
    by (simp add: free_block_def upt_rec) (simp add: new_piece_def)
qed

lemma sample_requests: "\<exists>s'. request_next_block sample_env 0 sample_session = (Inr 1, s')"
proof -
  define rel where "rel = relevant_pieces (bf_raw [0x80]) (se_torrent sample_session)"
  have "bf_size rel = 8" "bf_test rel 0"
    by (simp_all add: rel_def relevant_pieces_def sample_session_def bf_size_sub bf_test_sub init_client_pieces_def
        new_torrent_def)
      (simp_all add: bf_test_def bf_size_def bf_raw_def bf_empty_def bit_simps)
  then have nxt: "bf_next rel True 0 = Inr (Some 0)"
    by (simp add: bf_next_find upt_rec)
  have cast: "numeric_cast uint32_t uint64_t 0 = Inr 0" "numeric_cast uint16_t int32_t 1 = Inr 1"
    by (simp_all add: numeric_cast_def make_unsigned_def static_cast_def ity_max_def)
  define t1 where "t1 = (se_torrent sample_session)\<lparr>pieces_heap := [new_piece 0 32768], m_active_pieces := [(0, 0)]\<rparr>"
  have t1: "torrent_reach sample_meta t1" "map_of (m_active_pieces t1) 0 = Some 0" "pieces_heap t1 ! 0 = new_piece 0 32768"
    using torrent_reach.step [OF sample_session_reach torrent_step.active [OF sample_piece]] by (simp_all add: t1_def)
  have peek: "piece_next_offset 7 False 0 t1 = Inr (Some 0, t1)"
    using piece_next_offset_peek [of t1 0 0 7] torrent_reach_ok [OF t1(1)] t1(2,3) sample_free by simp
  obtain t2 where t2: "piece_next_offset 7 True 0 t1 = Inr (Some 0, t2)"
    using mark_requested [OF t1(1,2), of 0 7] t1(3) sample_free by auto
  have pf: "m_remote_pieces (se_peer sample_session) = bf_raw [0x80]" "m_am_interested (se_peer sample_session)"
    "\<not> m_choking (se_peer sample_session)" "m_pending_requests (se_peer sample_session) = 0"
    "p_connection (se_peer sample_session)"
    by (simp_all add: sample_session_def init_io_service_def new_peer_def)
  have "next_piece_from 7 rel True 0 sample_session = (Inr (Some 0), sample_session\<lparr>se_torrent := t1\<rparr>)"
    by (subst next_piece_from.simps) (simp add: nxt cast io_simps sample_piece peek flip: t1_def)
  then have "next_piece 7 True sample_session = (Inr (Some 0), sample_session\<lparr>se_torrent := t1\<rparr>)"
    by (simp add: next_piece_def io_simps pf flip: rel_def)
  then show ?thesis
    by (simp add: request_next_block_def io_simps sample_env_def pending_limit_def cast t2 send_msg_def pf
        request_frame_def)
qed

theorem request_next_block_fresh_witness:
  "\<exists>s' bl. request_next_block sample_env 0 sample_session = (Inr 1, s') \<and> length bl = 1
    \<and> p_sent (se_peer s') = [concat (map (block_request sample_meta) bl)] \<and> m_pending_requests (se_peer s') = 1"
proof -
  obtain s' where s': "request_next_block sample_env 0 sample_session = (Inr 1, s')"
    using sample_requests by blast
  have "m_pending_requests (se_peer sample_session) = 0" "p_sent (se_peer sample_session) = []"
    by (simp_all add: sample_session_def init_io_service_def new_peer_def)
  with request_next_block_fresh [OF sample_session_reach s'] s' show ?thesis
    by (auto simp: request_log_def)
qed

text \<open>
  The length of a request is that of the block: 16 KiB, or what is left of the piece for its
  last block, provided the piece is not within 16 KiB of 4 GiB.
\<close>

theorem request_length_exact:
  assumes "b * 16384 < unat (m_piece_size p)" and "unat (m_piece_size p) + 16384 \<le> 2 ^ 32"
  shows "unat (request_length (of_nat b * m_block_size) p) = min 16384 (unat (m_piece_size p) - b * 16384)"
proof -
  define sz where "sz = unat (m_piece_size p)"
  have off: "unat (of_nat b * m_block_size) = b * 16384"
  proof -
    have "of_nat b * m_block_size = (of_nat (b * 16384) :: u32)"
      by (simp add: m_block_size_def)
    then show ?thesis
      using assms by (simp only: ) (rule unat_of_nat_less, simp)
  qed
  have sum: "unat (of_nat b * m_block_size + m_block_size) = b * 16384 + 16384"
    using assms unat_block_size off by (subst unat_add_lem [THEN iffD1]) simp_all
  have mod: "unat (m_piece_size p mod m_block_size) = sz mod 16384"
    by (simp add: unat_mod unat_block_size sz_def)
  show ?thesis
  proof (cases "sz < b * 16384 + 16384")
    case True
    then have "sz mod 16384 = sz - b * 16384"
      using assms(1) by (simp add: mod_nat_eqI sz_def)
    with True show ?thesis
      using sum mod by (simp add: request_length_def word_less_nat_alt sz_def)
  next
    case False
    then show ?thesis
      using sum unat_block_size by (simp add: request_length_def word_less_nat_alt sz_def)
  qed
qed

theorem request_length_exact_witness: "unat (request_length (of_nat 2 * m_block_size) (new_piece 3 40000)) = 7232"
  using request_length_exact [of 2 "new_piece 3 40000"] by (simp add: new_piece_def)

section \<open>Runs of a session\<close>

text \<open>
  The calls that reach a peer, from its messages, its torrent and the acceptor.  A call may end
  with an exception; the session then is what it had become at that point.
\<close>

datatype peer_event =
    Choking bool
  | Interested bool
  | Have u32
  | Remote_pieces bitfield
  | Block u32 u32 bytes
  | Request u32 u32 u32
  | Am_interested bool
  | Am_choking bool
  | Report_bitfield
  | Handshake
  | More int

fun handle :: "peer_env \<Rightarrow> peer_event \<Rightarrow> (session, unit) st" where
  "handle env (Choking b) = set_choking env b"
| "handle env (Interested b) = set_interested b"
| "handle env (Have i) = peer_have env i"
| "handle env (Remote_pieces bf) = set_remote_pieces bf"
| "handle env (Block i off d) = p_set_block env i off d"
| "handle env (Request i off len) = request env i off len"
| "handle env (Am_interested b) = set_am_interested b"
| "handle env (Am_choking b) = set_am_choking b"
| "handle env Report_bitfield = report_bitfield"
| "handle env Handshake = handshake env"
| "handle env (More n) = bindIO (request_next_block env n) (\<lambda>_. retIO ())"

inductive session_reach :: "metainfo \<Rightarrow> session \<Rightarrow> bool" for mi where
  outgoing: "torrent_reach mi t \<Longrightarrow> session_reach mi \<lparr>se_torrent = t, se_peer = new_peer now url\<rparr>"
| incoming: "torrent_reach mi t \<Longrightarrow> session_reach mi \<lparr>se_torrent = t, se_peer = accepted_peer now url\<rparr>"
| event: "session_reach mi s \<Longrightarrow> session_reach mi (snd (handle env e s))"
| others: "session_reach mi s \<Longrightarrow> torrent_step (se_torrent s) t \<Longrightarrow> session_reach mi (s\<lparr>se_torrent := t\<rparr>)"
| activity: "session_reach mi s \<Longrightarrow> session_reach mi (s\<lparr>se_peer := update_activity now (se_peer s)\<rparr>)"

text \<open>What the remote concludes from the messages it was sent.\<close>

definition view_choke :: "bytes list \<Rightarrow> bool" where
  "view_choke log = foldl (\<lambda>c m. if m = frame CHOKE [] then True else if m = frame UNCHOKE [] then False else c) True log"

definition view_interest :: "bytes list \<Rightarrow> bool" where
  "view_interest log = foldl (\<lambda>c m. if m = frame INTERESTED [] then True
     else if m = frame NOT_INTERESTED [] then False else c) False log"

text \<open>Every message of the four changes what the remote concludes.\<close>

definition no_redundant :: "bytes list \<Rightarrow> bool" where
  "no_redundant log \<longleftrightarrow> (\<forall>k < length log.
     (log ! k = frame CHOKE [] \<longrightarrow> \<not> view_choke (take k log)) \<and> (log ! k = frame UNCHOKE [] \<longrightarrow> view_choke (take k log))
     \<and> (log ! k = frame INTERESTED [] \<longrightarrow> \<not> view_interest (take k log))
     \<and> (log ! k = frame NOT_INTERESTED [] \<longrightarrow> view_interest (take k log)))"

definition proto_ok :: "peer \<Rightarrow> bool" where
  "proto_ok p \<longleftrightarrow> 0 \<le> m_pending_requests p \<and> m_am_choking p = view_choke (p_sent p)
     \<and> m_am_interested p = view_interest (p_sent p) \<and> no_redundant (p_sent p)"

definition session_ok :: "metainfo \<Rightarrow> session \<Rightarrow> bool" where
  "session_ok mi s \<longleftrightarrow> torrent_reach mi (se_torrent s) \<and> proto_ok (se_peer s)"

lemma frame_inject: "frame i [] = frame j [] \<longleftrightarrow> i = j"
proof
  assume "frame i [] = frame j []"
  then have "pwid i = pwid j"
    by (simp add: frame_def)
  then show "i = j"
    by (metis to_peer_wire_id_pwid)
qed simp

lemma view_snoc:
  "view_choke (log @ [m]) = (if m = frame CHOKE [] then True else if m = frame UNCHOKE [] then False else view_choke log)"
  "view_interest (log @ [m]) =
     (if m = frame INTERESTED [] then True else if m = frame NOT_INTERESTED [] then False else view_interest log)"
  by (simp_all add: view_choke_def view_interest_def)

lemma no_redundant_snoc:
  "no_redundant (log @ [m]) \<longleftrightarrow> no_redundant log
     \<and> (m = frame CHOKE [] \<longrightarrow> \<not> view_choke log) \<and> (m = frame UNCHOKE [] \<longrightarrow> view_choke log)
     \<and> (m = frame INTERESTED [] \<longrightarrow> \<not> view_interest log) \<and> (m = frame NOT_INTERESTED [] \<longrightarrow> view_interest log)"
proof -
  have "no_redundant (log @ [m]) \<longleftrightarrow> (\<forall>k < Suc (length log).
     ((log @ [m]) ! k = frame CHOKE [] \<longrightarrow> \<not> view_choke (take k (log @ [m])))
     \<and> ((log @ [m]) ! k = frame UNCHOKE [] \<longrightarrow> view_choke (take k (log @ [m])))
     \<and> ((log @ [m]) ! k = frame INTERESTED [] \<longrightarrow> \<not> view_interest (take k (log @ [m])))
     \<and> ((log @ [m]) ! k = frame NOT_INTERESTED [] \<longrightarrow> view_interest (take k (log @ [m]))))"
    by (simp add: no_redundant_def)
  also have "\<dots> \<longleftrightarrow> no_redundant log
     \<and> (m = frame CHOKE [] \<longrightarrow> \<not> view_choke log) \<and> (m = frame UNCHOKE [] \<longrightarrow> view_choke log)
     \<and> (m = frame INTERESTED [] \<longrightarrow> \<not> view_interest log) \<and> (m = frame NOT_INTERESTED [] \<longrightarrow> view_interest log)"
    unfolding All_less_Suc no_redundant_def by (auto simp: nth_append)
  finally show ?thesis .
qed

lemma proto_ok_long:
  assumes "proto_ok p" and "length m \<noteq> 5"
  shows "proto_ok (p\<lparr>p_sent := p_sent p @ [m]\<rparr>)"
proof -
  have "m \<noteq> frame i []" for i
    using assms(2) by auto
  with assms(1) show ?thesis
    by (simp add: proto_ok_def view_snoc no_redundant_snoc)
qed

lemma session_ok_send:
  assumes "session_ok mi s" and "length m \<noteq> 5"
  shows "session_ok mi (snd (send_msg m s))"
  using assms proto_ok_long [of "se_peer s" m] by (simp add: session_ok_def send_msg_def)

lemma keeps_send [keeps_intros]: "length m \<noteq> 5 \<Longrightarrow> keeps (session_ok mi) (send_msg m)"
  by (simp add: keeps_def session_ok_send)

lemma keeps_on_peer: "(\<And>p. proto_ok p \<Longrightarrow> proto_ok (f p)) \<Longrightarrow> keeps (session_ok mi) (on_peer f)"
  by (simp add: keeps_def session_ok_def io_simps)

lemma keeps_on_torrent: "(\<And>t. torrent_reach mi t \<Longrightarrow> torrent_reach mi (f t)) \<Longrightarrow> keeps (session_ok mi) (on_torrent f)"
  by (simp add: keeps_def session_ok_def io_simps)

lemma keeps_with_torrent:
  "(\<And>t a t'. torrent_reach mi t \<Longrightarrow> f t = Inr (a, t') \<Longrightarrow> torrent_reach mi t') \<Longrightarrow> keeps (session_ok mi) (with_torrent f)"
  by (auto simp: keeps_def session_ok_def io_simps split: sum.splits)

lemma keeps_torrent_ops [keeps_intros]:
  "keeps (session_ok mi) (with_torrent (active_piece i c))"
  "keeps (session_ok mi) (with_torrent (t_set_block now i offset data))"
  "keeps (session_ok mi) (on_torrent (init_client_pieces n))"
  by (auto intro!: keeps_with_torrent keeps_on_torrent intro: torrent_reach.step torrent_step.intros)

lemma keeps_request_next_block [keeps_intros]: "keeps (session_ok mi) (request_next_block env mp)"
  unfolding keeps_def
proof (intro allI impI)
  fix s
  assume s: "session_ok mi s"
  obtain r s' where r: "request_next_block env mp s = (r, s')"
    by fastforce
  have reach: "torrent_reach mi (se_torrent s)"
    using s by (simp add: session_ok_def)
  obtain bl out where spec: "requested_blocks mi (se_torrent s) (se_torrent s') bl"
    "se_peer s' = (se_peer s)\<lparr>m_pending_requests := m_pending_requests (se_peer s) + int (length bl),
        p_sent := p_sent (se_peer s) @ out\<rparr>" "out = [] \<or> out = request_log mi bl"
    using request_next_block_spec [OF reach r] by blast
  define p where "p = (se_peer s)\<lparr>m_pending_requests := m_pending_requests (se_peer s) + int (length bl)\<rparr>"
  have p: "proto_ok p"
    using s by (simp add: session_ok_def proto_ok_def p_def)
  have len: "length (concat (map (block_request mi) bl)) = 17 * length bl"
    by (induction bl) (simp_all add: block_request_def request_frame_def)
  have "17 * length bl \<noteq> 5"
    by presburger
  then have "proto_ok (p\<lparr>p_sent := p_sent p @ out\<rparr>)"
    using spec(3) p proto_ok_long [OF p, of "concat (map (block_request mi) bl)"] len
    by (auto simp: request_log_def)
  then show "session_ok mi (snd (request_next_block env mp s))"
    using spec(1,2) by (simp add: r session_ok_def requested_blocks_def p_def)
qed

lemma keeps_set_am_choking [keeps_intros]: "keeps (session_ok mi) (set_am_choking b)"
  unfolding keeps_def
  by (auto simp: set_am_choking_def io_simps send_msg_def session_ok_def proto_ok_def view_snoc no_redundant_snoc frame_inject)

lemma keeps_set_am_interested [keeps_intros]: "keeps (session_ok mi) (set_am_interested b)"
  unfolding keeps_def
  by (auto simp: set_am_interested_def io_simps send_msg_def session_ok_def proto_ok_def view_snoc no_redundant_snoc frame_inject)

lemma bf_next_nonempty:
  assumes "bf_next bf True 0 = Inr (Some n)"
  shows "m_bytes bf \<noteq> []"
  using assms by (auto simp: bf_next_find bf_size_def find_Some_iff)

lemma keeps_report_bitfield [keeps_intros]: "keeps (session_ok mi) report_bitfield"
  unfolding keeps_def
proof (intro allI impI)
  fix s
  assume s: "session_ok mi s"
  define bf where "bf = m_client_pieces (se_torrent s)"
  show "session_ok mi (snd (report_bitfield s))"
  proof (cases "\<exists>n. bf_next bf True 0 = Inr (Some n)")
    case True
    then have "length (to_big_endian (v :: u32) @ pwid BITFIELD # m_bytes bf) \<noteq> 5" for v
      using bf_next_nonempty by auto
    with s have "session_ok mi (snd (send_msg (to_big_endian (v :: u32) @ pwid BITFIELD # m_bytes bf) s))" for v
      by (rule session_ok_send)
    with s True show ?thesis
      by (auto simp: report_bitfield_def io_simps simp flip: bf_def split: sum.splits)
  next
    case False
    with s show ?thesis
      by (cases "bf_next bf True 0") (auto simp: report_bitfield_def io_simps simp flip: bf_def)
  qed
qed

lemma keeps_handle: "keeps (session_ok mi) (handle env e)"
proof (cases e)
  case (Choking b)
  then show ?thesis
    by (auto simp: set_choking_def proto_ok_def intro!: keeps_intros keeps_on_peer)
next
  case (Interested b)
  then show ?thesis
    by (auto simp: set_interested_def proto_ok_def intro!: keeps_intros keeps_on_peer)
next
  case (Have i)
  then show ?thesis
    by (auto simp: peer_have_def proto_ok_def intro!: keeps_intros keeps_on_peer)
next
  case (Remote_pieces bf)
  then show ?thesis
    by (auto simp: set_remote_pieces_def proto_ok_def intro!: keeps_intros keeps_on_peer)
next
  case (Block i off d)
  then show ?thesis
    by (auto simp: p_set_block_def proto_ok_def intro!: keeps_intros keeps_on_peer)
next
  case (Request i off len)
  then show ?thesis
    by (auto simp: request_def piece_message_def intro!: keeps_intros split: option.splits)
next
  case Handshake
  then show ?thesis
    by (auto simp: handshake_def init_io_service_def handshake_bytes_def proto_ok_def intro!: keeps_intros keeps_on_peer)
qed (auto intro!: keeps_intros)

lemma session_reach_ok: "session_reach mi s \<Longrightarrow> session_ok mi s"
proof (induction rule: session_reach.induct)
  case (event s env e)
  then show ?case
    using keeps_handle by (simp add: keeps_def)
next
  case (others s t)
  then show ?case
    by (auto simp: session_ok_def intro: torrent_reach.step)
qed (simp_all add: session_ok_def proto_ok_def new_peer_def accepted_peer_def init_io_service_def update_activity_def
      view_choke_def view_interest_def no_redundant_def)

text \<open>
  In every state of a session, whatever messages arrive and whatever fails on the way: the
  remote, reading our messages, knows whether we choke it and whether we are interested in it; no
  such message repeats what it already knows; the count of pending requests is never negative; and
  the torrent is in a state that \<open>torrent_reach\<close> allows.
\<close>

theorem session_protocol:
  assumes "session_reach mi s"
  shows "m_am_choking (se_peer s) = view_choke (p_sent (se_peer s))
    \<and> m_am_interested (se_peer s) = view_interest (p_sent (se_peer s))
    \<and> no_redundant (p_sent (se_peer s)) \<and> 0 \<le> m_pending_requests (se_peer s)
    \<and> torrent_reach mi (se_torrent s)"
  using session_reach_ok [OF assms] by (simp add: session_ok_def proto_ok_def)

definition sample_incoming :: session where
  "sample_incoming = \<lparr>se_torrent = new_torrent sample_meta, se_peer = accepted_peer 0 ''u''\<rparr>"

lemma sample_incoming_interested:
  defines "s \<equiv> snd (handle sample_env (Interested True) sample_incoming)"
  shows "session_reach sample_meta s" and "p_sent (se_peer s) = [frame UNCHOKE []]" and "\<not> m_am_choking (se_peer s)"
proof -
  show "session_reach sample_meta s"
    unfolding s_def sample_incoming_def
    by (rule session_reach.event [OF session_reach.incoming [OF torrent_reach.init]])
qed (simp_all add: s_def sample_incoming_def set_interested_def set_am_choking_def io_simps send_msg_def accepted_peer_def
      init_io_service_def new_peer_def)

theorem session_protocol_witness:
  "\<not> view_choke [frame UNCHOKE []] \<and> no_redundant [frame UNCHOKE []]"
  using session_protocol [OF sample_incoming_interested(1)] sample_incoming_interested(2,3) by simp

end
