(* ===== verification/Message.thy ===== *)
theory Message
  imports Peer
begin

text \<open>
  \<^verbatim>\<open>Message::parse\<close> of \<^verbatim>\<open>src/messages.cpp\<close> and the loop of
  \<^verbatim>\<open>PeerConnection::handle_response\<close> in \<^verbatim>\<open>src/peer.cpp\<close> that feeds it the bytes
  received.  Parsing a message acts on the session and returns how many bytes it consumed.
\<close>

section \<open>Parsing\<close>

definition MAX_INCOMING_DATA_SIZE :: u32 where
  "MAX_INCOMING_DATA_SIZE = 2 * 1024 * 1024"

text \<open>The branch of a handshake; one that waits for more of its bitfield consumes nothing.\<close>

definition parse_handshake :: "peer_env \<Rightarrow> handshake_msg \<Rightarrow> (session, nat) st" where
  "parse_handshake env hs =
     (if hs_consumed hs = 0 then retIO 0
      else
        bindIO (getIO (verify_info_hash (hs_info_hash hs))) (\<lambda>ok.
        if \<not> ok then retIO (hs_consumed hs)
        else
          bindIO (whenIO (bf_size (hs_bitfield hs) \<noteq> 0) (set_remote_pieces (hs_bitfield hs))) (\<lambda>_.
          bindIO (getIO (\<lambda>s. m_listening (se_peer s))) (\<lambda>listening.
          bindIO (whenIO listening (handshake env)) (\<lambda>_.
          bindIO report_bitfield (\<lambda>_.
          bindIO (set_am_interested True) (\<lambda>_. retIO (hs_consumed hs))))))))"

text \<open>
  A \<^verbatim>\<open>PIECE\<close> message: the end of the data is computed in 32 bits; past the buffer it is
  no iterator of it.
\<close>

definition parse_piece :: "peer_env \<Rightarrow> bytes \<Rightarrow> u32 \<Rightarrow> (session, unit) st" where
  "parse_piece env msg len =
     bindIO (liftIO (from_big_endian msg 5)) (\<lambda>index :: u32.
     bindIO (liftIO (from_big_endian msg 9)) (\<lambda>offset :: u32.
     let n = unat (len - 9) in
     if 13 + n > length msg then throwIO (Undefined_behaviour ''PIECE: data ends outside of the buffer'')
     else p_set_block env index offset (take n (drop 13 msg))))"

definition parse_request :: "peer_env \<Rightarrow> bytes \<Rightarrow> (session, unit) st" where
  "parse_request env msg =
     bindIO (liftIO (from_big_endian msg 5)) (\<lambda>index :: u32.
     bindIO (liftIO (from_big_endian msg 9)) (\<lambda>begin :: u32.
     bindIO (liftIO (from_big_endian msg 13)) (\<lambda>len :: u32.
     request env index begin len)))"

definition parse_body :: "peer_env \<Rightarrow> bytes \<Rightarrow> u32 \<Rightarrow> peer_wire_id \<Rightarrow> (session, nat) st" where
  "parse_body env msg len ident =
     (case ident of
        CHOKE \<Rightarrow> bindIO (set_choking env True) (\<lambda>_. retIO (unat (len + 4)))
      | UNCHOKE \<Rightarrow> bindIO (set_choking env False) (\<lambda>_. retIO (unat (len + 4)))
      | PIECE \<Rightarrow> bindIO (parse_piece env msg len) (\<lambda>_. retIO (unat (len + 4)))
      | INTERESTED \<Rightarrow> bindIO (set_interested True) (\<lambda>_. retIO (unat (len + 4)))
      | NOT_INTERESTED \<Rightarrow> bindIO (set_interested False) (\<lambda>_. retIO (unat (len + 4)))
      | HAVE \<Rightarrow>
          bindIO (liftIO (from_big_endian msg 5)) (\<lambda>have_id :: u32.
          bindIO (peer_have env have_id) (\<lambda>_. retIO 9))
      | BITFIELD \<Rightarrow>
          bindIO (set_remote_pieces (bf_raw (take (unat (len - 1)) (drop 5 msg)))) (\<lambda>_. retIO (unat (len + 4)))
      | REQUEST \<Rightarrow> bindIO (parse_request env msg) (\<lambda>_. retIO (unat (len + 4)))
      | _ \<Rightarrow> retIO (length msg))"

definition message_parse :: "peer_env \<Rightarrow> bytes \<Rightarrow> (session, nat) st" where
  "message_parse env msg =
     bindIO (liftIO (handshake_parse msg)) (\<lambda>hs.
     bindIO (on_peer (update_activity (e_now env))) (\<lambda>_.
     case hs of
       Some h \<Rightarrow> parse_handshake env h
     | None \<Rightarrow>
         if 4 \<le> length msg then
           bindIO (liftIO (from_big_endian msg 0)) (\<lambda>len :: u32.
           if len > MAX_INCOMING_DATA_SIZE then
             bindIO (on_peer stop_peer) (\<lambda>_. bindIO (on_peer peer_disconnected) (\<lambda>_. retIO 0))
           else if unat (len + 4) > length msg then retIO 0
           else if len = 0 then retIO 4
           else if 5 \<le> length msg then
             bindIO (liftIO (vec_at msg 4)) (\<lambda>b. parse_body env msg len (to_peer_wire_id b))
           else retIO (length msg))
         else retIO 0))"

section \<open>The bytes of a connection\<close>

text \<open>The loop over the buffer; it returns what is left for the next read.\<close>

function consume_loop :: "peer_env \<Rightarrow> bytes \<Rightarrow> (session, bytes) st" where
  "consume_loop env response s =
     (if response = [] then (Inr [], s)
      else case message_parse env response s of
          (Inl e, s') \<Rightarrow> (Inl e, s')
        | (Inr consumed, s') \<Rightarrow>
            if consumed = 0 then (Inr response, s') else consume_loop env (drop consumed response) s')"
  by pat_completeness auto
termination
  by (relation "measure (\<lambda>(env, response, s). length response)") auto

declare consume_loop.simps [simp del]

datatype read_error = Ok | Eof | Failed

text \<open>
  \<^verbatim>\<open>handle_response\<close>: the bytes read were appended to what was left.  It returns the new
  rest, or nothing when no further read is started.
\<close>

definition handle_response :: "peer_env \<Rightarrow> read_error \<Rightarrow> bytes \<Rightarrow> (session, bytes option) st" where
  "handle_response env err response =
     bindIO (getIO (\<lambda>s. p_stopped (se_peer s))) (\<lambda>stopped.
     if stopped then retIO None
     else case err of
         Ok \<Rightarrow> bindIO (consume_loop env response) (\<lambda>rest. retIO (Some rest))
       | Failed \<Rightarrow> retIO None
       | Eof \<Rightarrow> bindIO (on_peer peer_disconnected) (\<lambda>_. retIO None))"

section \<open>Any bytes keep the protocol\<close>

lemma keeps_ops [keeps_intros]:
  "keeps (session_ok mi) (set_choking env b)" "keeps (session_ok mi) (set_interested b)"
  "keeps (session_ok mi) (peer_have env i)" "keeps (session_ok mi) (set_remote_pieces bf)"
  "keeps (session_ok mi) (p_set_block env i off d)" "keeps (session_ok mi) (request env i off len)"
  "keeps (session_ok mi) (handshake env)"
  using keeps_handle [of mi env "Choking b"] keeps_handle [of mi env "Interested b"]
    keeps_handle [of mi env "Have i"] keeps_handle [of mi env "Remote_pieces bf"]
    keeps_handle [of mi env "Block i off d"] keeps_handle [of mi env "Request i off len"]
    keeps_handle [of mi env Handshake]
  by simp_all

lemma keeps_flags [keeps_intros]:
  "keeps (session_ok mi) (on_peer (update_activity now))" "keeps (session_ok mi) (on_peer stop_peer)"
  "keeps (session_ok mi) (on_peer peer_disconnected)"
  by (auto simp: update_activity_def stop_peer_def peer_disconnected_def proto_ok_def intro!: keeps_on_peer)

lemma keeps_message_parse [keeps_intros]: "keeps (session_ok mi) (message_parse env msg)"
  by (auto simp: message_parse_def parse_handshake_def parse_body_def parse_piece_def parse_request_def Let_def
      intro!: keeps_intros split: option.split peer_wire_id.split)

lemma keeps_consume_loop [keeps_intros]: "keeps (session_ok mi) (consume_loop env response)"
  unfolding keeps_def
proof (intro allI impI)
  fix s
  assume "session_ok mi s"
  then show "session_ok mi (snd (consume_loop env response s))"
  proof (induction env response s rule: consume_loop.induct)
    case (1 env response s)
    have step: "session_ok mi s'" if "message_parse env response s = (r, s')" for r s'
      using keepsD [OF keeps_message_parse 1(2) that] .
    show ?case
      using 1 step by (subst consume_loop.simps) (auto split: prod.splits sum.splits)
  qed
qed

lemma keeps_handle_response [keeps_intros]: "keeps (session_ok mi) (handle_response env err response)"
  by (auto simp: handle_response_def intro!: keeps_intros split: read_error.split)

text \<open>What a sequence of reads makes of a session.\<close>

definition after_reads :: "(peer_env \<times> read_error \<times> bytes) list \<Rightarrow> session \<Rightarrow> session" where
  "after_reads = fold (\<lambda>(env, err, response) s. snd (handle_response env err response s))"

lemma session_ok_after_reads: "session_ok mi s \<Longrightarrow> session_ok mi (after_reads reads s)"
  unfolding after_reads_def
  by (induction reads arbitrary: s) (auto intro: keeps_handle_response [unfolded keeps_def, rule_format])

text \<open>
  C9.  Whatever bytes a remote sends, in whatever pieces they arrive and wherever their handling
  fails: the session it leaves behind still tells the remote truthfully whether it is choked and
  whether we are interested, repeats no such message, counts no negative number of pending requests
  and keeps the invariant of the torrent.
\<close>

theorem received_bytes_protocol:
  assumes "session_reach mi s" and "after_reads reads s = s'"
  shows "m_am_choking (se_peer s') = view_choke (p_sent (se_peer s'))
    \<and> m_am_interested (se_peer s') = view_interest (p_sent (se_peer s'))
    \<and> no_redundant (p_sent (se_peer s')) \<and> 0 \<le> m_pending_requests (se_peer s')
    \<and> torrent_reach mi (se_torrent s')"
  using session_ok_after_reads [OF session_reach_ok [OF assms(1)], of reads]
    assms(2) by (simp add: session_ok_def proto_ok_def)

theorem received_bytes_protocol_witness:
  "no_redundant (p_sent (se_peer (after_reads [(sample_env, Ok, [0, 0, 0, 1, 1]), (sample_env, Ok, [7, 7])] sample_incoming)))"
  using received_bytes_protocol [OF session_reach.incoming [OF torrent_reach.init] refl]
  by (simp add: sample_incoming_def)

section \<open>Messages as they are sent\<close>

text \<open>The message that makes a peer handle an event.\<close>

fun wire_payload :: "peer_event \<Rightarrow> peer_wire_id \<times> bytes" where
  "wire_payload (Choking b) = (if b then CHOKE else UNCHOKE, [])"
| "wire_payload (Interested b) = (if b then INTERESTED else NOT_INTERESTED, [])"
| "wire_payload (Have i) = (HAVE, to_big_endian i)"
| "wire_payload (Remote_pieces bf) = (BITFIELD, m_bytes bf)"
| "wire_payload (Block i off d) = (PIECE, to_big_endian i @ to_big_endian off @ d)"
| "wire_payload (Request i off len) = (REQUEST, to_big_endian i @ to_big_endian off @ to_big_endian len)"
| "wire_payload e = (UNKNOWN, [])"

definition wire :: "peer_event \<Rightarrow> bytes" where
  "wire e = frame (fst (wire_payload e)) (snd (wire_payload e))"

definition is_message :: "peer_event \<Rightarrow> bool" where
  "is_message e \<longleftrightarrow> fst (wire_payload e) \<noteq> UNKNOWN \<and> length (snd (wire_payload e)) < 2 * 1024 * 1024"

text \<open>Handling an event after noting the activity, as a computation on the session.\<close>

definition receive :: "peer_env \<Rightarrow> peer_event \<Rightarrow> (session, unit) st" where
  "receive env e = bindIO (on_peer (update_activity (e_now env))) (\<lambda>_. handle env e)"

lemma frame_len:
  assumes "n < 2 * 1024 * 1024"
  shows "unat (of_nat (1 + n) :: u32) = 1 + n" "unat (of_nat (1 + n) + 4 :: u32) = 5 + n"
    "unat (of_nat (1 + n) - 1 :: u32) = n" "8 \<le> n \<Longrightarrow> unat (of_nat (1 + n) - 9 :: u32) = n - 8"
    "\<not> (of_nat (1 + n) :: u32) > MAX_INCOMING_DATA_SIZE" "(of_nat (1 + n) :: u32) \<noteq> 0"
proof -
  show u: "unat (of_nat (1 + n) :: u32) = 1 + n"
    using assms by (intro unat_of_nat_less) simp
  have "of_nat (1 + n) + 4 = (of_nat (5 + n) :: u32)"
    by simp
  then show "unat (of_nat (1 + n) + 4 :: u32) = 5 + n"
    using assms by (simp only: ) (intro unat_of_nat_less, simp)
  have "of_nat (1 + n) - 1 = (of_nat n :: u32)"
    by simp
  then show "unat (of_nat (1 + n) - 1 :: u32) = n"
    using assms by (simp only: ) (intro unat_of_nat_less, simp)
  show "unat (of_nat (1 + n) - 9 :: u32) = n - 8" if "8 \<le> n"
  proof -
    have "of_nat (1 + n) - 9 = (of_nat (n - 8) :: u32)"
      using that by (simp add: of_nat_diff)
    then show ?thesis
      using assms by (simp only: ) (intro unat_of_nat_less, simp)
  qed
  have "unat MAX_INCOMING_DATA_SIZE = 2 * 1024 * 1024"
    by (simp add: MAX_INCOMING_DATA_SIZE_def)
  then show "\<not> (of_nat (1 + n) :: u32) > MAX_INCOMING_DATA_SIZE"
    using assms u by (simp add: word_less_nat_alt)
  show "(of_nat (1 + n) :: u32) \<noteq> 0"
    using u by auto
qed

lemma parse_frame:
  assumes "handshake_parse (frame i payload @ rest) = Inr None"
    and "length payload < 2 * 1024 * 1024" and "length rest < 2 ^ 63"
  shows "message_parse env (frame i payload @ rest) = bindIO (on_peer (update_activity (e_now env)))
    (\<lambda>_. parse_body env (frame i payload @ rest) (of_nat (1 + length payload)) i)"
proof -
  have "from_big_endian (frame i payload @ rest) 0 = Inr (of_nat (1 + length payload) :: u32)"
    using assms(2,3) by (intro frame_length_field) simp
  moreover have "vec_at (frame i payload @ rest) 4 = Inr (pwid i)"
    using nth_frame_id [of i payload rest] by (simp add: vec_at_def)
  ultimately show ?thesis
    using frame_len [OF assms(2)] assms(1)
    by (intro ext) (simp add: message_parse_def io_simps)
qed

lemma bf_raw_bytes [simp]: "bf_raw (m_bytes bf) = bf"
  by (simp add: bf_raw_def)

lemma parse_wire_body:
  assumes "is_message e" and "length rest < 2 ^ 63"
  shows "parse_body env (wire e @ rest) (of_nat (1 + length (snd (wire_payload e)))) (fst (wire_payload e)) =
    bindIO (handle env e) (\<lambda>_. retIO (length (wire e)))"
proof (cases e)
  case (Have i)
  then have "from_big_endian (wire e @ rest) 5 = Inr i"
    using frame_field [of "[i]" "[]" rest 0 HAVE] assms(2) by (simp add: wire_def)
  with Have show ?thesis
    by (intro ext) (simp add: parse_body_def wire_def io_simps)
next
  case (Remote_pieces bf)
  then show ?thesis
    using assms frame_len [of "length (m_bytes bf)"]
    by (intro ext) (simp add: parse_body_def wire_def is_message_def frame_def)
next
  case (Block i off d)
  have len: "length d + 8 < 2 * 1024 * 1024"
    using assms(1) Block by (simp add: is_message_def)
  have fields: "from_big_endian (wire e @ rest) 5 = Inr i" "from_big_endian (wire e @ rest) 9 = Inr off"
    using frame_field [of "[i, off]" d rest 0 PIECE] frame_field [of "[i, off]" d rest 1 PIECE] assms(2) len Block
    by (simp_all add: wire_def)
  have data: "take (length d) (drop 13 (wire e @ rest)) = d"
    using Block by (simp add: wire_def frame_def)
  show ?thesis
    using fields data frame_len [of "8 + length d"] len Block
    by (intro ext) (simp add: parse_body_def parse_piece_def wire_def io_simps)
next
  case (Request i off len)
  have "from_big_endian (wire e @ rest) (5 + 4 * k) = Inr ([i, off, len] ! k)" if "k < 3" for k
    using frame_field [of "[i, off, len]" "[]" rest k REQUEST] assms(2) that Request
    by (simp add: wire_def)
  from this [of 0] this [of 1] this [of 2] show ?thesis
    using Request frame_len [of 12]
    by (intro ext) (simp add: parse_body_def parse_request_def wire_def io_simps)
qed (use assms frame_len [of 0] in \<open>simp_all add: parse_body_def wire_def is_message_def\<close>)

lemma message_parse_wire:
  assumes "is_message e" and "handshake_parse (wire e @ rest) = Inr None" and "length rest < 2 ^ 63"
  shows "message_parse env (wire e @ rest) = bindIO (receive env e) (\<lambda>_. retIO (length (wire e)))"
proof -
  have "message_parse env (wire e @ rest) = bindIO (on_peer (update_activity (e_now env)))
      (\<lambda>_. parse_body env (wire e @ rest) (of_nat (1 + length (snd (wire_payload e)))) (fst (wire_payload e)))"
    using parse_frame [of "fst (wire_payload e)" "snd (wire_payload e)" rest env] assms
    by (simp add: wire_def is_message_def)
  then show ?thesis
    by (simp only: parse_wire_body [OF assms(1,3)] receive_def bindIO_assoc)
qed

section \<open>A stream of messages\<close>

text \<open>A buffer in which no handshake starts.\<close>

definition no_start :: "bytes \<Rightarrow> bool" where
  "no_start buf \<longleftrightarrow> search buf BT_START = None"

lemma handshake_parse_no_start: "no_start buf \<Longrightarrow> handshake_parse buf = Inr None"
  by (simp add: handshake_parse.simps no_start_def)

lemma no_start_short:
  assumes "length buf < 20"
  shows "no_start buf"
  unfolding no_start_def search_None
proof (intro allI impI)
  fix m
  assume "m \<le> length buf"
  have "length (take (length BT_START) (drop m buf)) \<noteq> length BT_START"
    using assms by simp
  then show "take (length BT_START) (drop m buf) \<noteq> BT_START"
    by metis
qed

lemma no_start_drop: "no_start (xs @ ys) \<Longrightarrow> no_start ys"
  by (induction xs) (auto simp: no_start_def split: if_splits)

lemma no_start_take:
  assumes "no_start (xs @ ys)"
  shows "no_start xs"
  unfolding no_start_def search_None
proof (intro allI impI)
  fix m
  assume "m \<le> length xs"
  then have "take (length BT_START) (drop m (xs @ ys)) \<noteq> BT_START"
    using assms unfolding no_start_def search_None by (metis length_append trans_le_add1)
  moreover have "take (length BT_START) (drop m (xs @ ys)) = BT_START"
    if t: "take (length BT_START) (drop m xs) = BT_START"
  proof -
    have "length BT_START \<le> length (drop m xs)"
      using arg_cong [OF t, of length] by simp
    then show ?thesis
      using t \<open>m \<le> length xs\<close> by simp
  qed
  ultimately show "take (length BT_START) (drop m xs) \<noteq> BT_START"
    by blast
qed

lemma message_parse_event_part:
  assumes "is_message e" and "k < length (wire e)" and "no_start (take k (wire e))"
  shows "message_parse env (take k (wire e)) = bindIO (on_peer (update_activity (e_now env))) (\<lambda>_. retIO 0)"
proof (cases "k < 4")
  case True
  then show ?thesis
    using assms by (intro ext) (simp add: message_parse_def io_simps handshake_parse_no_start)
next
  case False
  define n where "n = length (snd (wire_payload e))"
  have n: "n < 2 * 1024 * 1024" "length (wire e) = 5 + n"
    using assms(1) by (simp_all add: n_def is_message_def wire_def)
  have "take k (wire e) = to_big_endian (of_nat (1 + n) :: u32) @ take (k - 4) (pwid (fst (wire_payload e)) # snd (wire_payload e))"
    using False by (simp add: wire_def frame_def n_def)
  then have "from_big_endian (take k (wire e)) 0 = Inr (of_nat (1 + n) :: u32)"
    using be32.dec_at [of "[]" "take (k - 4) (pwid (fst (wire_payload e)) # snd (wire_payload e))" "of_nat (1 + n)"] n
    by (simp add: n_def)
  then show ?thesis
    using False assms(2) frame_len [OF n(1)] n(2) handshake_parse_no_start [OF assms(3)]
    by (intro ext) (simp add: message_parse_def io_simps)
qed

text \<open>What a peer sends: the messages above, and the four zero bytes that keep the connection alive.\<close>

definition wire_of :: "peer_event option \<Rightarrow> bytes" where
  "wire_of m = (case m of None \<Rightarrow> [0, 0, 0, 0] | Some e \<Rightarrow> wire e)"

definition is_wire :: "peer_event option \<Rightarrow> bool" where
  "is_wire m \<longleftrightarrow> (case m of None \<Rightarrow> True | Some e \<Rightarrow> is_message e)"

definition receive_of :: "peer_env \<Rightarrow> peer_event option \<Rightarrow> (session, unit) st" where
  "receive_of env m = bindIO (on_peer (update_activity (e_now env)))
     (\<lambda>_. case m of None \<Rightarrow> retIO () | Some e \<Rightarrow> handle env e)"

lemma wire_of_Some [simp]: "wire_of (Some e) = wire e" "is_wire (Some e) = is_message e" "receive_of env (Some e) = receive env e"
  by (simp_all add: wire_of_def is_wire_def receive_of_def receive_def)

lemma zero_length_field: "length rest < 2 ^ 63 \<Longrightarrow> from_big_endian (0 # 0 # 0 # 0 # rest) 0 = Inr (0 :: u32)"
  using be32.dec_at [of "[]" rest "0 :: u32"] by (simp add: to_big_endian_def)

lemma message_parse_item:
  assumes "is_wire m" and "handshake_parse (wire_of m @ rest) = Inr None" and "length rest < 2 ^ 63"
  shows "message_parse env (wire_of m @ rest) = bindIO (receive_of env m) (\<lambda>_. retIO (length (wire_of m)))"
proof (cases m)
  case None
  have "message_parse env (0 # 0 # 0 # 0 # rest) s = bindIO (receive_of env None) (\<lambda>_. retIO 4) s" for s
    using assms zero_length_field [OF assms(3)]
    by (simp add: None wire_of_def message_parse_def io_simps receive_of_def MAX_INCOMING_DATA_SIZE_def)
  with None show ?thesis
    by (intro ext) (simp add: wire_of_def eval_nat_numeral)
next
  case (Some e)
  with assms show ?thesis
    using message_parse_wire [of e rest env] by simp
qed

lemma message_parse_part:
  assumes "is_wire m" and "k < length (wire_of m)" and "no_start (take k (wire_of m))"
  shows "message_parse env (take k (wire_of m)) = bindIO (on_peer (update_activity (e_now env))) (\<lambda>_. retIO 0)"
proof (cases m)
  case None
  with assms show ?thesis
    by (intro ext) (simp add: wire_of_def message_parse_def io_simps handshake_parse_no_start)
next
  case (Some e)
  with assms show ?thesis
    using message_parse_event_part [of e k env] by simp
qed

text \<open>The rest of a buffer: nothing, or a message that has not arrived completely.\<close>

definition is_rest :: "bytes \<Rightarrow> bool" where
  "is_rest rest \<longleftrightarrow> rest = [] \<or> (\<exists>m k. is_wire m \<and> 0 < k \<and> k < length (wire_of m) \<and> rest = take k (wire_of m))"

definition touch :: "peer_env \<Rightarrow> bytes \<Rightarrow> (session, bytes) st" where
  "touch env rest = bindIO (whenIO (rest \<noteq> []) (on_peer (update_activity (e_now env)))) (\<lambda>_. retIO rest)"

lemma consume_rest: "is_rest rest \<Longrightarrow> no_start rest \<Longrightarrow> consume_loop env rest s = touch env rest s"
  by (subst consume_loop.simps) (auto simp: is_rest_def touch_def io_simps message_parse_part)

lemma consume_whole:
  assumes "\<forall>m \<in> set ms. is_wire m" and "no_start (concat (map wire_of ms) @ rest)"
    and "length (concat (map wire_of ms) @ rest) < 2 ^ 63"
  shows "consume_loop env (concat (map wire_of ms) @ rest) s =
    bindIO (iterIO (receive_of env) ms) (\<lambda>_. consume_loop env rest) s"
  using assms
proof (induction ms arbitrary: s)
  case Nil
  then show ?case
    by (simp add: io_simps)
next
  case (Cons m ms)
  define buf where "buf = concat (map wire_of ms) @ rest"
  have ns: "no_start buf"
    using Cons.prems(2) no_start_drop [of "wire_of m" buf] by (simp add: buf_def)
  have ne: "wire_of m @ buf \<noteq> []" "length (wire_of m) \<noteq> 0"
    by (auto simp: wire_of_def wire_def frame_def split: option.split)
  have parse: "message_parse env (wire_of m @ buf) = bindIO (receive_of env m) (\<lambda>_. retIO (length (wire_of m)))"
    using Cons.prems handshake_parse_no_start [of "wire_of m @ buf"] by (intro message_parse_item) (simp_all add: buf_def)
  have "consume_loop env (wire_of m @ buf) s = bindIO (receive_of env m) (\<lambda>_. consume_loop env buf) s"
    using ne by (subst consume_loop.simps) (auto simp: parse io_simps split: prod.splits sum.splits)
  also have "\<dots> = bindIO (receive_of env m) (\<lambda>_. bindIO (iterIO (receive_of env) ms) (\<lambda>_. consume_loop env rest)) s"
    using Cons.IH Cons.prems ns by (simp add: io_simps buf_def split: prod.splits sum.splits)
  finally show ?case
    by (simp add: buf_def bindIO_assoc)
qed

lemma consume_items:
  assumes "\<forall>m \<in> set ms. is_wire m" and "is_rest rest" and "no_start (concat (map wire_of ms) @ rest)"
    and "length (concat (map wire_of ms) @ rest) < 2 ^ 63"
  shows "consume_loop env (concat (map wire_of ms) @ rest) s = bindIO (iterIO (receive_of env) ms) (\<lambda>_. touch env rest) s"
  using consume_whole [OF assms(1,3,4)] consume_rest [OF assms(2) no_start_drop [OF assms(3)]]
  by (simp add: io_simps split: prod.splits sum.splits)

lemma iterIO_map: "iterIO f (map g xs) = iterIO (\<lambda>x. f (g x)) xs"
  by (induction xs) simp_all

lemma consume_messages:
  assumes "\<forall>e \<in> set es. is_message e" and "is_rest rest" and "no_start (concat (map wire es) @ rest)"
    and "length (concat (map wire es) @ rest) < 2 ^ 63"
  shows "consume_loop env (concat (map wire es) @ rest) s = bindIO (iterIO (receive env) es) (\<lambda>_. touch env rest) s"
  using consume_items [of "map Some es" rest env s] assms by (simp add: iterIO_map comp_def)

text \<open>Cutting a stream of messages: whole messages, and a part of the next one.\<close>

lemma cut_messages:
  assumes "\<forall>m \<in> set ms. is_wire m" and "a @ b = concat (map wire_of ms)"
  shows "\<exists>ms1 ms2 rest. ms = ms1 @ ms2 \<and> a = concat (map wire_of ms1) @ rest \<and> is_rest rest \<and> rest @ b = concat (map wire_of ms2)"
  using assms
proof (induction ms arbitrary: a)
  case Nil
  then show ?case
    by (auto simp: is_rest_def)
next
  case (Cons m ms)
  show ?case
  proof (cases "length a < length (wire_of m)")
    case True
    have "take (length a) (a @ b) = take (length a) (wire_of m @ concat (map wire_of ms))"
      using Cons.prems(2) by simp
    with True have "a = take (length a) (wire_of m)"
      by simp
    with True Cons.prems have "is_rest a"
      unfolding is_rest_def by (metis gr0I length_0_conv list.set_intros(1))
    with Cons.prems(2) show ?thesis
      by (intro exI [of _ "[]"] exI [of _ "m # ms"] exI [of _ a]) simp
  next
    case False
    have "take (length (wire_of m)) (a @ b) = take (length (wire_of m)) (wire_of m @ concat (map wire_of ms))"
      using Cons.prems(2) by simp
    with False have "take (length (wire_of m)) a = wire_of m"
      by simp
    then obtain a' where a': "a = wire_of m @ a'"
      by (metis append_take_drop_id)
    then obtain ms1 ms2 rest where "ms = ms1 @ ms2" "a' = concat (map wire_of ms1) @ rest" "is_rest rest"
      "rest @ b = concat (map wire_of ms2)"
      using Cons.IH [of a'] Cons.prems by auto
    then show ?thesis
      by (intro exI [of _ "m # ms1"] exI [of _ ms2] exI [of _ rest]) (simp add: a')
  qed
qed

lemma iterIO_append: "iterIO f (xs @ ys) = bindIO (iterIO f xs) (\<lambda>_. iterIO f ys)"
proof (induction xs)
  case Nil
  show ?case
    by (rule ext) (simp add: io_simps)
qed (simp add: bindIO_assoc)

lemma bindIO_cong_right: "(\<And>a. f a = g a) \<Longrightarrow> bindIO m f = bindIO m g"
  by presburger

lemma touch_receive:
  "bindIO (touch env rest) (\<lambda>_. bindIO (receive_of env m) f) = bindIO (receive_of env m) f"
  by (rule ext) (simp add: touch_def receive_of_def io_simps update_activity_def)

lemma touch_result: "bindIO (touch env rest) f = bindIO (touch env rest) (\<lambda>_. f rest)"
  by (rule ext) (simp add: touch_def io_simps)

lemma split_messages:
  assumes "\<forall>m \<in> set ms. is_wire m" and "no_start (concat (map wire_of ms))"
    and "length (concat (map wire_of ms)) < 2 ^ 63" and "a @ b = concat (map wire_of ms)"
  shows "bindIO (consume_loop env a) (\<lambda>rest. consume_loop env (rest @ b)) = consume_loop env (a @ b)"
proof -
  obtain ms1 ms2 rest where cut: "ms = ms1 @ ms2" "a = concat (map wire_of ms1) @ rest" "is_rest rest"
    "rest @ b = concat (map wire_of ms2)"
    using cut_messages [OF assms(1,4)] by blast
  have ns: "no_start a" "no_start (rest @ b)"
    using assms(2) no_start_take [of a b] no_start_drop [of "concat (map wire_of ms1)" "rest @ b"]
    unfolding assms(4) [symmetric] cut(2) by simp_all
  have len: "length a < 2 ^ 63" "length (rest @ b) < 2 ^ 63"
    using assms(3) unfolding assms(4) [symmetric] cut(2) by simp_all
  have a: "consume_loop env a = bindIO (iterIO (receive_of env) ms1) (\<lambda>_. touch env rest)"
    using consume_items [of ms1 rest] ns len assms(1) cut(1,2,3) by (intro ext) simp
  have "consume_loop env (concat (map wire_of ms2) @ []) = bindIO (iterIO (receive_of env) ms2) (\<lambda>_. touch env [])"
    using assms(1) ns(2) len(2) unfolding cut(1,4)
    by (intro ext consume_items) (simp_all add: is_rest_def)
  then have b: "consume_loop env (rest @ b) = bindIO (iterIO (receive_of env) ms2) (\<lambda>_. touch env [])"
    by (simp add: cut(4))
  have ab: "consume_loop env (a @ b) = bindIO (iterIO (receive_of env) ms) (\<lambda>_. touch env [])"
    using consume_items [of ms "[]"] assms by (intro ext) (simp add: is_rest_def)
  have absorb: "bindIO (touch env rest) (\<lambda>_. consume_loop env (rest @ b)) = consume_loop env (rest @ b)"
  proof (cases ms2)
    case Nil
    then have "rest = []"
      using cut(4) by simp
    then show ?thesis
      by (intro ext) (simp add: touch_def io_simps)
  next
    case (Cons m ms')
    then show ?thesis
      unfolding b by (simp add: bindIO_assoc touch_receive)
  qed
  have "bindIO (consume_loop env a) (\<lambda>rest. consume_loop env (rest @ b)) =
      bindIO (iterIO (receive_of env) ms1) (\<lambda>_. bindIO (touch env rest) (\<lambda>_. consume_loop env (rest @ b)))"
    unfolding a bindIO_assoc by (subst touch_result) (rule refl)
  also have "\<dots> = bindIO (iterIO (receive_of env) ms1) (\<lambda>_. consume_loop env (rest @ b))"
    by (simp only: absorb)
  also have "\<dots> = bindIO (iterIO (receive_of env) ms) (\<lambda>_. touch env [])"
    unfolding b cut(1) iterIO_append bindIO_assoc ..
  finally show ?thesis
    using ab by simp
qed

text \<open>A message of a kind the client does not support takes all that is behind it with it.\<close>

definition unsupported :: "8 word \<Rightarrow> bytes \<Rightarrow> bytes" where
  "unsupported c payload = to_big_endian (of_nat (1 + length payload) :: u32) @ c # payload"

lemma unsupported_takes_all:
  assumes "to_peer_wire_id c \<in> {CANCEL, PORT, UNKNOWN}" and "length payload < 2 * 1024 * 1024"
    and "no_start (unsupported c payload @ rest)" and "length (unsupported c payload @ rest) < 2 ^ 63"
  shows "consume_loop env (unsupported c payload @ rest) s = (Inr [], s\<lparr>se_peer := update_activity (e_now env) (se_peer s)\<rparr>)"
proof -
  define buf where "buf = unsupported c payload @ rest"
  have len: "from_big_endian buf 0 = Inr (of_nat (1 + length payload) :: u32)" "vec_at buf 4 = Inr c"
    "length buf = 5 + length payload + length rest" "buf \<noteq> []"
    using be32.dec_at [of "[]" "c # payload @ rest" "of_nat (1 + length payload)"] assms(4) length_be32
    by (auto simp: buf_def unsupported_def vec_at_def nth_append)
  then have "message_parse env buf s = (Inr (length buf), s\<lparr>se_peer := update_activity (e_now env) (se_peer s)\<rparr>)"
    using frame_len [OF assms(2)] handshake_parse_no_start [OF assms(3), folded buf_def] assms(1)
    by (auto simp: message_parse_def io_simps parse_body_def)
  then show ?thesis
    using len(4) unfolding buf_def [symmetric] by (subst consume_loop.simps) (simp add: consume_loop.simps)
qed

text \<open>
  C8.  A stream of the messages the client supports (choke, unchoke, interest, \<^verbatim>\<open>HAVE\<close>,
  bitfields, pieces, requests, each below 2 MiB, and keep-alives), as long as the first 20 bytes of a
  handshake do not occur in it, also not inside the data of a piece, is handled message by message in
  its order: reading it is the same as handling the events it encodes, up to the first exception,
  with nothing left in the buffer, and where the stream is cut between two reads makes no
  difference, also in the middle of a message.  At a message of any other kind
  (\<^verbatim>\<open>CANCEL\<close>, \<^verbatim>\<open>PORT\<close> or an id the client does not know) this ends: what is
  before it is handled in order, and it takes all that is behind it in the buffer with it.
\<close>

theorem messages_in_order:
  assumes "\<forall>m \<in> set ms. is_wire m" and "no_start (concat (map wire_of ms))"
    and "length (concat (map wire_of ms)) < 2 ^ 63" and "a @ b = concat (map wire_of ms)"
  shows "consume_loop env (a @ b) s = bindIO (iterIO (receive_of env) ms) (\<lambda>_. retIO []) s
    \<and> bindIO (consume_loop env a) (\<lambda>rest. consume_loop env (rest @ b)) s = consume_loop env (a @ b) s
    \<and> (\<forall>c payload rest. to_peer_wire_id c \<in> {CANCEL, PORT, UNKNOWN} \<and> length payload < 2 * 1024 * 1024
        \<and> no_start (a @ b @ unsupported c payload @ rest) \<and> length (a @ b @ unsupported c payload @ rest) < 2 ^ 63 \<longrightarrow>
      consume_loop env (a @ b @ unsupported c payload @ rest) s =
        bindIO (iterIO (receive_of env) ms) (\<lambda>_. bindIO (on_peer (update_activity (e_now env))) (\<lambda>_. retIO [])) s)"
proof -
  have "consume_loop env (a @ b @ unsupported c payload @ rest) s =
      bindIO (iterIO (receive_of env) ms) (\<lambda>_. bindIO (on_peer (update_activity (e_now env))) (\<lambda>_. retIO [])) s"
    if "to_peer_wire_id c \<in> {CANCEL, PORT, UNKNOWN}" "length payload < 2 * 1024 * 1024"
      "no_start (a @ b @ unsupported c payload @ rest)" "length (a @ b @ unsupported c payload @ rest) < 2 ^ 63"
    for c payload rest
  proof -
    have "consume_loop env (unsupported c payload @ rest) =
        bindIO (on_peer (update_activity (e_now env))) (\<lambda>_. retIO [])"
      using that no_start_drop [of "a @ b" "unsupported c payload @ rest"]
      by (intro ext) (simp add: unsupported_takes_all io_simps)
    moreover have eq: "a @ b @ x = concat (map wire_of ms) @ x" for x
      by (simp flip: assms(4))
    ultimately show ?thesis
      using consume_whole [OF assms(1) that(3,4) [unfolded eq], of env s] unfolding eq by simp
  qed
  then show ?thesis
    using consume_items [of ms "[]" env s] split_messages [OF assms] assms
    by (simp add: is_rest_def touch_def io_simps split: prod.splits sum.splits)
qed

definition sample_stream :: "peer_event option list" where
  "sample_stream = [Some (Choking False), None, Some (Interested True)]"

lemma sample_wire: "concat (map wire_of sample_stream) = [0, 0, 0, 1, 1, 0, 0, 0, 0, 0, 0, 0, 1, 2]"
  by (simp add: sample_stream_def wire_of_def wire_def frame_def pwid.simps to_big_endian_def)

theorem messages_in_order_witness:
  "consume_loop sample_env [0, 0, 0, 1, 1, 0, 0, 0, 0, 0, 0, 0, 1, 2] sample_incoming =
     bindIO (iterIO (receive_of sample_env) sample_stream) (\<lambda>_. retIO []) sample_incoming
   \<and> consume_loop sample_env ([0, 0, 0, 1, 1, 0, 0, 0, 0, 0, 0, 0, 1, 2] @ [0, 0, 0, 1, 8]) sample_incoming =
     bindIO (iterIO (receive_of sample_env) sample_stream)
       (\<lambda>_. bindIO (on_peer (update_activity (e_now sample_env))) (\<lambda>_. retIO [])) sample_incoming"
proof -
  have m: "\<forall>m \<in> set sample_stream. is_wire m"
    by (simp add: is_message_def is_wire_def sample_stream_def)
  have c: "unsupported 8 [] = [0, 0, 0, 1, 8]" "to_peer_wire_id 8 = CANCEL"
    by (simp_all add: unsupported_def to_big_endian_def to_peer_wire_id_def pwid.simps)
  have ns: "no_start [0, 0, 0, 1, 1, 0, 0, 0, 0, 0, 0, 0, 1, 2]"
    "no_start [0, 0, 0, 1, 1, 0, 0, 0, 0, 0, 0, 0, 1, 2, 0, 0, 0, 1, 8]"
    by (simp_all add: no_start_short)
  note run = messages_in_order [OF m, unfolded sample_wire, OF ns(1), of "[0, 0, 0, 1, 1, 0, 0]" "[0, 0, 0, 0, 0, 1, 2]"
      sample_env sample_incoming]
  show ?thesis
    using run run [THEN conjunct2, THEN conjunct2, rule_format, of 8 "[]" "[]"] ns(2) c by simp
qed

text \<open>
  A message that announces more than 2 MiB closes the connection: nothing of it is consumed,
  the torrent is told, and no byte is handled or read any more.
\<close>

theorem oversize_closes:
  assumes "unat len > 2 * 1024 * 1024" and "no_start (to_big_endian (len :: u32) @ rest)"
    and "length rest < 2 ^ 63" and "\<not> p_stopped (se_peer s)"
    and "handle_response env Ok (to_big_endian len @ rest) s = (r, s')"
  shows "r = Inr (Some (to_big_endian len @ rest)) \<and> se_torrent s' = se_torrent s
    \<and> se_peer s' = (se_peer s)\<lparr>m_last_activity := e_now env, p_stopped := True,
          p_disconnected_calls := p_disconnected_calls (se_peer s) + 1\<rparr>
    \<and> handle_response env' err (to_big_endian len @ rest @ extra) s' = (Inr None, s')"
proof -
  have "unat MAX_INCOMING_DATA_SIZE = 2 * 1024 * 1024"
    by (simp add: MAX_INCOMING_DATA_SIZE_def)
  then have big: "len > MAX_INCOMING_DATA_SIZE"
    using assms(1) by (simp add: word_less_nat_alt)
  have "from_big_endian (to_big_endian len @ rest) 0 = Inr len"
    using be32.dec_at [of "[]" rest len] assms(3) by simp
  then have "message_parse env (to_big_endian len @ rest) s =
      (Inr 0, s\<lparr>se_peer := peer_disconnected (stop_peer (update_activity (e_now env) (se_peer s)))\<rparr>)"
    using big handshake_parse_no_start [OF assms(2)] by (simp add: message_parse_def io_simps)
  moreover have "to_big_endian len @ rest \<noteq> []"
    using length_be32 [of len] by (metis append_is_Nil_conv list.size(3) zero_neq_numeral)
  ultimately have "consume_loop env (to_big_endian len @ rest) s = (Inr (to_big_endian len @ rest),
      s\<lparr>se_peer := peer_disconnected (stop_peer (update_activity (e_now env) (se_peer s)))\<rparr>)"
    by (subst consume_loop.simps) (simp del: append_is_Nil_conv)
  then show ?thesis
    using assms(4,5)
    by (auto simp: handle_response_def io_simps peer_disconnected_def stop_peer_def update_activity_def)
qed

theorem oversize_closes_witness:
  "\<exists>s'. handle_response sample_env Ok [0, 0x20, 0, 1] sample_incoming = (Inr (Some [0, 0x20, 0, 1]), s')
     \<and> p_stopped (se_peer s') \<and> se_torrent s' = se_torrent sample_incoming"
proof -
  obtain r s' where r: "handle_response sample_env Ok (to_big_endian (0x200001 :: u32) @ []) sample_incoming = (r, s')"
    by fastforce
  have b: "to_big_endian (0x200001 :: u32) = [0, 0x20, 0, 1]"
    by (simp add: to_big_endian_def)
  have "no_start [0, 0x20, 0, 1]"
    by (simp add: no_start_short)
  moreover have "\<not> p_stopped (se_peer sample_incoming)"
    by (simp add: sample_incoming_def accepted_peer_def init_io_service_def new_peer_def)
  ultimately show ?thesis
    using oversize_closes [of "0x200001" "[]" sample_incoming sample_env r s'] r by (simp add: b)
qed

section \<open>Where the parser goes wrong\<close>

text \<open>
  A handshake that arrives together with one to four bytes of the next message, or with a message
  other than a bitfield (the first one of a remote that has no pieces), is not recognised: its first
  four bytes are read as the length of a message, which is too large, and the connection is closed.
\<close>

theorem cut_handshake_closes:
  assumes "length r = 8" and "length h = 20" and "length i = 20" and "rest \<noteq> []"
    and "length rest < 5 \<or> to_peer_wire_id (rest ! 4) \<noteq> BITFIELD" and "length rest < 2 ^ 31"
  shows "message_parse env (handshake_bytes r h i @ rest) s =
    (Inr 0, s\<lparr>se_peer := peer_disconnected (stop_peer (update_activity (e_now env) (se_peer s)))\<rparr>)"
proof -
  define d where "d = drop 4 (handshake_bytes r h i @ rest)"
  have "to_big_endian (0x13426974 :: u32) = [0x13, byte_of_char (CHR ''B''), byte_of_char (CHR ''i''), byte_of_char (CHR ''t'')]"
    by (simp add: to_big_endian_def byte_of_char_def of_char_def)
  then have eq: "handshake_bytes r h i @ rest = to_big_endian (0x13426974 :: u32) @ d"
    by (simp add: d_def handshake_bytes_def BT_START_def bytes_of_string_def)
  have "length d < 2 ^ 32"
    using assms(6) length_handshake_bytes [OF assms(1-3)] by (simp add: d_def)
  then have "from_big_endian (handshake_bytes r h i @ rest) 0 = Inr (0x13426974 :: u32)"
    unfolding eq using be32.dec_at [of "[]" d "0x13426974"] by simp
  then show ?thesis
    using handshake_unfinished [OF assms(1-5)] assms(6) length_handshake_bytes [OF assms(1-3)]
    by (simp add: message_parse_def io_simps MAX_INCOMING_DATA_SIZE_def)
qed

theorem cut_handshake_closes_witness:
  "p_stopped (se_peer (snd (message_parse sample_env
     (handshake_bytes (replicate 8 0) (replicate 20 (CHR ''h'')) (replicate 20 (CHR ''p'')) @ [0, 0]) sample_incoming)))"
  using cut_handshake_closes [of "replicate 8 0" "replicate 20 (CHR ''h'')" "replicate 20 (CHR ''p'')" "[0, 0]" sample_env sample_incoming]
  by (simp add: peer_disconnected_def stop_peer_def)

text \<open>
  Three ways for the parser to lose or misread what was sent.  A \<^verbatim>\<open>PIECE\<close> message
  shorter than its two fields, with more bytes behind it, is undefined behaviour.  A message the
  client does not support (\<^verbatim>\<open>CANCEL\<close>, \<^verbatim>\<open>PORT\<close>) takes all that is
  behind it in the buffer with it.  And messages that come before a handshake in the buffer are
  skipped, but only the length of the handshake is consumed, so that the next message is read from
  the middle of it.
\<close>

theorem parser_defects:
  assumes "length payload < 8" and "8 \<le> length payload + length rest" and "length rest < 2 ^ 31"
    and "no_start (frame PIECE payload @ rest)" and "i \<in> {CANCEL, PORT}"
    and "no_start (frame i payload @ rest)"
    and "0x13 \<notin> set pre" and "length r = 8" and "length h = 20" and "length pid = 20"
  shows "is_UB (fst (message_parse env (frame PIECE payload @ rest) s))
    \<and> consume_loop env (frame i payload @ rest) s = (Inr [], s\<lparr>se_peer := update_activity (e_now env) (se_peer s)\<rparr>)
    \<and> handshake_parse (pre @ handshake_bytes r h pid) = Inr (Some \<lparr>hs_reserved = r, hs_info_hash = h,
          hs_peer_id = pid, hs_bitfield = bf_empty, hs_consumed = 68\<rparr>)"
proof (intro conjI)
  define n where "n = length payload"
  have small: "n < 8" "n < 2 * 1024 * 1024"
    using assms(1) by (simp_all add: n_def)
  have parse: "message_parse env (frame j payload @ rest) = bindIO (on_peer (update_activity (e_now env)))
      (\<lambda>_. parse_body env (frame j payload @ rest) (of_nat (1 + n)) j)" if "no_start (frame j payload @ rest)" for j
    using parse_frame [OF handshake_parse_no_start [OF that], of env] small(2) assms(3) by (simp add: n_def)
  have wrap: "unat (of_nat (1 + n) - 9 :: u32) = 2 ^ 32 - (8 - n)"
  proof -
    have "of_nat (1 + n) - 9 = (of_nat (2 ^ 32 - (8 - n)) :: u32)"
      using small(1) by (simp add: of_nat_diff)
    then show ?thesis
      using small(1) by (simp only: ) (intro unat_of_nat_less, simp)
  qed
  have fields: "\<exists>v. from_big_endian (frame PIECE payload @ rest) k = Inr (v :: u32)" if "k = 5 \<or> k = 9" for k
    using be32.dec_ok_iff [of "frame PIECE payload @ rest" k] assms(1-3) that by auto
  obtain u v :: u32 where "from_big_endian (frame PIECE payload @ rest) 5 = Inr u"
    "from_big_endian (frame PIECE payload @ rest) 9 = Inr v"
    using fields [of 5] fields [of 9] by auto
  then show "is_UB (fst (message_parse env (frame PIECE payload @ rest) s))"
    using wrap assms(3) small by (simp add: parse [OF assms(4)] parse_body_def parse_piece_def io_simps n_def Let_def)
  show "consume_loop env (frame i payload @ rest) s = (Inr [], s\<lparr>se_peer := update_activity (e_now env) (se_peer s)\<rparr>)"
  proof -
    have "message_parse env (frame i payload @ rest) s =
        (Inr (length (frame i payload @ rest)), s\<lparr>se_peer := update_activity (e_now env) (se_peer s)\<rparr>)"
      using assms(5) by (auto simp: parse [OF assms(6)] parse_body_def io_simps)
    moreover have "frame i payload \<noteq> []"
      by (simp add: frame_def)
    ultimately show ?thesis
      by (subst consume_loop.simps) (simp add: consume_loop.simps)
  qed
  show "handshake_parse (pre @ handshake_bytes r h pid) = Inr (Some \<lparr>hs_reserved = r, hs_info_hash = h,
          hs_peer_id = pid, hs_bitfield = bf_empty, hs_consumed = 68\<rparr>)"
    using handshake_parse_skip [OF assms(7), of "handshake_bytes r h pid"] handshake_alone [OF assms(8-10)]
      length_handshake_bytes [OF assms(8-10)]
    by (simp add: handshake_bytes_def)
qed

theorem parser_defects_witness:
  "is_UB (fst (message_parse sample_env (frame PIECE [] @ replicate 8 0) sample_incoming))
    \<and> fst (consume_loop sample_env (frame PORT [] @ replicate 8 0) sample_incoming) = Inr []"
proof -
  have "no_start (frame j [] @ replicate 8 0)" for j
    by (simp add: no_start_short)
  then show ?thesis
    using parser_defects [of "[]" "replicate 8 0" PORT "[0, 0, 0, 0]" "replicate 8 0" "replicate 20 (CHR ''h'')"
        "replicate 20 (CHR ''p'')" sample_env sample_incoming]
    by simp
qed

end
