(* ===== verification/Connection.thy ===== *)
theory Connection
  imports Prelude
begin

text \<open>
  The sending side of \<^verbatim>\<open>class PeerConnection\<close> in \<^verbatim>\<open>src/peer.cpp\<close>: one message is
  in flight at a time, the others wait in \<open>c_queue\<close>.  Resolving, connecting and writing are
  asynchronous; the operations started and not yet completed are in \<open>c_ops\<close>, and their
  completion, with any outcome, is a step of the model.
\<close>

section \<open>State\<close>

datatype async = Resolving | Connecting nat | Writing bytes bool

text \<open>
  \<open>c_accepted\<close>: the socket came from the acceptor, it is open and has a remote endpoint.
  \<open>c_endpoint\<close>: \<^verbatim>\<open>endpoint_\<close> is not the default iterator.
\<close>

record connection =
  c_msg :: bytes
  c_queue :: "bytes list"
  c_connected :: bool
  c_endpoint :: bool
  c_accepted :: bool
  c_stopped :: bool
  c_ops :: "async list"

definition new_connection :: "bool \<Rightarrow> connection" where
  "new_connection incoming =
     \<lparr>c_msg = [], c_queue = [], c_connected = False, c_endpoint = False, c_accepted = incoming,
      c_stopped = False, c_ops = []\<rparr>"

section \<open>Operations\<close>

definition start_op :: "async \<Rightarrow> (connection, unit) st" where
  "start_op a = modIO (\<lambda>c. c\<lparr>c_ops := c_ops c @ [a]\<rparr>)"

definition conn_send :: "bool \<Rightarrow> (connection, unit) st" where
  "conn_send start_read =
     bindIO (getIO id) (\<lambda>c.
     if c_stopped c then retIO ()
     else if c_msg c = [] then throwIO (Runtime_error ''send called with empty message'')
     else start_op (Writing (c_msg c) start_read))"

text \<open>\<open>rest\<close> is the number of endpoints that have not been tried yet.\<close>

definition handle_connect :: "bool \<Rightarrow> nat \<Rightarrow> (connection, unit) st" where
  "handle_connect ok rest =
     bindIO (getIO id) (\<lambda>c.
     if c_stopped c then retIO ()
     else if ok then
       if \<not> c_connected c then bindIO (modIO (\<lambda>c. c\<lparr>c_connected := True\<rparr>)) (\<lambda>_. conn_send True)
       else conn_send False
     else if rest \<noteq> 0 then
       bindIO (modIO (\<lambda>c. c\<lparr>c_endpoint := True, c_accepted := False\<rparr>)) (\<lambda>_. start_op (Connecting (rest - 1)))
     else modIO (\<lambda>c. c\<lparr>c_endpoint := False\<rparr>))"

definition conn_write :: "bool \<Rightarrow> bytes \<Rightarrow> (connection, unit) st" where
  "conn_write has_url msg =
     bindIO (getIO id) (\<lambda>c.
     if c_msg c \<noteq> [] then modIO (\<lambda>c. c\<lparr>c_queue := c_queue c @ [msg]\<rparr>)
     else
       bindIO (modIO (\<lambda>c. c\<lparr>c_msg := msg\<rparr>)) (\<lambda>_.
       if c_accepted c \<and> \<not> c_connected c then
         bindIO (modIO (\<lambda>c. c\<lparr>c_connected := True\<rparr>)) (\<lambda>_. conn_send True)
       else if c_connected c \<or> c_endpoint c then handle_connect True 0
       else if \<not> has_url then throwIO (Runtime_error ''write called with empty url'')
       else start_op Resolving))"

text \<open>
  What the resolver answers: an error, or a number of endpoints; binding the local port may fail.
\<close>

datatype resolution = Resolve_failed | Resolved nat bool

definition handle_resolve :: "resolution \<Rightarrow> (connection, unit) st" where
  "handle_resolve r =
     (case r of
        Resolve_failed \<Rightarrow> retIO ()
      | Resolved n bound \<Rightarrow>
          if n = 0 then throwIO (Undefined_behaviour ''dereferencing the end of the endpoints'')
          else
            bindIO (modIO (\<lambda>c. c\<lparr>c_endpoint := True\<rparr>)) (\<lambda>_.
            if \<not> bound then throwIO (System_error ''bind'') else start_op (Connecting (n - 1))))"

text \<open>
  The handler of \<^verbatim>\<open>async_write\<close>.  An error is logged only.  With \<open>start_read\<close> it
  first handles what was received; \<open>ws\<close> are the messages written by that.
\<close>

definition write_done :: "bool \<Rightarrow> bytes list \<Rightarrow> (connection, unit) st" where
  "write_done start_read ws =
     bindIO (getIO id) (\<lambda>c.
     if c_stopped c then retIO ()
     else
       bindIO (whenIO start_read (iterIO (conn_write True) ws)) (\<lambda>_.
       bindIO (getIO id) (\<lambda>c.
       case c_queue c of
         [] \<Rightarrow> modIO (\<lambda>c. c\<lparr>c_msg := []\<rparr>)
       | m # q \<Rightarrow> bindIO (modIO (\<lambda>c. c\<lparr>c_msg := m, c_queue := q\<rparr>)) (\<lambda>_. conn_send False))))"

definition conn_stop :: "connection \<Rightarrow> connection" where
  "conn_stop c = c\<lparr>c_stopped := True, c_accepted := False\<rparr>"

section \<open>Runs of a connection\<close>

text \<open>
  A reachable connection, with the messages given to \<^verbatim>\<open>write\<close> and those whose sending has
  completed.  A completed operation is removed before its handler runs.
\<close>

definition finish_op :: "async \<Rightarrow> connection \<Rightarrow> connection" where
  "finish_op a c = c\<lparr>c_ops := remove1 a (c_ops c)\<rparr>"

inductive conn_reach :: "connection \<Rightarrow> bytes list \<Rightarrow> bytes list \<Rightarrow> bool" where
  init: "conn_reach (new_connection incoming) [] []"
| call: "conn_reach c acc fin \<Longrightarrow> msg \<noteq> [] \<Longrightarrow> conn_write has_url msg c = (r, c') \<Longrightarrow> conn_reach c' (acc @ [msg]) fin"
| resolved: "conn_reach c acc fin \<Longrightarrow> Resolving \<in> set (c_ops c) \<Longrightarrow>
    handle_resolve res (finish_op Resolving c) = (r, c') \<Longrightarrow> conn_reach c' acc fin"
| connected: "conn_reach c acc fin \<Longrightarrow> Connecting n \<in> set (c_ops c) \<Longrightarrow>
    handle_connect ok n (finish_op (Connecting n) c) = (r, c') \<Longrightarrow> conn_reach c' acc fin"
| written: "conn_reach c acc fin \<Longrightarrow> Writing b sr \<in> set (c_ops c) \<Longrightarrow> [] \<notin> set ws \<Longrightarrow> (\<not> sr \<longrightarrow> ws = []) \<Longrightarrow>
    \<not> c_stopped c \<Longrightarrow> write_done sr ws (finish_op (Writing b sr) c) = (r, c') \<Longrightarrow> conn_reach c' (acc @ ws) (fin @ [b])"
| aborted: "conn_reach c acc fin \<Longrightarrow> Writing b sr \<in> set (c_ops c) \<Longrightarrow> c_stopped c \<Longrightarrow>
    write_done sr [] (finish_op (Writing b sr) c) = (r, c') \<Longrightarrow> conn_reach c' acc fin"
| stopped: "conn_reach c acc fin \<Longrightarrow> conn_reach (conn_stop c) acc fin"

text \<open>The messages a connection still has to send.\<close>

definition unsent :: "connection \<Rightarrow> bytes list" where
  "unsent c = (if c_msg c = [] then [] else [c_msg c]) @ c_queue c"

definition conn_ok :: "connection \<Rightarrow> bool" where
  "conn_ok c \<longleftrightarrow> [] \<notin> set (c_queue c)
     \<and> (c_msg c = [] \<longrightarrow> c_queue c = [] \<and> c_ops c = [] \<and> (c_endpoint c \<longrightarrow> c_connected c))
     \<and> (c_ops c = [] \<or> \<not> c_connected c \<and> (c_ops c = [Resolving] \<or> (\<exists>n. c_ops c = [Connecting n]))
        \<or> c_connected c \<and> (\<exists>sr. c_ops c = [Writing (c_msg c) sr]))
     \<and> (c_connected c \<and> c_msg c \<noteq> [] \<and> \<not> c_stopped c \<longrightarrow> c_ops c \<noteq> [])"

lemmas conn_defs = conn_write_def conn_send_def handle_connect_def handle_resolve_def write_done_def start_op_def
  finish_op_def unsent_def

lemma conn_write_busy: "c_msg c \<noteq> [] \<Longrightarrow> conn_write u msg c = (Inr (), c\<lparr>c_queue := c_queue c @ [msg]\<rparr>)"
  by (simp add: conn_write_def io_simps)

lemma conn_write_ok:
  assumes "conn_ok c" and "msg \<noteq> []" and "conn_write u msg c = (r, c')"
  shows "conn_ok c' \<and> unsent c' = unsent c @ [msg]"
proof (cases "c_msg c = []")
  case True
  with assms show ?thesis
    by (auto simp: conn_defs io_simps conn_ok_def split: if_splits)
next
  case False
  with assms show ?thesis
    by (auto simp: conn_write_busy conn_ok_def unsent_def)
qed

lemma conn_resolved_ok:
  assumes "conn_ok c" and "Resolving \<in> set (c_ops c)" and "handle_resolve res (finish_op Resolving c) = (r, c')"
  shows "conn_ok c' \<and> unsent c' = unsent c"
proof -
  have "c_ops c = [Resolving]"
    using assms(1,2) by (auto simp: conn_ok_def)
  with assms(1,3) show ?thesis
    by (auto simp: conn_defs io_simps conn_ok_def split: resolution.splits if_splits)
qed

lemma conn_connected_ok:
  assumes "conn_ok c" and "Connecting n \<in> set (c_ops c)" and "handle_connect ok n (finish_op (Connecting n) c) = (r, c')"
  shows "conn_ok c' \<and> unsent c' = unsent c"
proof -
  have "c_ops c = [Connecting n]"
    using assms(1,2) by (auto simp: conn_ok_def)
  with assms(1,3) show ?thesis
    by (auto simp: conn_defs io_simps conn_ok_def split: if_splits)
qed

lemma iter_write_busy:
  assumes "c_msg c \<noteq> []"
  shows "iterIO (conn_write u) ws c = (Inr (), c\<lparr>c_queue := c_queue c @ ws\<rparr>)"
  using assms by (induction ws arbitrary: c) (simp_all add: io_simps conn_write_busy)

lemma conn_written_ok:
  assumes "conn_ok c" and "Writing b sr \<in> set (c_ops c)" and "[] \<notin> set ws" and "\<not> sr \<longrightarrow> ws = []" and "\<not> c_stopped c"
    and "write_done sr ws (finish_op (Writing b sr) c) = (r, c')"
  shows "conn_ok c' \<and> unsent c @ ws = b # unsent c'"
proof -
  have ops: "c_ops c = [Writing (c_msg c) sr]" "b = c_msg c" "c_msg c \<noteq> []" "c_connected c"
    using assms(1,2) by (auto simp: conn_ok_def)
  define c1 where "c1 = (finish_op (Writing b sr) c)\<lparr>c_queue := c_queue c @ ws\<rparr>"
  have wd: "write_done sr ws (finish_op (Writing b sr) c) = (case c_queue c1 of
       [] \<Rightarrow> (Inr (), c1\<lparr>c_msg := []\<rparr>) | m # q \<Rightarrow> conn_send False (c1\<lparr>c_msg := m, c_queue := q\<rparr>))"
    using assms(4,5) ops
    by (cases sr) (auto simp: write_done_def io_simps iter_write_busy c1_def finish_op_def split: list.split)
  show ?thesis
  proof (cases "c_queue c @ ws")
    case Nil
    with wd assms ops show ?thesis
      by (auto simp: c1_def finish_op_def conn_ok_def unsent_def)
  next
    case (Cons m q)
    have "[] \<notin> set (c_queue c @ ws)"
      using assms(1,3) by (auto simp: conn_ok_def)
    then have m: "m \<noteq> []" "[] \<notin> set q"
      using Cons by auto
    then have "c' = c1\<lparr>c_msg := m, c_queue := q, c_ops := [Writing m False]\<rparr>"
      using wd Cons assms(5,6) ops by (simp add: c1_def finish_op_def conn_send_def start_op_def io_simps)
    with m ops Cons assms(5) show ?thesis
      by (auto simp: c1_def finish_op_def conn_ok_def unsent_def)
  qed
qed

lemma conn_reach_ok: "conn_reach c acc fin \<Longrightarrow> conn_ok c \<and> acc = fin @ unsent c"
proof (induction rule: conn_reach.induct)
  case (init incoming)
  show ?case
    by (simp add: conn_ok_def new_connection_def unsent_def)
next
  case (call c acc fin msg has_url r c')
  then show ?case
    using conn_write_ok by fastforce
next
  case (resolved c acc fin res r c')
  then show ?case
    using conn_resolved_ok by fastforce
next
  case (connected c acc fin n ok r c')
  then show ?case
    using conn_connected_ok by fastforce
next
  case (written c acc fin b sr ws r c')
  then show ?case
    using conn_written_ok [of c b sr ws r c'] by simp
next
  case (aborted c acc fin b sr r c')
  then show ?case
    by (auto simp: write_done_def io_simps finish_op_def unsent_def conn_ok_def)
next
  case (stopped c acc fin)
  then show ?case
    by (auto simp: conn_stop_def unsent_def conn_ok_def)
qed

text \<open>
  C17.  No message given to a connection is lost, duplicated or reordered: those that were sent,
  the one in flight and those that wait are together all that were written, in their order.  At
  most one operation is under way; the buffer of a write under way is not touched before it
  completes; and a connected connection that has something to send is sending.
\<close>

theorem connection_fifo:
  assumes "conn_reach c acc fin"
  shows "acc = fin @ unsent c \<and> length (c_ops c) \<le> 1
    \<and> (\<forall>b sr. Writing b sr \<in> set (c_ops c) \<longrightarrow> b = c_msg c)
    \<and> (c_connected c \<and> \<not> c_stopped c \<and> unsent c \<noteq> [] \<longrightarrow> (\<exists>sr. c_ops c = [Writing (hd (unsent c)) sr]))"
  using conn_reach_ok [OF assms] by (auto simp: conn_ok_def unsent_def)

lemma sample_write: "conn_write True m (new_connection True) = (Inr (),
    (new_connection True)\<lparr>c_msg := m, c_connected := True, c_ops := [Writing m True]\<rparr>)" if "m \<noteq> []"
  using that by (simp add: conn_defs io_simps new_connection_def)

theorem connection_fifo_witness:
  "\<exists>c. conn_reach c [[1], [2]] [] \<and> c_ops c = [Writing [1] True] \<and> c_queue c = [[2]]"
proof -
  define c1 where "c1 = (new_connection True)\<lparr>c_msg := [1 :: byte], c_connected := True, c_ops := [Writing [1] True]\<rparr>"
  have "conn_reach c1 ([] @ [[1]]) []"
    using conn_reach.call [OF conn_reach.init, of "[1]" True True "Inr ()" c1] sample_write [of "[1]"] by (simp add: c1_def)
  then have "conn_reach (c1\<lparr>c_queue := [[2]]\<rparr>) (([] @ [[1]]) @ [[2]]) []"
    by (rule conn_reach.call) (simp_all add: conn_write_busy c1_def new_connection_def)
  from connection_fifo [OF this] this show ?thesis
    by (auto simp: c1_def unsent_def new_connection_def)
qed

lemma dead_connection:
  assumes "c_msg c \<noteq> []" and "c_ops c = []"
  shows "iterIO (conn_write u) ws c = (Inr (), c\<lparr>c_queue := c_queue c @ ws\<rparr>)"
  using assms by (simp add: iter_write_busy)

text \<open>
  When resolving fails, or connecting to the last endpoint fails, the message stays in
  \<open>m_msg\<close> with no operation under way; from then on every message is queued and none is ever
  sent, whatever is written.
\<close>

theorem failed_connect_is_final:
  assumes "conn_reach c acc fin" and "\<not> c_stopped c"
    and "Resolving \<in> set (c_ops c) \<and> handle_resolve Resolve_failed (finish_op Resolving c) = (r, c')
      \<or> Connecting 0 \<in> set (c_ops c) \<and> handle_connect False 0 (finish_op (Connecting 0) c) = (r, c')"
  shows "iterIO (conn_write u) ws c' = (Inr (), c'\<lparr>c_queue := c_queue c' @ ws\<rparr>)
    \<and> c_ops c' = [] \<and> c_msg c' \<noteq> [] \<and> \<not> c_connected c'"
proof -
  have ok: "conn_ok c"
    using conn_reach_ok [OF assms(1)] by simp
  have "c_ops c' = [] \<and> c_msg c' \<noteq> [] \<and> \<not> c_connected c'"
    using assms(3)
  proof
    assume r: "Resolving \<in> set (c_ops c) \<and> handle_resolve Resolve_failed (finish_op Resolving c) = (r, c')"
    then have "c_ops c = [Resolving]"
      using ok by (auto simp: conn_ok_def)
    with r ok show ?thesis
      by (auto simp: conn_defs io_simps conn_ok_def)
  next
    assume r: "Connecting 0 \<in> set (c_ops c) \<and> handle_connect False 0 (finish_op (Connecting 0) c) = (r, c')"
    then have "c_ops c = [Connecting 0]"
      using ok by (auto simp: conn_ok_def)
    with r ok assms(2) show ?thesis
      by (auto simp: conn_defs io_simps conn_ok_def)
  qed
  then show ?thesis
    by (simp add: dead_connection)
qed

theorem failed_connect_is_final_witness:
  defines "c' \<equiv> (new_connection False)\<lparr>c_msg := [1]\<rparr>"
  shows "c_ops c' = [] \<and> iterIO (conn_write True) [[2], [3]] c' = (Inr (), c'\<lparr>c_queue := [[2], [3]]\<rparr>)"
proof -
  define c1 where "c1 = c'\<lparr>c_ops := [Resolving]\<rparr>"
  have "conn_reach c1 ([] @ [[1]]) []"
    by (rule conn_reach.call [OF conn_reach.init, of "[1]" True False "Inr ()"])
      (simp_all add: conn_defs io_simps c1_def c'_def new_connection_def)
  moreover have "\<not> c_stopped c1" "Resolving \<in> set (c_ops c1)" "c_queue c' = []"
    "handle_resolve Resolve_failed (finish_op Resolving c1) = (Inr (), c')"
    by (simp_all add: c1_def c'_def new_connection_def handle_resolve_def io_simps finish_op_def)
  ultimately show ?thesis
    using failed_connect_is_final [of c1 "[] @ [[1]]" "[]" "Inr ()" c' True "[[2], [3]]"]
    by (simp del: iterIO.simps)
qed

section \<open>The interface to the peer\<close>

text \<open>What a peer relies on when it hands over messages.\<close>

locale message_channel =
  fixes pending :: "'c \<Rightarrow> bytes list" and put :: "bytes \<Rightarrow> 'c \<Rightarrow> 'c" and good :: "'c \<Rightarrow> bool"
  assumes put_good: "good c \<Longrightarrow> m \<noteq> [] \<Longrightarrow> good (put m c)"
    and pending_put: "good c \<Longrightarrow> m \<noteq> [] \<Longrightarrow> pending (put m c) = pending c @ [m]"
begin

lemma pending_puts:
  assumes "good c" and "[] \<notin> set ms"
  shows "pending (fold put ms c) = pending c @ ms \<and> good (fold put ms c)"
  using assms by (induction ms arbitrary: c) (auto simp: put_good pending_put)

end

interpretation channel: message_channel unsent "\<lambda>m c. snd (conn_write u m c)" conn_ok
  by unfold_locales (metis conn_write_ok surjective_pairing)+

end
