(* ===== verification/Url.thy ===== *)
theory Url
  imports Text
begin

text \<open>
  \<^verbatim>\<open>class Url\<close> of \<^verbatim>\<open>src/net.hpp\<close> and \<^verbatim>\<open>src/net.cpp\<close>: parsing the
  textual and the compact form, printing, and \<^verbatim>\<open>Net::urlEncode\<close>.  What asio says of an
  address and the resolver's answer are parameters.
\<close>

section \<open>State\<close>

record url =
  u_scheme :: string
  u_host :: string
  u_path :: string
  u_params :: "string list"
  u_port :: "u16 option"

definition add_param :: "string \<Rightarrow> url \<Rightarrow> url" where
  "add_param param u = u\<lparr>u_params := u_params u @ [param]\<rparr>"

definition url_service :: "url \<Rightarrow> string" where
  "url_service u = (case u_port u of Some p \<Rightarrow> dec_of_nat (unat p) | None \<Rightarrow> u_scheme u)"

definition url_authority :: "url \<Rightarrow> string" where
  "url_authority u =
     (case u_port u of Some p \<Rightarrow> u_host u @ '':'' @ dec_of_nat (unat p) | None \<Rightarrow> u_host u)"

fun url_query :: "bool \<Rightarrow> string list \<Rightarrow> string" where
  "url_query first [] = []"
| "url_query first (p # ps) = (if first then ''?'' else ''&'') @ p @ url_query False ps"

definition url_str :: "url \<Rightarrow> string" where
  "url_str u = u_scheme u @ ''://'' @ url_authority u @ u_path u @ url_query True (u_params u)"

text \<open>\<^verbatim>\<open>operator<<\<close>, for the log.\<close>

definition url_format :: "url \<Rightarrow> string" where
  "url_format u =
     (let nl = [CHR 0x0A] in
      ''Scheme:        '' @ u_scheme u @ nl @ ''Host:          '' @ u_host u @ nl
      @ ''Port:          '' @ (case u_port u of Some p \<Rightarrow> dec_of_nat (unat p) | None \<Rightarrow> ''<not set>'') @ nl
      @ ''Path:          '' @ u_path u @ nl
      @ (if u_params u = [] then [] else ''Params:'' @ nl @ concat (map (\<lambda>p. ''  '' @ p @ nl) (u_params u)))
      @ ''Full URL:      '' @ url_str u @ nl)"

section \<open>Parsing\<close>

text \<open>
  The regular expression \<^verbatim>\<open>^(udp|https?)://([^/\n]*?)(?::(\d+))?(/.*)?$\<close>.  The host is
  the shortest text behind which a tail of an optional port and an optional path is left; the dot
  of ECMAScript matches no line terminator.
\<close>

definition url_scheme_of :: "string \<Rightarrow> (string \<times> string) option" where
  "url_scheme_of s =
     (if starts_with ''udp://'' s then Some (''udp'', drop 6 s)
      else if starts_with ''https://'' s then Some (''https'', drop 8 s)
      else if starts_with ''http://'' s then Some (''http'', drop 7 s)
      else None)"

definition is_path :: "string \<Rightarrow> bool" where
  "is_path t \<longleftrightarrow> t = [] \<or> hd t = CHR ''/'' \<and> CHR 0x0A \<notin> set t \<and> CHR 0x0D \<notin> set t"

definition url_tail :: "string \<Rightarrow> (string \<times> string) option" where
  "url_tail t =
     (let ds = takeWhile is_digit (tl t); path = dropWhile is_digit (tl t) in
      if starts_with '':'' t \<and> ds \<noteq> [] \<and> is_path path then Some (ds, path)
      else if is_path t then Some ([], t)
      else None)"

fun url_match :: "string \<Rightarrow> string \<Rightarrow> (string \<times> string \<times> string) option" where
  "url_match host [] = map_option (Pair host) (url_tail [])"
| "url_match host (c # cs) =
     (case url_tail (c # cs) of
        Some m \<Rightarrow> Some (host, m)
      | None \<Rightarrow> if c = CHR ''/'' \<or> c = CHR 0x0A then None else url_match (host @ [c]) cs)"

definition parse_url :: "string \<Rightarrow> url result" where
  "parse_url s =
     (case url_scheme_of s of
        None \<Rightarrow> Inl (Runtime_error ''Invalid URL'')
      | Some (scheme, rest) \<Rightarrow>
          (case url_match [] rest of
             None \<Rightarrow> Inl (Runtime_error ''Invalid URL'')
           | Some (host, port, path) \<Rightarrow>
               bindE
                 (if port \<noteq> [] then
                    bindE (stoi port) (\<lambda>v. bindE (numeric_cast uint16_t int32_t v) (\<lambda>p. Inr (Some (of_int p))))
                  else Inr None) (\<lambda>p.
               Inr \<lparr>u_scheme = scheme, u_host = host, u_path = (if path = [] then ''/'' else path),
                    u_params = [], u_port = p\<rparr>)))"

text \<open>The compact form: four bytes of address, two of port in network order (on a little endian host).\<close>

definition host_to_network_short :: "u16 \<Rightarrow> u16" where
  "host_to_network_short v = push_bit 8 v OR drop_bit 8 v"

definition parse_url_binary :: "string \<Rightarrow> url result" where
  "parse_url_binary s =
     (if length s \<noteq> 6 then Inl (Runtime_error ''Invalid binary URL length'')
      else
        let oct = (\<lambda>i. of_char (s ! i) :: nat) in
        Inr \<lparr>u_scheme = ''http'',
             u_host = dec_of_nat (oct 0) @ ''.'' @ dec_of_nat (oct 1) @ ''.'' @ dec_of_nat (oct 2) @ ''.'' @ dec_of_nat (oct 3),
             u_path = [], u_params = [],
             u_port = Some (host_to_network_short (of_nat (oct 4) OR push_bit 8 (of_nat (oct 5))))\<rparr>)"

section \<open>Resolving\<close>

datatype address = V4 | V6 | No_address

definition is_ipv6 :: "(string \<Rightarrow> address) \<Rightarrow> url \<Rightarrow> bool" where
  "is_ipv6 addr u \<longleftrightarrow> addr (u_host u) = V6"

text \<open>
  \<open>lookup\<close> is the name the resolver finds for an address in time, if any.  The endpoint is made
  with the parser of IPv4 addresses, which throws for others.
\<close>

definition url_resolve :: "(string \<Rightarrow> address) \<Rightarrow> (string \<Rightarrow> string option) \<Rightarrow> url \<Rightarrow> url result" where
  "url_resolve addr lookup u =
     (if starts_with ''172.17.'' (u_host u) then Inr (u\<lparr>u_host := ''localhost''\<rparr>)
      else
        case addr (u_host u) of
          No_address \<Rightarrow> Inr u
        | V6 \<Rightarrow> Inl (Runtime_error ''Resolve error'')
        | V4 \<Rightarrow>
            (case lookup (u_host u) of
               Some name \<Rightarrow> Inr (u\<lparr>u_host := name\<rparr>)
             | None \<Rightarrow> Inr u))"

definition make_url :: "(string \<Rightarrow> address) \<Rightarrow> (string \<Rightarrow> string option) \<Rightarrow> bool \<Rightarrow> bool \<Rightarrow> string \<Rightarrow> url result" where
  "make_url addr lookup binary resolve s =
     bindE (if \<not> binary then parse_url s else parse_url_binary s) (\<lambda>u.
     if resolve then url_resolve addr lookup u else Inr u)"

section \<open>Percent encoding\<close>

definition is_alnum :: "char \<Rightarrow> bool" where
  "is_alnum c \<longleftrightarrow> (let code = of_char c :: nat in is_digit c \<or> code \<in> {0x41..0x5A} \<or> code \<in> {0x61..0x7A})"

definition unreserved :: "char \<Rightarrow> bool" where
  "unreserved c \<longleftrightarrow> is_alnum c \<or> c \<in> {CHR ''-'', CHR ''_'', CHR ''.'', CHR ''~''}"

definition urlEncode :: "string \<Rightarrow> string" where
  "urlEncode s = concat (map (\<lambda>c. if unreserved c then [c] else CHR ''%'' # hex_of_string [c]) s)"

text \<open>The inverse, as RFC 3986 defines it.\<close>

fun url_decode :: "string \<Rightarrow> string option" where
  "url_decode [] = Some []"
| "url_decode (c # cs) =
     (if c \<noteq> CHR ''%'' then map_option (Cons c) (url_decode cs)
      else case cs of
          h # l # rest \<Rightarrow>
            (case (base_digit h, base_digit l) of
               (Some a, Some b) \<Rightarrow> if a < 16 \<and> b < 16 then map_option (Cons (char_of (a * 16 + b))) (url_decode rest) else None
             | _ \<Rightarrow> None)
        | _ \<Rightarrow> None)"

lemma base_digit_hex: "d < 16 \<Longrightarrow> base_digit (hex_digit d) = Some d"
  by (auto simp: base_digit_def hex_digit_def of_char_of)

lemma unreserved_not_percent: "unreserved c \<Longrightarrow> c \<noteq> CHR ''%''"
  by (auto simp: unreserved_def is_alnum_def is_digit_iff less_eq_char_def)

lemma char_of_hex: "char_of (of_char c div 16 * 16 + of_char c mod 16 :: nat) = c"
  by (simp only: div_mult_mod_eq) simp

lemma of_char_div16: "(of_char c :: nat) div 16 < 16"
proof -
  have "(of_char c :: nat) < 256"
    by simp
  then show ?thesis
    by (simp add: div_less_iff_less_mult)
qed

lemma decode_encode: "url_decode (urlEncode s) = Some s"
proof (induction s)
  case (Cons c s)
  have "url_decode (CHR ''%'' # hex_digit (of_char c div 16) # hex_digit (of_char c mod 16) # urlEncode s) = Some (c # s)"
    using Cons of_char_div16 [of c] by (simp add: base_digit_hex char_of_hex)
  with Cons show ?case
    by (auto simp: urlEncode_def hex_of_string_def dest: unreserved_not_percent)
qed (simp add: urlEncode_def)

lemma hex_digit_unreserved: "d < 16 \<Longrightarrow> unreserved (hex_digit d)"
  by (auto simp: unreserved_def is_alnum_def hex_digit_def is_digit_iff less_eq_char_def of_char_of)

text \<open>
  \<open>urlEncode\<close> loses nothing: decoding gives the text back, so that different texts have
  different encodings.  Its result uses the unreserved characters and the percent sign only, it
  leaves a text of unreserved characters as it is, and at most triples the length.
\<close>

theorem urlEncode_roundtrip:
  "url_decode (urlEncode s) = Some s
   \<and> (\<forall>c \<in> set (urlEncode s). unreserved c \<or> c = CHR ''%'')
   \<and> ((\<forall>c \<in> set s. unreserved c) \<longrightarrow> urlEncode s = s)
   \<and> length (urlEncode s) \<le> 3 * length s"
proof (intro conjI impI)
  show "\<forall>c \<in> set (urlEncode s). unreserved c \<or> c = CHR ''%''"
    by (auto simp: urlEncode_def hex_of_string_def hex_digit_unreserved of_char_div16 split: if_splits)
  show "urlEncode s = s" if "\<forall>c \<in> set s. unreserved c"
    using that by (induction s) (auto simp: urlEncode_def)
  show "length (urlEncode s) \<le> 3 * length s"
    by (induction s) (auto simp: urlEncode_def hex_of_string_def)
qed (rule decode_encode)

theorem urlEncode_roundtrip_witness: "urlEncode ''a-1'' = ''a-1''"
  using urlEncode_roundtrip [of "''a-1''"]
  by (simp add: unreserved_def is_alnum_def is_digit_def less_eq_char_def)

section \<open>Printing and parsing\<close>

definition url_wf :: "url \<Rightarrow> bool" where
  "url_wf u \<longleftrightarrow> u_scheme u \<in> {''udp'', ''http'', ''https''} \<and> set (u_host u) \<inter> {CHR ''/'', CHR '':'', CHR 0x0A} = {}
     \<and> u_path u \<noteq> [] \<and> is_path (u_path u) \<and> u_params u = []"

text \<open>What is printed behind the authority, and the URLs for which that reads as a path.\<close>

definition printed_path :: "url \<Rightarrow> string" where
  "printed_path u = u_path u @ url_query True (u_params u)"

definition url_printable :: "url \<Rightarrow> bool" where
  "url_printable u \<longleftrightarrow> u_scheme u \<in> {''udp'', ''http'', ''https''}
     \<and> set (u_host u) \<inter> {CHR ''/'', CHR '':'', CHR 0x0A} = {} \<and> is_path (printed_path u)"

lemma url_match_host:
  assumes "set host \<inter> {CHR ''/'', CHR '':'', CHR 0x0A} = {}" and "url_tail t = Some m"
  shows "url_match acc (host @ t) = Some (acc @ host, m)"
  using assms
proof (induction host arbitrary: acc)
  case Nil
  then show ?case
    by (cases t) auto
next
  case (Cons c host)
  then have "url_tail (c # host @ t) = None"
    by (auto simp: url_tail_def starts_with_def is_path_def Let_def)
  with Cons show ?case
    by auto
qed

lemma path_no_digit: "is_path t \<Longrightarrow> t = [] \<or> \<not> is_digit (hd t)"
  by (cases t) (auto simp: is_path_def is_digit_iff)

lemma url_tail_path: "is_path t \<Longrightarrow> url_tail t = Some ([], t)"
  by (cases t) (auto simp: url_tail_def starts_with_def is_path_def Let_def)

lemma url_tail_port:
  assumes "is_path t"
  shows "url_tail (CHR '':'' # dec_of_nat n @ t) = Some (dec_of_nat n, t)"
proof -
  have "takeWhile is_digit (dec_of_nat n @ t) = dec_of_nat n" "dropWhile is_digit (dec_of_nat n @ t) = t"
    using dec_of_nat_digits [of n] path_no_digit [OF assms]
    by (cases t; auto simp: takeWhile_append2)+
  with assms show ?thesis
    by (simp add: url_tail_def starts_with_def)
qed

lemma stoi_port: "stoi (dec_of_nat (unat (p :: u16))) = Inr (int (unat p))"
proof -
  have "unat p < 2 ^ LENGTH(16)"
    by (rule unsigned_less)
  then show ?thesis
    using stoi_digits [of "dec_of_nat (unat p)"] dec_of_nat_digits by simp
qed

lemma port_cast: "numeric_cast uint16_t int32_t (uint (p :: u16)) = Inr (uint p)"
proof -
  have "uint p < 2 ^ LENGTH(16)"
    by (rule unsigned_less)
  then show ?thesis
    by (simp add: numeric_cast_def make_unsigned_def static_cast_def ity_max_def take_bit_int_eq_self)
qed

lemma url_scheme_str:
  assumes "u_scheme u \<in> {''udp'', ''http'', ''https''}"
  shows "url_scheme_of (u_scheme u @ CHR '':'' # CHR ''/'' # CHR ''/'' # rest) = Some (u_scheme u, rest)"
  using assms by (auto simp: url_scheme_of_def starts_with_def)

lemma parse_url_printed:
  assumes "url_printable u"
  shows "parse_url (url_str u) =
    Inr (u\<lparr>u_path := (if printed_path u = [] then ''/'' else printed_path u), u_params := []\<rparr>)"
proof -
  have path: "is_path (printed_path u)" and scheme: "u_scheme u \<in> {''udp'', ''http'', ''https''}"
    and host: "set (u_host u) \<inter> {CHR ''/'', CHR '':'', CHR 0x0A} = {}"
    using assms by (simp_all add: url_printable_def)
  show ?thesis
  proof (cases "u_port u")
    case None
    have "url_match [] (u_host u @ printed_path u) = Some (u_host u, [], printed_path u)"
      using url_match_host [OF host url_tail_path [OF path], of "[]"] by simp
    with None scheme show ?thesis
      by (simp add: parse_url_def url_str_def url_authority_def url_scheme_str flip: printed_path_def)
  next
    case (Some p)
    have "url_match [] (u_host u @ CHR '':'' # dec_of_nat (unat p) @ printed_path u) = Some (u_host u, dec_of_nat (unat p), printed_path u)"
      using url_match_host [OF host url_tail_port [OF path, of "unat p"], of "[]"] by simp
    with Some scheme show ?thesis
      by (simp add: parse_url_def url_str_def url_authority_def url_scheme_str stoi_port port_cast flip: printed_path_def)
  qed
qed

lemma parse_url_str: "url_wf u \<Longrightarrow> parse_url (url_str u) = Inr u"
  using parse_url_printed [of u] by (simp add: url_wf_def url_printable_def printed_path_def)

lemma parse_host_port:
  assumes "set host \<inter> {CHR ''/'', CHR '':'', CHR 0x0A} = {}"
  shows "parse_url (''http://'' @ host @ '':'' @ dec_of_nat (unat p)) =
    Inr \<lparr>u_scheme = ''http'', u_host = host, u_path = ''/'', u_params = [], u_port = Some p\<rparr>"
proof -
  have tail: "url_tail (CHR '':'' # dec_of_nat (unat p)) = Some (dec_of_nat (unat p), [])"
    using url_tail_port [of "[]" "unat p"] by (simp add: is_path_def)
  have "url_match [] (host @ CHR '':'' # dec_of_nat (unat p)) = Some (host, dec_of_nat (unat p), [])"
    using url_match_host [OF assms tail, of "[]"] by simp
  then show ?thesis
    by (simp add: parse_url_def url_scheme_of_def starts_with_def stoi_port port_cast)
qed

lemma bit_byte:
  assumes "a < 256" and "bit (a :: nat) n"
  shows "n < 8"
proof -
  have "take_bit 8 a = a"
    using assms(1) by (simp add: take_bit_nat_eq_self)
  with assms(2) show ?thesis
    by (metis bit_take_bit_iff)
qed

lemma two_byte_word:
  assumes "a < 256" and "b < 256"
  shows "push_bit 8 (of_nat a) OR of_nat b = (of_nat (a * 256 + b) :: u16)"
proof -
  have "push_bit 8 (of_nat a) AND (of_nat b :: u16) = 0"
    by (intro bit_eqI) (auto simp: bit_simps dest: bit_byte [OF assms(2)])
  then show ?thesis
    by (simp add: disjunctive_add_eq_or [symmetric] push_bit_eq_mult)
qed

lemma port_network_order:
  assumes "a < 256" and "b < 256"
  shows "unat (host_to_network_short (of_nat a OR push_bit 8 (of_nat b))) = a * 256 + b"
proof -
  have "host_to_network_short (of_nat a OR push_bit 8 (of_nat b)) = push_bit 8 (of_nat a) OR of_nat b"
    by (intro bit_eqI) (auto simp: host_to_network_short_def bit_simps dest: bit_byte [OF assms(1)] bit_byte [OF assms(2)])
  moreover have "unat (of_nat (a * 256 + b) :: u16) = a * 256 + b"
    using assms by (intro unat_of_nat_less) simp
  ultimately show ?thesis
    by (simp add: two_byte_word [OF assms])
qed

lemma two_bytes:
  fixes a b c d :: nat
  assumes "a * 256 + b = c * 256 + d" and "b < 256" and "d < 256"
  shows "a = c \<and> b = d"
  using assms by (cases a c rule: linorder_cases) linarith+

lemma separated_inject:
  assumes "dec_of_nat a @ c # x = dec_of_nat b @ c # y" and "\<not> is_digit c"
  shows "a = b \<and> x = y"
proof -
  have "takeWhile is_digit (dec_of_nat n @ c # z) = dec_of_nat n" for n z
    using dec_of_nat_digits [of n] assms(2) by (subst takeWhile_append2) auto
  then have "dec_of_nat a = dec_of_nat b"
    by (metis assms(1))
  then have "a = b"
    by (metis nat_of_dec_of_nat)
  with assms(1) show ?thesis
    by simp
qed

text \<open>
  C35.  A URL with a known scheme, a host without separators, and a path and parameters that print
  to a path (or to nothing) prints to a text that parses back to the same scheme, host and port; the
  printed parameters have become part of the path, and an empty path the path /, so that a URL with
  a path and without parameters parses back to itself.  The compact form of six bytes gives the URL
  whose host is the first four bytes in their order in dotted notation and whose port is the last
  two in network order, and different addresses print differently.
\<close>

theorem url_roundtrip:
  assumes "url_printable u" and "length s = 6" and "length t = 6"
  shows "parse_url (url_str u) =
      Inr (u\<lparr>u_path := (if printed_path u = [] then ''/'' else printed_path u), u_params := []\<rparr>)
    \<and> (\<exists>v w p. parse_url_binary s = Inr v \<and> parse_url_binary t = Inr w
        \<and> v = \<lparr>u_scheme = ''http'', u_host = dec_of_nat (of_char (s ! 0)) @ ''.'' @ dec_of_nat (of_char (s ! 1)) @ ''.''
                @ dec_of_nat (of_char (s ! 2)) @ ''.'' @ dec_of_nat (of_char (s ! 3)),
              u_path = [], u_params = [], u_port = Some p\<rparr>
        \<and> unat p = of_char (s ! 4) * 256 + of_char (s ! 5)
        \<and> (url_authority v = url_authority w \<longrightarrow> s = t))"
proof (intro conjI)
  show "parse_url (url_str u) =
      Inr (u\<lparr>u_path := (if printed_path u = [] then ''/'' else printed_path u), u_params := []\<rparr>)"
    using assms(1) by (rule parse_url_printed)
  define oct where "oct r i = (of_char (r ! i) :: nat)" for r :: string and i
  define dots where "dots r = dec_of_nat (oct r 0) @ ''.'' @ dec_of_nat (oct r 1) @ ''.'' @ dec_of_nat (oct r 2) @ ''.''
      @ dec_of_nat (oct r 3)" for r
  define port where "port r = host_to_network_short (of_nat (oct r 4) OR push_bit 8 (of_nat (oct r 5)))" for r
  have small: "oct r i < 256" for r i
    by (simp add: oct_def)
  have parse: "parse_url_binary r = Inr \<lparr>u_scheme = ''http'', u_host = dots r, u_path = [], u_params = [],
      u_port = Some (port r)\<rparr>" if "length r = 6" for r
    using that by (simp add: parse_url_binary_def oct_def dots_def port_def Let_def)
  have unat_port: "unat (port r) = oct r 4 * 256 + oct r 5" for r
    unfolding port_def by (rule port_network_order) (rule small)+
  have "s = t" if eq: "dots s @ '':'' @ dec_of_nat (unat (port s)) = dots t @ '':'' @ dec_of_nat (unat (port t))"
  proof -
    have sep: "\<not> is_digit (CHR ''.'')" "\<not> is_digit (CHR '':'')"
      by (simp_all add: is_digit_iff)
    have "oct s 0 = oct t 0" "oct s 1 = oct t 1" "oct s 2 = oct t 2" "oct s 3 = oct t 3"
      and ports: "dec_of_nat (unat (port s)) = dec_of_nat (unat (port t))"
      using eq by (auto simp: dots_def dest!: separated_inject [OF _ sep(1)] separated_inject [OF _ sep(2)])
    moreover have "oct s 4 * 256 + oct s 5 = oct t 4 * 256 + oct t 5"
      using ports unat_port by (metis nat_of_dec_of_nat)
    then have "oct s 4 = oct t 4" "oct s 5 = oct t 5"
      using two_bytes [OF _ small [of s 5] small [of t 5]] by simp_all
    moreover have "i = 0 \<or> i = 1 \<or> i = 2 \<or> i = 3 \<or> i = 4 \<or> i = 5" if "i < 6" for i :: nat
      using that by arith
    ultimately have "oct s i = oct t i" if "i < 6" for i
      using that by metis
    then show ?thesis
      using assms(2,3) by (auto simp: oct_def intro: nth_equalityI)
  qed
  then show "\<exists>v w p. parse_url_binary s = Inr v \<and> parse_url_binary t = Inr w
        \<and> v = \<lparr>u_scheme = ''http'', u_host = dec_of_nat (of_char (s ! 0)) @ ''.'' @ dec_of_nat (of_char (s ! 1)) @ ''.''
                @ dec_of_nat (of_char (s ! 2)) @ ''.'' @ dec_of_nat (of_char (s ! 3)),
              u_path = [], u_params = [], u_port = Some p\<rparr>
        \<and> unat p = of_char (s ! 4) * 256 + of_char (s ! 5)
        \<and> (url_authority v = url_authority w \<longrightarrow> s = t)"
    using assms(2,3) unat_port [of s] parse [of s] parse [of t] by (simp add: dots_def url_authority_def oct_def)
qed

theorem url_roundtrip_witness:
  "parse_url ''http://h:80/a?x=1'' = Inr \<lparr>u_scheme = ''http'', u_host = ''h'', u_path = ''/a?x=1'', u_params = [], u_port = Some 80\<rparr>
   \<and> (\<exists>v. parse_url_binary ''abcdef'' = Inr v \<and> url_authority v = ''97.98.99.100:25958'')"
proof -
  define u where "u = \<lparr>u_scheme = ''http'', u_host = ''h'', u_path = ''/a'', u_params = [''x=1''], u_port = Some 80\<rparr>"
  have u: "printed_path u = ''/a?x=1''" "url_str u = ''http://h:80/a?x=1''"
    by (simp_all add: u_def url_str_def url_authority_def printed_path_def dec_of_nat.simps digit_char_def char_of_def bit_Suc_0_iff)
  then have "url_printable u"
    by (simp add: url_printable_def is_path_def) (simp add: u_def)
  moreover have "unat p = 25958 \<Longrightarrow> dec_of_nat (unat p) = ''25958''" for p :: u16
    by (simp add: dec_of_nat.simps digit_char_def char_of_def bit_Suc_0_iff)
  ultimately show ?thesis
    using url_roundtrip [of u "''abcdef''" "''abcdeg''"] u
    by (auto simp: u_def url_authority_def dec_of_nat.simps digit_char_def char_of_def bit_Suc_0_iff)
qed

end
