(* ===== verification/Http.thy ===== *)
theory Http
  imports Url Wire
begin

text \<open>
  The HTTP client of \<^verbatim>\<open>src/net.cpp\<close>: the request, the reading of the response with its
  status, headers, redirections and both forms of the body, and \<^verbatim>\<open>Net::httpGet\<close>.  What a
  socket delivers is a list of segments, one for each read, and whether the stream ends with end of
  file or with another error; connecting, TLS and the name resolution are asio's, behind the
  parameter \<open>server\<close>.
\<close>

section \<open>Reading from a socket\<close>

text \<open>The stream buffer is the rest of the stream \<open>h_stream\<close> that reads from it.\<close>

record http_io =
  h_stream :: istream
  h_segs :: "string list"
  h_clean :: bool

definition buffer :: "http_io \<Rightarrow> string" where
  "buffer io = is_rest (h_stream io)"

definition set_buffer :: "string \<Rightarrow> http_io \<Rightarrow> http_io" where
  "set_buffer b io = io\<lparr>h_stream := (h_stream io)\<lparr>is_rest := b\<rparr>\<rparr>"

definition end_error :: "http_io \<Rightarrow> exn" where
  "end_error io = System_error (if h_clean io then ''eof'' else ''read error'')"

text \<open>\<^verbatim>\<open>MatchMarkers\<close>: whether a marker occurs, tried in their order.\<close>

definition match_markers :: "string list \<Rightarrow> string \<Rightarrow> bool" where
  "match_markers markers s \<longleftrightarrow> list_ex (\<lambda>m. search s m \<noteq> None) markers"

text \<open>
  \<^verbatim>\<open>asio::read_until\<close>: the match condition sees what it has not consumed before; since it
  consumes all when nothing matches, a marker that is cut between two reads is not found.
\<close>

fun read_until_from :: "string list \<Rightarrow> nat \<Rightarrow> string \<Rightarrow> string list \<Rightarrow> bool \<times> string \<times> string list" where
  "read_until_from markers pos buf segs =
     (if match_markers markers (drop pos buf) then (True, buf, segs)
      else case segs of
          [] \<Rightarrow> (False, buf, [])
        | s # ss \<Rightarrow> read_until_from markers (length buf) (buf @ s) ss)"

declare read_until_from.simps [simp del]

definition read_until :: "string list \<Rightarrow> (http_io, unit) st" where
  "read_until markers = (\<lambda>io.
     case read_until_from markers 0 (buffer io) (h_segs io) of
       (found, buf, segs) \<Rightarrow>
         (if found then Inr () else Inl (end_error io), (set_buffer buf io)\<lparr>h_segs := segs\<rparr>))"

text \<open>\<^verbatim>\<open>transfer_at_least(n)\<close>; the flag tells that the end was reached.\<close>

fun read_at_least :: "nat \<Rightarrow> string \<Rightarrow> string list \<Rightarrow> bool \<times> string \<times> string list" where
  "read_at_least n buf [] = (0 < n, buf, [])"
| "read_at_least n buf (s # ss) = (if n = 0 then (False, buf, s # ss) else read_at_least (n - length s) (buf @ s) ss)"

section \<open>Extraction\<close>

text \<open>\<^verbatim>\<open>operator>>\<close> on a string and \<^verbatim>\<open>getline\<close>.\<close>

definition is_extract_word :: "istream \<Rightarrow> string \<times> istream" where
  "is_extract_word s =
     (if \<not> is_good s then ([], s\<lparr>is_fail := True\<rparr>)
      else
        let cs = dropWhile is_space (is_rest s); w = takeWhile (\<lambda>c. \<not> is_space c) cs in
        (w, \<lparr>is_rest = drop (length w) cs, is_eof = (w = cs), is_fail = (cs = [])\<rparr>))"

definition is_getline :: "istream \<Rightarrow> string \<times> istream" where
  "is_getline s =
     (if \<not> is_good s then ([], s\<lparr>is_fail := True\<rparr>)
      else
        let l = takeWhile (\<lambda>c. c \<noteq> CHR 0x0A) (is_rest s); r = drop (length l) (is_rest s) in
        (l, \<lparr>is_rest = tl r, is_eof = (r = []), is_fail = (is_rest s = [])\<rparr>))"

definition on_stream :: "(istream \<Rightarrow> 'a \<times> istream) \<Rightarrow> (http_io, 'a) st" where
  "on_stream f = (\<lambda>io. case f (h_stream io) of (a, s) \<Rightarrow> (Inr a, io\<lparr>h_stream := s\<rparr>))"

section \<open>The request\<close>

definition crlf :: string where "crlf = [CHR 0x0D, CHR 0x0A]"
definition lf :: string where "lf = [CHR 0x0A]"

definition http_request_text :: "url \<Rightarrow> string" where
  "http_request_text u =
     ''GET '' @ u_path u @ url_query True (u_params u) @ '' HTTP/1.1'' @ crlf
     @ ''Host: '' @ u_host u @ crlf @ ''Accept: */*'' @ crlf @ ''Connection: close'' @ crlf @ crlf"

section \<open>The response\<close>

datatype response = Reply string string | Redirect url

definition read_status :: "(http_io, nat) st" where
  "read_status =
     bindIO (read_until [crlf, lf]) (\<lambda>_.
     bindIO (on_stream is_extract_word) (\<lambda>http_version.
     bindIO (on_stream (is_extract_int uint32_t)) (\<lambda>status_code.
     bindIO (on_stream is_getline) (\<lambda>_.
     bindIO (getIO (\<lambda>io. is_fail (h_stream io))) (\<lambda>failed.
     if failed \<or> \<not> starts_with ''HTTP/'' http_version then throwIO (Runtime_error ''invalid response'')
     else if status_code \<notin> {200, 302, 301} then throwIO (Http_error (nat status_code))
     else retIO (nat status_code))))))"

text \<open>Reading up to the blank line; the end of the stream is no error here.\<close>

definition read_headers :: "(http_io, unit) st" where
  "read_headers = (\<lambda>io. case read_until [crlf @ crlf, lf @ lf] io of
     (Inl e, io') \<Rightarrow> if h_clean io then (Inr (), io') else (Inl e, io') | r \<Rightarrow> r)"

definition location :: string where "location = ''location: ''"
definition tencoding :: string where "tencoding = ''transfer-encoding: ''"

text \<open>The loop over the header lines, on the stream alone; the result is a redirection, or the
  encoding and the headers.\<close>

function header_loop :: "string \<Rightarrow> string \<Rightarrow> istream \<Rightarrow> (url + string \<times> string \<times> istream) result" where
  "header_loop encoding headers s =
     (case is_getline s of (header, s') \<Rightarrow>
        if is_fail s' \<or> header = [CHR 0x0D] \<or> header = [] then Inr (Inr (encoding, headers, s'))
        else
          let lheader = to_lower header in
          if starts_with location lheader then
            bindE (parse_url (rtrim (drop (length location) header))) (\<lambda>loc. Inr (Inl loc))
          else if starts_with tencoding lheader then
            let enc = rtrim (drop (length tencoding) header) in
            if enc \<noteq> ''chunked'' then Inl (Runtime_error ''http transfer encoding currently not supported'')
            else header_loop enc (headers @ header @ lf) s'
          else header_loop encoding (headers @ header @ lf) s')"
  by pat_completeness auto

lemma is_getline_shorter:
  assumes "is_getline s = (l, s')" and "\<not> is_fail s'"
  shows "length (is_rest s') < length (is_rest s)"
proof -
  have "is_rest s \<noteq> []" and good: "is_good s"
    using assms by (auto simp: is_getline_def Let_def split: if_splits)
  then show ?thesis
    using assms by (auto simp: is_getline_def Let_def neq_Nil_conv)
qed

lemma is_getline_nonempty:
  assumes "is_getline s = (l, s')" and "l \<noteq> []"
  shows "length (is_rest s') < length (is_rest s)"
  using assms by (intro is_getline_shorter [OF assms(1)]) (auto simp: is_getline_def Let_def split: if_splits)

termination header_loop
  by (relation "measure (\<lambda>(encoding, headers, s). length (is_rest s))") (auto dest: is_getline_shorter [OF sym])

declare header_loop.simps [simp del]

text \<open>\<^verbatim>\<open>check_error\<close>: errors other than the end of file count, except over TLS.\<close>

definition check_error :: "url \<Rightarrow> bool \<Rightarrow> (http_io, unit) st" where
  "check_error u ended =
     bindIO (getIO h_clean) (\<lambda>clean.
     if u_scheme u \<noteq> ''https'' \<and> ended \<and> \<not> clean then throwIO (System_error ''read error'') else retIO ())"

definition read_plain :: "url \<Rightarrow> (http_io, string) st" where
  "read_plain u =
     bindIO (getIO (\<lambda>io. buffer io @ concat (h_segs io))) (\<lambda>body.
     bindIO (modIO (\<lambda>io. (set_buffer [] io)\<lparr>h_segs := []\<rparr>)) (\<lambda>_.
     bindIO (check_error u True) (\<lambda>_. retIO body)))"

text \<open>A chunk: the line with its size, then its data and a line end.\<close>

definition chunk_size :: "(http_io, nat) st" where
  "chunk_size =
     bindIO (getIO buffer) (\<lambda>buf.
     bindIO (whenIO (buf = []) (read_until [crlf @ crlf, lf @ lf])) (\<lambda>_.
     bindIO (on_stream is_getline) (\<lambda>chunk_str_len.
     bindIO (liftIO (bindE (stol 16 (rtrim chunk_str_len)) (numeric_cast uint64_t int64_t))) (\<lambda>len.
     retIO (nat len)))))"

definition chunk_data :: "url \<Rightarrow> nat \<Rightarrow> (http_io, string) st" where
  "chunk_data u n =
     bindIO (getIO buffer) (\<lambda>buf.
     bindIO (whenIO (length buf < n + 2)
       (\<lambda>io. case read_at_least (n + 2 - length buf) buf (h_segs io) of
          (ended, buf', segs) \<Rightarrow> check_error u ended ((set_buffer buf' io)\<lparr>h_segs := segs\<rparr>))) (\<lambda>_.
     bindIO (getIO buffer) (\<lambda>buf.
     if length buf < n then throwIO (Undefined_behaviour ''copy_n past the end of the response'')
     else bindIO (modIO (set_buffer (drop (n + 2) buf))) (\<lambda>_. retIO (take n buf)))))"

definition remaining :: "http_io \<Rightarrow> nat" where
  "remaining io = length (buffer io @ concat (h_segs io))"

lemma read_until_from_total:
  "read_until_from markers pos buf segs = (found, buf', segs') \<Longrightarrow> buf' @ concat segs' = buf @ concat segs"
  by (induction markers pos buf segs rule: read_until_from.induct)
    (subst (asm) (2) read_until_from.simps, auto split: if_splits list.splits)

lemma read_at_least_total:
  "read_at_least n buf segs = (ended, buf', segs') \<Longrightarrow> buf' @ concat segs' = buf @ concat segs"
  by (induction n buf segs rule: read_at_least.induct) (auto split: if_splits)

lemma stol_empty [simp]: "stol b [] = Inl (Invalid_argument ''stol'')"
  by (simp add: stol_def starts_with_def)

lemma buffer_simps [simp]:
  "buffer (set_buffer b io) = b" "buffer (io\<lparr>h_segs := ss\<rparr>) = buffer io" "h_segs (set_buffer b io) = h_segs io"
  "buffer (io\<lparr>h_stream := s\<rparr>) = is_rest s" "h_clean (set_buffer b io) = h_clean io"
  by (simp_all add: buffer_def set_buffer_def)

lemma read_until_remaining: "read_until ms io = (r, io') \<Longrightarrow> remaining io' = remaining io"
  by (auto simp: read_until_def remaining_def split: prod.splits dest!: read_until_from_total) (metis length_append)+

lemma chunk_size_shorter:
  assumes "chunk_size io = (Inr n, io')"
  shows "remaining io' < remaining io"
proof -
  obtain io1 where io1: "whenIO (buffer io = []) (read_until [crlf @ crlf, lf @ lf]) io = (Inr (), io1)"
    using assms by (auto simp: chunk_size_def io_simps split: if_splits sum.splits prod.splits)
  then have same: "remaining io1 = remaining io"
    by (auto simp: io_simps dest: read_until_remaining split: if_splits)
  obtain l s' where l: "is_getline (h_stream io1) = (l, s')"
    by fastforce
  then have "l \<noteq> []" and io': "io' = io1\<lparr>h_stream := s'\<rparr>"
    using assms io1 by (auto simp: chunk_size_def io_simps on_stream_def rtrim_def split: if_splits sum.splits prod.splits)
  with l have "length (is_rest s') < length (is_rest (h_stream io1))"
    using is_getline_nonempty by blast
  then show ?thesis
    unfolding same [symmetric] io' by (simp add: remaining_def) (simp add: buffer_def)
qed

lemma chunk_data_shorter:
  assumes "chunk_data u n io = (Inr d, io')"
  shows "remaining io' \<le> remaining io"
proof -
  obtain io1 where io1: "remaining io1 = remaining io" "io' = set_buffer (drop (n + 2) (buffer io1)) io1"
  proof (cases "length (buffer io) < n + 2")
    case True
    obtain ended buf segs where r: "read_at_least (n + 2 - length (buffer io)) (buffer io) (h_segs io) = (ended, buf, segs)"
      using prod_cases3 by blast
    define io1 where "io1 = (set_buffer buf io)\<lparr>h_segs := segs\<rparr>"
    have "remaining io1 = remaining io"
      using read_at_least_total [OF r] by (simp add: io1_def remaining_def flip: length_append)
    moreover have "io' = set_buffer (drop (n + 2) (buffer io1)) io1"
      using assms r True by (auto simp: chunk_data_def check_error_def io_simps io1_def split: if_splits)
    ultimately show ?thesis
      by (rule that)
  next
    case False
    then have "io' = set_buffer (drop (n + 2) (buffer io)) io"
      using assms by (auto simp: chunk_data_def io_simps split: if_splits)
    with refl show ?thesis
      by (rule that)
  qed
  then show ?thesis
    by (simp add: remaining_def)
qed

function chunk_loop :: "url \<Rightarrow> string \<Rightarrow> (http_io, string) st" where
  "chunk_loop u resp io =
     (case chunk_size io of
        (Inl e, io') \<Rightarrow> (Inl e, io')
      | (Inr n, io1) \<Rightarrow>
          if n = 0 then (Inr resp, io1)
          else
            (case chunk_data u n io1 of
               (Inl e, io') \<Rightarrow> (Inl e, io')
             | (Inr d, io') \<Rightarrow> chunk_loop u (resp @ d) io'))"
  by pat_completeness auto
termination
  by (relation "measure (\<lambda>(u, resp, io). remaining io)")
    (auto dest!: chunk_size_shorter [OF sym] chunk_data_shorter [OF sym])

declare chunk_loop.simps [simp del]

definition http_response :: "url \<Rightarrow> (http_io, response) st" where
  "http_response u =
     bindIO read_status (\<lambda>_.
     bindIO read_headers (\<lambda>_.
     bindIO (getIO h_stream) (\<lambda>s.
     bindIO (liftIO (header_loop [] [] s)) (\<lambda>r.
     case r of
       Inl loc \<Rightarrow> retIO (Redirect loc)
     | Inr (encoding, headers, s') \<Rightarrow>
         bindIO (modIO (\<lambda>io. io\<lparr>h_stream := s'\<rparr>)) (\<lambda>_.
         bindIO (if encoding = ''chunked'' then chunk_loop u [] else read_plain u) (\<lambda>body.
         retIO (Reply headers body)))))))"

section \<open>Requests\<close>

text \<open>
  \<open>server bind url text\<close> is the connection made from the address \<open>bind\<close>, with what it
  answers to the request, or the error of binding, connecting or the TLS handshake.  Redirections
  are followed with the default bind address; nothing limits their number.
\<close>

definition is_tls :: "url \<Rightarrow> bool" where
  "is_tls u \<longleftrightarrow> u_scheme u = ''https'' \<or> u_port u = Some 443"

definition check_request :: "url \<Rightarrow> string \<Rightarrow> unit result" where
  "check_request u bind_address =
     (if is_tls u then
        if bind_address \<noteq> [] \<and> bind_address \<noteq> ''127.0.0.1''
        then Inl (Runtime_error ''bind for ssl not yet supported'') else Inr ()
      else if u_scheme u \<noteq> ''http'' then Inl (Runtime_error ''httpGet called on non-http url'')
      else Inr ())"

partial_function (option) httpGet ::
  "(string \<Rightarrow> url \<Rightarrow> string \<Rightarrow> http_io result) \<Rightarrow> url \<Rightarrow> string \<Rightarrow> (string \<times> string) result option" where
  "httpGet server u bind_address =
     (case bindE (check_request u bind_address) (\<lambda>_.
           bindE (server bind_address u (http_request_text u)) (\<lambda>io. fst (http_response u io))) of
        Inl e \<Rightarrow> Some (Inl e)
      | Inr (Reply headers body) \<Rightarrow> Some (Inr (headers, body))
      | Inr (Redirect loc) \<Rightarrow> httpGet server loc ''127.0.0.1'')"

text \<open>Whether a datagram was sent, which it may be also when an exception follows, and the reply.\<close>

definition udpRequest :: "(url \<Rightarrow> bytes \<Rightarrow> bool \<times> bytes result) \<Rightarrow> url \<Rightarrow> bytes \<Rightarrow> bool \<times> bytes result" where
  "udpRequest udp u data =
     (if u_scheme u \<noteq> ''udp'' then (False, Inl (Runtime_error ''udpGet called on non-udp url''))
      else if u_port u = None then (False, Inl (Runtime_error ''udp url without port not supported''))
      else udp u data)"

section \<open>Responses are read as they were sent\<close>

lemma match_markers_infix: "match_markers ms s \<Longrightarrow> \<exists>m x y. m \<in> set ms \<and> s = x @ m @ y"
proof -
  assume "match_markers ms s"
  then obtain m n where m: "m \<in> set ms" "search s m = Some n"
    by (auto simp: match_markers_def list_ex_iff)
  then have "take (length m) (drop n s) = m"
    using search_Some by blast
  then have "s = take n s @ m @ drop (length m) (drop n s)"
    by (metis append_take_drop_id)
  with m(1) show ?thesis
    by blast
qed

lemma read_until_from_found:
  "read_until_from ms pos buf segs = (found, buf', segs') \<Longrightarrow>
    (found \<longrightarrow> (\<exists>m x y. m \<in> set ms \<and> buf' = x @ m @ y)) \<and> (\<not> found \<longrightarrow> segs' = [])"
proof (induction ms pos buf segs rule: read_until_from.induct)
  case (1 ms pos buf segs)
  show ?case
  proof (cases "match_markers ms (drop pos buf)")
    case True
    then obtain m x y where "m \<in> set ms" "drop pos buf = x @ m @ y"
      using match_markers_infix by blast
    then have "m \<in> set ms \<and> buf = (take pos buf @ x) @ m @ y"
      by (metis append.assoc append_take_drop_id)
    with True 1(2) show ?thesis
      by (subst (asm) read_until_from.simps) (metis prod.inject)
  next
    case False
    then have "read_until_from ms pos buf segs = (case segs of [] \<Rightarrow> (False, buf, [])
        | s # ss \<Rightarrow> read_until_from ms (length buf) (buf @ s) ss)"
      by (subst read_until_from.simps) simp
    with False 1 show ?thesis
      by (auto split: list.splits)
  qed
qed

lemma search_char: "c \<in> set s \<Longrightarrow> search s [c] \<noteq> None"
  by (induction s) auto

lemma read_until_from_lf:
  "lf \<in> set ms \<Longrightarrow> CHR 0x0A \<in> set (drop pos buf @ concat segs) \<Longrightarrow> read_until_from ms pos buf segs = (found, buf', segs') \<Longrightarrow> found"
proof (induction ms pos buf segs rule: read_until_from.induct)
  case (1 ms pos buf segs)
  show ?case
  proof (cases "match_markers ms (drop pos buf)")
    case True
    with 1(4) show ?thesis
      by (subst (asm) read_until_from.simps) simp
  next
    case False
    have "match_markers ms (drop pos buf)" if "CHR 0x0A \<in> set (drop pos buf)"
      using search_char [OF that] 1(2) unfolding match_markers_def list_ex_iff lf_def by blast
    with False have "CHR 0x0A \<notin> set (drop pos buf)"
      by blast
    then obtain s ss where "segs = s # ss" "CHR 0x0A \<in> set (drop (length buf) (buf @ s) @ concat ss)"
      using 1(3) by (cases segs) auto
    moreover from this have "read_until_from ms pos buf segs = read_until_from ms (length buf) (buf @ s) ss"
      using False by (subst read_until_from.simps) simp
    ultimately show ?thesis
      using False 1(1,2,4) by simp
  qed
qed

definition plain_header :: "string \<Rightarrow> bool" where
  "plain_header h \<longleftrightarrow> h \<noteq> [] \<and> CHR 0x0D \<notin> set h \<and> CHR 0x0A \<notin> set h
     \<and> \<not> starts_with location (to_lower (h @ [CHR 0x0D])) \<and> \<not> starts_with tencoding (to_lower (h @ [CHR 0x0D]))"

definition header_text :: "string list \<Rightarrow> string" where
  "header_text hs = concat (map (\<lambda>h. h @ crlf) hs)"

lemma header_text_simps [simp]: "header_text [] = []" "header_text (h # hs) = h @ crlf @ header_text hs"
  by (simp_all add: header_text_def)

text \<open>An empty line occurs behind the headers only.\<close>

lemma blank_line_position:
  assumes "\<forall>h \<in> set hs. plain_header h" and "m = crlf @ crlf \<or> m = lf @ lf"
    and "header_text hs @ crlf @ body = x @ m @ y"
  shows "length (header_text hs) + 2 \<le> length x + length m"
  using assms
proof (induction hs arbitrary: x)
  case Nil
  then show ?case
    by (auto simp: crlf_def lf_def)
next
  case (Cons h hs)
  define r where "r = header_text hs @ crlf @ body"
  have h: "CHR 0x0D \<notin> set h" "CHR 0x0A \<notin> set h"
    using Cons.prems(1) by (simp_all add: plain_header_def)
  have hd_r: "hd r \<noteq> CHR 0x0A" "r \<noteq> []" "hd r = CHR 0x0D \<Longrightarrow> hs = []"
    using Cons.prems(1) by (cases hs; force simp: r_def crlf_def plain_header_def neq_Nil_conv)+
  have "h @ CHR 0x0D # CHR 0x0A # r = x @ m @ y"
    using Cons.prems(3) by (simp add: r_def crlf_def)
  then consider us where "h = x @ us" "us @ CHR 0x0D # CHR 0x0A # r = m @ y"
    | us where "x = h @ us" "us @ m @ y = CHR 0x0D # CHR 0x0A # r"
    by (auto simp: append_eq_append_conv2)
  then show ?case
  proof cases
    case 1
    then have "us = []"
      using Cons.prems(2) h by (cases us) (auto simp: crlf_def lf_def)
    with 1 Cons.prems(2) hd_r show ?thesis
      by (auto simp: crlf_def lf_def)
  next
    case 2
    consider "us = []" | "us = [CHR 0x0D]" | us' where "us = CHR 0x0D # CHR 0x0A # us'" "r = us' @ m @ y"
      using 2(2) by (cases us; cases "tl us") auto
    then show ?thesis
    proof cases
      case 1
      with 2 Cons.prems(2) hd_r show ?thesis
        by (auto simp: crlf_def lf_def)
    next
      case 2
      with \<open>us @ m @ y = CHR 0x0D # CHR 0x0A # r\<close> Cons.prems(2) hd_r show ?thesis
        by (auto simp: crlf_def lf_def)
    next
      case 3
      then show ?thesis
        using Cons.IH [of us'] Cons.prems(1,2) 2(1) by (simp add: r_def crlf_def)
    qed
  qed
qed

lemma is_getline_line:
  assumes "CHR 0x0A \<notin> set l"
  shows "is_getline (istringstream (l @ CHR 0x0A # r)) = (l, istringstream r)"
proof -
  have "takeWhile (\<lambda>c. c \<noteq> CHR 0x0A) (l @ CHR 0x0A # r) = l"
    using assms by (subst takeWhile_append2) auto
  then show ?thesis
    by (simp add: is_getline_def Let_def istringstream_def is_good_def)
qed

lemma header_loop_plain:
  assumes "\<forall>h \<in> set hs. plain_header h"
  shows "header_loop enc headers (istringstream (header_text hs @ crlf @ rest)) =
    Inr (Inr (enc, headers @ header_text hs, istringstream rest))"
  using assms
proof (induction hs arbitrary: headers)
  case Nil
  then show ?case
    using is_getline_line [of "[CHR 0x0D]" rest] by (subst header_loop.simps) (simp add: crlf_def)
next
  case (Cons h hs)
  define inp where "inp = istringstream (header_text (h # hs) @ crlf @ rest)"
  have line: "is_getline inp = (h @ [CHR 0x0D], istringstream (header_text hs @ crlf @ rest))"
    using is_getline_line [of "h @ [CHR 0x0D]" "header_text hs @ crlf @ rest"] Cons.prems
    by (simp add: inp_def crlf_def plain_header_def)
  have "header_loop enc headers inp = header_loop enc (headers @ (h @ [CHR 0x0D]) @ lf) (istringstream (header_text hs @ crlf @ rest))"
    using Cons.prems by (subst header_loop.simps) (simp add: line plain_header_def)
  also have "\<dots> = Inr (Inr (enc, (headers @ (h @ [CHR 0x0D]) @ lf) @ header_text hs, istringstream rest))"
    using Cons by simp
  finally show ?case
    by (simp add: inp_def crlf_def lf_def)
qed

definition status_line :: "string \<Rightarrow> string" where
  "status_line reason = ''HTTP/1.1'' @ '' 200'' @ '' '' @ reason @ crlf"

lemma prefix_with_lf:
  assumes "buf @ x = p @ CHR 0x0A # rest" and "CHR 0x0A \<notin> set p" and "CHR 0x0A \<in> set buf"
  shows "\<exists>b. buf = p @ CHR 0x0A # b \<and> b @ x = rest"
  using assms by (auto simp: append_eq_append_conv2 append_eq_Cons_conv)

lemma extract_version: "is_extract_word (istringstream (''HTTP/1.1'' @ CHR '' '' # t)) = (''HTTP/1.1'', istringstream (CHR '' '' # t))"
  by (simp add: is_extract_word_def istringstream_def is_good_def is_space_def Let_def)

lemma extract_200: "is_extract_int uint32_t (istringstream ('' 200'' @ CHR '' '' # t)) = (200, istringstream (CHR '' '' # t))"
  by (simp add: is_extract_int_def istringstream_def is_good_def is_space_def is_digit_iff nat_of_dec_def digit_val_def
      ity_max_def Let_def)

lemma read_status_ok:
  assumes "CHR 0x0A \<notin> set reason" and "concat segs = status_line reason @ rest"
  shows "\<exists>buf segs'. read_status \<lparr>h_stream = istringstream [], h_segs = segs, h_clean = clean\<rparr> =
      (Inr 200, \<lparr>h_stream = istringstream buf, h_segs = segs', h_clean = clean\<rparr>) \<and> buf @ concat segs' = rest"
proof -
  obtain found buf segs' where r: "read_until_from [crlf, lf] 0 [] segs = (found, buf, segs')"
    using prod_cases3 by blast
  have found
    by (rule read_until_from_lf [OF _ _ r]) (simp_all add: assms(2) status_line_def crlf_def)
  then have lf: "CHR 0x0A \<in> set buf"
    using read_until_from_found [OF r] by (auto simp: crlf_def lf_def)
  define t where "t = reason @ [CHR 0x0D]"
  define p where "p = ''HTTP/1.1'' @ '' 200'' @ CHR '' '' # t"
  have total: "buf @ concat segs' = p @ CHR 0x0A # rest"
    using read_until_from_total [OF r] assms(2) by (simp add: status_line_def p_def t_def crlf_def)
  have "CHR 0x0A \<notin> set p"
    using assms(1) by (simp add: p_def t_def)
  then obtain b where b: "buf = p @ CHR 0x0A # b" "b @ concat segs' = rest"
    using prefix_with_lf [OF total _ lf] by blast
  have "read_until [crlf, lf] \<lparr>h_stream = istringstream [], h_segs = segs, h_clean = clean\<rparr> =
      (Inr (), \<lparr>h_stream = istringstream buf, h_segs = segs', h_clean = clean\<rparr>)"
    using r \<open>found\<close> by (simp add: read_until_def buffer_def set_buffer_def istringstream_def)
  moreover have "is_extract_word (istringstream buf) = (''HTTP/1.1'', istringstream ('' 200'' @ CHR '' '' # t @ CHR 0x0A # b))"
    unfolding b(1) p_def using extract_version [of "''200'' @ CHR '' '' # t @ CHR 0x0A # b"] by simp
  moreover have "is_getline (istringstream (CHR '' '' # t @ CHR 0x0A # b)) = (CHR '' '' # t, istringstream b)"
    using is_getline_line [of "CHR '' '' # t" b] assms(1) by (simp add: t_def)
  moreover have "starts_with ''HTTP/'' ''HTTP/1.1''"
    by (simp add: starts_with_def)
  ultimately have "read_status \<lparr>h_stream = istringstream [], h_segs = segs, h_clean = clean\<rparr> =
      (Inr 200, \<lparr>h_stream = istringstream b, h_segs = segs', h_clean = clean\<rparr>)"
    using extract_200 [of "t @ CHR 0x0A # b"] by (simp add: read_status_def io_simps on_stream_def)
  with b(2) show ?thesis
    by blast
qed

lemma prefix_split:
  assumes "buf @ x = p @ body" and "length p \<le> length buf"
  shows "\<exists>b. buf = p @ b \<and> b @ x = body"
proof -
  have "take (length p) buf = p"
    using arg_cong [OF assms(1), of "take (length p)"] assms(2) by simp
  then have "buf = p @ drop (length p) buf"
    by (metis append_take_drop_id)
  with assms(1) show ?thesis
    by (metis append.assoc same_append_eq)
qed

lemma read_headers_ok:
  assumes "\<forall>h \<in> set hs. plain_header h" and "buf @ concat segs = header_text hs @ crlf @ body"
  shows "\<exists>b segs'. read_headers \<lparr>h_stream = istringstream buf, h_segs = segs, h_clean = True\<rparr> =
      (Inr (), \<lparr>h_stream = istringstream (header_text hs @ crlf @ b), h_segs = segs', h_clean = True\<rparr>)
    \<and> b @ concat segs' = body"
proof -
  obtain found buf' segs' where r: "read_until_from [crlf @ crlf, lf @ lf] 0 buf segs = (found, buf', segs')"
    using prod_cases3 by blast
  have total: "buf' @ concat segs' = header_text hs @ crlf @ body"
    using read_until_from_total [OF r] assms(2) by simp
  have "length (header_text hs @ crlf) \<le> length buf'"
  proof (cases found)
    case True
    then obtain m x y where m: "m = crlf @ crlf \<or> m = lf @ lf" "buf' = x @ m @ y"
      using read_until_from_found [OF r] by auto
    then have "header_text hs @ crlf @ body = x @ m @ (y @ concat segs')"
      using total by simp
    from blank_line_position [OF assms(1) m(1) this] m(2) show ?thesis
      by (simp add: crlf_def)
  next
    case False
    then have "buf' = header_text hs @ crlf @ body"
      using read_until_from_found [OF r] total by simp
    then show ?thesis
      by simp
  qed
  then obtain b where b: "buf' = header_text hs @ crlf @ b" "b @ concat segs' = body"
    using prefix_split [of buf' "concat segs'" "header_text hs @ crlf" body] total by auto
  have "read_headers \<lparr>h_stream = istringstream buf, h_segs = segs, h_clean = True\<rparr> =
      (Inr (), \<lparr>h_stream = istringstream buf', h_segs = segs', h_clean = True\<rparr>)"
    using r by (cases found) (simp_all add: read_headers_def read_until_def buffer_def set_buffer_def istringstream_def)
  with b show ?thesis
    by blast
qed

text \<open>
  C20.  A response without transfer encoding is read as it was sent, headers and body, however the
  bytes are cut into reads, also where a cut hides the end of the headers from \<open>read_until\<close>.
\<close>

theorem plain_response_any_cut:
  assumes "CHR 0x0A \<notin> set reason" and "\<forall>h \<in> set hs. plain_header h"
    and "concat segs = status_line reason @ header_text hs @ crlf @ body"
  shows "fst (http_response u \<lparr>h_stream = istringstream [], h_segs = segs, h_clean = True\<rparr>) =
    Inr (Reply (header_text hs) body)"
proof -
  obtain buf segs1 where status: "read_status \<lparr>h_stream = istringstream [], h_segs = segs, h_clean = True\<rparr> =
      (Inr 200, \<lparr>h_stream = istringstream buf, h_segs = segs1, h_clean = True\<rparr>)"
    and buf: "buf @ concat segs1 = header_text hs @ crlf @ body"
    using read_status_ok [OF assms(1,3)] by blast
  obtain b segs2 where headers: "read_headers \<lparr>h_stream = istringstream buf, h_segs = segs1, h_clean = True\<rparr> =
      (Inr (), \<lparr>h_stream = istringstream (header_text hs @ crlf @ b), h_segs = segs2, h_clean = True\<rparr>)"
    and b: "b @ concat segs2 = body"
    using read_headers_ok [OF assms(2) buf] by blast
  show ?thesis
    using b header_loop_plain [OF assms(2), of "[]" "[]" b]
    by (simp add: http_response_def io_simps status headers read_plain_def check_error_def buffer_def)
qed

definition sample_url :: url where
  "sample_url = \<lparr>u_scheme = ''http'', u_host = ''h'', u_path = ''/'', u_params = [], u_port = None\<rparr>"

theorem plain_response_any_cut_witness:
  "fst (http_response sample_url \<lparr>h_stream = istringstream [], h_segs = [status_line ''OK'' @ ''A: b'' @ [CHR 0x0D],
       CHR 0x0A # [CHR 0x0D], CHR 0x0A # ''body''], h_clean = True\<rparr>) = Inr (Reply (''A: b'' @ crlf) ''body'')"
proof -
  have "plain_header ''A: b''"
    by (simp add: plain_header_def starts_with_def location_def tencoding_def to_lower_def)
  then show ?thesis
    using plain_response_any_cut [of "''OK''" "[''A: b'']"
        "[status_line ''OK'' @ ''A: b'' @ [CHR 0x0D], CHR 0x0A # [CHR 0x0D], CHR 0x0A # ''body'']" "''body''" sample_url]
    by (simp add: crlf_def)
qed

section \<open>Chunks\<close>

definition chunk_line :: "string \<Rightarrow> nat \<Rightarrow> bool" where
  "chunk_line sz n \<longleftrightarrow> CHR 0x0A \<notin> set sz \<and> stol 16 (rtrim (sz @ [CHR 0x0D])) = Inr (int n) \<and> n < 2 ^ 62"

definition some_chunks :: "(string \<times> string) list \<Rightarrow> string" where
  "some_chunks cs = concat (map (\<lambda>(sz, d). sz @ crlf @ d @ crlf) cs)"

definition chunk_text :: "(string \<times> string) list \<Rightarrow> string" where
  "chunk_text cs = some_chunks cs @ ''0'' @ crlf @ crlf"

lemma some_chunks_Cons: "some_chunks ((sz, d) # cs) = sz @ crlf @ d @ crlf @ some_chunks cs"
  by (simp add: some_chunks_def)

lemma numeric_cast_chunk: "n < 2 ^ 62 \<Longrightarrow> numeric_cast uint64_t int64_t (int n) = Inr (int n)"
  by (rule numeric_cast_u64_exact) auto

lemma chunk_size_line:
  assumes "chunk_line sz n"
  shows "chunk_size \<lparr>h_stream = istringstream (sz @ crlf @ rest), h_segs = segs, h_clean = clean\<rparr> =
    (Inr n, \<lparr>h_stream = istringstream rest, h_segs = segs, h_clean = clean\<rparr>)"
proof -
  have "is_getline (istringstream (sz @ crlf @ rest)) = (sz @ [CHR 0x0D], istringstream rest)"
    using is_getline_line [of "sz @ [CHR 0x0D]" rest] assms by (simp add: chunk_line_def crlf_def)
  moreover have "sz @ crlf @ rest \<noteq> []"
    by (simp add: crlf_def)
  ultimately show ?thesis
    using assms numeric_cast_chunk [of n]
    by (simp add: chunk_size_def io_simps on_stream_def buffer_def chunk_line_def del: append_is_Nil_conv)
qed

lemma last_chunk: "chunk_line ''0'' 0"
  by (simp add: chunk_line_def rtrim_def is_space_def stol_def starts_with_def is_base_digit_def base_digit_def
      nat_of_base_def Let_def)

lemma chunk_loop_chunks:
  assumes "\<forall>(sz, d) \<in> set cs. chunk_line sz (length d) \<and> d \<noteq> []"
  shows "chunk_loop u resp \<lparr>h_stream = istringstream (some_chunks cs @ rest), h_segs = segs, h_clean = clean\<rparr> =
    chunk_loop u (resp @ concat (map snd cs)) \<lparr>h_stream = istringstream rest, h_segs = segs, h_clean = clean\<rparr>"
  using assms
proof (induction cs arbitrary: resp)
  case Nil
  then show ?case
    by (simp add: some_chunks_def)
next
  case (Cons c cs)
  obtain sz d where c: "c = (sz, d)"
    by fastforce
  then have line: "chunk_line sz (length d)" "d \<noteq> []"
    using Cons.prems by auto
  have "chunk_data u (length d) \<lparr>h_stream = istringstream (d @ crlf @ some_chunks cs @ rest), h_segs = segs, h_clean = clean\<rparr> =
      (Inr d, \<lparr>h_stream = istringstream (some_chunks cs @ rest), h_segs = segs, h_clean = clean\<rparr>)"
    by (simp add: chunk_data_def io_simps buffer_def set_buffer_def crlf_def istringstream_def)
  then show ?case
    using chunk_size_line [OF line(1), of "d @ crlf @ some_chunks cs @ rest" segs clean] line(2) Cons
    by (subst chunk_loop.simps) (simp add: c some_chunks_Cons)
qed

lemma chunk_loop_text:
  assumes "\<forall>(sz, d) \<in> set cs. chunk_line sz (length d) \<and> d \<noteq> []"
  shows "fst (chunk_loop u resp \<lparr>h_stream = istringstream (chunk_text cs), h_segs = segs, h_clean = clean\<rparr>) =
    Inr (resp @ concat (map snd cs))"
  unfolding chunk_text_def chunk_loop_chunks [OF assms]
  using chunk_size_line [OF last_chunk, of crlf segs clean] by (subst chunk_loop.simps) simp

lemma read_at_least_short:
  "read_at_least n buf segs = (ended, buf', segs') \<Longrightarrow> length buf' \<le> length buf + length (concat segs)"
  using read_at_least_total by (metis le_add1 length_append)

lemma chunk_data_short:
  assumes "length (buffer io) + length (concat (h_segs io)) < n" and "h_clean io"
  shows "fst (chunk_data u n io) = Inl (Undefined_behaviour ''copy_n past the end of the response'')"
proof -
  obtain ended buf segs where r: "read_at_least (n + 2 - length (buffer io)) (buffer io) (h_segs io) = (ended, buf, segs)"
    using prod_cases3 by blast
  then have "length buf < n"
    using read_at_least_short [OF r] assms(1) by simp
  then show ?thesis
    using r assms by (simp add: chunk_data_def io_simps check_error_def)
qed

lemma chunk_size_eof:
  assumes "is_eof (h_stream io)"
  shows "\<exists>e. fst (chunk_size io) = Inl e"
proof -
  obtain r io1 where r: "whenIO (buffer io = []) (read_until [crlf @ crlf, lf @ lf]) io = (r, io1)"
    by fastforce
  then have "is_eof (h_stream io1)"
    using assms by (auto simp: io_simps read_until_def set_buffer_def split: if_splits prod.splits)
  then have "is_getline (h_stream io1) = ([], (h_stream io1)\<lparr>is_fail := True\<rparr>)"
    by (simp add: is_getline_def is_good_def)
  with r show ?thesis
    by (cases r) (simp_all add: chunk_size_def io_simps on_stream_def rtrim_def)
qed

lemma chunk_data_eof:
  assumes "chunk_data u n io = (Inr d, io')"
  shows "is_eof (h_stream io') = is_eof (h_stream io)"
  using assms
  by (auto simp: chunk_data_def io_simps check_error_def set_buffer_def split: if_splits prod.splits sum.splits)

text \<open>A size line of which only the beginning is in the buffer, which is not empty: it is taken as it is.\<close>

lemma cut_size:
  assumes "buf \<noteq> []" and "CHR 0x0A \<notin> set buf"
  shows "if stol 16 (rtrim buf) = Inr 0
    then fst (chunk_loop u resp \<lparr>h_stream = istringstream buf, h_segs = segs, h_clean = clean\<rparr>) = Inr resp
    else \<exists>e. fst (chunk_loop u resp \<lparr>h_stream = istringstream buf, h_segs = segs, h_clean = clean\<rparr>) = Inl e"
proof -
  define io where "io = \<lparr>h_stream = istringstream buf, h_segs = segs, h_clean = clean\<rparr>"
  define io1 where "io1 = \<lparr>h_stream = \<lparr>is_rest = [], is_eof = True, is_fail = False\<rparr>, h_segs = segs, h_clean = clean\<rparr>"
  have all: "takeWhile (\<lambda>c. c \<noteq> CHR 0x0A) buf = buf"
    using assms(2) by (auto simp: takeWhile_eq_all_conv)
  have "is_getline (istringstream buf) = (buf, \<lparr>is_rest = [], is_eof = True, is_fail = False\<rparr>)"
    using assms(1) by (simp add: is_getline_def Let_def all)
  then have size: "chunk_size io = (case bindE (stol 16 (rtrim buf)) (numeric_cast uint64_t int64_t) of
      Inl e \<Rightarrow> (Inl e, io1) | Inr len \<Rightarrow> (Inr (nat len), io1))"
    using assms(1) by (simp add: chunk_size_def io_simps on_stream_def io_def io1_def buffer_def split: sum.split)
  have fails: "\<exists>e. fst (chunk_loop u resp io) = Inl e" if "chunk_size io = (Inl e, io1)" for e
    using that by (subst chunk_loop.simps) simp
  show ?thesis
  proof (cases "stol 16 (rtrim buf)")
    case (Inl e)
    then show ?thesis
      using fails size unfolding io_def [symmetric] by simp
  next
    case (Inr v)
    then have small: "v < 2 ^ 63"
      by (auto simp: stol_def Let_def split: if_splits)
    show ?thesis
    proof (cases "v \<le> 0")
      case True
      then have "v < 0 \<Longrightarrow> \<exists>e. numeric_cast uint64_t int64_t v = Inl e"
        by (simp add: numeric_cast_def)
      moreover have "numeric_cast uint64_t int64_t 0 = Inr 0"
        by (rule numeric_cast_u64_exact) simp_all
      ultimately show ?thesis
        using Inr size fails True unfolding io_def [symmetric]
        by (cases "v = 0") (auto simp: chunk_loop.simps [of u resp io])
    next
      case False
      then have "numeric_cast uint64_t int64_t v = Inr v"
        using small by (intro numeric_cast_u64_exact) auto
      with Inr size have size: "chunk_size io = (Inr (nat v), io1)"
        by simp
      obtain r io2 where r: "chunk_data u (nat v) io1 = (r, io2)"
        by fastforce
      have "\<exists>e. fst (chunk_loop u resp io) = Inl e"
      proof (cases r)
        case (Inl e)
        with r size False show ?thesis
          by (subst chunk_loop.simps) simp
      next
        case (Inr d)
        then have "is_eof (h_stream io2)"
          using chunk_data_eof r by (simp add: io1_def)
        then obtain e io3 where "chunk_size io2 = (Inl e, io3)"
          using chunk_size_eof by (metis prod.collapse)
        then have "fst (chunk_loop u (resp @ d) io2) = Inl e"
          by (subst chunk_loop.simps) simp
        with r Inr size False show ?thesis
          by (subst chunk_loop.simps) simp
      qed
      with Inr False show ?thesis
        unfolding io_def [symmetric] by simp
    qed
  qed
qed

text \<open>
  C34.  A chunked body that is in the buffer is put together from its chunks.  A chunk that is
  announced longer than what arrives before the end of the stream is undefined behaviour: bytes
  behind the buffer are copied.  And when, after any number of whole chunks, a read has ended inside
  the line with the size of the next one, what is there of the line is taken for the size, whatever
  follows: where it reads as 0, the request succeeds with the body cut off there; in every other
  case it fails.
\<close>

theorem chunked_body:
  assumes "\<forall>(sz, d) \<in> set cs. chunk_line sz (length d) \<and> d \<noteq> []"
    and "chunk_line sz n" and "length (d @ concat segs) < n"
    and "buf \<noteq> []" and "CHR 0x0A \<notin> set buf"
  shows "fst (chunk_loop u [] \<lparr>h_stream = istringstream (chunk_text cs), h_segs = segs', h_clean = clean\<rparr>) =
      Inr (concat (map snd cs))
    \<and> is_UB (fst (chunk_loop u [] \<lparr>h_stream = istringstream (some_chunks cs @ sz @ crlf @ d), h_segs = segs, h_clean = True\<rparr>))
    \<and> (if stol 16 (rtrim buf) = Inr 0
       then fst (chunk_loop u [] \<lparr>h_stream = istringstream (some_chunks cs @ buf), h_segs = segs', h_clean = clean\<rparr>) =
         Inr (concat (map snd cs))
       else \<exists>e. fst (chunk_loop u [] \<lparr>h_stream = istringstream (some_chunks cs @ buf), h_segs = segs', h_clean = clean\<rparr>) = Inl e)"
proof (intro conjI)
  show "fst (chunk_loop u [] \<lparr>h_stream = istringstream (chunk_text cs), h_segs = segs', h_clean = clean\<rparr>) =
      Inr (concat (map snd cs))"
    using chunk_loop_text [OF assms(1), of u "[]"] by simp
  obtain io where "chunk_data u n \<lparr>h_stream = istringstream d, h_segs = segs, h_clean = True\<rparr> =
      (Inl (Undefined_behaviour ''copy_n past the end of the response''), io)"
    using chunk_data_short [of "\<lparr>h_stream = istringstream d, h_segs = segs, h_clean = True\<rparr>" n u] assms(3)
    by (cases "chunk_data u n \<lparr>h_stream = istringstream d, h_segs = segs, h_clean = True\<rparr>") (auto simp: buffer_def)
  moreover have "n \<noteq> 0"
    using assms(3) by simp
  ultimately show "is_UB (fst (chunk_loop u [] \<lparr>h_stream = istringstream (some_chunks cs @ sz @ crlf @ d), h_segs = segs, h_clean = True\<rparr>))"
    unfolding chunk_loop_chunks [OF assms(1)]
    using chunk_size_line [OF assms(2), of d segs True] by (subst chunk_loop.simps) simp
  show "if stol 16 (rtrim buf) = Inr 0
       then fst (chunk_loop u [] \<lparr>h_stream = istringstream (some_chunks cs @ buf), h_segs = segs', h_clean = clean\<rparr>) =
         Inr (concat (map snd cs))
       else \<exists>e. fst (chunk_loop u [] \<lparr>h_stream = istringstream (some_chunks cs @ buf), h_segs = segs', h_clean = clean\<rparr>) = Inl e"
    unfolding chunk_loop_chunks [OF assms(1)] using cut_size [OF assms(4,5), of u "concat (map snd cs)" segs' clean] by simp
qed

lemma chunk_line_3: "chunk_line ''3'' 3"
  by (simp add: chunk_line_def rtrim_def is_space_def stol_def starts_with_def is_base_digit_def base_digit_def
      nat_of_base_def Let_def)

theorem chunked_body_witness:
  "fst (chunk_loop sample_url [] \<lparr>h_stream = istringstream (chunk_text [(''3'', ''abc'')]), h_segs = [''A'' @ crlf @ ''0123456789''], h_clean = True\<rparr>) = Inr ''abc''
    \<and> is_UB (fst (chunk_loop sample_url [] \<lparr>h_stream = istringstream (some_chunks [(''3'', ''abc'')] @ ''3'' @ crlf @ ''ab''),
        h_segs = [], h_clean = True\<rparr>))
    \<and> fst (chunk_loop sample_url [] \<lparr>h_stream = istringstream (some_chunks [(''3'', ''abc'')] @ ''0''),
        h_segs = [''A'' @ crlf @ ''0123456789''], h_clean = True\<rparr>) = Inr ''abc''"
proof -
  have "stol 16 (rtrim ''0'') = Inr 0"
    by (simp add: rtrim_def is_space_def stol_def starts_with_def is_base_digit_def base_digit_def nat_of_base_def Let_def)
  then show ?thesis
    using chunked_body [of "[(''3'', ''abc'')]" "''3''" 3 "''ab''" "[]" "''0''" sample_url "[''A'' @ crlf @ ''0123456789'']" True] chunk_line_3 by (simp add: numeral_3_eq_3)
qed

section \<open>Redirections\<close>

lemma httpGet_loop:
  assumes "check_request u b = Inr ()" and "check_request u ''127.0.0.1'' = Inr ()"
    and "\<And>a. \<exists>io. server a u (http_request_text u) = Inr io \<and> fst (http_response u io) = Inr (Redirect u)"
  shows "httpGet server u b = None"
proof (rule ccontr)
  assume "httpGet server u b \<noteq> None"
  then obtain r where r: "httpGet server u b = Some r"
    by blast
  define diverges where "diverges server' u' b' r' \<longleftrightarrow> \<not> (server' = server \<and> u' = u \<and> (b' = b \<or> b' = ''127.0.0.1''))"
    for server' u' b' and r' :: "(string \<times> string) result"
  have "diverges server u b r"
  proof (rule httpGet.raw_induct [of diverges, OF _ r])
    fix f server' u' b' r'
    assume IH: "\<And>server' u' b' r'. f server' u' b' = Some r' \<Longrightarrow> diverges server' u' b' r'"
      and body: "(case bindE (check_request u' b') (\<lambda>_. bindE (server' b' u' (http_request_text u'))
          (\<lambda>io. fst (http_response u' io))) of
          Inl e \<Rightarrow> Some (Inl e) | Inr (Reply headers body) \<Rightarrow> Some (Inr (headers, body))
        | Inr (Redirect loc) \<Rightarrow> f server' loc ''127.0.0.1'') = Some r'"
    show "diverges server' u' b' r'"
      unfolding diverges_def
    proof
      assume eq: "server' = server \<and> u' = u \<and> (b' = b \<or> b' = ''127.0.0.1'')"
      then obtain io where "server b' u (http_request_text u) = Inr io" "fst (http_response u io) = Inr (Redirect u)"
        using assms(3) by blast
      with body eq assms(1,2) have "f server u ''127.0.0.1'' = Some r'"
        by auto
      from IH [OF this] show False
        by (simp add: diverges_def)
    qed
  qed
  then show False
    by (simp add: diverges_def)
qed

text \<open>
  Redirections are followed without a limit: a server that redirects a URL to itself makes
  \<open>httpGet\<close> run for ever.  The first redirection also drops the configured bind address and takes
  the default instead.
\<close>

theorem redirect_forever:
  assumes "check_request u b = Inr ()" and "check_request u ''127.0.0.1'' = Inr ()"
    and "\<And>a. \<exists>io. server a u (http_request_text u) = Inr io \<and> fst (http_response u io) = Inr (Redirect u)"
    and "server b v (http_request_text v) = Inr io'" and "fst (http_response v io') = Inr (Redirect w)"
    and "check_request v b = Inr ()"
  shows "httpGet server u b = None \<and> httpGet server v b = httpGet server w ''127.0.0.1''"
  using httpGet_loop [of u b server, OF assms(1-3)] assms(4-6) by (subst (2) httpGet.simps) simp

definition sample_location :: string where
  "sample_location = ''Location: http://h/''"

definition sample_redirect :: string where
  "sample_redirect = ''HTTP/1.1'' @ '' 302'' @ '' '' @ crlf @ sample_location @ crlf @ crlf"

definition sample_server :: "string \<Rightarrow> url \<Rightarrow> string \<Rightarrow> http_io result" where
  "sample_server = (\<lambda>_ _ _. Inr \<lparr>h_stream = istringstream [], h_segs = [sample_redirect], h_clean = True\<rparr>)"

lemma read_until_one:
  assumes "CHR 0x0A \<in> set t"
  shows "read_until [crlf, lf] \<lparr>h_stream = istringstream [], h_segs = [t], h_clean = c\<rparr> =
    (Inr (), \<lparr>h_stream = istringstream t, h_segs = [], h_clean = c\<rparr>)"
proof -
  obtain found buf segs' where r: "read_until_from [crlf, lf] 0 [] [t] = (found, buf, segs')"
    using prod_cases3 by blast
  have found
    using assms by (intro read_until_from_lf [OF _ _ r]) simp_all
  moreover have "buf = t \<and> segs' = []"
    using r by (simp add: read_until_from.simps match_markers_def crlf_def lf_def split: if_splits)
  ultimately show ?thesis
    using r by (simp add: read_until_def buffer_def set_buffer_def istringstream_def)
qed

lemma extract_302: "is_extract_int uint32_t (istringstream ('' 302'' @ CHR '' '' # t)) = (302, istringstream (CHR '' '' # t))"
  by (simp add: is_extract_int_def istringstream_def is_good_def is_space_def is_digit_iff nat_of_dec_def digit_val_def
      ity_max_def Let_def)

lemma sample_status:
  "read_status \<lparr>h_stream = istringstream [], h_segs = [sample_redirect], h_clean = True\<rparr> =
    (Inr 302, \<lparr>h_stream = istringstream (sample_location @ crlf @ crlf), h_segs = [], h_clean = True\<rparr>)"
proof -
  have "is_extract_word (istringstream sample_redirect) = (''HTTP/1.1'', istringstream ('' 302'' @ CHR '' '' # crlf @ sample_location @ crlf @ crlf))"
    using extract_version [of "''302'' @ CHR '' '' # crlf @ sample_location @ crlf @ crlf"] by (simp add: sample_redirect_def)
  moreover have "is_getline (istringstream (CHR '' '' # crlf @ sample_location @ crlf @ crlf)) = ([CHR '' '', CHR 0x0D], istringstream (sample_location @ crlf @ crlf))"
    using is_getline_line [of "[CHR '' '', CHR 0x0D]" "sample_location @ crlf @ crlf"] by (simp add: crlf_def)
  moreover have "read_until [crlf, lf] \<lparr>h_stream = istringstream [], h_segs = [sample_redirect], h_clean = True\<rparr> =
      (Inr (), \<lparr>h_stream = istringstream sample_redirect, h_segs = [], h_clean = True\<rparr>)"
    by (rule read_until_one) (simp add: sample_redirect_def crlf_def)
  moreover have "starts_with ''HTTP/'' ''HTTP/1.1''"
    by (simp add: starts_with_def)
  ultimately show ?thesis
    using extract_302 [of "crlf @ sample_location @ crlf @ crlf"] by (simp add: read_status_def io_simps on_stream_def)
qed

lemma sample_header:
  "header_loop [] [] (istringstream (sample_location @ crlf @ crlf)) = Inr (Inl sample_url)"
proof -
  have wf: "url_wf sample_url"
    by (simp add: sample_url_def url_wf_def is_path_def)
  have str: "url_str sample_url = ''http://h/''"
    by (simp add: sample_url_def url_str_def url_authority_def)
  have parse: "parse_url ''http://h/'' = Inr sample_url"
    using parse_url_str [OF wf] by (simp only: str)
  have trim: "rtrim (drop (length location) (sample_location @ [CHR 0x0D])) = ''http://h/''"
    by (simp add: rtrim_def location_def sample_location_def is_space_def)
  have loc: "starts_with location (to_lower (sample_location @ [CHR 0x0D]))"
    by (simp add: starts_with_def location_def sample_location_def to_lower_def lower_char_def Let_def char_of_def bit_Suc_0_iff)
  have "is_getline (istringstream (sample_location @ crlf @ crlf)) = (sample_location @ [CHR 0x0D], istringstream crlf)"
    using is_getline_line [of "sample_location @ [CHR 0x0D]" crlf] by (simp add: sample_location_def crlf_def)
  moreover have "sample_location @ [CHR 0x0D] \<noteq> [CHR 0x0D]"
    by (simp add: sample_location_def)
  ultimately show ?thesis
    using loc trim parse by (subst header_loop.simps) (simp add: Let_def)
qed

lemma sample_redirects:
  "fst (http_response u \<lparr>h_stream = istringstream [], h_segs = [sample_redirect], h_clean = True\<rparr>) = Inr (Redirect sample_url)"
proof -
  have "read_headers \<lparr>h_stream = istringstream b, h_segs = [], h_clean = True\<rparr> =
      (Inr (), \<lparr>h_stream = istringstream b, h_segs = [], h_clean = True\<rparr>)" for b
    by (simp add: read_headers_def read_until_def read_until_from.simps buffer_def set_buffer_def istringstream_def)
  then show ?thesis
    by (simp add: http_response_def io_simps sample_status sample_header)
qed

theorem redirect_forever_witness: "httpGet sample_server sample_url ''10.0.0.1'' = None"
proof -
  have check: "check_request sample_url b = Inr ()" for b
    by (simp add: check_request_def is_tls_def sample_url_def)
  have server: "sample_server a u t = Inr \<lparr>h_stream = istringstream [], h_segs = [sample_redirect], h_clean = True\<rparr>" for a u t
    by (simp add: sample_server_def)
  have ex: "\<exists>io. sample_server a sample_url (http_request_text sample_url) = Inr io
      \<and> fst (http_response sample_url io) = Inr (Redirect sample_url)" for a
    using server sample_redirects by blast
  show ?thesis
    using redirect_forever [where server = sample_server and b = "''10.0.0.1''", OF check check ex server sample_redirects check]
    by (rule conjunct1)
qed

end
