(* ===== verification/Config.thy ===== *)
theory Config
  imports Text
begin

text \<open>
  The settings of \<^verbatim>\<open>src/global_config.hpp\<close> and \<^verbatim>\<open>src/global_config.cpp\<close>,
  their defaults, the configuration file and where it is looked for, and the view on them that
  \<^verbatim>\<open>src/main.cpp\<close> makes of the command line.  The environment and the file system
  are parameters.
\<close>

section \<open>Settings\<close>

datatype bool_setting =
  INITIATE_PEER_CONNECTIONS | RESOLVE_URLS | PIECE_VERIFY_THREADS | VERIFY_PIECES_ON_STARTUP

datatype int_setting =
  LISTENING_PORT | CONNECTION_PORT | RETRY_PIECES_INTERVAL_SECONDS | RETRY_PEERS_INTERVAL_SECONDS | MAX_PENDING_REQUESTS

datatype string_setting = BIND_ADDRESS

record config =
  m_bool_settings :: "bool_setting \<Rightarrow> bool"
  m_int_settings :: "int_setting \<Rightarrow> int"
  m_string_settings :: "string_setting \<Rightarrow> string"

fun default_bool :: "bool_setting \<Rightarrow> bool" where
  "default_bool INITIATE_PEER_CONNECTIONS = False"
| "default_bool RESOLVE_URLS = True"
| "default_bool PIECE_VERIFY_THREADS = True"
| "default_bool VERIFY_PIECES_ON_STARTUP = True"

fun default_int :: "int_setting \<Rightarrow> int" where
  "default_int LISTENING_PORT = 20001"
| "default_int CONNECTION_PORT = 20000"
| "default_int RETRY_PIECES_INTERVAL_SECONDS = 45"
| "default_int RETRY_PEERS_INTERVAL_SECONDS = 25"
| "default_int MAX_PENDING_REQUESTS = 50"

definition default_config :: config where
  "default_config = \<lparr>m_bool_settings = default_bool, m_int_settings = default_int, m_string_settings = (\<lambda>_. [])\<rparr>"

text \<open>The keys of the configuration file; ordered, as the maps of the source are.\<close>

definition bool_settings_map :: "(string \<times> bool_setting) list" where
  "bool_settings_map =
     [(''initiate_peer_connections'', INITIATE_PEER_CONNECTIONS),
      (''piece_verify_threads'', PIECE_VERIFY_THREADS),
      (''resolve_urls'', RESOLVE_URLS)]"

definition int_settings_map :: "(string \<times> int_setting) list" where
  "int_settings_map =
     [(''connection_port'', CONNECTION_PORT),
      (''listening_port'', LISTENING_PORT),
      (''retry_peers_interval_seconds'', RETRY_PEERS_INTERVAL_SECONDS),
      (''retry_pieces_interval_seconds'', RETRY_PIECES_INTERVAL_SECONDS)]"

definition string_settings_map :: "(string \<times> string_setting) list" where
  "string_settings_map = [(''bind_address'', BIND_ADDRESS)]"

text \<open>\<^verbatim>\<open>operator<<\<close>; a bool prints as 1 or 0.\<close>

definition config_dump :: "config \<Rightarrow> string" where
  "config_dump c =
     concat (map (\<lambda>(k, s). k @ ''='' @ (if m_bool_settings c s then ''1'' else ''0'') @ [CHR 0x0A]) bool_settings_map)
     @ concat (map (\<lambda>(k, s). k @ ''='' @ dec_of_int (m_int_settings c s) @ [CHR 0x0A]) int_settings_map)"

section \<open>The configuration file\<close>

definition parse_bool :: "string \<Rightarrow> bool option" where
  "parse_bool s =
     (let l = to_lower s in
      if l = ''true'' \<or> l = ''1'' then Some True
      else if l = ''false'' \<or> l = ''0'' then Some False
      else None)"

definition update_value :: "string \<Rightarrow> string \<Rightarrow> config \<Rightarrow> config" where
  "update_value key val c =
     (case map_of bool_settings_map key of
        Some s \<Rightarrow>
          (case parse_bool val of
             None \<Rightarrow> c
           | Some b \<Rightarrow> c\<lparr>m_bool_settings := (m_bool_settings c)(s := b)\<rparr>)
      | None \<Rightarrow>
          (case map_of int_settings_map key of
             Some s \<Rightarrow>
               (case stoi val of
                  Inl _ \<Rightarrow> c
                | Inr i \<Rightarrow> c\<lparr>m_int_settings := (m_int_settings c)(s := i)\<rparr>)
           | None \<Rightarrow>
               (case map_of string_settings_map key of
                  Some s \<Rightarrow> c\<lparr>m_string_settings := (m_string_settings c)(s := val)\<rparr>
                | None \<Rightarrow> c)))"

definition config_line :: "string \<Rightarrow> config \<Rightarrow> config" where
  "config_line line c =
     (case split (CHR ''='') line of
        [k, v] \<Rightarrow> update_value (trim k) (trim v) c
      | _ \<Rightarrow> c)"

text \<open>\<open>files\<close>: the content of the files that exist.\<close>

definition try_file :: "(string \<Rightarrow> string option) \<Rightarrow> string \<Rightarrow> config \<Rightarrow> bool \<times> config" where
  "try_file files path c =
     (case files path of
        Some text \<Rightarrow> (True, fold config_line (split (CHR 0x0A) text) c)
      | None \<Rightarrow> (False, c))"

definition file_config :: "(string \<Rightarrow> string option) \<Rightarrow> string \<Rightarrow> config result" where
  "file_config files path =
     (if path = [] then Inr default_config
      else case try_file files path default_config of
          (True, c) \<Rightarrow> Inr c
        | (False, _) \<Rightarrow> Inl (Runtime_error ''Could not read/use config file''))"

section \<open>Where the file is looked for\<close>

definition env_value :: "(string \<Rightarrow> string option) \<Rightarrow> string \<Rightarrow> string" where
  "env_value env name = (case env name of Some v \<Rightarrow> v | None \<Rightarrow> [])"

definition config_dirs :: "(string \<Rightarrow> string option) \<Rightarrow> (string \<Rightarrow> bool) \<Rightarrow> string list" where
  "config_dirs env exists =
     (let home_dir = env_value env ''HOME''; xdg_home = env_value env ''XDG_CONFIG_HOME'';
          xdg_dirs = env_value env ''XDG_CONFIG_DIRS''
      in
      (if xdg_home = [] then [path_append home_dir ''.config'']
       else if exists home_dir then [xdg_home] else [])
      @ (if xdg_dirs = [] then [''etc/xdg''] else filter exists (split (CHR '':'') xdg_dirs))
      @ (if exists home_dir then [home_dir] else []))"

fun first_file :: "(string \<Rightarrow> string option) \<Rightarrow> string list \<Rightarrow> config \<Rightarrow> config" where
  "first_file files [] c = c"
| "first_file files (d # ds) c =
     (case try_file files (path_append (path_append d ''zit'') ''config.ini'') c of
        (True, c') \<Rightarrow> c'
      | (False, _) \<Rightarrow> first_file files ds c)"

definition directory_config :: "(string \<Rightarrow> string option) \<Rightarrow> (string \<Rightarrow> bool) \<Rightarrow> (string \<Rightarrow> string option) \<Rightarrow> config" where
  "directory_config env exists files = first_file files (config_dirs env exists) default_config"

section \<open>The command line\<close>

text \<open>
  \<^verbatim>\<open>CommandLineArgs\<close>: two overrides over the configuration found; the third kind of setting
  is the base class's own.
\<close>

definition command_line_config :: "int \<Rightarrow> bool \<Rightarrow> config \<Rightarrow> config" where
  "command_line_config listening_port dump c =
     \<lparr>m_bool_settings = (\<lambda>s. if s = VERIFY_PIECES_ON_STARTUP \<and> dump then False else m_bool_settings c s),
      m_int_settings = (\<lambda>s. if s = LISTENING_PORT \<and> listening_port \<noteq> 0 then listening_port else m_int_settings c s),
      m_string_settings = m_string_settings default_config\<rparr>"

section \<open>What a file sets\<close>

definition assignment_text :: "string \<times> string \<Rightarrow> string" where
  "assignment_text kv = fst kv @ CHR ''='' # snd kv"

definition plain_assignment :: "string \<times> string \<Rightarrow> bool" where
  "plain_assignment kv \<longleftrightarrow> set (fst kv @ snd kv) \<inter> {CHR ''='', CHR 0x0A} = {} \<and> snd kv \<noteq> []
     \<and> trim (fst kv) = fst kv \<and> trim (snd kv) = snd kv"

lemma config_line_assignment:
  assumes "plain_assignment kv"
  shows "config_line (assignment_text kv) c = update_value (fst kv) (snd kv) c"
proof -
  have "tokens (CHR ''='') (assignment_text kv) = [fst kv, snd kv]"
    using assms by (auto simp: assignment_text_def plain_assignment_def tokens_append tokens_no_sep)
  then show ?thesis
    using assms by (simp add: config_line_def split_def plain_assignment_def)
qed

lemma split_lines:
  assumes "\<forall>l \<in> set ls. CHR 0x0A \<notin> set l" and "ls \<noteq> []"
  shows "split (CHR 0x0A) (concat (map (\<lambda>l. l @ [CHR 0x0A]) ls)) = ls"
proof -
  have "tokens (CHR 0x0A) (concat (map (\<lambda>l. l @ [CHR 0x0A]) ls)) = ls @ [[]]"
    using assms(1) by (induction ls) (auto simp: tokens_append)
  with assms(2) show ?thesis
    by (simp add: split_def)
qed

lemma fold_config_lines:
  "\<forall>kv \<in> set kvs. plain_assignment kv \<Longrightarrow>
    fold config_line (map assignment_text kvs) c = fold (\<lambda>(k, v). update_value k v) kvs c"
  by (induction kvs arbitrary: c) (auto simp: config_line_assignment)

definition assign_int :: "int_setting \<Rightarrow> string \<times> string \<Rightarrow> int \<Rightarrow> int" where
  "assign_int s kv i =
     (if map_of int_settings_map (fst kv) = Some s then (case stoi (snd kv) of Inr j \<Rightarrow> j | Inl _ \<Rightarrow> i) else i)"

definition assign_bool :: "bool_setting \<Rightarrow> string \<times> string \<Rightarrow> bool \<Rightarrow> bool" where
  "assign_bool s kv b =
     (if map_of bool_settings_map (fst kv) = Some s then (case parse_bool (snd kv) of Some b' \<Rightarrow> b' | None \<Rightarrow> b) else b)"

lemma update_value_int: "m_int_settings (update_value k v c) s = assign_int s (k, v) (m_int_settings c s)"
  by (auto simp: assign_int_def update_value_def bool_settings_map_def int_settings_map_def split: option.splits sum.splits)

lemma update_value_bool: "m_bool_settings (update_value k v c) s = assign_bool s (k, v) (m_bool_settings c s)"
  by (auto simp: assign_bool_def update_value_def split: option.splits sum.splits)

lemma fold_update:
  "m_int_settings (fold (\<lambda>(k, v). update_value k v) kvs c) s = fold (assign_int s) kvs (m_int_settings c s)"
  "m_bool_settings (fold (\<lambda>(k, v). update_value k v) kvs c) t = fold (assign_bool t) kvs (m_bool_settings c t)"
  by (induction kvs arbitrary: c) (simp_all add: update_value_int update_value_bool split_beta)

text \<open>
  C32.  A configuration file of lines \<open>key=value\<close> gives each integer and each boolean setting the
  last readable value assigned to its key, and leaves the settings without one as they were; lines
  with other keys change neither.
\<close>

theorem config_file_assignments:
  assumes "\<forall>kv \<in> set kvs. plain_assignment kv" and "kvs \<noteq> []"
    and "files path = Some (concat (map (\<lambda>kv. assignment_text kv @ [CHR 0x0A]) kvs))"
  shows "\<exists>c'. try_file files path c = (True, c')
    \<and> (\<forall>s. m_int_settings c' s = fold (assign_int s) kvs (m_int_settings c s))
    \<and> (\<forall>s. m_bool_settings c' s = fold (assign_bool s) kvs (m_bool_settings c s))"
proof -
  have "split (CHR 0x0A) (concat (map (\<lambda>l. l @ [CHR 0x0A]) (map assignment_text kvs))) = map assignment_text kvs"
    using assms(1,2) by (intro split_lines) (auto simp: assignment_text_def plain_assignment_def)
  then have "try_file files path c = (True, fold (\<lambda>(k, v). update_value k v) kvs c)"
    using assms(1,3) by (simp add: try_file_def fold_config_lines comp_def)
  then show ?thesis
    by (simp add: fold_update)
qed

theorem config_file_assignments_witness:
  "\<exists>c'. try_file (\<lambda>_. Some (''listening_port=7'' @ [CHR 0x0A])) ''f'' default_config = (True, c')
     \<and> m_int_settings c' LISTENING_PORT = 7 \<and> m_int_settings c' CONNECTION_PORT = 20000"
proof -
  have "plain_assignment (''listening_port'', ''7'')"
    by (simp add: plain_assignment_def trim_def ltrim_def rtrim_def is_space_def)
  moreover have "stoi ''7'' = Inr 7"
    using stoi_digits [of "''7''"] by (simp add: is_digit_iff nat_of_dec_def digit_val_def)
  ultimately show ?thesis
    using config_file_assignments [of "[(''listening_port'', ''7'')]" "\<lambda>_. Some (''listening_port=7'' @ [CHR 0x0A])" "''f''" default_config]
    by (auto simp: assignment_text_def int_settings_map_def default_config_def assign_int_def)
qed

section \<open>What cannot be set\<close>

definition fixed_settings :: "config \<Rightarrow> bool" where
  "fixed_settings c \<longleftrightarrow> m_int_settings c MAX_PENDING_REQUESTS = 50 \<and> m_bool_settings c VERIFY_PIECES_ON_STARTUP"

lemma fixed_default: "fixed_settings default_config"
  by (simp add: fixed_settings_def default_config_def)

lemma fixed_update: "fixed_settings c \<Longrightarrow> fixed_settings (update_value k v c)"
  by (auto simp: fixed_settings_def update_value_int update_value_bool assign_int_def assign_bool_def
      int_settings_map_def bool_settings_map_def split: if_splits)

lemma fixed_try_file: "fixed_settings c \<Longrightarrow> fixed_settings (snd (try_file files path c))"
proof -
  have "fixed_settings (fold config_line ls c)" if "fixed_settings c" for ls c
    using that by (induction ls arbitrary: c) (auto simp: config_line_def fixed_update split: list.splits)
  then show "fixed_settings c \<Longrightarrow> ?thesis"
    by (simp add: try_file_def split: option.splits)
qed

lemma fixed_first_file: "fixed_settings c \<Longrightarrow> fixed_settings (first_file files ds c)"
proof (induction ds arbitrary: c)
  case (Cons d ds)
  then show ?case
    using fixed_try_file [of c files] by (auto split: prod.splits bool.splits) (metis snd_conv)
qed simp

text \<open>
  Some settings cannot be set: no configuration file changes the number of pending requests
  or the verification at startup, which have no key; and with the command line client the bind
  address is the empty default whatever the file says, because its configuration does not override
  the string settings.
\<close>

theorem settings_without_effect:
  "m_int_settings (directory_config env exists files) MAX_PENDING_REQUESTS = 50
   \<and> m_bool_settings (directory_config env exists files) VERIFY_PIECES_ON_STARTUP
   \<and> m_string_settings (command_line_config port dump (directory_config env exists files)) BIND_ADDRESS = []"
  using fixed_first_file [OF fixed_default, of files "config_dirs env exists"]
  by (simp add: fixed_settings_def directory_config_def command_line_config_def default_config_def)

end
