(* ===== verification/Args.thy ===== *)
theory Args
  imports Text
begin

text \<open>
  \<^verbatim>\<open>class ArgParser\<close> of \<^verbatim>\<open>src/arg_parser.hpp\<close> and
  \<^verbatim>\<open>src/arg_parser.cpp\<close>, and the options that \<^verbatim>\<open>src/main.cpp\<close> declares
  with it.  The C++ type of an option is a tag on its values.  Reading a float is the standard
  library's: the parameter \<open>stof\<close>, which also tells whether \<^verbatim>\<open>errno\<close> is
  \<^verbatim>\<open>ERANGE\<close> afterwards.
\<close>

section \<open>Options\<close>

datatype arg_type = T_INT | T_UINT | T_FLOAT | T_STRING | T_BOOL

datatype 'f arg_value = V_int int | V_uint int | V_float 'f | V_string string | V_bool bool

fun type_of :: "'f arg_value \<Rightarrow> arg_type" where
  "type_of (V_int _) = T_INT"
| "type_of (V_uint _) = T_UINT"
| "type_of (V_float _) = T_FLOAT"
| "type_of (V_string _) = T_STRING"
| "type_of (V_bool _) = T_BOOL"

record 'f arg =
  a_option :: string
  a_help :: string
  a_aliases :: "string list"
  a_type :: arg_type
  a_provided :: bool
  a_required :: bool
  a_help_arg :: bool
  a_multi :: bool
  a_collecting :: bool
  a_position :: "nat option"
  a_dst :: "'f arg_value list"
  a_default :: "'f arg_value list"

record 'f arg_parser =
  ap_desc :: string
  ap_options :: "'f arg list"
  ap_parsed :: bool

definition new_parser :: "string \<Rightarrow> 'f arg_parser" where
  "new_parser desc = \<lparr>ap_desc = desc, ap_options = [], ap_parsed = False\<rparr>"

definition new_arg :: "arg_type \<Rightarrow> string \<Rightarrow> 'f arg" where
  "new_arg T option_name =
     \<lparr>a_option = option_name, a_help = [], a_aliases = [], a_type = T, a_provided = False, a_required = False,
      a_help_arg = False, a_multi = False, a_collecting = False, a_position = None, a_dst = [],
      a_default = (if T = T_BOOL then [V_bool False] else [])\<rparr>"

text \<open>The builder methods of \<^verbatim>\<open>Arg\<close>.\<close>

definition set_help :: "string \<Rightarrow> 'f arg \<Rightarrow> 'f arg result" where
  "set_help h a = Inr (a\<lparr>a_help := h\<rparr>)"

definition required :: "'f arg \<Rightarrow> 'f arg result" where
  "required a = Inr (a\<lparr>a_required := True\<rparr>)"

definition default_value :: "'f arg_value \<Rightarrow> 'f arg \<Rightarrow> 'f arg result" where
  "default_value v a = Inr (a\<lparr>a_default := [v]\<rparr>)"

definition default_values :: "'f arg_value list \<Rightarrow> 'f arg \<Rightarrow> 'f arg result" where
  "default_values vs a =
     (if \<not> a_multi a \<and> length vs > 1
      then Inl (Runtime_error ''Cannot default to more than one value for single value option'')
      else Inr (a\<lparr>a_default := vs\<rparr>))"

definition positional :: "nat \<Rightarrow> 'f arg \<Rightarrow> 'f arg result" where
  "positional pos a =
     (if a_multi a then Inl (Runtime_error ''Positional argument cannot be multi'')
      else Inr (a\<lparr>a_position := Some pos\<rparr>))"

definition help_arg :: "'f arg \<Rightarrow> 'f arg result" where
  "help_arg a = Inr (a\<lparr>a_help_arg := True\<rparr>)"

definition aliases :: "string list \<Rightarrow> 'f arg \<Rightarrow> 'f arg result" where
  "aliases as a = Inr (a\<lparr>a_aliases := as\<rparr>)"

definition multi :: "'f arg \<Rightarrow> 'f arg result" where
  "multi a =
     (if a_position a \<noteq> None then Inl (Runtime_error ''Positional argument cannot be multi'')
      else Inr (a\<lparr>a_multi := True\<rparr>))"

definition collecting :: "'f arg \<Rightarrow> 'f arg result" where
  "collecting a = Inr (a\<lparr>a_multi := True, a_collecting := True\<rparr>)"

section \<open>Looking options up\<close>

definition find_opt :: "('f arg \<Rightarrow> bool) \<Rightarrow> 'f arg list \<Rightarrow> nat option" where
  "find_opt P opts = find (\<lambda>i. P (opts ! i)) [0..<length opts]"

definition find_name :: "string \<Rightarrow> 'f arg list \<Rightarrow> nat option" where
  "find_name name = find_opt (\<lambda>a. a_option a = name \<or> name \<in> set (a_aliases a))"

definition find_position :: "nat \<Rightarrow> 'f arg list \<Rightarrow> nat option" where
  "find_position pos = find_opt (\<lambda>a. a_position a = Some pos)"

definition find_collecting :: "'f arg list \<Rightarrow> nat option" where
  "find_collecting = find_opt a_collecting"

definition has_option :: "string \<Rightarrow> 'f arg list \<Rightarrow> bool" where
  "has_option name opts \<longleftrightarrow> find_name name opts \<noteq> None"

definition add_option :: "arg_type \<Rightarrow> string \<Rightarrow> ('f arg \<Rightarrow> 'f arg result) \<Rightarrow> 'f arg_parser \<Rightarrow> 'f arg_parser result" where
  "add_option T name build p =
     (if has_option name (ap_options p) then Inl (Runtime_error ''Duplicate option added'')
      else bindE (build (new_arg T name)) (\<lambda>a. Inr (p\<lparr>ap_options := ap_options p @ [a]\<rparr>)))"

fun verify_no_duplicate_positionals :: "nat list \<Rightarrow> 'f arg list \<Rightarrow> unit result" where
  "verify_no_duplicate_positionals positions [] = Inr ()"
| "verify_no_duplicate_positionals positions (a # as) =
     (case a_position a of
        Some pos \<Rightarrow>
          if pos \<in> set positions
          then Inl (Runtime_error ''There cannot be multiple options with the same positional index'')
          else verify_no_duplicate_positionals (pos # positions) as
      | None \<Rightarrow> verify_no_duplicate_positionals positions as)"

fun verify_no_duplicate_collecting :: "nat \<Rightarrow> 'f arg list \<Rightarrow> unit result" where
  "verify_no_duplicate_collecting cnt [] = Inr ()"
| "verify_no_duplicate_collecting cnt (a # as) =
     (let cnt = (if a_collecting a then cnt + 1 else cnt) in
      if cnt \<ge> 2 then Inl (Runtime_error ''There cannot be multiple options marked as collecting'')
      else verify_no_duplicate_collecting cnt as)"

section \<open>Parsing\<close>

definition on_arg :: "nat \<Rightarrow> ('f arg \<Rightarrow> 'f arg) \<Rightarrow> ('f arg_parser, unit) st" where
  "on_arg i f = modIO (\<lambda>p. p\<lparr>ap_options := (ap_options p)[i := f (ap_options p ! i)]\<rparr>)"

definition set_dst :: "nat \<Rightarrow> 'f arg_value \<Rightarrow> ('f arg_parser, unit) st" where
  "set_dst i v =
     bindIO (getIO (\<lambda>p. ap_options p ! i)) (\<lambda>a.
     if \<not> a_multi a \<and> a_dst a \<noteq> [] then throwIO (Runtime_error ''Multiple values provided for single value option'')
     else on_arg i (\<lambda>a. a\<lparr>a_dst := a_dst a @ [v]\<rparr>))"

definition store_arg :: "nat \<Rightarrow> 'f arg_value \<Rightarrow> ('f arg_parser, unit) st" where
  "store_arg i v = bindIO (set_dst i v) (\<lambda>_. on_arg i (a_provided_update (\<lambda>_. True)))"

text \<open>\<^verbatim>\<open>catch (const std::out_of_range&)\<close>: with the name of the argument.\<close>

fun out_of_range_for :: "string \<Rightarrow> 'a result \<Rightarrow> 'a result" where
  "out_of_range_for name (Inl (Out_of_range _)) = Inl (Out_of_range (''Value for argument is out of range for type: '' @ name))"
| "out_of_range_for name r = r"

definition parse_value :: "(string \<Rightarrow> ('f \<times> bool) result) \<Rightarrow> arg_type \<Rightarrow> string \<Rightarrow> string \<Rightarrow> 'f arg_value result" where
  "parse_value stof T name val =
     (case T of
        T_FLOAT \<Rightarrow>
          bindE (stof val) (\<lambda>(f, erange).
          if erange then out_of_range_for name (Inl (Out_of_range [])) else Inr (V_float f))
      | T_INT \<Rightarrow> out_of_range_for name (bindE (stol 10 val) (\<lambda>l. bindE (numeric_cast int32_t int64_t l) (\<lambda>i. Inr (V_int i))))
      | T_UINT \<Rightarrow> out_of_range_for name (bindE (stol 10 val) (\<lambda>l. bindE (numeric_cast uint32_t int64_t l) (\<lambda>i. Inr (V_uint i))))
      | T_STRING \<Rightarrow> Inr (V_string val)
      | T_BOOL \<Rightarrow> Inl (Runtime_error ''Invalid option type''))"

text \<open>The option an argument stands for, and the next position.\<close>

definition lookup_arg :: "string \<Rightarrow> nat \<Rightarrow> 'f arg list \<Rightarrow> (nat \<times> nat) result" where
  "lookup_arg name pos opts =
     (case find_name name opts of
        Some i \<Rightarrow> Inr (i, pos)
      | None \<Rightarrow>
          (case find_position pos opts of
             Some i \<Rightarrow> Inr (i, pos + 1)
           | None \<Rightarrow>
               (case find_collecting opts of
                  Some i \<Rightarrow> Inr (i, pos + 1)
                | None \<Rightarrow> Inl (Runtime_error ''Unknown argument''))))"

fun parse_loop :: "(string \<Rightarrow> ('f \<times> bool) result) \<Rightarrow> nat \<Rightarrow> string list \<Rightarrow> ('f arg_parser, unit) st" where
  "parse_loop stof pos [] = retIO ()"
| "parse_loop stof pos (name # rest) =
     bindIO (getIO ap_options) (\<lambda>opts.
     bindIO (liftIO (lookup_arg name pos opts)) (\<lambda>(i, pos').
     if a_type (opts ! i) = T_BOOL then
       bindIO (store_arg i (V_bool True)) (\<lambda>_. parse_loop stof pos' rest)
     else if a_position (opts ! i) \<noteq> None \<or> a_collecting (opts ! i) then
       bindIO (liftIO (parse_value stof (a_type (opts ! i)) name name)) (\<lambda>v.
       bindIO (store_arg i v) (\<lambda>_. parse_loop stof pos' rest))
     else
       (case rest of
          [] \<Rightarrow> throwIO (Runtime_error ''Missing value'')
        | val # rest' \<Rightarrow>
            bindIO (liftIO (parse_value stof (a_type (opts ! i)) name val)) (\<lambda>v.
            bindIO (store_arg i v) (\<lambda>_. parse_loop stof pos' rest')))))"

definition check_required :: "'f arg list \<Rightarrow> unit result" where
  "check_required opts =
     (if list_ex (\<lambda>a. \<not> a_provided a \<and> a_required a) opts \<and> \<not> list_ex (\<lambda>a. a_help_arg a \<and> a_provided a) opts
      then Inl (Runtime_error ''Required option not provided'') else Inr ())"

definition parse_args :: "(string \<Rightarrow> ('f \<times> bool) result) \<Rightarrow> string list \<Rightarrow> ('f arg_parser, unit) st" where
  "parse_args stof argv =
     bindIO (getIO id) (\<lambda>p.
     if ap_parsed p then throwIO (Runtime_error ''Options already parsed'')
     else
       bindIO (liftIO (verify_no_duplicate_positionals [] (ap_options p))) (\<lambda>_.
       bindIO (liftIO (verify_no_duplicate_collecting 0 (ap_options p))) (\<lambda>_.
       bindIO (modIO (\<lambda>p. p\<lparr>ap_parsed := True\<rparr>)) (\<lambda>_.
       bindIO (parse_loop stof 0 (tl argv)) (\<lambda>_.
       bindIO (getIO ap_options) (\<lambda>opts. liftIO (check_required opts)))))))"

section \<open>Results\<close>

definition arg_values :: "'f arg \<Rightarrow> 'f arg_value list" where
  "arg_values a = (if a_dst a = [] then a_default a else a_dst a)"

definition get_internal :: "arg_type \<Rightarrow> string \<Rightarrow> 'f arg_parser \<Rightarrow> ('f arg_value list \<times> bool) result" where
  "get_internal T name p =
     (case find_name name (ap_options p) of
        None \<Rightarrow> Inl (Runtime_error ''No option'')
      | Some i \<Rightarrow>
          let a = ap_options p ! i in
          if a_type a \<noteq> T then Inl (Runtime_error ''Invalid type for option'')
          else if a_required a \<and> \<not> a_provided a then Inl (Runtime_error ''No value for required option'')
          else Inr (arg_values a, a_multi a))"

definition get_arg :: "arg_type \<Rightarrow> string \<Rightarrow> 'f arg_parser \<Rightarrow> 'f arg_value result" where
  "get_arg T name p =
     bindE (get_internal T name p) (\<lambda>(dst, is_multi).
     if is_multi then Inl (Runtime_error ''get() called on multi value option, use get_multi'')
     else if dst \<noteq> [] then Inr (hd dst)
     else Inl (Runtime_error ''No value provided for option''))"

definition get_multi :: "arg_type \<Rightarrow> string \<Rightarrow> 'f arg_parser \<Rightarrow> 'f arg_value list result" where
  "get_multi T name p =
     bindE (get_internal T name p) (\<lambda>(dst, is_multi).
     if \<not> is_multi then Inl (Runtime_error ''get_multi() called on single value option, use get'')
     else Inr dst)"

text \<open>The C++ value of a result, whose type was checked.\<close>

definition the_string :: "'f arg_value \<Rightarrow> string" where
  "the_string v = (case v of V_string s \<Rightarrow> s | _ \<Rightarrow> [])"

definition the_int :: "'f arg_value \<Rightarrow> int" where
  "the_int v = (case v of V_int i \<Rightarrow> i | _ \<Rightarrow> 0)"

definition the_uint :: "'f arg_value \<Rightarrow> int" where
  "the_uint v = (case v of V_uint i \<Rightarrow> i | _ \<Rightarrow> 0)"

definition the_bool :: "'f arg_value \<Rightarrow> bool" where
  "the_bool v = (case v of V_bool b \<Rightarrow> b | _ \<Rightarrow> False)"

definition is_provided :: "string \<Rightarrow> 'f arg_parser \<Rightarrow> bool result" where
  "is_provided name p =
     (case find_name name (ap_options p) of
        None \<Rightarrow> Inl (Runtime_error ''No option'')
      | Some i \<Rightarrow> Inr (a_provided (ap_options p ! i)))"

definition usage :: "'f arg_parser \<Rightarrow> string" where
  "usage p =
     (let nl = [CHR 0x0A]; names = map a_option (ap_options p); width = fold max (map length names) 0 in
      ''Usage:'' @ nl @ nl @ ap_desc p @ nl @ nl
      @ concat (map (\<lambda>a. ''  '' @ a_option a @ replicate (width - length (a_option a)) (CHR '' '') @ ''    '' @ a_help a
          @ '' '' @ (if a_required a then ''(required)'' else []) @ nl) (ap_options p)))"

section \<open>The options of the client\<close>

definition main_parser :: "'f arg_parser result" where
  "main_parser =
     bindE (add_option T_BOOL ''--help'' (\<lambda>a. bindE (aliases [''-h''] a) (\<lambda>a. bindE (set_help ''Print help'' a) help_arg))
              (new_parser ''Zit - torrent client'')) (\<lambda>p.
     bindE (add_option T_STRING ''--torrent'' (\<lambda>a. bindE (set_help ''Torrent file to download'' a) (\<lambda>a. bindE (required a) multi)) p) (\<lambda>p.
     bindE (add_option T_INT ''--listening-port''
              (\<lambda>a. bindE (aliases [''-p''] a) (\<lambda>a. bindE (default_value (V_int 0) a) (set_help ''Port listening on incoming connections''))) p) (\<lambda>p.
     bindE (add_option T_STRING ''--log-level''
              (\<lambda>a. bindE (default_value (V_string []) a) (set_help ''Log level (trace, debug, info, warning, error, critical, off)'')) p) (\<lambda>p.
     bindE (add_option T_STRING ''--log-prefix''
              (\<lambda>a. bindE (default_value (V_string []) a)
                (set_help ''Prefix to add to all log messages (useful when running multiple instances)'')) p) (\<lambda>p.
     bindE (add_option T_BOOL ''--dump-torrent'' (set_help ''Dump info about specified .torrent file and exit'') p) (\<lambda>p.
     add_option T_BOOL ''--dump-config'' (set_help ''Dump config to console'') p))))))"

section \<open>Typed values\<close>

text \<open>What a declaration of an option fixes, and what parsing may put into it.\<close>

definition decl :: "'f arg \<Rightarrow> 'f arg" where
  "decl a = a\<lparr>a_dst := [], a_provided := False\<rparr>"

definition arg_ok :: "'f arg \<Rightarrow> bool" where
  "arg_ok a \<longleftrightarrow> (\<forall>v \<in> set (a_dst a). type_of v = a_type a) \<and> (\<not> a_multi a \<longrightarrow> length (a_dst a) \<le> 1)
     \<and> (a_provided a \<longleftrightarrow> a_dst a \<noteq> [])"

definition args_ok :: "'f arg list \<Rightarrow> 'f arg_parser \<Rightarrow> bool" where
  "args_ok decls p \<longleftrightarrow> (\<forall>a \<in> set (ap_options p). arg_ok a) \<and> map decl (ap_options p) = decls"

lemma out_of_range_for_Inr: "out_of_range_for name r = Inr v \<longleftrightarrow> r = Inr v"
  by (induction name r rule: out_of_range_for.induct) auto

lemma parse_value_type: "parse_value stof T name val = Inr v \<Longrightarrow> type_of v = T"
  by (cases T) (auto simp: parse_value_def out_of_range_for_Inr result_simps split: if_splits)

lemma set_nth_update: "x \<in> set (xs[i := y]) \<Longrightarrow> x \<in> set xs \<or> x = y \<and> i < length xs"
  by (metis insertE length_list_update list_update_beyond not_less set_update_subset_insert subsetD)

lemma store_arg_ok:
  assumes "args_ok decls p" and "i < length (ap_options p)" and "type_of v = a_type (ap_options p ! i)"
    and "store_arg i v p = (r, p')"
  shows "args_ok decls p'"
proof -
  define a where "a = ap_options p ! i"
  have a: "arg_ok a"
    using assms(1,2) by (simp add: args_ok_def a_def)
  show ?thesis
  proof (cases "\<not> a_multi a \<and> a_dst a \<noteq> []")
    case True
    then show ?thesis
      using assms(1,4) by (simp add: store_arg_def set_dst_def io_simps a_def)
  next
    case False
    define b where "b = a\<lparr>a_dst := a_dst a @ [v], a_provided := True\<rparr>"
    have "p' = p\<lparr>ap_options := (ap_options p)[i := b]\<rparr>"
      using False assms(2,4) by (auto simp: store_arg_def set_dst_def on_arg_def io_simps a_def b_def)
    moreover have "arg_ok b"
      using a False assms(3) by (auto simp: arg_ok_def b_def a_def)
    moreover have "map decl ((ap_options p)[i := b]) = map decl (ap_options p)"
      using assms(2) by (simp add: map_update b_def a_def decl_def list_update_same_conv)
    ultimately show ?thesis
      using assms(1) by (auto simp: args_ok_def dest!: set_nth_update)
  qed
qed

lemma store_then_ok:
  assumes "args_ok decls p" and "i < length (ap_options p)" and "type_of v = a_type (ap_options p ! i)"
    and "bindIO (store_arg i v) (\<lambda>_. m) p = (r, p')"
    and "\<And>q. args_ok decls q \<Longrightarrow> m q = (r, p') \<Longrightarrow> args_ok decls p'"
  shows "args_ok decls p'"
proof -
  obtain r1 q where st: "store_arg i v p = (r1, q)"
    by fastforce
  then have "args_ok decls q"
    using store_arg_ok assms(1-3) by blast
  with st assms(4,5) show ?thesis
    by (cases r1) (auto simp: io_simps)
qed

lemma find_opt_Some: "find_opt P opts = Some i \<Longrightarrow> i < length opts \<and> P (opts ! i)"
  by (auto simp: find_opt_def find_Some_iff)

lemma lookup_arg_inside: "lookup_arg name pos opts = Inr (i, pos') \<Longrightarrow> i < length opts"
  by (auto simp: lookup_arg_def find_name_def find_position_def find_collecting_def dest: find_opt_Some split: option.splits)

lemma parse_loop_ok: "args_ok decls p \<Longrightarrow> parse_loop stof pos args p = (r, p') \<Longrightarrow> args_ok decls p'"
proof (induction stof pos args arbitrary: p rule: parse_loop.induct)
  case (1 stof pos)
  then show ?case
    by (simp add: io_simps)
next
  case (2 stof pos name rest)
  show ?case
  proof (cases "lookup_arg name pos (ap_options p)")
    case (Inl e)
    with 2 show ?thesis
      by (simp add: io_simps)
  next
    case (Inr ip)
    obtain i pos' where ip: "ip = (i, pos')"
      by fastforce
    then have i: "i < length (ap_options p)"
      using Inr lookup_arg_inside by blast
    define a where "a = ap_options p ! i"
    have run: "parse_loop stof pos (name # rest) p =
       (if a_type a = T_BOOL then bindIO (store_arg i (V_bool True)) (\<lambda>_. parse_loop stof pos' rest) p
        else if a_position a \<noteq> None \<or> a_collecting a then
          bindIO (liftIO (parse_value stof (a_type a) name name)) (\<lambda>v. bindIO (store_arg i v) (\<lambda>_. parse_loop stof pos' rest)) p
        else (case rest of [] \<Rightarrow> (Inl (Runtime_error ''Missing value''), p)
            | val # rest' \<Rightarrow> bindIO (liftIO (parse_value stof (a_type a) name val))
                (\<lambda>v. bindIO (store_arg i v) (\<lambda>_. parse_loop stof pos' rest')) p))"
      using Inr ip by (simp add: io_simps a_def split: list.split)
    consider "a_type a = T_BOOL" | "a_type a \<noteq> T_BOOL" "a_position a \<noteq> None \<or> a_collecting a"
      | "a_type a \<noteq> T_BOOL" "\<not> (a_position a \<noteq> None \<or> a_collecting a)"
      by blast
    then show ?thesis
    proof cases
      case 1
      have "bindIO (store_arg i (V_bool True)) (\<lambda>_. parse_loop stof pos' rest) p = (r, p')"
        using 2(5) 1 unfolding run by simp
      from store_then_ok [OF 2(4) i _ this] show ?thesis
        using 1 2(1) by (auto simp: a_def)
    next
      case c: 2
      show ?thesis
      proof (cases "parse_value stof (a_type a) name name")
        case (Inl e)
        with 2(4,5) c show ?thesis
          unfolding run by (auto simp: io_simps)
      next
        case (Inr v)
        with 2(5) c have "bindIO (store_arg i v) (\<lambda>_. parse_loop stof pos' rest) p = (r, p')"
          unfolding run by (simp add: bindIO_def liftIO_def)
        from store_then_ok [OF 2(4) i _ this] show ?thesis
          using c 2(2) parse_value_type [OF Inr] by (auto simp: a_def)
      qed
    next
      case 3
      show ?thesis
      proof (cases "\<exists>val rest' v. rest = val # rest' \<and> parse_value stof (a_type a) name val = Inr v")
        case False
        with 2(4,5) 3 show ?thesis
          unfolding run by (cases rest) (auto simp: io_simps split: sum.splits)
      next
        case True
        then obtain val rest' v where v: "rest = val # rest'" "parse_value stof (a_type a) name val = Inr v"
          by blast
        with 2(5) 3 have "bindIO (store_arg i v) (\<lambda>_. parse_loop stof pos' rest') p = (r, p')"
          unfolding run by (simp add: bindIO_def liftIO_def)
        from store_then_ok [OF 2(4) i _ this] show ?thesis
          using 3 v 2(3) parse_value_type [OF v(2)] by (auto simp: a_def)
      qed
    qed
  qed
qed

text \<open>
  C30.  Parsing keeps every option as it was declared and fills it with values of its declared type
  only, at most one unless the option is multi-valued, also when parsing ends with an exception; an
  option counts as provided exactly when it has a value.  When parsing succeeds, every required
  option is provided or a help option is.
\<close>

theorem parsed_values_typed:
  assumes "\<forall>a \<in> set (ap_options p). a_dst a = [] \<and> \<not> a_provided a" and "parse_args stof argv p = (r, p')"
  shows "map decl (ap_options p') = ap_options p
    \<and> (\<forall>a \<in> set (ap_options p'). (\<forall>v \<in> set (a_dst a). type_of v = a_type a)
        \<and> (\<not> a_multi a \<longrightarrow> length (a_dst a) \<le> 1) \<and> (a_provided a \<longleftrightarrow> a_dst a \<noteq> []))
    \<and> (r = Inr () \<longrightarrow> (\<forall>a \<in> set (ap_options p'). a_required a \<longrightarrow> a_provided a)
        \<or> (\<exists>a \<in> set (ap_options p'). a_help_arg a \<and> a_provided a))"
proof -
  have decl: "map decl (ap_options p) = ap_options p"
    using assms(1) by (auto simp: decl_def intro: map_idI)
  have ok: "args_ok (ap_options p) p"
    using assms(1) decl by (auto simp: args_ok_def arg_ok_def)
  then have ok': "args_ok (ap_options p) (p\<lparr>ap_parsed := True\<rparr>)"
    by (simp add: args_ok_def)
  obtain r1 q where loop: "parse_loop stof 0 (tl argv) (p\<lparr>ap_parsed := True\<rparr>) = (r1, q)"
    by fastforce
  have "args_ok (ap_options p) p' \<and> (r = Inr () \<longrightarrow> check_required (ap_options p') = Inr ())"
    using assms(2) loop ok parse_loop_ok [OF ok' loop]
    by (auto simp: parse_args_def io_simps split: if_splits sum.splits)
  then show ?thesis
    by (auto simp: args_ok_def arg_ok_def check_required_def list_ex_iff split: if_splits)
qed

section \<open>The command line of the client\<close>

text \<open>The options of the client, with the torrent files given so far.\<close>

definition main_options :: "string list \<Rightarrow> 'f arg list" where
  "main_options fs =
     [(new_arg T_BOOL ''--help'')\<lparr>a_help := ''Print help'', a_aliases := [''-h''], a_help_arg := True\<rparr>,
      (new_arg T_STRING ''--torrent'')\<lparr>a_help := ''Torrent file to download'', a_required := True, a_multi := True,
         a_dst := map V_string fs, a_provided := (fs \<noteq> [])\<rparr>,
      (new_arg T_INT ''--listening-port'')\<lparr>a_help := ''Port listening on incoming connections'',
         a_aliases := [''-p''], a_default := [V_int 0]\<rparr>,
      (new_arg T_STRING ''--log-level'')
         \<lparr>a_help := ''Log level (trace, debug, info, warning, error, critical, off)'', a_default := [V_string []]\<rparr>,
      (new_arg T_STRING ''--log-prefix'')
         \<lparr>a_help := ''Prefix to add to all log messages (useful when running multiple instances)'',
          a_default := [V_string []]\<rparr>,
      (new_arg T_BOOL ''--dump-torrent'')\<lparr>a_help := ''Dump info about specified .torrent file and exit''\<rparr>,
      (new_arg T_BOOL ''--dump-config'')\<lparr>a_help := ''Dump config to console''\<rparr>]"

definition main_state :: "string list \<Rightarrow> bool \<Rightarrow> 'f arg_parser" where
  "main_state fs parsed = \<lparr>ap_desc = ''Zit - torrent client'', ap_options = main_options fs, ap_parsed = parsed\<rparr>"

lemma find_opt_None: "find_opt P opts = None \<longleftrightarrow> (\<forall>a \<in> set opts. \<not> P a)"
  by (auto simp: find_opt_def find_None_iff all_set_conv_all_nth)

lemma has_option_iff: "has_option name opts \<longleftrightarrow> (\<exists>a \<in> set opts. a_option a = name \<or> name \<in> set (a_aliases a))"
  by (auto simp: has_option_def find_name_def find_opt_None)

lemma add_option_new:
  assumes "\<forall>a \<in> set opts. a_option a \<noteq> name \<and> name \<notin> set (a_aliases a)" and "build (new_arg T name) = Inr a"
  shows "add_option T name build \<lparr>ap_desc = d, ap_options = opts, ap_parsed = b\<rparr> =
    Inr \<lparr>ap_desc = d, ap_options = opts @ [a], ap_parsed = b\<rparr>"
  using assms by (auto simp: add_option_def has_option_iff)

lemma main_parser_ok: "main_parser = Inr (main_state [] False)"
  by (simp add: main_parser_def new_parser_def add_option_new aliases_def set_help_def help_arg_def required_def multi_def
      default_value_def new_arg_def main_state_def main_options_def)

lemma find_torrent: "find_name ''--torrent'' (main_options fs) = Some (Suc 0)"
  by (simp add: find_name_def find_opt_def main_options_def new_arg_def upt_rec)

lemma torrent_option: "main_options fs ! Suc 0 = (new_arg T_STRING ''--torrent'')\<lparr>a_help := ''Torrent file to download'',
    a_required := True, a_multi := True, a_dst := map V_string fs, a_provided := (fs \<noteq> [])\<rparr>"
  by (simp add: main_options_def)

lemma main_state_simps [simp]:
  "ap_options (main_state fs b) = main_options fs" "ap_parsed (main_state fs b) = b"
  "(main_state fs b)\<lparr>ap_parsed := c\<rparr> = main_state fs c" "(main_state fs b)\<lparr>ap_options := main_options gs\<rparr> = main_state gs b"
  by (simp_all add: main_state_def)

lemma length_main_options [simp]: "length (main_options fs) = 7"
  by (simp add: main_options_def)

lemma main_options_update:
  "(main_options fs)[Suc 0 := (main_options fs ! Suc 0)\<lparr>a_dst := map V_string gs, a_provided := (gs \<noteq> [])\<rparr>] = main_options gs"
  by (simp add: main_options_def)

lemma torrent_fields [simp]:
  "a_type (main_options fs ! Suc 0) = T_STRING" "a_position (main_options fs ! Suc 0) = None"
  "\<not> a_collecting (main_options fs ! Suc 0)" "a_multi (main_options fs ! Suc 0)"
  "a_dst (main_options fs ! Suc 0) = map V_string fs" "a_provided (main_options fs ! Suc 0) = (fs \<noteq> [])"
  "a_default (main_options fs ! Suc 0) = []"
  by (simp_all add: torrent_option new_arg_def)

lemma lookup_torrent: "lookup_arg ''--torrent'' pos (main_options fs) = Inr (Suc 0, pos)"
  by (simp only: lookup_arg_def find_torrent option.case)

lemma other_options:
  "find_name ''--listening-port'' (main_options fs) = Some 2" "find_name ''--help'' (main_options fs) = Some 0"
  "main_options fs ! 2 = (new_arg T_INT ''--listening-port'')\<lparr>a_help := ''Port listening on incoming connections'',
     a_aliases := [''-p''], a_default := [V_int 0]\<rparr>"
  "main_options fs ! 0 = (new_arg T_BOOL ''--help'')\<lparr>a_help := ''Print help'', a_aliases := [''-h''], a_help_arg := True\<rparr>"
  by (simp_all add: find_name_def find_opt_def main_options_def new_arg_def upt_rec)

lemma store_torrent: "store_arg (Suc 0) (V_string f) (main_state fs b) = (Inr (), main_state (fs @ [f]) b)"
  by (simp add: store_arg_def set_dst_def on_arg_def io_simps main_options_update [where gs = "fs @ [f]", simplified])

lemma parse_torrents:
  "parse_loop stof pos (concat (map (\<lambda>f. [''--torrent'', f]) fs)) (main_state gs b) = (Inr (), main_state (gs @ fs) b)"
proof (induction fs arbitrary: gs)
  case (Cons f fs)
  then show ?case
    by (simp add: io_simps parse_value_def lookup_torrent store_torrent)
qed (simp add: io_simps)

lemma main_options_checks:
  "verify_no_duplicate_positionals [] (main_options fs) = Inr ()"
  "verify_no_duplicate_collecting 0 (main_options fs) = Inr ()"
  "check_required (main_options fs) = (if fs = [] then Inl (Runtime_error ''Required option not provided'') else Inr ())"
  by (simp_all add: main_options_def new_arg_def check_required_def)

lemma parse_main:
  "parse_args stof (prog # concat (map (\<lambda>f. [''--torrent'', f]) fs)) (main_state [] False :: 'a arg_parser) =
    (check_required (main_options fs :: 'a arg list), main_state fs True)"
  by (simp add: parse_args_def io_simps main_options_checks(1,2) parse_torrents [of _ _ _ "[]", simplified])

text \<open>
  The client started with any number of \<open>--torrent\<close> options gets exactly the files named, in
  their order, whatever they are called, and the defaults of the other options; without one it
  fails.
\<close>

theorem main_torrent_files:
  fixes p :: "'a arg_parser"
  assumes "main_parser = Inr p"
  shows "\<exists>p'. parse_args stof (prog # concat (map (\<lambda>f. [''--torrent'', f]) fs)) p =
        (if fs = [] then Inl (Runtime_error ''Required option not provided'') else Inr (), p')
    \<and> (fs \<noteq> [] \<longrightarrow> get_multi T_STRING ''--torrent'' p' = Inr (map V_string fs)
        \<and> get_arg T_INT ''--listening-port'' p' = Inr (V_int 0) \<and> get_arg T_BOOL ''--help'' p' = Inr (V_bool False))"
proof -
  have p: "p = main_state [] False"
    using assms by (simp add: main_parser_ok)
  have "get_multi T_STRING ''--torrent'' (main_state fs True :: 'a arg_parser) = Inr (map V_string fs)" if "fs \<noteq> []"
    using that by (simp add: get_multi_def get_internal_def find_torrent Let_def arg_values_def)
  moreover have "get_arg T_INT ''--listening-port'' (main_state fs True :: 'a arg_parser) = Inr (V_int 0)"
    "get_arg T_BOOL ''--help'' (main_state fs True :: 'a arg_parser) = Inr (V_bool False)"
    by (simp_all add: get_arg_def get_internal_def other_options) (simp_all add: new_arg_def arg_values_def)
  ultimately show ?thesis
    using parse_main [of stof prog fs] by (auto simp: p main_options_checks(3))
qed

theorem main_torrent_files_witness:
  "\<exists>p'. parse_args (\<lambda>_. Inl (Invalid_argument [])) [''zit'', ''--torrent'', ''--help''] (main_state [] False :: unit arg_parser) = (Inr (), p')
    \<and> get_multi T_STRING ''--torrent'' p' = Inr [V_string ''--help'']"
  using main_torrent_files [OF main_parser_ok, of "\<lambda>_. Inl (Invalid_argument [])" "''zit''" "[''--help'']"] by auto

theorem parsed_values_typed_witness:
  "\<exists>r p'. parse_args (\<lambda>_. Inl (Invalid_argument [])) [''zit'', ''x''] (main_state [] False :: unit arg_parser) = (r, p')
    \<and> map decl (ap_options p') = main_options []"
proof -
  obtain r and p' :: "unit arg_parser" where r: "parse_args (\<lambda>_. Inl (Invalid_argument [])) [''zit'', ''x''] (main_state [] False) = (r, p')"
    by fastforce
  have "\<forall>a \<in> set (ap_options (main_state [] False :: unit arg_parser)). a_dst a = [] \<and> \<not> a_provided a"
    by (simp add: main_state_def main_options_def new_arg_def)
  from parsed_values_typed [OF this r] r show ?thesis
    by auto
qed

end
