(* ===== verification/Tracker.thy ===== *)
theory Tracker
  imports Torrent Http Config
begin

text \<open>
  The requests to trackers of \<^verbatim>\<open>src/torrent.cpp\<close>: over HTTP, over UDP with the class
  \<^verbatim>\<open>UDPTrackerRequest\<close>, the lists of peers in their three forms, the tiers of the announce
  list, and \<^verbatim>\<open>retry_call\<close> of \<^verbatim>\<open>src/retry.hpp\<close>.  A peer of a list is its URL and the
  torrent it is made for.  What trackers answer, random numbers, the clock, the shuffling of a tier
  and the resolver are parameters; the datagrams sent are part of the state.
\<close>

section \<open>State and environment\<close>

datatype tracker_event = STARTED | STOPPED | COMPLETED | UNSPECIFIED

definition event_name :: "tracker_event \<Rightarrow> string" where
  "event_name te =
     (case te of STARTED \<Rightarrow> ''started'' | COMPLETED \<Rightarrow> ''completed'' | STOPPED \<Rightarrow> ''stopped'' | UNSPECIFIED \<Rightarrow> [])"

text \<open>\<^verbatim>\<open>static_cast<int32_t>(event)\<close>: the position in the enumeration.\<close>

fun event_number :: "tracker_event \<Rightarrow> u32" where
  "event_number STARTED = 0"
| "event_number STOPPED = 1"
| "event_number COMPLETED = 2"
| "event_number UNSPECIFIED = 3"

text \<open>The members of a torrent that a request uses; torrents are known by a number.\<close>

record client =
  cl_torrent :: torrent
  cl_peer_id :: string
  cl_listening_port :: u16
  cl_config :: config
  cl_stopped :: bool

record candidate =
  ca_url :: url
  ca_owner :: nat

record tracker_env =
  te_clients :: "nat \<Rightarrow> client"
  te_http_get :: "url \<Rightarrow> string \<Rightarrow> (string \<times> string) result"
  te_udp :: "nat \<Rightarrow> url \<Rightarrow> bytes \<Rightarrow> bool \<times> bytes result"
  te_now :: u64
  te_random :: "nat \<Rightarrow> u32"
  te_shuffle :: "string list \<Rightarrow> string list"
  te_addr :: "string \<Rightarrow> address"
  te_lookup :: "string \<Rightarrow> string option"
  te_host_ips :: "string \<Rightarrow> string list"
  te_own_ips :: "string list"

text \<open>\<open>ur_torrent\<close> is a reference, made when the object is.\<close>

record udp_request =
  ur_announce_url :: url
  ur_torrent :: nat
  ur_connection_id :: "u64 option"
  ur_last_connection_id :: u64

record udp_state =
  us_requests :: "url \<Rightarrow> udp_request option"
  us_sent :: "(url \<times> bytes) list"
  us_draws :: nat

definition resolve_urls :: "client \<Rightarrow> bool" where
  "resolve_urls c = m_bool_settings (cl_config c) RESOLVE_URLS"

definition skips_peer_list :: "client \<Rightarrow> bool" where
  "skips_peer_list c \<longleftrightarrow>
     \<not> m_bool_settings (cl_config c) INITIATE_PEER_CONNECTIONS \<and> torrent_done (cl_torrent c)"

definition is_local :: "url \<Rightarrow> u16 \<Rightarrow> bool" where
  "is_local u port \<longleftrightarrow> u_host u = ''127.0.0.1'' \<and> u_port u = Some port"

section \<open>Lists of peers in bencoded replies\<close>

text \<open>The body of the loops: a peer is skipped when its address is of IPv6 or our own.\<close>

definition keep_peer :: "tracker_env \<Rightarrow> nat \<Rightarrow> url \<Rightarrow> candidate list \<Rightarrow> candidate list" where
  "keep_peer env self purl peers =
     (if is_ipv6 (te_addr env) purl then peers
      else if \<not> is_local purl (cl_listening_port (te_clients env self))
      then peers @ [\<lparr>ca_url = purl, ca_owner = self\<rparr>]
      else peers)"

definition string_peer_url :: "tracker_env \<Rightarrow> nat \<Rightarrow> elem \<Rightarrow> url result" where
  "string_peer_url env self elm =
     bindE (to_dict elm) (\<lambda>peer.
     bindE (bindE (smap_at peer ''ip'') to_str) (\<lambda>ip.
     bindE (bindE (smap_at peer ''port'') to_int) (\<lambda>port.
     make_url (te_addr env) (te_lookup env) False (resolve_urls (te_clients env self))
       (''http://'' @ ip @ '':'' @ dec_of_int port))))"

definition read_peers_string_list :: "tracker_env \<Rightarrow> nat \<Rightarrow> elem \<Rightarrow> candidate list \<Rightarrow> candidate list result" where
  "read_peers_string_list env self peers_dict peers =
     bindE (to_list peers_dict) (\<lambda>peer_list.
     foldE (\<lambda>elm peers. bindE (string_peer_url env self elm) (\<lambda>purl. Inr (keep_peer env self purl peers)))
       peer_list peers)"

definition BINARY_PEER_LENGTH :: nat where "BINARY_PEER_LENGTH = 6"

fun binary_loop :: "tracker_env \<Rightarrow> nat \<Rightarrow> string \<Rightarrow> candidate list \<Rightarrow> candidate list result" where
  "binary_loop env self [] peers = Inr peers"
| "binary_loop env self (c # cs) peers =
     bindE (make_url (te_addr env) (te_lookup env) True (resolve_urls (te_clients env self))
              (take BINARY_PEER_LENGTH (c # cs))) (\<lambda>purl.
     binary_loop env self (drop (BINARY_PEER_LENGTH - 1) cs) (keep_peer env self purl peers))"

definition read_peers_binary_form :: "tracker_env \<Rightarrow> nat \<Rightarrow> elem \<Rightarrow> candidate list \<Rightarrow> candidate list result" where
  "read_peers_binary_form env self peers_dict peers =
     bindE (to_str peers_dict) (\<lambda>binary_peers.
     if binary_peers = [] then Inl (Runtime_error ''Peer list is empty'')
     else binary_loop env self binary_peers peers)"

section \<open>HTTP\<close>

definition announce_params :: "client \<Rightarrow> tracker_event \<Rightarrow> string list" where
  "announce_params c event =
     [''info_hash='' @ urlEncode (m_info_hash (meta (cl_torrent c))),
      ''peer_id='' @ cl_peer_id c,
      ''port='' @ dec_of_nat (unat (cl_listening_port c)),
      ''uploaded=0'',
      ''downloaded='' @ dec_of_int (downloaded (cl_torrent c)),
      ''left='' @ dec_of_int (left_bytes (cl_torrent c))]
     @ (if event \<noteq> UNSPECIFIED then [''event='' @ event_name event] else [])
     @ [''compact=1'']"

text \<open>What \<^verbatim>\<open>catch (const BencodeConversionError&)\<close> sees of the decoder.\<close>

definition decode_reply :: "string \<Rightarrow> elem result" where
  "decode_reply body =
     (case be_decode body of
        Inl (Conversion_error _) \<Rightarrow> Inl (Runtime_error ''Could not decode peer list.'')
      | r \<Rightarrow> r)"

definition reply_peers :: "tracker_env \<Rightarrow> nat \<Rightarrow> string \<Rightarrow> candidate list result" where
  "reply_peers env self body =
     bindE (decode_reply body) (\<lambda>reply.
     bindE (to_dict reply) (\<lambda>reply_dict.
     case map_of reply_dict ''failure reason'' of
       Some reason \<Rightarrow> bindE (to_str reason) (\<lambda>r. Inl (Runtime_error (''Tracker request failed: '' @ r)))
     | None \<Rightarrow>
         (case map_of reply_dict ''peers'' of
            None \<Rightarrow> Inl (Runtime_error ''Invalid tracker reply, no peer list'')
          | Some (BeList es) \<Rightarrow> read_peers_string_list env self (BeList es) []
          | Some e \<Rightarrow> read_peers_binary_form env self e [])))"

definition http_tracker_request :: "tracker_env \<Rightarrow> nat \<Rightarrow> url \<Rightarrow> tracker_event \<Rightarrow> (bool \<times> candidate list) result" where
  "http_tracker_request env self announce_url event =
     (let c = te_clients env self; u = fold add_param (announce_params c event) announce_url in
      bindE (te_http_get env u (m_string_settings (cl_config c) BIND_ADDRESS)) (\<lambda>(headers, body).
      if event = UNSPECIFIED \<or> event = STARTED then
        if skips_peer_list c then Inr (True, [])
        else bindE (reply_peers env self body) (\<lambda>peers. Inr (True, peers))
      else Inr (True, [])))"

section \<open>UDP\<close>

datatype udp_action = ACT_CONNECT | ACT_ANNOUNCE | ACT_SCRAPE | ACT_ERR

definition to_udp_action :: "u32 \<Rightarrow> udp_action result" where
  "to_udp_action action =
     (if action = 0 then Inr ACT_CONNECT else if action = 1 then Inr ACT_ANNOUNCE
      else if action = 2 then Inr ACT_SCRAPE else if action = 3 then Inr ACT_ERR
      else Inl (Runtime_error ''Unknown udp tracker action''))"

text \<open>\<^verbatim>\<open>retry_call\<close>; the waiting between two calls has no effect on the state.\<close>

fun retry_call :: "('s, 'a option) st \<Rightarrow> nat \<Rightarrow> ('s, 'a option) st" where
  "retry_call callable 0 = throwIO (Runtime_error ''retry_call called with 0 retries'')"
| "retry_call callable (Suc n) =
     bindIO callable (\<lambda>ret. if ret \<noteq> None \<or> n = 0 then retIO ret else retry_call callable n)"

definition draw_random :: "tracker_env \<Rightarrow> (udp_state, u32) st" where
  "draw_random env =
     bindIO (getIO us_draws) (\<lambda>n. bindIO (modIO (us_draws_update Suc)) (\<lambda>_. retIO (te_random env n)))"

text \<open>One exchange: an empty reply is none.  \<open>us_sent\<close> records every datagram that was sent.\<close>

definition udp_exchange :: "tracker_env \<Rightarrow> url \<Rightarrow> bytes \<Rightarrow> (udp_state, bytes option) st" where
  "udp_exchange env u data =
     bindIO (getIO (length \<circ> us_sent)) (\<lambda>n.
     let (sent, reply) = udpRequest (te_udp env n) u data in
     bindIO (whenIO sent (modIO (\<lambda>s. s\<lparr>us_sent := us_sent s @ [(u, data)]\<rparr>))) (\<lambda>_.
     bindIO (liftIO reply) (\<lambda>response.
     retIO (if response = [] then None else Some response))))"

definition current_request :: "url \<Rightarrow> (udp_state, udp_request) st" where
  "current_request u = getIO (\<lambda>s. the (us_requests s u))"

definition put_request :: "url \<Rightarrow> udp_request \<Rightarrow> (udp_state, unit) st" where
  "put_request u r = modIO (\<lambda>s. s\<lparr>us_requests := (us_requests s)(u := Some r)\<rparr>)"

definition connect_request :: "u32 \<Rightarrow> bytes" where
  "connect_request tid = to_big_endian (0x41727101980 :: u64) @ to_big_endian (0 :: u32) @ to_big_endian tid"

text \<open>
  Times are in nanoseconds; the difference of two of them wraps where the signed subtraction of
  the source overflows.
\<close>

definition udp_connect :: "tracker_env \<Rightarrow> url \<Rightarrow> (udp_state, bool) st" where
  "udp_connect env u =
     bindIO (current_request u) (\<lambda>req.
     let expired = sint (te_now env - ur_last_connection_id req) > 60 * 10 ^ 9 in
     if \<not> expired \<and> ur_connection_id req \<noteq> None then retIO True
     else
       bindIO (whenIO expired (put_request u (req\<lparr>ur_connection_id := None\<rparr>))) (\<lambda>_.
       bindIO (draw_random env) (\<lambda>tid.
       bindIO (retry_call (udp_exchange env (ur_announce_url req) (connect_request tid)) 2) (\<lambda>response.
       case response of
         None \<Rightarrow> retIO False
       | Some r \<Rightarrow>
           if length r < 16 then retIO False
           else
             bindIO (liftIO (bindE (from_big_endian r 0) to_udp_action)) (\<lambda>action.
             bindIO (liftIO (from_big_endian r 4)) (\<lambda>reply_tid.
             if reply_tid \<noteq> tid \<or> action \<noteq> ACT_CONNECT then retIO False
             else
               bindIO (liftIO (from_big_endian r 8)) (\<lambda>cid.
               bindIO (put_request u (req\<lparr>ur_connection_id := Some cid, ur_last_connection_id := te_now env\<rparr>)) (\<lambda>_.
               retIO True))))))))"

definition announce_request :: "u64 \<Rightarrow> u32 \<Rightarrow> client \<Rightarrow> tracker_event \<Rightarrow> u32 \<Rightarrow> bytes" where
  "announce_request cid tid c event key =
     to_big_endian cid @ to_big_endian (1 :: u32) @ to_big_endian tid
     @ bytes_of_string (m_info_hash (meta (cl_torrent c))) @ bytes_of_string (cl_peer_id c)
     @ to_big_endian (of_int (downloaded (cl_torrent c)) :: u64) @ to_big_endian (of_int (left_bytes (cl_torrent c)) :: u64)
     @ to_big_endian (0 :: u64) @ to_big_endian (event_number event) @ to_big_endian (0 :: u32) @ to_big_endian key
     @ to_big_endian (50 :: u32) @ to_big_endian (cl_listening_port c) @ to_big_endian (0 :: u16)"

text \<open>One entry of the list of peers; it is not checked for IPv6, its address has four bytes.\<close>

definition udp_peer_url :: "tracker_env \<Rightarrow> nat \<Rightarrow> bytes \<Rightarrow> nat \<Rightarrow> url result" where
  "udp_peer_url env owner r i =
     bindE (from_big_endian r (20 + i * 6)) (\<lambda>ip :: u32.
     bindE (from_big_endian r (20 + i * 6 + 4)) (\<lambda>port :: u16.
     let oct = (\<lambda>k. dec_of_nat (unat (drop_bit k ip AND 0xFF))) in
     make_url (te_addr env) (te_lookup env) False (resolve_urls (te_clients env owner))
       (''http://'' @ oct 24 @ ''.'' @ oct 16 @ ''.'' @ oct 8 @ ''.'' @ oct 0 @ '':'' @ dec_of_nat (unat port))))"

definition udp_reply_peers :: "tracker_env \<Rightarrow> nat \<Rightarrow> bytes \<Rightarrow> candidate list result" where
  "udp_reply_peers env owner r =
     bindE (from_big_endian r 8) (\<lambda>interval :: u32.
     bindE (from_big_endian r 12) (\<lambda>leechers :: u32.
     bindE (from_big_endian r 16) (\<lambda>seeders :: u32.
     foldE (\<lambda>i peers.
         bindE (udp_peer_url env owner r i) (\<lambda>purl.
         Inr (if \<not> is_local purl (cl_listening_port (te_clients env owner))
              then peers @ [\<lparr>ca_url = purl, ca_owner = owner\<rparr>] else peers)))
       [0..<size_sub (length r) 20 div 6] [])))"

definition announce :: "tracker_env \<Rightarrow> url \<Rightarrow> tracker_event \<Rightarrow> (udp_state, bool \<times> candidate list) st" where
  "announce env u event =
     bindIO (udp_connect env u) (\<lambda>connected.
     if \<not> connected then retIO (False, [])
     else
       bindIO (current_request u) (\<lambda>req.
       case ur_connection_id req of
         None \<Rightarrow> throwIO (Runtime_error ''UDPTrackerRequest::announce called without a connection'')
       | Some cid \<Rightarrow>
           let c = te_clients env (ur_torrent req) in
           bindIO (draw_random env) (\<lambda>tid.
           bindIO (draw_random env) (\<lambda>key.
           bindIO (retry_call (udp_exchange env (ur_announce_url req) (announce_request cid tid c event key)) 2) (\<lambda>response.
           case response of
             None \<Rightarrow> retIO (True, [])
           | Some r \<Rightarrow>
               bindIO (liftIO (bindE (from_big_endian r 0) to_udp_action)) (\<lambda>action.
               bindIO (liftIO (from_big_endian r 4)) (\<lambda>reply_tid.
               if reply_tid \<noteq> tid \<or> action \<noteq> ACT_ANNOUNCE then retIO (False, [])
               else if event = UNSPECIFIED \<or> event = STARTED then
                 if skips_peer_list c then retIO (True, [])
                 else bindIO (liftIO (udp_reply_peers env (ur_torrent req) r)) (\<lambda>peers. retIO (True, peers))
               else retIO (True, [])))))))) "

text \<open>The request objects live in a static map with the URL as its key.\<close>

definition time_point_min :: u64 where "time_point_min = 0x8000000000000000"

definition udp_tracker_request :: "tracker_env \<Rightarrow> nat \<Rightarrow> url \<Rightarrow> tracker_event \<Rightarrow> (udp_state, bool \<times> candidate list) st" where
  "udp_tracker_request env self u event =
     bindIO (modIO (\<lambda>s. if us_requests s u = None
       then s\<lparr>us_requests := (us_requests s)(u := Some \<lparr>ur_announce_url = u, ur_torrent = self,
         ur_connection_id = None, ur_last_connection_id = time_point_min\<rparr>)\<rparr> else s)) (\<lambda>_.
     announce env u event)"

section \<open>The tiers of the announce list\<close>

definition do_tracker_request :: "tracker_env \<Rightarrow> nat \<Rightarrow> tracker_event \<Rightarrow> string \<Rightarrow> (udp_state, bool \<times> candidate list) st" where
  "do_tracker_request env self event announce_url =
     bindIO (liftIO (parse_url announce_url)) (\<lambda>u.
     if starts_with ''http'' (u_scheme u) then liftIO (http_tracker_request env self u event)
     else if u_scheme u = ''udp'' then udp_tracker_request env self u event
     else throwIO (Runtime_error ''Unhandled tracker url scheme''))"

text \<open>\<open>success\<close>, \<open>peers_from_tracker\<close> and \<open>thrown\<close>, which survive from one tracker to the next.\<close>

type_synonym tier_vars = "bool \<times> candidate list \<times> exn option"

fun tier_loop :: "(string \<Rightarrow> (udp_state, bool \<times> candidate list) st) \<Rightarrow> bool \<Rightarrow> string list \<Rightarrow> tier_vars
    \<Rightarrow> (udp_state, tier_vars) st" where
  "tier_loop request give_up [] vars = retIO vars"
| "tier_loop request give_up (a # as) vars =
     (if give_up then retIO vars
      else (\<lambda>s. case request a s of
          (Inr (success, peers), s') \<Rightarrow> (Inr (success, peers, None), s')
        | (Inl (Undefined_behaviour m), s') \<Rightarrow> (Inl (Undefined_behaviour m), s')
        | (Inl (Http_error n), s') \<Rightarrow> tier_loop request give_up as vars s'
        | (Inl e, s') \<Rightarrow> tier_loop request give_up as (fst vars, fst (snd vars), Some e) s'))"

fun tiers_loop :: "(string \<Rightarrow> (udp_state, bool \<times> candidate list) st) \<Rightarrow> bool \<Rightarrow> (string list \<Rightarrow> string list)
    \<Rightarrow> string list list \<Rightarrow> tier_vars \<Rightarrow> (udp_state, tier_vars) st" where
  "tiers_loop request give_up shuffle [] vars = retIO vars"
| "tiers_loop request give_up shuffle (tier # tiers) vars =
     bindIO (tier_loop request give_up (shuffle tier) vars) (\<lambda>vars.
     if fst vars then retIO vars else tiers_loop request give_up shuffle tiers vars)"

definition is_local_peer :: "tracker_env \<Rightarrow> u16 \<Rightarrow> url \<Rightarrow> bool" where
  "is_local_peer env port u \<longleftrightarrow>
     (case u_port u of None \<Rightarrow> 0 | Some p \<Rightarrow> p) = port
     \<and> list_ex (\<lambda>ip. ip \<in> set (te_own_ips env @ [''localhost'', ''127.0.0.1'', ''172.17.0.1''])) (te_host_ips env (u_host u))"

definition announce_tiers :: "client \<Rightarrow> string list list" where
  "announce_tiers c =
     (let m = meta (cl_torrent c) in if m_announce_list m \<noteq> [] then m_announce_list m else [[m_announce m]])"

definition tracker_request :: "tracker_env \<Rightarrow> nat \<Rightarrow> tracker_event \<Rightarrow> (udp_state, candidate list) st" where
  "tracker_request env self event =
     (let c = te_clients env self in
      bindIO (tiers_loop (do_tracker_request env self event) (cl_stopped c \<and> event \<noteq> STOPPED) (te_shuffle env)
                (announce_tiers c) (False, [], None)) (\<lambda>(success, peers, thrown).
      case thrown of
        Some e \<Rightarrow> throwIO e
      | None \<Rightarrow> retIO (filter (\<lambda>p. \<not> is_local_peer env (cl_listening_port c) (ca_url p)) peers)))"

section \<open>The compact lists\<close>

definition dotted :: "string \<Rightarrow> string" where
  "dotted e = dec_of_nat (of_char (e ! 0)) @ ''.'' @ dec_of_nat (of_char (e ! 1)) @ ''.''
     @ dec_of_nat (of_char (e ! 2)) @ ''.'' @ dec_of_nat (of_char (e ! 3))"

definition entry_port :: "string \<Rightarrow> u16" where
  "entry_port e = of_nat (of_char (e ! 4) * 256 + of_char (e ! 5))"

definition entry_url :: "string \<Rightarrow> string \<Rightarrow> url" where
  "entry_url path e =
     \<lparr>u_scheme = ''http'', u_host = dotted e, u_path = path, u_params = [], u_port = Some (entry_port e)\<rparr>"

lemma entry_port_binary:
  "host_to_network_short (of_nat (of_char (e ! 4)) OR push_bit 8 (of_nat (of_char (e ! 5)))) = entry_port e"
proof -
  have "unat (host_to_network_short (of_nat (of_char (e ! 4)) OR push_bit 8 (of_nat (of_char (e ! 5)))))
      = of_char (e ! 4) * 256 + of_char (e ! 5)"
    by (rule port_network_order) simp_all
  then show ?thesis
    by (metis entry_port_def of_nat_unat ucast_id)
qed

lemma parse_entry: "length e = 6 \<Longrightarrow> parse_url_binary e = Inr (entry_url [] e)"
  by (simp add: parse_url_binary_def Let_def entry_url_def dotted_def entry_port_binary)

lemma dotted_plain: "set (dotted e) \<inter> {CHR ''/'', CHR '':'', CHR 0x0A} = {}"
proof -
  have "CHR ''/'' \<notin> set (dec_of_nat n) \<and> CHR '':'' \<notin> set (dec_of_nat n) \<and> CHR 0x0A \<notin> set (dec_of_nat n)" for n
    using dec_of_nat_digits [of n] by (auto simp: is_digit_iff)
  then show ?thesis
    by (auto simp: dotted_def)
qed

lemma octet_of_byte:
  fixes v :: u32
  assumes "ucast (drop_bit k v AND 0xFF) = byte_of_char c"
  shows "unat (drop_bit k v AND 0xFF) = of_char c"
proof -
  have "unat (ucast (drop_bit k v AND 0xFF) :: byte) = unat (drop_bit k v AND 0xFF)"
    by (simp add: low_byte_mask flip: take_bit_eq_mask) (simp add: unsigned_ucast_eq unsigned_take_bit_eq)
  with assms show ?thesis
    by simp
qed

lemma nth_4: "(a # b # c # d # x # xs) ! 4 = x" and nth_5: "(a # b # c # d # x # y # xs) ! 5 = y"
  and nth_2: "(a # b # c # xs) ! 2 = c" and nth_3: "(a # b # c # d # xs) ! 3 = d"
  by (simp_all add: eval_nat_numeral)

lemma six_chars: "length e = 6 \<Longrightarrow> \<exists>a b c d x y. e = [a, b, c, d, x, y]"
  by (auto simp: length_Suc_conv eval_nat_numeral)

lemma ucast_byte_of_char: "(ucast (byte_of_char c) :: 'a::len word) = of_nat (of_char c)"
  by (simp add: byte_of_char_def unsigned_of_nat take_bit_nat_eq_self)

lemma read_entry:
  assumes "length e = 6" and "length pre = k" and "length pre + 6 + length post < 2 ^ 64"
  shows "\<exists>ip :: u32. from_big_endian (pre @ bytes_of_string e @ post) k = Inr ip
    \<and> unat (drop_bit 24 ip AND 0xFF) = of_char (e ! 0) \<and> unat (drop_bit 16 ip AND 0xFF) = of_char (e ! 1)
    \<and> unat (drop_bit 8 ip AND 0xFF) = of_char (e ! 2) \<and> unat (ip AND 0xFF) = of_char (e ! 3)"
    and "from_big_endian (pre @ bytes_of_string e @ post) (k + 4) = Inr (entry_port e)"
proof -
  obtain a b c d x y where e: "e = [a, b, c, d, x, y]"
    using six_chars [OF assms(1)] by blast
  define bs where "bs = map byte_of_char [a, b, c, d]"
  have "\<exists>w :: u32. from_big_endian (pre @ bs @ (map byte_of_char [x, y] @ post)) (length pre) = Inr w
      \<and> to_big_endian w = bs"
  proof -
    obtain w :: u32 where w: "from_big_endian bs 0 = Inr w"
      using from_big_endian_total [where 'a = 32, of bs] by (auto simp: bs_def)
    moreover have "(from_big_endian (pre @ bs @ (map byte_of_char [x, y] @ post)) (length pre) :: u32 result) = from_big_endian bs 0"
      using assms(3) by (intro from_big_endian_at) (simp_all add: bs_def)
    moreover have "to_big_endian w = bs"
      using w by (intro to_from_big_endian) (simp_all add: bs_def)
    ultimately show ?thesis
      by auto
  qed
  then obtain ip :: u32 where ip: "from_big_endian (pre @ bytes_of_string e @ post) k = Inr ip" "to_big_endian ip = bs"
    using assms(2) by (auto simp: e bs_def bytes_of_string_def)
  then have "ucast (drop_bit 24 ip AND 0xFF) = byte_of_char a" "ucast (drop_bit 16 ip AND 0xFF) = byte_of_char b"
    "ucast (drop_bit 8 ip AND 0xFF) = byte_of_char c" "ucast (drop_bit 0 ip AND 0xFF) = byte_of_char d"
    by (simp_all add: to_big_endian_def bs_def)
  then show "\<exists>ip :: u32. from_big_endian (pre @ bytes_of_string e @ post) k = Inr ip
    \<and> unat (drop_bit 24 ip AND 0xFF) = of_char (e ! 0) \<and> unat (drop_bit 16 ip AND 0xFF) = of_char (e ! 1)
    \<and> unat (drop_bit 8 ip AND 0xFF) = of_char (e ! 2) \<and> unat (ip AND 0xFF) = of_char (e ! 3)"
    using ip(1) octet_of_byte [of 24 ip] octet_of_byte [of 16 ip] octet_of_byte [of 8 ip] octet_of_byte [of 0 ip]
    by (intro exI [of _ ip]) (simp add: e nth_2 nth_3)
  have "(from_big_endian ((pre @ map byte_of_char [a, b, c, d]) @ map byte_of_char [x, y] @ post)
      (length (pre @ map byte_of_char [a, b, c, d])) :: u16 result) = from_big_endian (map byte_of_char [x, y]) 0"
    using assms(3) by (intro from_big_endian_at) simp_all
  also have "\<dots> = Inr (of_nat (of_char x * 256 + of_char y))"
    using two_byte_word [of "of_char x" "of_char y"]
    by (simp add: from_big_endian_def Let_def ucast_byte_of_char or.commute)
  finally have port: "from_big_endian ((pre @ map byte_of_char [a, b, c, d]) @ map byte_of_char [x, y] @ post)
      (length (pre @ map byte_of_char [a, b, c, d])) = Inr (of_nat (of_char x * 256 + of_char y) :: u16)" .
  have "length (pre @ map byte_of_char [a, b, c, d]) = k + 4"
    using assms(2) by simp
  with port show "from_big_endian (pre @ bytes_of_string e @ post) (k + 4) = Inr (entry_port e)"
    by (simp only:) (simp add: e bytes_of_string_def entry_port_def nth_4 nth_5)
qed

text \<open>No resolving, and addresses in dotted notation are not taken for IPv6.\<close>

definition plain_addresses :: "tracker_env \<Rightarrow> nat \<Rightarrow> bool" where
  "plain_addresses env self \<longleftrightarrow> \<not> resolve_urls (te_clients env self) \<and> (\<forall>e. te_addr env (dotted e) \<noteq> V6)"

definition listed :: "tracker_env \<Rightarrow> nat \<Rightarrow> string \<Rightarrow> string list \<Rightarrow> candidate list" where
  "listed env self path es =
     map (\<lambda>e. \<lparr>ca_url = entry_url path e, ca_owner = self\<rparr>)
       (filter (\<lambda>e. \<not> is_local (entry_url path e) (cl_listening_port (te_clients env self))) es)"

lemma listed_simps:
  "listed env self path [] = []"
  "listed env self path (es @ [e]) = listed env self path es
     @ (if is_local (entry_url path e) (cl_listening_port (te_clients env self)) then []
        else [\<lparr>ca_url = entry_url path e, ca_owner = self\<rparr>])"
  by (simp_all add: listed_def)

lemma listed_Cons: "listed env self path (e # es) =
    (if is_local (entry_url path e) (cl_listening_port (te_clients env self)) then []
     else [\<lparr>ca_url = entry_url path e, ca_owner = self\<rparr>]) @ listed env self path es"
  by (simp add: listed_def)

lemma binary_loop_entries:
  assumes "plain_addresses env self" and "\<forall>e \<in> set es. length e = 6"
  shows "binary_loop env self (concat es @ rest) peers = binary_loop env self rest (peers @ listed env self [] es)"
  using assms(2)
proof (induction es arbitrary: peers)
  case Nil
  then show ?case
    by (simp add: listed_simps)
next
  case (Cons e es)
  then obtain c cs where e: "e = c # cs" "length cs = 5"
    by (cases e) auto
  have url: "make_url (te_addr env) (te_lookup env) True (resolve_urls (te_clients env self)) e = Inr (entry_url [] e)"
    using assms(1) Cons.prems by (simp add: make_url_def parse_entry plain_addresses_def)
  have "\<not> is_ipv6 (te_addr env) (entry_url [] e)"
    using assms(1) by (simp add: is_ipv6_def entry_url_def plain_addresses_def)
  then show ?case
    using Cons url e by (simp add: BINARY_PEER_LENGTH_def keep_peer_def listed_Cons)
qed

lemma udp_peer_entry:
  assumes "plain_addresses env self" and "length hdr = 20" and "\<forall>e \<in> set es. length e = 6"
    and "20 + 6 * length es < 2 ^ 64" and "i < length es"
  shows "udp_peer_url env self (hdr @ concat (map bytes_of_string es)) i = Inr (entry_url ''/'' (es ! i))"
proof -
  define pre where "pre = hdr @ concat (map bytes_of_string (take i es))"
  define post where "post = concat (map bytes_of_string (drop (Suc i) es))"
  have six: "length (concat (map bytes_of_string xs)) = 6 * length xs" if "set xs \<subseteq> set es" for xs
    using that assms(3) by (induction xs) auto
  have split: "hdr @ concat (map bytes_of_string es) = pre @ bytes_of_string (es ! i) @ post"
    using id_take_nth_drop [OF assms(5)] by (simp add: pre_def post_def) (metis concat.simps(2) concat_append list.simps(9) map_append)
  have pre: "length pre = 20 + i * 6"
    using assms(2,5) six [of "take i es"] by (simp add: pre_def set_take_subset)
  have "length pre + 6 + length post < 2 ^ 64"
    using assms(4,5) six [of "drop (Suc i) es"] by (simp add: pre post_def set_drop_subset)
  moreover have "length (es ! i) = 6"
    using assms(3,5) by simp
  ultimately obtain ip :: u32 where
    "from_big_endian (hdr @ concat (map bytes_of_string es)) (20 + i * 6) = Inr ip"
    "from_big_endian (hdr @ concat (map bytes_of_string es)) (20 + i * 6 + 4) = Inr (entry_port (es ! i))"
    "unat (drop_bit 24 ip AND 0xFF) = of_char (es ! i ! 0)" "unat (drop_bit 16 ip AND 0xFF) = of_char (es ! i ! 1)"
    "unat (drop_bit 8 ip AND 0xFF) = of_char (es ! i ! 2)" "unat (ip AND 0xFF) = of_char (es ! i ! 3)"
    using read_entry [of "es ! i" pre "20 + i * 6" post] pre unfolding split by blast
  then show ?thesis
    using assms(1) parse_host_port [OF dotted_plain, of "es ! i" "entry_port (es ! i)"]
    by (simp add: udp_peer_url_def Let_def make_url_def plain_addresses_def entry_url_def dotted_def)
qed

lemma udp_reply_entries:
  assumes "plain_addresses env self" and "length hdr = 20" and "\<forall>e \<in> set es. length e = 6"
    and "20 + 6 * length es < 2 ^ 64"
  shows "udp_reply_peers env self (hdr @ concat (map bytes_of_string es)) = Inr (listed env self ''/'' es)"
proof -
  let ?r = "hdr @ concat (map bytes_of_string es)"
  have len: "length ?r = 20 + 6 * length es"
    using assms(2,3) by (induction es) auto
  have read: "\<exists>w :: u32. from_big_endian ?r k = Inr w" if "k + 4 \<le> 20" for k
    using that assms(4) from_big_endian_bounds [where 'a = 32, of ?r k] len
    by (cases "from_big_endian ?r k :: u32 result") (auto simp: from_big_endian_def Let_def split: if_splits)
  have loop: "foldE (\<lambda>i peers. bindE (udp_peer_url env self ?r i) (\<lambda>purl.
         Inr (if \<not> is_local purl (cl_listening_port (te_clients env self))
              then peers @ [\<lparr>ca_url = purl, ca_owner = self\<rparr>] else peers))) [0..<n] [] = Inr (listed env self ''/'' (take n es))"
    if "n \<le> length es" for n
    using that
  proof (induction n)
    case 0
    then show ?case
      by (simp add: listed_simps)
  next
    case (Suc n)
    then show ?case
      using udp_peer_entry [OF assms, of n]
      by (simp add: foldE_append take_Suc_conv_app_nth listed_simps)
  qed
  have "size_sub (length ?r) 20 div 6 = length es"
    unfolding len using assms(4) by simp
  with read [of 8] read [of 12] read [of 16] loop [of "length es"] show ?thesis
    by (auto simp: udp_reply_peers_def)
qed

text \<open>
  The two compact forms agree: the same entries of six bytes, in the list of an HTTP reply or
  behind the header of a UDP reply, give the same peers in the same order, without the client
  itself; but the URLs differ in their path, which is empty for the one and \<open>/\<close> for the other, so
  that the same peer prints differently.
\<close>

theorem compact_lists_agree:
  assumes "plain_addresses env self" and "length hdr = 20" and "\<forall>e \<in> set es. length e = 6"
    and "20 + 6 * length es < 2 ^ 64" and "es \<noteq> []"
  shows "read_peers_binary_form env self (BeStr (concat es)) [] = Inr (listed env self [] es)
    \<and> udp_reply_peers env self (hdr @ concat (map bytes_of_string es)) = Inr (listed env self ''/'' es)
    \<and> (\<forall>e. url_str (entry_url ''/'' e) = url_str (entry_url [] e) @ ''/'')"
proof (intro conjI allI)
  have "concat es \<noteq> []"
    using assms(3,5) by (cases es) auto
  then show "read_peers_binary_form env self (BeStr (concat es)) [] = Inr (listed env self [] es)"
    using binary_loop_entries [OF assms(1,3), of "[]"] by (simp add: read_peers_binary_form_def)
  show "url_str (entry_url ''/'' e) = url_str (entry_url [] e) @ ''/''" for e
    by (simp add: url_str_def entry_url_def url_authority_def)
qed (rule udp_reply_entries [OF assms(1-4)])

definition sample_client :: client where
  "sample_client = \<lparr>cl_torrent = new_torrent (sample_meta\<lparr>m_announce_list := [[''x'', ''http://h:80'']]\<rparr>), cl_peer_id = [],
     cl_listening_port = 7, cl_config = default_config, cl_stopped = False\<rparr>"

definition sample_env :: tracker_env where
  "sample_env = \<lparr>te_clients = (\<lambda>_. sample_client), te_http_get = (\<lambda>_ _. Inr ([], [])), te_udp = (\<lambda>_ _ _. (True, Inr [])),
     te_now = 0, te_random = of_nat, te_shuffle = id, te_addr = (\<lambda>_. V4), te_lookup = (\<lambda>_. None),
     te_host_ips = (\<lambda>_. []), te_own_ips = []\<rparr>"

definition no_requests :: udp_state where
  "no_requests = \<lparr>us_requests = (\<lambda>_. None), us_sent = [], us_draws = 0\<rparr>"

definition plain_client :: client where
  "plain_client = sample_client\<lparr>cl_config := default_config\<lparr>m_bool_settings := (\<lambda>_. False)\<rparr>\<rparr>"

theorem compact_lists_agree_witness:
  "udp_reply_peers (sample_env\<lparr>te_clients := (\<lambda>_. plain_client)\<rparr>) 0 (replicate 20 0 @ concat (map bytes_of_string [''abcdef'']))
     = Inr [\<lparr>ca_url = entry_url ''/'' ''abcdef'', ca_owner = 0\<rparr>]"
proof -
  let ?env = "sample_env\<lparr>te_clients := (\<lambda>_. plain_client)\<rparr>"
  have "plain_addresses ?env 0"
    by (simp add: plain_addresses_def resolve_urls_def plain_client_def sample_env_def)
  moreover have "\<not> is_local (entry_url ''/'' ''abcdef'') 7"
    by (simp add: is_local_def entry_url_def entry_port_def)
  ultimately show ?thesis
    using compact_lists_agree [of ?env 0 "replicate 20 0" "[''abcdef'']"]
    by (simp add: listed_def plain_client_def sample_client_def)
qed

section \<open>Fail-over between trackers\<close>

definition throws :: "(udp_state, 'a) st \<Rightarrow> bool" where
  "throws m \<longleftrightarrow> (\<forall>s. \<exists>e. fst (m s) = Inl e \<and> \<not> is_UB (Inl e :: unit result))"

text \<open>The state after a request to each of some trackers.\<close>

definition after_all :: "(string \<Rightarrow> (udp_state, 'a) st) \<Rightarrow> string list \<Rightarrow> udp_state \<Rightarrow> udp_state" where
  "after_all request as s = fold (\<lambda>a s. snd (request a s)) as s"

lemma tier_loop_failing:
  assumes "\<forall>a \<in> set as. throws (request a)"
  shows "\<exists>thrown'. tier_loop request False (as @ rest) (ok, peers, thrown) s =
    tier_loop request False rest (ok, peers, thrown') (after_all request as s)"
  using assms
proof (induction as arbitrary: thrown s)
  case Nil
  then show ?case
    by (auto simp: after_all_def)
next
  case (Cons a as)
  then obtain e s' where "request a s = (Inl e, s')" "\<not> is_UB (Inl e :: unit result)"
    by (metis throws_def list.set_intros(1) prod.collapse)
  then have "\<exists>t. tier_loop request False (a # as @ rest) (ok, peers, thrown) s =
      tier_loop request False (as @ rest) (ok, peers, t) s'" and "s' = snd (request a s)"
    by (cases e; auto)+
  with Cons show ?case
    by (auto simp: after_all_def)
qed

lemma tiers_loop_failing:
  assumes "\<forall>tier \<in> set tiers. \<forall>a \<in> set (shuffle tier). throws (request a)"
  shows "\<exists>thrown'. tiers_loop request False shuffle (tiers @ rest) (False, peers, thrown) s =
    tiers_loop request False shuffle rest (False, peers, thrown') (after_all request (concat (map shuffle tiers)) s)"
  using assms
proof (induction tiers arbitrary: thrown s)
  case Nil
  then show ?case
    by (auto simp: after_all_def)
next
  case (Cons tier tiers)
  then obtain t where "tier_loop request False (shuffle tier) (False, peers, thrown) s =
      (Inr (False, peers, t), after_all request (shuffle tier) s)"
    using tier_loop_failing [of "shuffle tier" request "[]"] by (fastforce simp: io_simps)
  with Cons show ?case
    by (simp add: io_simps after_all_def)
qed

text \<open>
  C27.  The tracker that is asked last is the first one, in the order of the tiers and of the
  shuffled tier, that answers without an exception; its peers are the result, without our own.
  All trackers before it were asked, none after it.  An answer without success ends its tier: the
  trackers behind it in the same tier are not asked, and the next tier is.
\<close>

theorem tracker_failover:
  assumes "announce_tiers (te_clients env self) = before @ tier # behind"
    and "te_shuffle env tier = failing @ a # others"
    and "\<forall>b \<in> set (concat (map (te_shuffle env) before) @ failing). throws (do_tracker_request env self event b)"
    and "cl_stopped (te_clients env self) \<longrightarrow> event = STOPPED"
    and "do_tracker_request env self event a (after_all (do_tracker_request env self event)
           (concat (map (te_shuffle env) before) @ failing) s) = (Inr (success, peers), s2)"
  shows "(success \<longrightarrow> tracker_request env self event s =
        (Inr (filter (\<lambda>p. \<not> is_local_peer env (cl_listening_port (te_clients env self)) (ca_url p)) peers), s2))
    \<and> (\<not> success \<longrightarrow> tiers_loop (do_tracker_request env self event) False (te_shuffle env)
          (announce_tiers (te_clients env self)) (False, [], None) s
        = tiers_loop (do_tracker_request env self event) False (te_shuffle env) behind (False, peers, None) s2)"
proof -
  let ?req = "do_tracker_request env self event"
  obtain t where t: "tiers_loop ?req False (te_shuffle env) (announce_tiers (te_clients env self)) (False, [], None) s =
      tiers_loop ?req False (te_shuffle env) (tier # behind) (False, [], t)
        (after_all ?req (concat (map (te_shuffle env) before)) s)"
    using tiers_loop_failing [of before "te_shuffle env" ?req "tier # behind" "[]" None s] assms(1,3) by auto
  obtain t' where "tier_loop ?req False (failing @ a # others) (False, [], t)
      (after_all ?req (concat (map (te_shuffle env) before)) s) = tier_loop ?req False (a # others) (False, [], t')
        (after_all ?req (concat (map (te_shuffle env) before) @ failing) s)"
    using tier_loop_failing [of failing ?req "a # others" False "[]" t "after_all ?req (concat (map (te_shuffle env) before)) s"] assms(3)
    by (auto simp: after_all_def simp del: tier_loop.simps)
  then have loop: "tiers_loop ?req False (te_shuffle env) (announce_tiers (te_clients env self)) (False, [], None) s =
      (if success then (Inr (success, peers, None), s2)
       else tiers_loop ?req False (te_shuffle env) behind (False, peers, None) s2)"
    using assms(2,5) by (simp add: t io_simps)
  with assms(4) show ?thesis
    by (auto simp: tracker_request_def Let_def io_simps)
qed

theorem tracker_failover_witness: "tracker_request sample_env 0 STOPPED no_requests = (Inr [], no_requests)"
proof -
  have fail: "do_tracker_request sample_env 0 STOPPED ''x'' s = (Inl (Runtime_error ''Invalid URL''), s)" for s
    by (simp add: do_tracker_request_def io_simps parse_url_def url_scheme_of_def starts_with_def)
  have "parse_url ''http://h:80'' = Inr \<lparr>u_scheme = ''http'', u_host = ''h'', u_path = ''/'', u_params = [], u_port = Some 80\<rparr>"
    using parse_host_port [of "''h''" 80] by (simp add: dec_of_nat.simps digit_char_def char_of_def bit_Suc_0_iff)
  then have ok: "do_tracker_request sample_env 0 STOPPED ''http://h:80'' s = (Inr (True, []), s)" for s
    by (simp add: do_tracker_request_def io_simps starts_with_def http_tracker_request_def Let_def sample_env_def)
  show ?thesis
    using tracker_failover [of sample_env 0 "[]" "[''x'', ''http://h:80'']" "[]" "[''x'']" "''http://h:80''" "[]" STOPPED no_requests True "[]" no_requests]
    by (simp add: fail ok after_all_def throws_def announce_tiers_def) (simp add: sample_env_def sample_client_def new_torrent_def Let_def)
qed


section \<open>UDP requests\<close>

lemma length_big_endians:
  "length (to_big_endian (a :: u64)) = 8" "length (to_big_endian (b :: u32)) = 4" "length (to_big_endian (c :: u16)) = 2"
  by (simp_all add: length_to_big_endian)

text \<open>The requests of other URLs do not matter to a request, and each object keeps its URL and torrent.\<close>

definition owned :: "url \<Rightarrow> nat \<Rightarrow> udp_state \<Rightarrow> bool" where
  "owned u owner s \<longleftrightarrow> (\<exists>q. us_requests s u = Some q \<and> ur_announce_url q = u \<and> ur_torrent q = owner)"

lemma keeps_owned_basic:
  "keeps (owned u owner) (draw_random env)"
  "keeps (owned u owner) (udp_exchange env v data)"
  by (auto simp: keeps_def draw_random_def udp_exchange_def io_simps owned_def split: sum.splits prod.splits)

lemma keeps_retry: "keeps P callable \<Longrightarrow> keeps P (retry_call callable n)"
  by (induction n) (auto intro!: keeps_intros)

text \<open>A computation on the request object, which it can rely on.\<close>

lemma owned_request:
  assumes "owned u owner s"
  obtains q where "current_request u s = (Inr q, s)" "us_requests s u = Some q" "ur_announce_url q = u" "ur_torrent q = owner"
  using assms by (auto simp: owned_def current_request_def io_simps)

lemma keeps_case_option [keeps_intros]:
  "(v = None \<Longrightarrow> keeps P m) \<Longrightarrow> (\<And>x. v = Some x \<Longrightarrow> keeps P (f x)) \<Longrightarrow> keeps P (case v of None \<Rightarrow> m | Some x \<Rightarrow> f x)"
  by (cases v) auto

lemma keeps_put_request:
  "ur_announce_url q = u \<Longrightarrow> ur_torrent q = owner \<Longrightarrow> keeps (owned u owner) (put_request u q)"
  by (auto simp: keeps_def put_request_def io_simps owned_def)

lemma keeps_with_request:
  assumes "\<And>q. ur_announce_url q = u \<Longrightarrow> ur_torrent q = owner \<Longrightarrow> keeps (owned u owner) (f q)"
  shows "keeps (owned u owner) (bindIO (current_request u) f)"
  unfolding keeps_def
proof (intro allI impI)
  fix s assume s: "owned u owner s"
  then obtain q where "current_request u s = (Inr q, s)" "ur_announce_url q = u" "ur_torrent q = owner"
    by (rule owned_request)
  with s assms show "owned u owner (snd (bindIO (current_request u) f s))"
    by (simp add: io_simps keeps_def)
qed

lemma keeps_connect: "keeps (owned u owner) (udp_connect env u)"
  unfolding udp_connect_def Let_def
  by (intro keeps_with_request keeps_intros keeps_retry keeps_owned_basic keeps_put_request) simp_all

lemma keeps_announce: "keeps (owned u owner) (announce env u event)"
  unfolding announce_def Let_def
  by (intro keeps_with_request keeps_intros keeps_retry keeps_owned_basic keeps_connect)

lemma udp_reply_owner: "udp_reply_peers env owner r = Inr ps \<Longrightarrow> \<forall>p \<in> set ps. ca_owner p = owner"
  by (auto simp: udp_reply_peers_def result_simps dest!: foldE_invariant [where P = "\<lambda>ps. \<forall>p \<in> set ps. ca_owner p = owner"]
      split: if_splits)

lemma owned_create: "us_requests s u = None \<Longrightarrow> owned u self (s\<lparr>us_requests := (us_requests s)
    (u \<mapsto> \<lparr>ur_announce_url = u, ur_torrent = self, ur_connection_id = None, ur_last_connection_id = time_point_min\<rparr>)\<rparr>)"
  by (simp add: owned_def)

lemma udp_request_owned: "owned u owner s \<Longrightarrow> udp_tracker_request env self u event s = announce env u event s"
  by (auto simp: udp_tracker_request_def io_simps owned_def)

lemma udp_request_new:
  "us_requests s u = None \<Longrightarrow> \<exists>s0. owned u self s0 \<and> us_sent s0 = us_sent s \<and> udp_tracker_request env self u event s = announce env u event s0"
  using owned_create [of s u self] by (auto simp: udp_tracker_request_def io_simps)

lemma announce_owner:
  assumes "owned u owner s" and "announce env u event s = (Inr (ok, ps), s')" and "p \<in> set ps"
  shows "ca_owner p = owner"
proof -
  obtain c s1 where connect: "udp_connect env u s = (c, s1)"
    by fastforce
  then have "owned u owner s1"
    using keepsD [OF keeps_connect assms(1)] by blast
  then obtain q where q: "current_request u s1 = (Inr q, s1)" "ur_torrent q = owner"
    by (rule owned_request)
  show ?thesis
    using assms(2,3) udp_reply_owner
    by (auto simp: announce_def io_simps connect q Let_def split: sum.splits if_splits prod.splits option.splits)
qed

text \<open>
  The objects for UDP trackers are kept by URL alone, with a reference to the torrent that
  came first: when a second torrent announces to the same tracker, the request is the one of the
  first torrent, and the peers it returns are made for that one.
\<close>

theorem udp_tracker_shared:
  assumes "us_requests s u = None" and "udp_tracker_request env owner u event s = (r, s1)"
  shows "udp_tracker_request env' self u event' s1 = udp_tracker_request env' owner u event' s1
    \<and> (\<forall>ok ps s2. udp_tracker_request env' self u event' s1 = (Inr (ok, ps), s2) \<longrightarrow> (\<forall>p \<in> set ps. ca_owner p = owner))"
proof -
  obtain s0 where "owned u owner s0" "announce env u event s0 = (r, s1)"
    using udp_request_new [OF assms(1), of owner env event] assms(2) by auto
  then have "owned u owner s1"
    using keepsD [OF keeps_announce] by blast
  then show ?thesis
    using announce_owner by (auto simp: udp_request_owned)
qed

theorem udp_tracker_shared_witness:
  "\<exists>s1. udp_tracker_request sample_env 1 sample_url STARTED s1 = udp_tracker_request sample_env 0 sample_url STARTED s1
    \<and> us_requests s1 sample_url \<noteq> None"
proof -
  obtain r s1 where r: "udp_tracker_request sample_env 0 sample_url STARTED no_requests = (r, s1)"
    by fastforce
  have "us_requests no_requests sample_url = None"
    by (simp add: no_requests_def)
  moreover from this obtain s0 where "owned sample_url 0 s0" "announce sample_env sample_url STARTED s0 = (r, s1)"
    using udp_request_new [of no_requests sample_url 0 sample_env STARTED] r by auto
  then have "owned sample_url 0 s1"
    using keepsD [OF keeps_announce] by blast
  then have "us_requests s1 sample_url \<noteq> None"
    by (auto simp: owned_def)
  ultimately show ?thesis
    using udp_tracker_shared [of no_requests sample_url sample_env 0 STARTED r s1 sample_env 1 STARTED] r by blast
qed

section \<open>Datagrams\<close>

text \<open>A computation that keeps \<open>I\<close> and sends at most \<open>n\<close> datagrams, each with \<open>P\<close>.\<close>

definition sends :: "(udp_state \<Rightarrow> bool) \<Rightarrow> (url \<times> bytes \<Rightarrow> bool) \<Rightarrow> nat \<Rightarrow> (udp_state, 'a) st \<Rightarrow> bool" where
  "sends I P n m \<longleftrightarrow> (\<forall>s. I s \<longrightarrow> I (snd (m s)) \<and>
     (\<exists>ds. us_sent (snd (m s)) = us_sent s @ ds \<and> length ds \<le> n \<and> (\<forall>d \<in> set ds. P d)))"

lemma sends_quiet: "keeps I m \<Longrightarrow> (\<And>s. us_sent (snd (m s)) = us_sent s) \<Longrightarrow> sends I P n m"
  by (simp add: sends_def keeps_def)

lemma sends_bind:
  assumes "sends I P j m" and "\<And>a. sends I P k (f a)"
  shows "sends I P (j + k) (bindIO m f)"
  unfolding sends_def
proof (intro allI impI)
  fix s assume s: "I s"
  obtain r s1 where m: "m s = (r, s1)"
    by fastforce
  obtain ds where ds: "I s1" "us_sent s1 = us_sent s @ ds" "length ds \<le> j" "\<forall>d \<in> set ds. P d"
    using assms(1) s m unfolding sends_def by fastforce
  show "I (snd (bindIO m f s)) \<and>
     (\<exists>ds. us_sent (snd (bindIO m f s)) = us_sent s @ ds \<and> length ds \<le> j + k \<and> (\<forall>d \<in> set ds. P d))"
  proof (cases r)
    case (Inl e)
    with ds m show ?thesis
      by (auto simp: io_simps intro: trans_le_add1)
  next
    case (Inr a)
    obtain es where "I (snd (f a s1))" "us_sent (snd (f a s1)) = us_sent s1 @ es" "length es \<le> k" "\<forall>d \<in> set es. P d"
      using assms(2) [of a] ds(1) unfolding sends_def by blast
    with Inr ds m show ?thesis
      by (auto simp: io_simps intro!: exI [of _ "ds @ es"])
  qed
qed

lemma sends_before: "sends I P 0 m \<Longrightarrow> (\<And>a. sends I P n (f a)) \<Longrightarrow> sends I P n (bindIO m f)"
  using sends_bind [of I P 0 m n f] by simp

lemma sends_ret [keeps_intros]:
  "sends I P n (retIO a)" "sends I P n (throwIO e)" "sends I P n (liftIO r)" "sends I P n (getIO g)"
  by (auto intro!: sends_quiet keeps_intros simp: io_simps)

lemma sends_if [keeps_intros]:
  "(b \<Longrightarrow> sends I P n m) \<Longrightarrow> (\<not> b \<Longrightarrow> sends I P n k) \<Longrightarrow> sends I P n (if b then m else k)"
  by simp

lemma sends_option [keeps_intros]:
  "(v = None \<Longrightarrow> sends I P n m) \<Longrightarrow> (\<And>x. v = Some x \<Longrightarrow> sends I P n (f x)) \<Longrightarrow> sends I P n (case v of None \<Rightarrow> m | Some x \<Rightarrow> f x)"
  by (cases v) auto

lemma sends_after: "sends I P n m \<Longrightarrow> (\<And>a. sends I P 0 (f a)) \<Longrightarrow> sends I P n (bindIO m f)"
  using sends_bind [of I P n m 0 f] by simp

lemma sends_draw: "sends (owned u owner) P 0 (draw_random env)"
  by (rule sends_quiet [OF keeps_owned_basic(1)]) (simp add: draw_random_def io_simps)

lemma sends_put: "ur_announce_url q = u \<Longrightarrow> ur_torrent q = owner \<Longrightarrow> sends (owned u owner) P 0 (put_request u q)"
  by (rule sends_quiet [OF keeps_put_request]) (auto simp: put_request_def io_simps)

lemma sends_exchange: "P (v, data) \<Longrightarrow> sends (owned u owner) P 1 (udp_exchange env v data)"
  by (auto simp: sends_def udp_exchange_def io_simps owned_def split: sum.splits prod.splits)

lemma sends_retry: "sends I P 1 m \<Longrightarrow> sends I P n (retry_call m n)"
proof (induction n)
  case (Suc n)
  then show ?case
    using sends_bind [of I P 1 m n "\<lambda>ret. if ret \<noteq> None \<or> n = 0 then retIO ret else retry_call m n"]
    by (auto intro: keeps_intros)
qed (simp add: keeps_intros)

lemma sends_with_request:
  assumes "\<And>q. ur_announce_url q = u \<Longrightarrow> ur_torrent q = owner \<Longrightarrow> sends (owned u owner) P n (f q)"
  shows "sends (owned u owner) P n (bindIO (current_request u) f)"
  unfolding sends_def
proof (intro allI impI)
  fix s assume s: "owned u owner s"
  then obtain q where "current_request u s = (Inr q, s)" "ur_announce_url q = u" "ur_torrent q = owner"
    by (rule owned_request)
  with s assms show "owned u owner (snd (bindIO (current_request u) f s)) \<and>
     (\<exists>ds. us_sent (snd (bindIO (current_request u) f s)) = us_sent s @ ds \<and> length ds \<le> n \<and> (\<forall>d \<in> set ds. P d))"
    by (simp add: io_simps sends_def)
qed

definition tracker_datagram :: "url \<Rightarrow> client \<Rightarrow> url \<times> bytes \<Rightarrow> bool" where
  "tracker_datagram u c d \<longleftrightarrow> fst d = u \<and> (length (snd d) = 16
     \<or> length (snd d) = 100 \<and> take 20 (drop 16 (snd d)) = bytes_of_string (m_info_hash (meta (cl_torrent c))))"

lemma announce_request_parts:
  assumes "length (m_info_hash (meta (cl_torrent c))) = 20" and "length (cl_peer_id c) = 20"
  shows "length (announce_request cid tid c event key) = 100"
    and "take 20 (drop 16 (announce_request cid tid c event key)) = bytes_of_string (m_info_hash (meta (cl_torrent c)))"
  using assms by (simp_all add: announce_request_def length_big_endians)

lemma sends_connect: "sends (owned u owner) (tracker_datagram u c) 2 (udp_connect env u)"
proof -
  have "tracker_datagram u c (u, connect_request tid)" for tid
    by (simp add: tracker_datagram_def connect_request_def length_big_endians)
  then show ?thesis
    unfolding udp_connect_def Let_def whenIO_def
    by (intro sends_with_request sends_if sends_ret sends_before [OF sends_draw] sends_before [OF sends_if]
        sends_after [OF sends_retry [OF sends_exchange]] sends_option sends_put sends_before [OF sends_ret(3)]
        sends_before [OF sends_put]) simp_all
qed

lemma sends_announce:
  assumes "c = te_clients env owner" and "length (m_info_hash (meta (cl_torrent c))) = 20" and "length (cl_peer_id c) = 20"
  shows "sends (owned u owner) (tracker_datagram u c) 4 (announce env u event)"
proof -
  have "tracker_datagram u c (u, announce_request cid tid c event key)" for cid tid key
    using announce_request_parts [OF assms(2,3)] by (simp add: tracker_datagram_def)
  then have "sends (owned u owner) (tracker_datagram u c) (2 + 2) (announce env u event)"
    unfolding announce_def Let_def
    by (intro sends_bind [OF sends_connect] sends_with_request sends_if sends_ret sends_option
        sends_before [OF sends_draw] sends_after [OF sends_retry [OF sends_exchange]] sends_before [OF sends_ret(3)])
      (simp_all add: assms(1))
  then show ?thesis
    by simp
qed

text \<open>
  C31.  A UDP request ends after at most four datagrams, all of them to the tracker and each a
  connection request of 16 bytes or an announcement of 100 bytes with a digest, whatever the tracker
  answers or does not, and also when an exception ends it.  The digest is the one of the torrent
  that first asked at this URL: of \<open>self\<close> when no request object for it exists, else of the torrent
  of that object.
\<close>

theorem udp_datagrams_bounded:
  assumes "\<forall>q. us_requests s u = Some q \<longrightarrow> ur_announce_url q = u"
    and "c = te_clients env (case us_requests s u of None \<Rightarrow> self | Some q \<Rightarrow> ur_torrent q)"
    and "length (m_info_hash (meta (cl_torrent c))) = 20" and "length (cl_peer_id c) = 20"
  shows "\<exists>ds. us_sent (snd (udp_tracker_request env self u event s)) = us_sent s @ ds \<and> length ds \<le> 4
    \<and> (\<forall>d \<in> set ds. fst d = u \<and> (length (snd d) = 16 \<or> length (snd d) = 100
        \<and> take 20 (drop 16 (snd d)) = bytes_of_string (m_info_hash (meta (cl_torrent c)))))"
proof -
  define owner where "owner = (case us_requests s u of None \<Rightarrow> self | Some q \<Rightarrow> ur_torrent q)"
  obtain s0 where "owned u owner s0" "us_sent s0 = us_sent s" "udp_tracker_request env self u event s = announce env u event s0"
  proof (cases "us_requests s u")
    case None
    then show ?thesis
      using udp_request_new [of s u self env event] that by (auto simp: owner_def)
  next
    case (Some q)
    then have "owned u owner s"
      using assms(1) by (simp add: owned_def owner_def)
    then show ?thesis
      using udp_request_owned [of u owner s env self event] that by blast
  qed
  then show ?thesis
    using sends_announce [of c env owner u event] assms(2-4) by (auto simp: sends_def tracker_datagram_def owner_def)
qed

definition sample_peer_id :: string where
  "sample_peer_id = replicate 20 (CHR ''p'')"

text \<open>A tracker that accepts the connection and then says nothing: three datagrams are sent.\<close>

definition udp_url :: url where
  "udp_url = \<lparr>u_scheme = ''udp'', u_host = ''h'', u_path = ''/'', u_params = [], u_port = Some 80\<rparr>"

definition udp_client :: client where
  "udp_client = sample_client\<lparr>cl_peer_id := sample_peer_id,
     cl_torrent := new_torrent (sample_meta\<lparr>m_info_hash := sample_peer_id\<rparr>)\<rparr>"

definition udp_env :: tracker_env where
  "udp_env = sample_env\<lparr>te_clients := (\<lambda>_. udp_client), te_udp := (\<lambda>n _ data. (True, Inr (if n = 0
     then to_big_endian (0 :: u32) @ drop 12 data @ to_big_endian (77 :: u64) else [])))\<rparr>"

lemma field_read:
  assumes "length pre = k" and "k + LENGTH('a) div 8 + length post < 2 ^ 64" and "LENGTH('a::len) \<in> {16, 32, 64}"
  shows "from_big_endian (pre @ to_big_endian v @ post) k = Inr (v :: 'a word)"
  using assms from_big_endian_at [where 'a = 'a, of pre "to_big_endian v" post]
  by (simp add: length_to_big_endian from_to_big_endian_0)

lemma udp_env_sent:
  "us_sent (snd (udp_tracker_request udp_env 0 udp_url STARTED no_requests)) =
    [(udp_url, connect_request 0), (udp_url, announce_request 77 1 udp_client STARTED 2),
     (udp_url, announce_request 77 1 udp_client STARTED 2)]"
proof -
  define r where "r = to_big_endian (0 :: u32) @ drop 12 (connect_request 0) @ to_big_endian (77 :: u64)"
  have r: "length r = 16" "from_big_endian r 0 = Inr (0 :: u32)" "from_big_endian r 4 = Inr (0 :: u32)" "from_big_endian r 8 = Inr (77 :: u64)"
    using field_read [of "[]" 0 "to_big_endian (0 :: u32) @ to_big_endian (77 :: u64)" "0 :: u32"]
      field_read [of "to_big_endian (0 :: u32)" 4 "to_big_endian (77 :: u64)" "0 :: u32"]
      field_read [of "to_big_endian (0 :: u32) @ to_big_endian (0 :: u32)" 8 "[]" "77 :: u64"]
    by (simp_all add: r_def connect_request_def length_big_endians)
  have env: "te_random udp_env n = of_nat n" "te_now udp_env = 0" "te_clients udp_env k = udp_client" for n k
    by (simp_all add: udp_env_def sample_env_def)
  have reply: "udpRequest (te_udp udp_env 0) udp_url (connect_request 0) = (True, Inr r)"
    "udpRequest (te_udp udp_env (Suc n)) udp_url data = (True, Inr [])" for n data
    by (simp_all add: udpRequest_def udp_env_def udp_url_def r_def)
  have first: "\<not> 60 * 10 ^ 9 < sint (0 - time_point_min)"
    by (simp add: time_point_min_def)
  have two: "retry_call m 2 = bindIO m (\<lambda>ret. if ret \<noteq> None then retIO ret else bindIO m retIO)" for m :: "(udp_state, bytes option) st"
    by (simp add: numeral_2_eq_2 cong: if_cong)
  have "r \<noteq> []"
    using r(1) by auto
  then show ?thesis
    using r
    by (simp add: udp_tracker_request_def announce_def udp_connect_def Let_def io_simps no_requests_def two udp_exchange_def env
        reply current_request_def put_request_def draw_random_def to_udp_action_def first result_simps)
qed

theorem udp_datagrams_bounded_witness:
  "map (length \<circ> snd) (us_sent (snd (udp_tracker_request udp_env 0 udp_url STARTED no_requests))) = [16, 100, 100]
   \<and> length (us_sent (snd (udp_tracker_request udp_env 0 udp_url STARTED no_requests))) \<le> 4
   \<and> map fst (us_sent (snd (udp_tracker_request udp_env 0 udp_url STARTED no_requests))) = [udp_url, udp_url, udp_url]"
proof -
  have "length (m_info_hash (meta (cl_torrent udp_client))) = 20" "length (cl_peer_id udp_client) = 20"
    "te_clients udp_env 0 = udp_client" "us_requests no_requests udp_url = None" "us_sent no_requests = []"
    by (simp_all add: udp_client_def new_torrent_def sample_peer_id_def udp_env_def no_requests_def)
  then show ?thesis
    using udp_datagrams_bounded [of no_requests udp_url udp_client udp_env 0 STARTED]
      announce_request_parts(1) [of udp_client 77 1 STARTED 2]
    by (simp add: udp_env_sent connect_request_def length_big_endians)
qed

text \<open>
  The numbers of the events in the protocol that the comment of \<^verbatim>\<open>UDPTrackerRequest\<close> refers to:
  0 none, 1 completed, 2 started, 3 stopped.
\<close>

fun protocol_event :: "u32 \<Rightarrow> tracker_event option" where
  "protocol_event n =
     (if n = 0 then Some UNSPECIFIED else if n = 1 then Some COMPLETED
      else if n = 2 then Some STARTED else if n = 3 then Some STOPPED else None)"

text \<open>
  An announcement carries at its fixed places the digest, the event as its position in the
  enumeration, the number of peers wanted and the port.  No event has the number that the protocol
  gives it: a regular announcement says that the client stopped, one at the end that it completed.
\<close>

theorem udp_event_numbers:
  assumes "length (m_info_hash (meta (cl_torrent c))) = 20" and "length (cl_peer_id c) = 20"
    and "d = announce_request cid tid c event key"
  shows "from_big_endian d 0 = Inr cid \<and> from_big_endian d 12 = Inr tid
    \<and> take 20 (drop 16 d) = bytes_of_string (m_info_hash (meta (cl_torrent c)))
    \<and> from_big_endian d 80 = Inr (event_number event) \<and> from_big_endian d 92 = Inr (50 :: u32)
    \<and> from_big_endian d 96 = Inr (cl_listening_port c)
    \<and> protocol_event (event_number event) \<noteq> Some event
    \<and> protocol_event (event_number UNSPECIFIED) = Some STOPPED \<and> protocol_event (event_number STOPPED) = Some COMPLETED"
proof (intro conjI)
  define digest where "digest = bytes_of_string (m_info_hash (meta (cl_torrent c)))"
  define id where "id = bytes_of_string (cl_peer_id c)"
  define counts where "counts = to_big_endian (of_int (downloaded (cl_torrent c)) :: u64)
    @ to_big_endian (of_int (left_bytes (cl_torrent c)) :: u64) @ to_big_endian (0 :: u64)"
  define start where "start = to_big_endian cid @ to_big_endian (1 :: u32)"
  have len: "length digest = 20" "length id = 20" "length counts = 24" "length start = 12"
    using assms(1,2) by (simp_all add: digest_def id_def counts_def start_def length_big_endians)
  have d: "d = start @ to_big_endian tid @ digest @ id @ counts @ to_big_endian (event_number event) @ to_big_endian (0 :: u32)
      @ to_big_endian key @ to_big_endian (50 :: u32) @ to_big_endian (cl_listening_port c) @ to_big_endian (0 :: u16)"
    by (simp add: assms(3) announce_request_def digest_def id_def counts_def start_def)
  show "from_big_endian d 0 = Inr cid"
    using field_read [where pre = "[]" and k = 0 and v = cid] assms(1,2)
    by (simp add: assms(3) announce_request_def length_big_endians)
  show "from_big_endian d 12 = Inr tid"
    unfolding d by (rule field_read) (simp_all add: len length_big_endians)
  show "from_big_endian d 80 = Inr (event_number event)"
    using field_read [where pre = "start @ to_big_endian tid @ digest @ id @ counts" and k = 80 and v = "event_number event"]
    by (simp add: d len length_big_endians)
  show "from_big_endian d 92 = Inr (50 :: u32)"
    using field_read [where pre = "start @ to_big_endian tid @ digest @ id @ counts @ to_big_endian (event_number event)
      @ to_big_endian (0 :: u32) @ to_big_endian key" and k = 92 and v = "50 :: u32"]
    by (simp add: d len length_big_endians)
  show "from_big_endian d 96 = Inr (cl_listening_port c)"
    using field_read [where pre = "start @ to_big_endian tid @ digest @ id @ counts @ to_big_endian (event_number event)
      @ to_big_endian (0 :: u32) @ to_big_endian key @ to_big_endian (50 :: u32)" and k = 96 and v = "cl_listening_port c"]
    by (simp add: d len length_big_endians)
  show "take 20 (drop 16 d) = bytes_of_string (m_info_hash (meta (cl_torrent c)))"
    unfolding assms(3) by (rule announce_request_parts [OF assms(1,2)])
  show "protocol_event (event_number event) \<noteq> Some event"
    by (cases event) simp_all
qed simp_all

theorem udp_event_numbers_witness:
  "from_big_endian (announce_request 1 2 (sample_client\<lparr>cl_peer_id := sample_peer_id,
     cl_torrent := new_torrent (sample_meta\<lparr>m_info_hash := sample_peer_id\<rparr>)\<rparr>) STOPPED 3) 80 = Inr (1 :: u32)"
  using udp_event_numbers [of "sample_client\<lparr>cl_peer_id := sample_peer_id,
     cl_torrent := new_torrent (sample_meta\<lparr>m_info_hash := sample_peer_id\<rparr>)\<rparr>" _ 1 2 STOPPED 3, OF _ _ refl]
  by (simp add: sample_peer_id_def new_torrent_def)

section \<open>Replies that are lost\<close>

lemma string_peer_ipv6:
  assumes "parse_url (''http://'' @ ip @ '':'' @ dec_of_int port) = Inr u" and "te_addr env (u_host u) = V6"
    and "\<not> starts_with ''172.17.'' (u_host u)"
  shows "string_peer_url env self (BeDict [(''ip'', BeStr ip), (''port'', BeInt port)]) =
    (if resolve_urls (te_clients env self) then Inl (Runtime_error ''Resolve error'') else Inr u)"
  using assms by (simp add: string_peer_url_def smap_at_def make_url_def url_resolve_def)

lemma string_peers_readable:
  assumes "\<forall>e \<in> set es. \<exists>v. string_peer_url env self e = Inr v"
  shows "\<exists>qs. foldE (\<lambda>elm peers. bindE (string_peer_url env self elm) (\<lambda>purl. Inr (keep_peer env self purl peers))) es ps = Inr qs"
  using assms by (induction es arbitrary: ps) auto

text \<open>
  With URL resolving on, as it is by default, one IPv6 peer in a string list makes the whole
  reply fail, although such peers are meant to be skipped, as they are with resolving off.  A
  compact list without peers fails too, and so does one whose length is no multiple of 6.
\<close>

theorem lost_replies:
  assumes "parse_url (''http://'' @ ip @ '':'' @ dec_of_int port) = Inr u" and "te_addr env (u_host u) = V6"
    and "\<not> starts_with ''172.17.'' (u_host u)"
    and "\<forall>e \<in> set before. \<exists>v. string_peer_url env self e = Inr v"
    and "v6 = BeDict [(''ip'', BeStr ip), (''port'', BeInt port)]"
    and "plain_addresses env' self'" and "\<forall>e \<in> set es. length e = 6" and "0 < length r" and "length r < 6"
  shows "read_peers_string_list env self (BeList (before @ v6 # behind)) ps =
      (if resolve_urls (te_clients env self) then Inl (Runtime_error ''Resolve error'')
       else read_peers_string_list env self (BeList (before @ behind)) ps)
    \<and> read_peers_binary_form env' self' (BeStr []) ps = Inl (Runtime_error ''Peer list is empty'')
    \<and> read_peers_binary_form env' self' (BeStr (concat es @ r)) ps = Inl (Runtime_error ''Invalid binary URL length'')"
proof (intro conjI)
  obtain qs where "foldE (\<lambda>elm peers. bindE (string_peer_url env self elm) (\<lambda>purl. Inr (keep_peer env self purl peers))) before ps = Inr qs"
    using string_peers_readable [OF assms(4)] by blast
  then show "read_peers_string_list env self (BeList (before @ v6 # behind)) ps =
      (if resolve_urls (te_clients env self) then Inl (Runtime_error ''Resolve error'')
       else read_peers_string_list env self (BeList (before @ behind)) ps)"
    using string_peer_ipv6 [OF assms(1-3), of self] assms(2,5)
    by (simp add: read_peers_string_list_def foldE_append keep_peer_def is_ipv6_def)
  obtain c cs where r: "r = c # cs" "length cs < 5"
    using assms(8,9) by (cases r) auto
  have "binary_loop env' self' r (ps @ listed env' self' [] es) = Inl (Runtime_error ''Invalid binary URL length'')"
    using r by (simp add: BINARY_PEER_LENGTH_def make_url_def parse_url_binary_def)
  then show "read_peers_binary_form env' self' (BeStr (concat es @ r)) ps = Inl (Runtime_error ''Invalid binary URL length'')"
    using binary_loop_entries [OF assms(6,7), of r ps] assms(8) by (auto simp: read_peers_binary_form_def)
qed (simp add: read_peers_binary_form_def)

theorem lost_replies_witness:
  "read_peers_string_list (sample_env\<lparr>te_addr := (\<lambda>a. if a = ''::1'' then V6 else V4)\<rparr>) 0
     (BeList [BeDict [(''ip'', BeStr ''::1''), (''port'', BeInt 80)]]) [] = Inl (Runtime_error ''Resolve error'')"
proof -
  let ?env = "sample_env\<lparr>te_addr := (\<lambda>a. if a = ''::1'' then V6 else V4)\<rparr>"
  have stoi: "stoi ''80'' = Inr 80"
    using stoi_digits [of "''80''"] by (simp add: is_digit_iff nat_of_dec_def digit_val_def)
  have "parse_url (''http://'' @ ''::1'' @ '':'' @ dec_of_int 80) =
      Inr \<lparr>u_scheme = ''http'', u_host = ''::1'', u_path = ''/'', u_params = [], u_port = Some 80\<rparr>"
    using stoi by (simp add: dec_of_int_def dec_of_nat.simps digit_char_def char_of_def bit_Suc_0_iff parse_url_def url_scheme_of_def
        starts_with_def url_tail_def is_path_def is_digit_iff Let_def numeric_cast_def make_unsigned_def static_cast_def ity_max_def)
  moreover have "resolve_urls sample_client"
    by (simp add: resolve_urls_def sample_client_def default_config_def)
  moreover have "plain_addresses (sample_env\<lparr>te_clients := (\<lambda>_. plain_client)\<rparr>) 0"
    by (simp add: plain_addresses_def resolve_urls_def plain_client_def sample_env_def)
  ultimately show ?thesis
    using lost_replies [of "''::1''" 80 _ ?env "[]" 0 _ "sample_env\<lparr>te_clients := (\<lambda>_. plain_client)\<rparr>" 0 "[]" "''a''" "[]" "[]"]
    by (simp add: starts_with_def sample_env_def)
qed


end
