(* ===== verification/Strong_Type.thy ===== *)
theory Strong_Type
  imports Sorted_Map
begin

text \<open>
  \<^verbatim>\<open>src/strong_type.hpp\<close>: a value under a type of its own, with the comparison of the
  value, so that it can be the key of a \<^verbatim>\<open>std::map\<close>, as listening ports are.  The tag
  of the source keeps apart types with the same value, which here is left to the names.
\<close>

datatype 'a strong_type = StrongType (strong_get: 'a)

text \<open>The defaulted \<^verbatim>\<open>operator<=>\<close>.\<close>

instantiation strong_type :: (linorder) linorder
begin

definition less_eq_strong_type :: "'a strong_type \<Rightarrow> 'a strong_type \<Rightarrow> bool" where
  "less_eq_strong_type a b \<longleftrightarrow> strong_get a \<le> strong_get b"

definition less_strong_type :: "'a strong_type \<Rightarrow> 'a strong_type \<Rightarrow> bool" where
  "less_strong_type a b \<longleftrightarrow> strong_get a < strong_get b"

instance
  by standard (auto simp: less_eq_strong_type_def less_strong_type_def intro: strong_type.expand)

end

lemma StrongType_less [simp]:
  "StrongType a \<le> StrongType b \<longleftrightarrow> a \<le> b" "StrongType a < StrongType b \<longleftrightarrow> a < b"
  by (simp_all add: less_eq_strong_type_def less_strong_type_def)

end
