(* ===== verification/Swarm.thy ===== *)
theory Swarm
  imports Peer Tracker Strong_Type
begin

text \<open>
  The peers of torrents: the part of \<^verbatim>\<open>class Torrent\<close> in \<^verbatim>\<open>src/torrent.cpp\<close> that
  starts and stops, adds, replaces and retries peers and retries pieces, and the acceptor of incoming
  connections in \<^verbatim>\<open>src/peer.cpp\<close>.  Peer objects are shared, so they live in a store and are
  known by their place in it, each with the torrent it refers to.
\<close>

section \<open>State\<close>

text \<open>\<open>sw_disconnects\<close>: the calls of the disconnect callback.\<close>

record swarm =
  sw_torrent :: torrent
  sw_peers :: "nat list"
  sw_stopped :: bool
  sw_pieces_timer :: "int option"
  sw_peers_timer :: "int option"
  sw_disconnects :: "nat list"

record world =
  w_swarms :: "nat \<Rightarrow> swarm"
  w_objects :: "(peer \<times> nat) list"
  w_udp :: udp_state
  w_torrents :: "(string, nat) smap"
  w_acceptors :: "(u16 strong_type, string) smap"

record swarm_env =
  we_tracker :: tracker_env
  we_time :: int
  we_shuffle :: "nat list \<Rightarrow> nat list"
  we_read_block :: "u32 \<Rightarrow> u32 \<Rightarrow> bytes result"

definition object :: "world \<Rightarrow> nat \<Rightarrow> peer" where
  "object w i = fst (w_objects w ! i)"

definition on_swarm :: "nat \<Rightarrow> (swarm \<Rightarrow> swarm) \<Rightarrow> (world, unit) st" where
  "on_swarm self f = modIO (\<lambda>w. w\<lparr>w_swarms := (w_swarms w)(self := f (w_swarms w self))\<rparr>)"

definition on_object :: "nat \<Rightarrow> (peer \<Rightarrow> peer) \<Rightarrow> (world, unit) st" where
  "on_object i f = modIO (\<lambda>w. w\<lparr>w_objects := (w_objects w)[i := (f (object w i), snd (w_objects w ! i))]\<rparr>)"

definition swarm_config :: "swarm_env \<Rightarrow> nat \<Rightarrow> int_setting \<Rightarrow> int" where
  "swarm_config env self s = m_int_settings (cl_config (te_clients (we_tracker env) self)) s"

definition swarm_peer_env :: "swarm_env \<Rightarrow> nat \<Rightarrow> peer_env" where
  "swarm_peer_env env self =
     \<lparr>e_now = we_time env, e_max_pending = swarm_config env self MAX_PENDING_REQUESTS,
      e_peer_id = cl_peer_id (te_clients (we_tracker env) self), e_read_block = we_read_block env\<rparr>"

text \<open>An operation of peer \<open>i\<close>, on itself and the torrent it refers to.\<close>

definition with_session :: "swarm_env \<Rightarrow> nat \<Rightarrow> (peer_env \<Rightarrow> (session, 'a) st) \<Rightarrow> (world, 'a) st" where
  "with_session env i m =
     (\<lambda>w. case w_objects w ! i of (p, owner) \<Rightarrow>
        case m (swarm_peer_env env owner) \<lparr>se_torrent = sw_torrent (w_swarms w owner), se_peer = p\<rparr> of (r, s) \<Rightarrow>
          (r, w\<lparr>w_swarms := (w_swarms w)(owner := (w_swarms w owner)\<lparr>sw_torrent := se_torrent s\<rparr>),
                w_objects := (w_objects w)[i := (se_peer s, owner)]\<rparr>))"

text \<open>\<^verbatim>\<open>ScopeGuard\<close>: an action at the end, also when an exception leaves the block.\<close>

definition finallyIO :: "('s, 'a) st \<Rightarrow> ('s \<Rightarrow> 's) \<Rightarrow> ('s, 'a) st" where
  "finallyIO m f = (\<lambda>s. case m s of (r, s') \<Rightarrow> (r, f s'))"

section \<open>Trackers and timers\<close>

definition world_tracker :: "swarm_env \<Rightarrow> world \<Rightarrow> tracker_env" where
  "world_tracker env w = (we_tracker env)\<lparr>te_clients := (\<lambda>k. (te_clients (we_tracker env) k)
     \<lparr>cl_torrent := sw_torrent (w_swarms w k), cl_stopped := sw_stopped (w_swarms w k)\<rparr>)\<rparr>"

text \<open>The peers of the answer are objects that nothing refers to yet.\<close>

definition ask_tracker :: "swarm_env \<Rightarrow> nat \<Rightarrow> tracker_event \<Rightarrow> (world, nat list) st" where
  "ask_tracker env self event =
     (\<lambda>w. case tracker_request (world_tracker env w) self event (w_udp w) of
        (Inl e, u) \<Rightarrow> (Inl e, w\<lparr>w_udp := u\<rparr>)
      | (Inr cs, u) \<Rightarrow>
          (Inr [length (w_objects w)..<length (w_objects w) + length cs],
           w\<lparr>w_udp := u, w_objects := w_objects w
             @ map (\<lambda>c. (new_peer (we_time env) (url_str (ca_url c)), ca_owner c)) cs\<rparr>))"

definition schedule_retry_pieces :: "swarm_env \<Rightarrow> nat \<Rightarrow> world \<Rightarrow> world" where
  "schedule_retry_pieces env self w = snd (on_swarm self
     (sw_pieces_timer_update (\<lambda>_. Some (we_time env + seconds (swarm_config env self RETRY_PIECES_INTERVAL_SECONDS)))) w)"

definition schedule_retry_peers :: "swarm_env \<Rightarrow> nat \<Rightarrow> world \<Rightarrow> world" where
  "schedule_retry_peers env self w = snd (on_swarm self
     (sw_peers_timer_update (\<lambda>_. Some (we_time env + seconds (swarm_config env self RETRY_PEERS_INTERVAL_SECONDS)))) w)"

section \<open>Starting and stopping\<close>

definition acceptOnPort :: "u16 \<Rightarrow> string \<Rightarrow> (world, unit) st" where
  "acceptOnPort port bind_address =
     modIO (\<lambda>w.
       if map_of (w_acceptors w) (StrongType port) = None
       then w\<lparr>w_acceptors := smap_put (StrongType port) bind_address (w_acceptors w)\<rparr> else w)"

definition start :: "swarm_env \<Rightarrow> nat \<Rightarrow> (world, unit) st" where
  "start env self =
     bindIO (getIO (\<lambda>w. sw_peers (w_swarms w self))) (\<lambda>ps.
     if ps \<noteq> [] then throwIO (Runtime_error ''Local peer vector not empty'')
     else
       bindIO (ask_tracker env self STARTED) (\<lambda>new.
       bindIO (on_swarm self (sw_peers_update (\<lambda>_. new))) (\<lambda>_.
       bindIO (iterIO (\<lambda>i. with_session env i handshake) new) (\<lambda>_.
       bindIO (acceptOnPort (cl_listening_port (te_clients (we_tracker env) self))
         (m_string_settings (cl_config (te_clients (we_tracker env) self)) BIND_ADDRESS)) (\<lambda>_.
       bindIO (modIO (schedule_retry_pieces env self)) (\<lambda>_.
       modIO (schedule_retry_peers env self)))))))"

text \<open>The condition of the loop of \<^verbatim>\<open>run\<close>; \<open>io_stopped\<close> is the state of the shared service.\<close>

definition run_continues :: "bool \<Rightarrow> nat \<Rightarrow> world \<Rightarrow> bool" where
  "run_continues io_stopped self w \<longleftrightarrow>
     (let sw = w_swarms w self in
      \<not> sw_stopped sw \<and> (\<not> torrent_done (sw_torrent sw) \<or> \<not> list_all (\<lambda>i. p_stopped (object w i)) (sw_peers sw) \<or> \<not> io_stopped))"

definition stop_torrent :: "swarm_env \<Rightarrow> nat \<Rightarrow> (world, unit) st" where
  "stop_torrent env self =
     bindIO (getIO (\<lambda>w. sw_peers (w_swarms w self))) (\<lambda>ps.
     bindIO (iterIO (\<lambda>i. on_object i stop_peer) ps) (\<lambda>_.
     bindIO (on_swarm self (sw_stopped_update (\<lambda>_. True))) (\<lambda>_.
     bindIO (ask_tracker env self STOPPED) (\<lambda>_. retIO ()))))"

definition disconnected :: "nat \<Rightarrow> nat \<Rightarrow> (world, unit) st" where
  "disconnected self i =
     bindIO (on_swarm self (\<lambda>sw. sw\<lparr>sw_disconnects := sw_disconnects sw @ [i]\<rparr>)) (\<lambda>_.
     bindIO (getIO (\<lambda>w. i \<in> set (sw_peers (w_swarms w self)))) (\<lambda>found.
     whenIO found
       (bindIO (on_swarm self (sw_peers_update (remove1 i))) (\<lambda>_. on_object i stop_peer))))"

definition last_piece_written :: "swarm_env \<Rightarrow> nat \<Rightarrow> (world, unit) st" where
  "last_piece_written env self =
     bindIO (getIO (\<lambda>w. sw_peers (w_swarms w self))) (\<lambda>ps.
     bindIO (iterIO (\<lambda>i.
         bindIO (getIO (\<lambda>w. m_listening (object w i))) (\<lambda>listening.
         whenIO (\<not> listening) (with_session env i (\<lambda>_. set_am_interested False)))) ps) (\<lambda>_.
     bindIO (ask_tracker env self COMPLETED) (\<lambda>_. retIO ())))"

section \<open>Adding peers\<close>

definition same_url :: "world \<Rightarrow> nat \<Rightarrow> nat \<Rightarrow> bool" where
  "same_url w i j \<longleftrightarrow> p_url (object w i) = p_url (object w j)"

definition existing_peer :: "nat \<Rightarrow> nat \<Rightarrow> world \<Rightarrow> nat option" where
  "existing_peer self i w = find (\<lambda>j. same_url w i j) (sw_peers (w_swarms w self))"

text \<open>The optional vector that the peer is put into instead of the peers of the torrent.\<close>

definition add_peer :: "swarm_env \<Rightarrow> nat \<Rightarrow> nat \<Rightarrow> nat list option \<Rightarrow> (world, nat list option) st" where
  "add_peer env self i peers =
     bindIO (getIO (existing_peer self i)) (\<lambda>existing.
     bindIO (case existing of
         None \<Rightarrow> retIO ()
       | Some j \<Rightarrow> bindIO (on_object j stop_peer) (\<lambda>_. on_swarm self (sw_peers_update (remove1 j)))) (\<lambda>_.
     bindIO (with_session env i handshake) (\<lambda>_.
     case peers of
       Some ps \<Rightarrow> retIO (Some (ps @ [i]))
     | None \<Rightarrow> bindIO (on_swarm self (sw_peers_update (\<lambda>ps. ps @ [i]))) (\<lambda>_. retIO None))))"

text \<open>One accepted connection in \<^verbatim>\<open>listen\<close>; \<open>received\<close> is what was read from it.\<close>

definition accept_connection :: "swarm_env \<Rightarrow> string \<Rightarrow> u16 \<Rightarrow> bytes \<Rightarrow> (world, unit) st" where
  "accept_connection env ip port received =
     bindIO (liftIO (handshake_parse received)) (\<lambda>hs.
     case hs of
       None \<Rightarrow> retIO ()
     | Some h \<Rightarrow>
         bindIO (getIO (\<lambda>w. torrents_get (hs_info_hash h) (w_torrents w))) (\<lambda>known.
         case known of
           None \<Rightarrow> retIO ()
         | Some self \<Rightarrow>
             bindIO (liftIO (parse_url (''http://'' @ ip @ '':'' @ dec_of_nat (unat port)))) (\<lambda>u.
             bindIO (getIO (length \<circ> w_objects)) (\<lambda>i.
             bindIO (modIO (\<lambda>w. w\<lparr>w_objects := w_objects w @ [(accepted_peer (we_time env) (url_str u), self)]\<rparr>)) (\<lambda>_.
             bindIO (add_peer env self i None) (\<lambda>_.
             with_session env i (\<lambda>_. report_bitfield)))))))"

section \<open>Maintenance\<close>

definition drop_candidate :: "swarm_env \<Rightarrow> world \<Rightarrow> nat \<Rightarrow> bool" where
  "drop_candidate env w i \<longleftrightarrow> is_inactive (we_time env) (object w i) \<and> \<not> m_listening (object w i)"

text \<open>
  The candidates in turn; \<open>valid\<close> tells whether the iterator to the start of the second group,
  at index \<open>n\<close>, survives the erasures.
\<close>

fun add_candidates :: "swarm_env \<Rightarrow> nat \<Rightarrow> nat \<Rightarrow> nat list \<Rightarrow> nat list \<times> bool \<Rightarrow> (world, nat list \<times> bool) st" where
  "add_candidates env self n [] (ps, valid) = retIO (ps, valid)"
| "add_candidates env self n (i # is) (ps, valid) =
     bindIO (getIO (\<lambda>w. case existing_peer self i w of
         None \<Rightarrow> True
       | Some j \<Rightarrow> j \<notin> set (take (n + 1) (sw_peers (w_swarms w self))))) (\<lambda>still.
     bindIO (add_peer env self i (Some ps)) (\<lambda>ps'.
     add_candidates env self n is (the ps', valid \<and> still)))"

text \<open>
  \<^verbatim>\<open>ranges::partition\<close> puts the peers with the property first and returns the range of
  the others; the order inside the two groups is not specified and taken as it was.
\<close>

definition retry_peers :: "swarm_env \<Rightarrow> nat \<Rightarrow> (world, unit) st" where
  "retry_peers env self =
     bindIO (getIO (\<lambda>w. sw_stopped (w_swarms w self))) (\<lambda>stopped.
     if stopped then retIO ()
     else finallyIO
       (bindIO (getIO (\<lambda>w. partition (drop_candidate env w) (sw_peers (w_swarms w self)))) (\<lambda>(first, second).
        bindIO (on_swarm self (sw_peers_update (\<lambda>_. first @ second))) (\<lambda>_.
        bindIO (whenIO (first \<noteq> []) (iterIO (\<lambda>i. on_object i stop_peer) second)) (\<lambda>_.
        bindIO (ask_tracker env self UNSPECIFIED) (\<lambda>tracker_peers.
        bindIO (add_candidates env self (length first) tracker_peers ([], True)) (\<lambda>(new_peers, valid).
        bindIO (if first = [] then retIO ()
                else if \<not> valid then throwIO (Undefined_behaviour ''invalid iterator'')
                else on_swarm self (sw_peers_update (drop (length first)))) (\<lambda>_.
        on_swarm self (sw_peers_update (\<lambda>ps. ps @ new_peers)))))))))
       (schedule_retry_peers env self))"

definition retry_active :: "swarm_env \<Rightarrow> u32 \<times> nat \<Rightarrow> torrent \<times> nat \<Rightarrow> (torrent \<times> nat) result" where
  "retry_active env e ts =
     bindE (retry_blocks (we_time env) (pieces_heap (fst ts) ! snd e)) (\<lambda>(k, p).
     Inr (set_heap (snd e) p (fst ts), size_add (snd ts) k))"

text \<open>One round of the loop with one peer: what is left to retry afterwards.\<close>

definition retry_peer :: "swarm_env \<Rightarrow> nat \<Rightarrow> nat \<Rightarrow> nat \<Rightarrow> (world, nat) st" where
  "retry_peer env self i retry =
     bindIO (getIO (\<lambda>w. m_pending_requests (object w i))) (\<lambda>pending.
     bindIO (liftIO (numeric_cast uint64_t int32_t (swarm_config env self MAX_PENDING_REQUESTS))) (\<lambda>max_pending.
     let pending_sz = nat pending;
         desired = (if pending_sz < nat max_pending then nat max_pending - pending_sz else 1);
         to_request = min desired retry
     in
     bindIO (liftIO (numeric_cast uint16_t uint64_t (int (size_add pending_sz to_request)))) (\<lambda>limit.
     bindIO (with_session env i (\<lambda>pe. request_next_block pe limit)) (\<lambda>requested.
     retIO (size_sub retry requested)))))"

fun retry_pass :: "swarm_env \<Rightarrow> nat \<Rightarrow> nat list \<Rightarrow> nat \<Rightarrow> (world, nat) st" where
  "retry_pass env self [] retry = retIO retry"
| "retry_pass env self (i # is) retry =
     (if retry = 0 then retIO 0
      else bindIO (retry_peer env self i retry) (\<lambda>retry'. retry_pass env self is retry'))"

text \<open>Passes over all peers, until nothing is left or a pass did not request anything.\<close>

partial_function (option) retry_loop :: "swarm_env \<Rightarrow> nat \<Rightarrow> nat list \<Rightarrow> nat \<Rightarrow> world \<Rightarrow> (unit result \<times> world) option" where
  "retry_loop env self ps start_count w =
     (case retry_pass env self ps start_count w of
        (Inl e, w') \<Rightarrow> Some (Inl e, w')
      | (Inr retry, w') \<Rightarrow>
          if retry = 0 \<or> retry = start_count then Some (Inr (), w')
          else retry_loop env self ps retry w')"

definition retry_pieces :: "swarm_env \<Rightarrow> nat \<Rightarrow> world \<Rightarrow> (unit result \<times> world) option" where
  "retry_pieces env self w =
     (if sw_stopped (w_swarms w self) then Some (Inr (), w)
      else
        let t = sw_torrent (w_swarms w self) in
        map_option (\<lambda>(r, w'). (r, schedule_retry_pieces env self w'))
          (case foldE (retry_active env) (m_active_pieces t) (t, 0) of
             Inl e \<Rightarrow> Some (Inl e, w)
           | Inr (t', retry) \<Rightarrow>
               let w1 = snd (on_swarm self (sw_torrent_update (\<lambda>_. t')) w) in
               if retry = 0 then Some (Inr (), w1)
               else
                 let ps = we_shuffle env (sw_peers (w_swarms w1 self));
                     w2 = snd (on_swarm self (sw_peers_update (\<lambda>_. ps)) w1)
                 in if ps = [] then Some (Inr (), w2) else retry_loop env self ps retry w2))"

section \<open>Effects on the world\<close>

lemma object_update [simp]:
  "object (w\<lparr>w_swarms := x\<rparr>) i = object w i" "object (w\<lparr>w_udp := u\<rparr>) i = object w i"
  by (simp_all add: object_def)

lemma on_object_object:
  "i < length (w_objects w) \<Longrightarrow> object (snd (on_object i f w)) j = (if j = i then f (object w i) else object w j)"
  by (simp add: on_object_def io_simps object_def)

lemma stop_twice: "stop_peer (stop_peer p) = stop_peer p"
  by (simp add: stop_peer_def)

lemma iter_stop:
  assumes "\<forall>i \<in> set is. i < length (w_objects w)"
  shows "\<exists>objs. iterIO (\<lambda>i. on_object i stop_peer) is w = (Inr (), w\<lparr>w_objects := objs\<rparr>) \<and> length objs = length (w_objects w)
    \<and> (\<forall>i. fst (objs ! i) = (if i \<in> set is then stop_peer (object w i) else object w i))"
  using assms
proof (induction "is" arbitrary: w)
  case Nil
  show ?case
    by (rule exI [of _ "w_objects w"]) (simp add: io_simps object_def)
next
  case (Cons i "is")
  define objs1 where "objs1 = (w_objects w)[i := (stop_peer (object w i), snd (w_objects w ! i))]"
  have step: "on_object i stop_peer w = (Inr (), w\<lparr>w_objects := objs1\<rparr>)"
    by (simp add: on_object_def io_simps objs1_def)
  have obj: "object (w\<lparr>w_objects := objs1\<rparr>) j = (if j = i then stop_peer (object w i) else object w j)" for j
    using Cons.prems by (simp add: object_def objs1_def)
  have "\<forall>i \<in> set is. i < length (w_objects (w\<lparr>w_objects := objs1\<rparr>))"
    using Cons.prems by (simp add: objs1_def)
  from Cons.IH [OF this] obtain objs where
    "iterIO (\<lambda>i. on_object i stop_peer) is (w\<lparr>w_objects := objs1\<rparr>) = (Inr (), w\<lparr>w_objects := objs\<rparr>)"
    "length objs = length (w_objects w)"
    "\<forall>j. fst (objs ! j) = (if j \<in> set is then stop_peer (object (w\<lparr>w_objects := objs1\<rparr>) j) else object (w\<lparr>w_objects := objs1\<rparr>) j)"
    by (auto simp: objs1_def)
  then show ?case
    unfolding obj using step by (intro exI [of _ objs]) (auto simp: io_simps stop_twice)
qed

lemma handshake_effect:
  "handshake pe s = (Inr (), s\<lparr>se_peer := (init_io_service (se_peer s))
     \<lparr>p_sent := p_sent (init_io_service (se_peer s)) @ [handshake_bytes (replicate 8 0) (m_info_hash (meta (se_torrent s))) (e_peer_id pe)]\<rparr>\<rparr>)"
  by (simp add: handshake_def io_simps send_msg_def init_io_service_def)

definition shake :: "swarm_env \<Rightarrow> world \<Rightarrow> nat \<Rightarrow> peer \<Rightarrow> peer" where
  "shake env w owner p = (init_io_service p)\<lparr>p_sent := p_sent (init_io_service p)
     @ [handshake_bytes (replicate 8 0) (m_info_hash (meta (sw_torrent (w_swarms w owner)))) (e_peer_id (swarm_peer_env env owner))]\<rparr>"

lemma session_handshake:
  "with_session env i handshake w = (Inr (), w\<lparr>w_objects := (w_objects w)[i :=
     (shake env w (snd (w_objects w ! i)) (object w i), snd (w_objects w ! i))]\<rparr>)"
  by (simp add: with_session_def handshake_effect shake_def object_def split: prod.split)

lemma shake_fields [simp]:
  "p_url (shake env w o' p) = p_url p" "p_stopped (shake env w o' p) = p_stopped p"
  "m_remote_pieces (shake env w o' p) = m_remote_pieces p" "m_listening (shake env w o' p) = m_listening p"
  "p_connection (shake env w o' p)"
  by (simp_all add: shake_def init_io_service_def)

section \<open>Inactive peers\<close>

lemma world_tracker_cong:
  assumes "\<And>k. sw_torrent (w_swarms v k) = sw_torrent (w_swarms w k)" and "\<And>k. sw_stopped (w_swarms v k) = sw_stopped (w_swarms w k)"
  shows "world_tracker env v = world_tracker env w"
  using assms by (simp add: world_tracker_def)

text \<open>
  The periodic check of the peers stops the wrong ones: when some peers were inactive for two
  minutes, the connections of all the others, the active ones, are stopped and stay among the
  peers, while the inactive ones are dropped without being stopped.
\<close>

theorem retry_peers_stops_active:
  assumes "\<not> sw_stopped (w_swarms w self)" and "\<forall>i \<in> set (sw_peers (w_swarms w self)). i < length (w_objects w)"
    and "\<exists>i \<in> set (sw_peers (w_swarms w self)). drop_candidate env w i"
    and "fst (tracker_request (world_tracker env w) self UNSPECIFIED (w_udp w)) = Inr []"
  shows "\<exists>w'. retry_peers env self w = (Inr (), w')
    \<and> sw_peers (w_swarms w' self) = filter (\<lambda>i. \<not> drop_candidate env w i) (sw_peers (w_swarms w self))
    \<and> (\<forall>i \<in> set (sw_peers (w_swarms w' self)). p_stopped (object w' i))
    \<and> (\<forall>i \<in> set (sw_peers (w_swarms w self)). drop_candidate env w i \<longrightarrow> object w' i = object w i)"
proof -
  define ps where "ps = sw_peers (w_swarms w self)"
  define inactive where "inactive = filter (drop_candidate env w) ps"
  define active where "active = filter (Not \<circ> drop_candidate env w) ps"
  define w1 where "w1 = snd (on_swarm self (sw_peers_update (\<lambda>_. inactive @ active)) w)"
  have some: "inactive \<noteq> []"
    using assms(3) by (auto simp: inactive_def ps_def filter_empty_conv)
  have w1: "on_swarm self (sw_peers_update (\<lambda>_. inactive @ active)) w = (Inr (), w1)" "w_objects w1 = w_objects w" "w_udp w1 = w_udp w"
    by (simp_all add: w1_def on_swarm_def io_simps)
  obtain objs where stop: "iterIO (\<lambda>i. on_object i stop_peer) active w1 = (Inr (), w1\<lparr>w_objects := objs\<rparr>)"
    and objs: "\<forall>i. fst (objs ! i) = (if i \<in> set active then stop_peer (object w i) else object w i)"
    using iter_stop [of active w1] assms(2) w1(2) by (fastforce simp: active_def ps_def object_def)
  obtain u where tracker: "tracker_request (world_tracker env w) self UNSPECIFIED (w_udp w) = (Inr [], u)"
    using assms(4) by (metis prod.collapse)
  have "world_tracker env (w1\<lparr>w_objects := objs\<rparr>) = world_tracker env w"
    by (rule world_tracker_cong) (simp_all add: w1_def on_swarm_def io_simps)
  then have ask: "ask_tracker env self UNSPECIFIED (w1\<lparr>w_objects := objs\<rparr>) = (Inr [], w1\<lparr>w_objects := objs, w_udp := u\<rparr>)"
    using tracker by (simp add: ask_tracker_def w1(3))
  define w' where "w' = schedule_retry_peers env self (snd (on_swarm self (sw_peers_update (drop (length inactive)))
      (w1\<lparr>w_objects := objs, w_udp := u\<rparr>)))"
  have same: "(\<lambda>ps. ps) \<circ> f = f" for f :: "nat list \<Rightarrow> nat list"
    by auto
  have "retry_peers env self w = (Inr (), w')"
    using assms(1) some stop ask w1(1)
    by (simp add: retry_peers_def finallyIO_def io_simps partition_filter_conv ps_def [symmetric] inactive_def [symmetric]
        active_def [symmetric] w'_def schedule_retry_peers_def on_swarm_def same)
  moreover have "sw_peers (w_swarms w' self) = active"
    by (simp add: w'_def schedule_retry_peers_def on_swarm_def io_simps w1_def)
  moreover have "object w' i = fst (objs ! i)" for i
    by (simp add: w'_def schedule_retry_peers_def on_swarm_def io_simps object_def)
  ultimately show ?thesis
    using objs by (auto simp: active_def ps_def comp_def stop_peer_def)
qed

section \<open>New connections\<close>

lemma map_snd_update: "i < length xs \<Longrightarrow> (map snd xs)[i := snd (xs ! i)] = map snd xs"
  by (metis list_update_id nth_map)

lemma add_peer_effect:
  assumes "i < length (w_objects w)" and "i \<notin> set (sw_peers (w_swarms w self))"
    and "\<forall>j \<in> set (sw_peers (w_swarms w self)). j < length (w_objects w)"
    and "distinct (map (\<lambda>j. p_url (object w j)) (sw_peers (w_swarms w self)))"
  shows "\<exists>w'. add_peer env self i None w = (Inr None, w')
    \<and> sw_peers (w_swarms w' self) = filter (\<lambda>j. \<not> same_url w i j) (sw_peers (w_swarms w self)) @ [i]
    \<and> length (w_objects w') = length (w_objects w)
    \<and> (\<forall>j < length (w_objects w). object w' j = (if j = i then shake env w (snd (w_objects w ! i)) (object w i)
         else if j \<in> set (sw_peers (w_swarms w self)) \<and> same_url w i j then stop_peer (object w j) else object w j))
    \<and> map snd (w_objects w') = map snd (w_objects w)
    \<and> (\<forall>k. sw_torrent (w_swarms w' k) = sw_torrent (w_swarms w k))
    \<and> (\<forall>k. k \<noteq> self \<longrightarrow> sw_peers (w_swarms w' k) = sw_peers (w_swarms w k)) \<and> w_torrents w' = w_torrents w"
proof (cases "existing_peer self i w")
  case None
  then have none: "\<forall>j \<in> set (sw_peers (w_swarms w self)). \<not> same_url w i j"
    by (auto simp: existing_peer_def find_None_iff)
  then have "filter (\<lambda>j. \<not> same_url w i j) (sw_peers (w_swarms w self)) = sw_peers (w_swarms w self)"
    by simp
  with None none assms(1,2) show ?thesis
    by (auto simp: add_peer_def io_simps session_handshake on_swarm_def object_def nth_list_update map_update map_snd_update)
next
  case (Some j)
  then have j: "j \<in> set (sw_peers (w_swarms w self))" "same_url w i j"
    by (auto simp: existing_peer_def find_Some_iff)
  have only: "same_url w i k \<longleftrightarrow> k = j" if "k \<in> set (sw_peers (w_swarms w self))" for k
    using that j assms(4) by (auto simp: same_url_def distinct_map inj_on_def)
  have "distinct (sw_peers (w_swarms w self))"
    using assms(4) by (simp add: distinct_map)
  then have rest: "remove1 j (sw_peers (w_swarms w self)) = filter (\<lambda>k. \<not> same_url w i k) (sw_peers (w_swarms w self))"
    using only by (auto simp: distinct_remove1_removeAll removeAll_filter_not_eq intro!: filter_cong)
  define w1 where "w1 = w\<lparr>w_objects := (w_objects w)[j := (stop_peer (object w j), snd (w_objects w ! j))],
      w_swarms := (w_swarms w)(self := sw_peers_update (remove1 j) (w_swarms w self))\<rparr>"
  have ij: "i \<noteq> j" "j < length (w_objects w)"
    using j assms(2,3) by auto
  have step: "bindIO (on_object j stop_peer) (\<lambda>_. on_swarm self (sw_peers_update (remove1 j))) w = (Inr (), w1)"
    by (simp add: io_simps on_object_def on_swarm_def w1_def)
  have same: "shake env w1 o' p = shake env w o' p" for o' p
    by (simp add: shake_def w1_def)
  show ?thesis
    using Some step ij assms(1) only j
    by (auto simp: add_peer_def io_simps session_handshake same)
      (auto simp: w1_def on_swarm_def object_def nth_list_update map_update map_snd_update rest io_simps)
qed

lemma map_snd_nth: "map snd xs = map snd ys \<Longrightarrow> i < length ys \<Longrightarrow> snd (xs ! i) = snd (ys ! i)"
  by (metis length_map nth_map)

text \<open>
  C26.  A new connection replaces the one to the same URL: the old peer is stopped and leaves the
  list, all others stay as they are, the new one is the last and has sent the handshake of its
  torrent; no two peers of the list have the same URL afterwards.  That is what the comment in
  \<^verbatim>\<open>src/torrent.cpp\<close> says; the one in \<^verbatim>\<open>src/torrent.hpp\<close>, that a
  peer is added if there is no other with its URL, does not hold.
\<close>

theorem add_peer_replaces:
  assumes "i < length (w_objects w)" and "i \<notin> set (sw_peers (w_swarms w self))"
    and "\<forall>j \<in> set (sw_peers (w_swarms w self)). j < length (w_objects w)"
    and "distinct (map (\<lambda>j. p_url (object w j)) (sw_peers (w_swarms w self)))"
  shows "\<exists>w'. add_peer env self i None w = (Inr None, w')
    \<and> sw_peers (w_swarms w' self) = filter (\<lambda>j. \<not> same_url w i j) (sw_peers (w_swarms w self)) @ [i]
    \<and> distinct (map (\<lambda>j. p_url (object w' j)) (sw_peers (w_swarms w' self)))
    \<and> (\<forall>j \<in> set (sw_peers (w_swarms w self)). object w' j = (if same_url w i j then stop_peer (object w j) else object w j))
    \<and> p_sent (object w' i) \<noteq> []"
proof -
  obtain w' where w': "add_peer env self i None w = (Inr None, w')"
    "sw_peers (w_swarms w' self) = filter (\<lambda>j. \<not> same_url w i j) (sw_peers (w_swarms w self)) @ [i]"
    "\<forall>j < length (w_objects w). object w' j = (if j = i then shake env w (snd (w_objects w ! i)) (object w i)
         else if j \<in> set (sw_peers (w_swarms w self)) \<and> same_url w i j then stop_peer (object w j) else object w j)"
    using add_peer_effect [OF assms] by blast
  have url: "p_url (object w' j) = p_url (object w j)" if "j < length (w_objects w)" for j
    using w'(3) that by (simp add: stop_peer_def)
  have "map (\<lambda>j. p_url (object w' j)) (sw_peers (w_swarms w' self)) =
      map (\<lambda>j. p_url (object w j)) (filter (\<lambda>j. \<not> same_url w i j) (sw_peers (w_swarms w self)) @ [i])"
    using w'(2) assms(1,3) url by auto
  moreover have "distinct \<dots>"
    using assms(4) by (auto simp: distinct_map inj_on_def same_url_def)
  ultimately have dist: "distinct (map (\<lambda>j. p_url (object w' j)) (sw_peers (w_swarms w' self)))"
    by metis
  have "p_sent (object w' i) \<noteq> []"
    using w'(3) assms(1) by (simp add: shake_def)
  moreover have "\<forall>j \<in> set (sw_peers (w_swarms w self)). object w' j = (if same_url w i j then stop_peer (object w j) else object w j)"
    using w'(3) assms(2,3) by auto
  ultimately show ?thesis
    using w'(1,2) dist by blast
qed

definition bitfield_message :: "bitfield \<Rightarrow> bytes list" where
  "bitfield_message bf = (if bf_indices bf = {} then [] else [frame BITFIELD (m_bytes bf)])"

lemma report_effect:
  assumes "p_connection (se_peer s)" and "m_client_pieces (se_torrent s) = bf" and "1 + bf_size_bytes bf < 2 ^ 32"
  shows "report_bitfield s = (Inr (), s\<lparr>se_peer := (se_peer s)\<lparr>p_sent := p_sent (se_peer s) @ bitfield_message bf\<rparr>\<rparr>)"
proof -
  have "numeric_cast uint32_t uint64_t (int (1 + bf_size_bytes bf)) = Inr (int (1 + bf_size_bytes bf))"
    using assms(3) by (simp add: numeric_cast_def static_cast_def ity_max_def take_bit_int_eq_self)
  then show ?thesis
    using assms bf_none_set_iff [of bf]
    by (auto simp: report_bitfield_def io_simps bf_next_find send_msg_def bitfield_message_def frame_def bf_size_bytes_def
        simp del: of_nat_Suc of_nat_add split: option.splits)
qed

text \<open>The lists of peers: objects that exist, with different URLs; the bitfields fit their message.\<close>

definition swarms_ok :: "world \<Rightarrow> bool" where
  "swarms_ok w \<longleftrightarrow> (\<forall>self. (\<forall>j \<in> set (sw_peers (w_swarms w self)). j < length (w_objects w))
     \<and> distinct (map (\<lambda>j. p_url (object w j)) (sw_peers (w_swarms w self)))
     \<and> 1 + bf_size_bytes (m_client_pieces (sw_torrent (w_swarms w self))) < 2 ^ 32)"

definition visitor_url :: "string \<times> u16 \<Rightarrow> string" where
  "visitor_url c = ''http://'' @ fst c @ '':'' @ dec_of_nat (unat (snd c)) @ ''/''"

text \<open>
  An incoming connection with the digest of a torrent becomes its last peer, with our
  handshake and, when we have pieces, our bitfield sent to it.  Of what was read together with the
  handshake nothing is kept: the new peer has no pieces of the remote, also when the bitfield of the
  remote was among the bytes.
\<close>

lemma accept_connection_known:
  assumes "handshake_parse received = Inr (Some h)" and "torrents_get (hs_info_hash h) (w_torrents w) = Some self"
    and "set ip \<inter> {CHR ''/'', CHR '':'', CHR 0x0A} = {}" and "swarms_ok w"
  defines "n \<equiv> length (w_objects w)"
  shows "\<exists>w' hs. accept_connection env ip port received w = (Inr (), w')
    \<and> length (w_objects w') = Suc n \<and> p_url (object w' n) = visitor_url (ip, port)
    \<and> p_sent (object w' n) = hs # bitfield_message (m_client_pieces (sw_torrent (w_swarms w self)))
    \<and> m_remote_pieces (object w' n) = bf_empty
    \<and> (\<forall>j < n. p_url (object w' j) = p_url (object w j) \<and> p_sent (object w' j) = p_sent (object w j))
    \<and> sw_peers (w_swarms w' self) =
        filter (\<lambda>j. p_url (object w j) \<noteq> visitor_url (ip, port)) (sw_peers (w_swarms w self)) @ [n]
    \<and> (\<forall>k. k \<noteq> self \<longrightarrow> sw_peers (w_swarms w' k) = sw_peers (w_swarms w k))
    \<and> (\<forall>k. sw_torrent (w_swarms w' k) = sw_torrent (w_swarms w k)) \<and> w_torrents w' = w_torrents w"
proof -
  define bf where "bf = m_client_pieces (sw_torrent (w_swarms w self))"
  define u where "u = \<lparr>u_scheme = ''http'', u_host = ip, u_path = ''/'', u_params = [], u_port = Some port\<rparr>"
  define w1 where "w1 = w\<lparr>w_objects := w_objects w @ [(accepted_peer (we_time env) (url_str u), self)]\<rparr>"
  have inside: "\<forall>j \<in> set (sw_peers (w_swarms w self)). j < n" and bf: "1 + bf_size_bytes bf < 2 ^ 32"
    and dist: "distinct (map (\<lambda>j. p_url (object w j)) (sw_peers (w_swarms w self)))"
    using assms(4) by (simp_all add: swarms_ok_def n_def bf_def)
  have parse: "parse_url (''http://'' @ ip @ '':'' @ dec_of_nat (unat port)) = Inr u"
    unfolding u_def by (rule parse_host_port [OF assms(3)])
  have str: "url_str u = visitor_url (ip, port)"
    by (simp add: u_def url_str_def url_authority_def visitor_url_def)
  have obj: "object w1 j = object w j" if "j < n" for j
    using that by (simp add: w1_def object_def n_def nth_append)
  have new: "object w1 n = accepted_peer (we_time env) (url_str u)" "snd (w_objects w1 ! n) = self" "length (w_objects w1) = Suc n"
    by (simp_all add: w1_def object_def n_def)
  have peers: "w_swarms w1 = w_swarms w" "w_torrents w1 = w_torrents w"
    by (simp_all add: w1_def)
  have "map (\<lambda>j. p_url (object w1 j)) (sw_peers (w_swarms w1 self)) = map (\<lambda>j. p_url (object w j)) (sw_peers (w_swarms w self))"
    using inside obj by (simp add: peers)
  then have dist1: "distinct (map (\<lambda>j. p_url (object w1 j)) (sw_peers (w_swarms w1 self)))"
    using dist by metis
  have url: "p_url (object w1 n) = visitor_url (ip, port)"
    by (simp add: new(1) str accepted_peer_def new_peer_def init_io_service_def)
  have "n < length (w_objects w1)" "n \<notin> set (sw_peers (w_swarms w1 self))"
    "\<forall>j \<in> set (sw_peers (w_swarms w1 self)). j < length (w_objects w1)"
    using inside new(3) by (auto simp: peers)
  from add_peer_effect [OF this dist1, of env] obtain w2 where add: "add_peer env self n None w1 = (Inr None, w2)"
      "sw_peers (w_swarms w2 self) = filter (\<lambda>j. \<not> same_url w1 n j) (sw_peers (w_swarms w1 self)) @ [n]"
      "length (w_objects w2) = length (w_objects w1)"
    and objs: "\<forall>j < length (w_objects w1). object w2 j = (if j = n then shake env w1 (snd (w_objects w1 ! n)) (object w1 n)
         else if j \<in> set (sw_peers (w_swarms w1 self)) \<and> same_url w1 n j then stop_peer (object w1 j) else object w1 j)"
    and owners: "map snd (w_objects w2) = map snd (w_objects w1)"
    and rest: "\<forall>k. sw_torrent (w_swarms w2 k) = sw_torrent (w_swarms w1 k)"
      "\<forall>k. k \<noteq> self \<longrightarrow> sw_peers (w_swarms w2 k) = sw_peers (w_swarms w1 k)" "w_torrents w2 = w_torrents w1"
    by blast
  have w2: "add_peer env self n None w1 = (Inr None, w2)"
    "sw_peers (w_swarms w2 self) = filter (\<lambda>j. \<not> same_url w1 n j) (sw_peers (w_swarms w1 self)) @ [n]"
    "length (w_objects w2) = Suc n" "snd (w_objects w2 ! n) = self"
    "object w2 n = shake env w1 self (accepted_peer (we_time env) (url_str u))"
    "\<forall>j < n. object w2 j = object w1 j \<or> object w2 j = stop_peer (object w1 j)"
    "\<forall>k. sw_torrent (w_swarms w2 k) = sw_torrent (w_swarms w k)"
    "\<forall>k. k \<noteq> self \<longrightarrow> sw_peers (w_swarms w2 k) = sw_peers (w_swarms w k)" "w_torrents w2 = w_torrents w"
    using add objs rest new peers map_snd_nth [OF owners, of n] by simp_all
  define p where "p = (object w2 n)\<lparr>p_sent := p_sent (object w2 n) @ bitfield_message bf\<rparr>"
  define w3 where "w3 = w2\<lparr>w_swarms := (w_swarms w2)(self := (w_swarms w2 self)\<lparr>sw_torrent := sw_torrent (w_swarms w2 self)\<rparr>),
      w_objects := (w_objects w2)[n := (p, self)]\<rparr>"
  have "report_bitfield \<lparr>se_torrent = sw_torrent (w_swarms w2 self), se_peer = object w2 n\<rparr> =
      (Inr (), \<lparr>se_torrent = sw_torrent (w_swarms w2 self), se_peer = p\<rparr>)"
    using report_effect [of "\<lparr>se_torrent = sw_torrent (w_swarms w2 self), se_peer = object w2 n\<rparr>" bf] bf w2(5,7)
    by (simp add: p_def bf_def)
  then have "with_session env n (\<lambda>_. report_bitfield) w2 = (Inr (), w3)"
    using w2(4) by (simp add: with_session_def w3_def split_beta flip: object_def)
  then have run: "accept_connection env ip port received w = (Inr (), w3)"
    using assms(1,2) parse w2(1) by (simp add: accept_connection_def io_simps n_def [symmetric] w1_def [symmetric])
  have obj3: "object w3 n = p" "\<forall>j < n. object w3 j = object w2 j" "length (w_objects w3) = Suc n"
    using w2(3) by (simp_all add: w3_def object_def)
  have old: "p_url (object w3 j) = p_url (object w j) \<and> p_sent (object w3 j) = p_sent (object w j)" if "j < n" for j
  proof -
    have "object w3 j = object w j \<or> object w3 j = stop_peer (object w j)"
      using w2(6) obj3(2) obj that by metis
    then show ?thesis
      by (auto simp: stop_peer_def)
  qed
  have list: "sw_peers (w_swarms w3 self) =
      filter (\<lambda>j. p_url (object w j) \<noteq> visitor_url (ip, port)) (sw_peers (w_swarms w self)) @ [n]"
    using w2(2) inside obj url by (auto simp: w3_def peers same_url_def intro!: filter_cong)
  have "p_url p = visitor_url (ip, port)" "m_remote_pieces p = bf_empty" "\<exists>hs. p_sent p = hs # bitfield_message bf"
    by (auto simp: p_def w2(5) str accepted_peer_def new_peer_def init_io_service_def shake_def)
  then show ?thesis
    using run obj3 old list w2(7-9) unfolding bf_def [symmetric]
    by (intro exI [of _ w3]) (auto simp: w3_def)
qed

lemma swarms_ok_accept:
  assumes "handshake_parse received = Inr (Some h)" and "torrents_get (hs_info_hash h) (w_torrents w) = Some self"
    and "set ip \<inter> {CHR ''/'', CHR '':'', CHR 0x0A} = {}" and "swarms_ok w"
    and "accept_connection env ip port received w = (r, w')"
  shows "swarms_ok w'"
proof -
  define n where "n = length (w_objects w)"
  obtain hs where known: "length (w_objects w') = Suc n" "p_url (object w' n) = visitor_url (ip, port)"
    "\<forall>j < n. p_url (object w' j) = p_url (object w j)"
    "sw_peers (w_swarms w' self) =
        filter (\<lambda>j. p_url (object w j) \<noteq> visitor_url (ip, port)) (sw_peers (w_swarms w self)) @ [n]"
    "\<forall>k. k \<noteq> self \<longrightarrow> sw_peers (w_swarms w' k) = sw_peers (w_swarms w k)"
    "\<forall>k. sw_torrent (w_swarms w' k) = sw_torrent (w_swarms w k)"
    using accept_connection_known [OF assms(1-4), of env port] assms(5) unfolding n_def by auto
  have ok: "\<forall>j \<in> set (sw_peers (w_swarms w k)). j < n" "distinct (map (\<lambda>j. p_url (object w j)) (sw_peers (w_swarms w k)))"
    "1 + bf_size_bytes (m_client_pieces (sw_torrent (w_swarms w k))) < 2 ^ 32" for k
    using assms(4) by (simp_all add: swarms_ok_def n_def)
  have "(\<forall>j \<in> set (sw_peers (w_swarms w' k)). j < length (w_objects w'))
      \<and> distinct (map (\<lambda>j. p_url (object w' j)) (sw_peers (w_swarms w' k)))" for k
  proof (cases "k = self")
    case True
    define ps where "ps = filter (\<lambda>j. p_url (object w j) \<noteq> visitor_url (ip, port)) (sw_peers (w_swarms w self))"
    have "distinct (map (\<lambda>j. p_url (object w j)) ps)"
      using ok(2) [of self] by (simp add: distinct_map_filter ps_def)
    moreover have same: "map (\<lambda>j. p_url (object w' j)) ps = map (\<lambda>j. p_url (object w j)) ps"
      using ok(1) [of self] known(3) by (simp add: ps_def)
    ultimately have "distinct (map (\<lambda>j. p_url (object w' j)) ps)"
      by (simp only:)
    moreover have "p_url (object w' n) \<notin> set (map (\<lambda>j. p_url (object w' j)) ps)"
      unfolding same known(2) by (auto simp: ps_def)
    moreover have "\<forall>j \<in> set ps. j < n"
      using ok(1) [of self] by (simp add: ps_def)
    moreover have "sw_peers (w_swarms w' k) = ps @ [n]"
      unfolding True ps_def by (rule known(4))
    ultimately show ?thesis
      using known(1) by (auto simp: less_Suc_eq)
  next
    case False
    have same: "map (\<lambda>j. p_url (object w' j)) (sw_peers (w_swarms w k)) = map (\<lambda>j. p_url (object w j)) (sw_peers (w_swarms w k))"
      using ok(1) [of k] known(3) by simp
    have "distinct (map (\<lambda>j. p_url (object w' j)) (sw_peers (w_swarms w k)))"
      unfolding same by (rule ok(2))
    with False show ?thesis
      using ok(1) [of k] known(1,5) by (auto simp: less_Suc_eq)
  qed
  then show ?thesis
    using ok(3) known(6) by (simp add: swarms_ok_def)
qed

section \<open>Retrying pieces ends\<close>

lemma next_piece_from_peer: "se_peer (snd (next_piece_from now rel non_requested n s)) = se_peer s"
proof (induction "bf_size rel - n" arbitrary: n s rule: less_induct)
  case less
  have rec: "se_peer (snd (next_piece_from now rel non_requested (Suc k) s')) = se_peer s'"
    if "bf_next rel True n = Inr (Some k)" for k s'
    using that by (intro less) (auto simp: bf_next_find find_Some_iff)
  show ?case
  proof (cases non_requested)
    case True
    with rec show ?thesis
      by (subst next_piece_from.simps) (auto simp: io_simps with_torrent_eq split: sum.splits option.splits prod.splits)
  next
    case False
    then show ?thesis
      by (subst next_piece_from.simps) (auto simp: io_simps with_torrent_eq split: sum.splits option.splits prod.splits)
  qed
qed

lemma request_loop_count:
  "request_loop now n req k s = (r, s') \<Longrightarrow>
    \<exists>c \<le> n. m_pending_requests (se_peer s') = m_pending_requests (se_peer s) + int c \<and> (\<forall>req' k'. r = Inr (req', k') \<longrightarrow> k' = k + c)"
proof (induction n arbitrary: req k s)
  case 0
  then show ?case
    by (auto simp: io_simps)
next
  case (Suc n)
  obtain p s1 where look: "next_piece now True s = (p, s1)"
    by fastforce
  then have peer: "se_peer s1 = se_peer s"
    using next_piece_from_peer by (auto simp: next_piece_def io_simps) (metis snd_conv)
  show ?case
  proof (cases "\<exists>loc off t. p = Inr (Some loc) \<and> piece_next_offset now True loc (se_torrent s1) = Inr (Some off, t)")
    case False
    with Suc.prems look peer show ?thesis
      by (auto simp: io_simps with_torrent_eq split: sum.splits option.splits)
  next
    case True
    then obtain loc off t where p: "p = Inr (Some loc)" "piece_next_offset now True loc (se_torrent s1) = Inr (Some off, t)"
      by blast
    define s2 where "s2 = s1\<lparr>se_torrent := t, se_peer := m_pending_requests_update (\<lambda>k. k + 1) (se_peer s1)\<rparr>"
    obtain req1 where "request_loop now n req1 (k + 1) s2 = (r, s')"
      using Suc.prems look p by (auto simp: io_simps with_torrent_eq on_peer_def s2_def)
    then obtain c where "c \<le> n" "m_pending_requests (se_peer s') = m_pending_requests (se_peer s2) + int c"
      "\<forall>req' k'. r = Inr (req', k') \<longrightarrow> k' = k + 1 + c"
      using Suc.IH by blast
    then show ?thesis
      using peer by (intro exI [of _ "Suc c"]) (simp add: s2_def)
  qed
qed

lemma request_next_block_count:
  assumes "request_next_block env limit s = (r, s')" and "0 < limit"
  shows "m_pending_requests (se_peer s) \<le> m_pending_requests (se_peer s')
    \<and> m_pending_requests (se_peer s') \<le> max (m_pending_requests (se_peer s)) limit
    \<and> (\<forall>k. r = Inr k \<longrightarrow> k \<le> nat (limit - m_pending_requests (se_peer s)))"
proof (cases "m_am_interested (se_peer s) \<and> \<not> m_choking (se_peer s) \<and> m_pending_requests (se_peer s) < limit")
  case False
  with assms show ?thesis
    by (auto simp: request_next_block_def io_simps pending_limit_def split: if_splits)
next
  case True
  define n where "n = nat (limit - m_pending_requests (se_peer s))"
  obtain r1 s1 where loop: "request_loop (e_now env) n [] 0 s = (r1, s1)"
    by fastforce
  then obtain c where c: "c \<le> n" "m_pending_requests (se_peer s1) = m_pending_requests (se_peer s) + int c"
    "\<forall>req' k'. r1 = Inr (req', k') \<longrightarrow> k' = c"
    using request_loop_count by (metis add_0)
  have "r = Inr k \<longrightarrow> k = c" and "m_pending_requests (se_peer s') = m_pending_requests (se_peer s1)" for k
    using assms True loop c(3)
    by (auto simp: request_next_block_def io_simps pending_limit_def n_def [symmetric] send_msg_def split: sum.splits if_splits)
  with c True show ?thesis
    by (auto simp: n_def)
qed

text \<open>Numbers of pending requests as an \<^verbatim>\<open>int\<close> counts them.\<close>

definition pending_ok :: "world \<Rightarrow> bool" where
  "pending_ok w \<longleftrightarrow> (\<forall>i < length (w_objects w). 0 \<le> m_pending_requests (object w i) \<and> m_pending_requests (object w i) < 2 ^ 31)"

lemma numeric_cast_u16: "numeric_cast uint16_t uint64_t v = Inr r \<Longrightarrow> 0 \<le> v \<Longrightarrow> r = v \<and> v < 2 ^ 16"
  by (auto simp: numeric_cast_def static_cast_def ity_max_def take_bit_int_eq_self split: if_splits)

lemma retry_peer_less:
  assumes "retry_peer env self i retry w = (r, w')" and "pending_ok w" and "i < length (w_objects w)"
    and "0 < retry" and "retry < 2 ^ 64"
  shows "pending_ok w' \<and> length (w_objects w') = length (w_objects w) \<and> (\<forall>k. r = Inr k \<longrightarrow> k \<le> retry)"
proof -
  define p where "p = nat (m_pending_requests (object w i))"
  have p: "m_pending_requests (object w i) = int p" "p < 2 ^ 31"
    using assms(2,3) by (auto simp: pending_ok_def p_def)
  define ask where "ask mx = min (if p < nat mx then nat mx - p else 1) retry" for mx
  have ask: "p + ask mx < 2 ^ 64" "0 < ask mx" "ask mx \<le> retry" if "mx < 2 ^ 64" for mx :: int
    using that p(2) assms(4) by (auto simp: ask_def)
  have eq: "retry_peer env self i retry w = (case numeric_cast uint64_t int32_t (swarm_config env self MAX_PENDING_REQUESTS) of
       Inl e \<Rightarrow> (Inl e, w)
     | Inr mx \<Rightarrow> (case numeric_cast uint16_t uint64_t (int (size_add p (ask mx))) of
         Inl e \<Rightarrow> (Inl e, w)
       | Inr limit \<Rightarrow> bindIO (with_session env i (\<lambda>pe. request_next_block pe limit)) (\<lambda>requested. retIO (size_sub retry requested)) w))"
    by (auto simp: retry_peer_def Let_def p_def ask_def io_simps split: sum.split)
  show ?thesis
  proof (cases "\<exists>mx limit. numeric_cast uint64_t int32_t (swarm_config env self MAX_PENDING_REQUESTS) = Inr mx
      \<and> numeric_cast uint16_t uint64_t (int (size_add p (ask mx))) = Inr limit")
    case False
    with assms show ?thesis
      by (auto simp: eq split: sum.splits)
  next
    case True
    then obtain mx limit where mx: "numeric_cast uint64_t int32_t (swarm_config env self MAX_PENDING_REQUESTS) = Inr mx"
      and limit: "numeric_cast uint16_t uint64_t (int (size_add p (ask mx))) = Inr limit"
      by blast
    have "mx = take_bit 64 (swarm_config env self MAX_PENDING_REQUESTS)"
      using mx by (auto simp: numeric_cast_def static_cast_def split: if_splits)
    then have "mx < 2 ^ 64"
      by (simp only: take_bit_int_less_exp)
    note ask = ask [OF this]
    have lim: "limit = int (p + ask mx)" "limit < 2 ^ 16"
      using numeric_cast_u16 [OF limit] ask(1) by auto
    define owner where "owner = snd (w_objects w ! i)"
    define s where "s = \<lparr>se_torrent = sw_torrent (w_swarms w owner), se_peer = object w i\<rparr>"
    obtain q s' where req: "request_next_block (swarm_peer_env env owner) limit s = (q, s')"
      by fastforce
    have count: "m_pending_requests (se_peer s) \<le> m_pending_requests (se_peer s')"
      "m_pending_requests (se_peer s') \<le> max (m_pending_requests (se_peer s)) limit"
      "\<And>k. q = Inr k \<Longrightarrow> k \<le> ask mx"
      using request_next_block_count [OF req] lim ask(2) p(1) by (auto simp: s_def)
    have w': "w' = w\<lparr>w_swarms := (w_swarms w)(owner := (w_swarms w owner)\<lparr>sw_torrent := se_torrent s'\<rparr>),
        w_objects := (w_objects w)[i := (se_peer s', owner)]\<rparr>"
      and r: "\<And>k. r = Inr k \<Longrightarrow> \<exists>j. q = Inr j \<and> k = size_sub retry j"
      using assms(1) mx limit req
      by (auto simp: eq io_simps with_session_def owner_def s_def object_def split: sum.splits prod.splits)
    have "pending_ok w'"
      using assms(2,3) count(1,2) lim(2) by (auto simp: pending_ok_def w' s_def object_def nth_list_update)
    moreover have "k \<le> retry" if "r = Inr k" for k
      using r [OF that] count(3) ask(3) assms(5) by (auto simp: size_sub_exact)
    ultimately show ?thesis
      by (simp add: w')
  qed
qed

lemma retry_pass_less:
  assumes "retry_pass env self is retry w = (r, w')" and "pending_ok w" and "\<forall>i \<in> set is. i < length (w_objects w)"
    and "retry < 2 ^ 64"
  shows "pending_ok w' \<and> length (w_objects w') = length (w_objects w) \<and> (\<forall>k. r = Inr k \<longrightarrow> k \<le> retry)"
  using assms
proof (induction "is" arbitrary: retry w)
  case Nil
  then show ?case
    by (auto simp: io_simps)
next
  case (Cons i "is")
  show ?case
  proof (cases "retry = 0")
    case True
    with Cons.prems show ?thesis
      by (auto simp: io_simps)
  next
    case False
    obtain q w1 where q: "retry_peer env self i retry w = (q, w1)"
      by fastforce
    then have less: "pending_ok w1" "length (w_objects w1) = length (w_objects w)" "\<And>k. q = Inr k \<Longrightarrow> k \<le> retry"
      using retry_peer_less [OF q] Cons.prems False by auto
    show ?thesis
    proof (cases q)
      case (Inl e)
      with Cons.prems False q less show ?thesis
        by (auto simp: io_simps)
    next
      case (Inr k)
      with Cons.prems False q have "retry_pass env self is k w1 = (r, w')"
        by (simp add: io_simps)
      from Cons.IH [OF this] Inr less Cons.prems show ?thesis
        by fastforce
    qed
  qed
qed

lemma retry_loop_ends:
  assumes "pending_ok w" and "\<forall>i \<in> set ps. i < length (w_objects w)" and "n < 2 ^ 64"
  shows "retry_loop env self ps n w \<noteq> None"
  using assms
proof (induction n arbitrary: w rule: less_induct)
  case (less n)
  obtain r w1 where pass: "retry_pass env self ps n w = (r, w1)"
    by fastforce
  then have after: "pending_ok w1" "length (w_objects w1) = length (w_objects w)" "\<And>k. r = Inr k \<Longrightarrow> k \<le> n"
    using retry_pass_less [OF pass] less.prems by auto
  show ?case
  proof (cases r)
    case (Inl e)
    with pass show ?thesis
      by (subst retry_loop.simps) simp
  next
    case (Inr k)
    have "retry_loop env self ps k w1 \<noteq> None" if "k \<noteq> n"
      using that Inr after less.prems by (intro less.IH) (auto simp: le_neq_implies_less order.strict_trans1)
    with Inr pass show ?thesis
      by (subst retry_loop.simps) auto
  qed
qed

text \<open>
  C28.  Retrying pieces ends, however many blocks are open and whatever the peers are, as long as each
  counts between 0 and 2 to the 31 pending requests.  Unless the torrent is stopped, the next check is
  scheduled, also after an exception.
\<close>

theorem retry_pieces_terminates:
  assumes "pending_ok w" and "\<forall>i \<in> set (we_shuffle env (sw_peers (w_swarms w self))). i < length (w_objects w)"
  shows "\<exists>r w'. retry_pieces env self w = Some (r, w')
    \<and> (\<not> sw_stopped (w_swarms w self) \<longrightarrow> sw_pieces_timer (w_swarms w' self) =
        Some (we_time env + seconds (swarm_config env self RETRY_PIECES_INTERVAL_SECONDS)))"
proof (cases "sw_stopped (w_swarms w self)")
  case True
  then show ?thesis
    by (simp add: retry_pieces_def)
next
  case False
  define t where "t = sw_torrent (w_swarms w self)"
  define body where "body = (case foldE (retry_active env) (m_active_pieces t) (t, 0) of
             Inl e \<Rightarrow> Some (Inl e, w)
           | Inr (t', retry) \<Rightarrow>
               let w1 = snd (on_swarm self (sw_torrent_update (\<lambda>_. t')) w) in
               if retry = 0 then Some (Inr (), w1)
               else
                 let ps = we_shuffle env (sw_peers (w_swarms w1 self));
                     w2 = snd (on_swarm self (sw_peers_update (\<lambda>_. ps)) w1)
                 in if ps = [] then Some (Inr (), w2) else retry_loop env self ps retry w2)"
  have "body \<noteq> None"
  proof (cases "foldE (retry_active env) (m_active_pieces t) (t, 0)")
    case (Inl e)
    then show ?thesis
      by (simp add: body_def)
  next
    case (Inr tr)
    have "snd tr < 2 ^ 64"
      by (rule foldE_invariant [OF Inr]) (auto simp: retry_active_def result_simps size_add_def)
    moreover have "pending_ok (w\<lparr>w_swarms := x\<rparr>)" for x
      using assms(1) by (simp add: pending_ok_def)
    ultimately show ?thesis
      using Inr assms(2) retry_loop_ends [of _ "we_shuffle env (sw_peers (w_swarms w self))" "snd tr" env self]
      by (auto simp: body_def Let_def on_swarm_def io_simps split: prod.split)
  qed
  then obtain r w1 where "body = Some (r, w1)"
    by auto
  moreover have "retry_pieces env self w = map_option (\<lambda>(r, w'). (r, schedule_retry_pieces env self w')) body"
    using False by (simp add: retry_pieces_def Let_def t_def body_def)
  ultimately show ?thesis
    by (simp add: schedule_retry_pieces_def on_swarm_def io_simps)
qed

section \<open>Starting\<close>

lemma iter_handshake:
  assumes "\<forall>i \<in> set is. i < length (w_objects w)"
  shows "\<exists>objs. iterIO (\<lambda>i. with_session env i handshake) is w = (Inr (), w\<lparr>w_objects := objs\<rparr>)
    \<and> length objs = length (w_objects w) \<and> (\<forall>i \<in> set is. p_sent (fst (objs ! i)) \<noteq> [])
    \<and> (\<forall>i. p_sent (object w i) \<noteq> [] \<longrightarrow> p_sent (fst (objs ! i)) \<noteq> [])"
  using assms
proof (induction "is" arbitrary: w)
  case Nil
  show ?case
    by (rule exI [of _ "w_objects w"]) (simp add: io_simps object_def)
next
  case (Cons i "is")
  define w1 where "w1 = w\<lparr>w_objects := (w_objects w)[i := (shake env w (snd (w_objects w ! i)) (object w i), snd (w_objects w ! i))]\<rparr>"
  have "\<forall>i \<in> set is. i < length (w_objects w1)"
    using Cons.prems by (simp add: w1_def)
  from Cons.IH [OF this] obtain objs where objs: "iterIO (\<lambda>i. with_session env i handshake) is w1 = (Inr (), w1\<lparr>w_objects := objs\<rparr>)"
    "length objs = length (w_objects w1)" "\<forall>i \<in> set is. p_sent (fst (objs ! i)) \<noteq> []"
    "\<forall>i. p_sent (object w1 i) \<noteq> [] \<longrightarrow> p_sent (fst (objs ! i)) \<noteq> []"
    by blast
  have "p_sent (object w1 i) \<noteq> []" "\<And>j. p_sent (object w j) \<noteq> [] \<Longrightarrow> p_sent (object w1 j) \<noteq> []"
    using Cons.prems by (auto simp: w1_def object_def nth_list_update shake_def)
  moreover have "with_session env i handshake w = (Inr (), w1)"
    by (simp add: session_handshake w1_def)
  moreover have "w1\<lparr>w_objects := objs\<rparr> = w\<lparr>w_objects := objs\<rparr>" "length (w_objects w1) = length (w_objects w)"
    by (simp_all add: w1_def)
  ultimately show ?case
    using objs by (intro exI [of _ objs]) (auto simp: bindIO_eq)
qed

text \<open>
  Starting needs a tracker: when the request throws, nothing is started, neither a peer nor
  the acceptor nor a timer, so that a finished torrent is not served either.  When the tracker
  answers, every peer of the answer has a handshake sent to it, the port is listened on, and both
  checks are scheduled.
\<close>

theorem start_needs_tracker:
  assumes "sw_peers (w_swarms w self) = []" and "tracker_request (world_tracker env w) self STARTED (w_udp w) = (r, u)"
  shows "(\<forall>e. r = Inl e \<longrightarrow> start env self w = (Inl e, w\<lparr>w_udp := u\<rparr>))
    \<and> (\<forall>cs. r = Inr cs \<longrightarrow> (\<exists>w'. start env self w = (Inr (), w')
        \<and> length (sw_peers (w_swarms w' self)) = length cs
        \<and> (\<forall>i \<in> set (sw_peers (w_swarms w' self)). p_sent (object w' i) \<noteq> [])
        \<and> map_of (w_acceptors w') (StrongType (cl_listening_port (te_clients (we_tracker env) self))) \<noteq> None
        \<and> sw_pieces_timer (w_swarms w' self) \<noteq> None \<and> sw_peers_timer (w_swarms w' self) \<noteq> None))"
proof (intro conjI allI impI)
  show "start env self w = (Inl e, w\<lparr>w_udp := u\<rparr>)" if "r = Inl e" for e
    using assms that by (simp add: start_def io_simps ask_tracker_def)
next
  fix cs
  assume r: "r = Inr cs"
  define n where "n = length (w_objects w)"
  define new where "new = [n..<n + length cs]"
  define w1 where "w1 = snd (on_swarm self (sw_peers_update (\<lambda>_. new)) (w\<lparr>w_udp := u, w_objects := w_objects w
      @ map (\<lambda>c. (new_peer (we_time env) (url_str (ca_url c)), ca_owner c)) cs\<rparr>))"
  obtain objs where objs: "iterIO (\<lambda>i. with_session env i handshake) new w1 = (Inr (), w1\<lparr>w_objects := objs\<rparr>)"
    "\<forall>i \<in> set new. p_sent (fst (objs ! i)) \<noteq> []"
    using iter_handshake [of new w1 env] by (auto simp: w1_def on_swarm_def io_simps new_def n_def)
  define w' where "w' = schedule_retry_peers env self (schedule_retry_pieces env self
      (snd (acceptOnPort (cl_listening_port (te_clients (we_tracker env) self))
         (m_string_settings (cl_config (te_clients (we_tracker env) self)) BIND_ADDRESS) (w1\<lparr>w_objects := objs\<rparr>))))"
  have "start env self w = (Inr (), w')"
    using assms r objs(1)
    by (simp add: start_def io_simps ask_tracker_def n_def [symmetric] new_def [symmetric] w'_def acceptOnPort_def w1_def on_swarm_def)
  moreover have "sw_peers (w_swarms w' self) = new" "w_objects w' = objs"
    by (simp_all add: w'_def schedule_retry_peers_def schedule_retry_pieces_def on_swarm_def io_simps acceptOnPort_def w1_def)
  moreover have "map_of (w_acceptors w') (StrongType (cl_listening_port (te_clients (we_tracker env) self))) \<noteq> None"
    "sw_pieces_timer (w_swarms w' self) \<noteq> None" "sw_peers_timer (w_swarms w' self) \<noteq> None"
    by (simp_all add: w'_def schedule_retry_peers_def schedule_retry_pieces_def on_swarm_def io_simps acceptOnPort_def smap.lookup_put)
  ultimately show "\<exists>w'. start env self w = (Inr (), w')
        \<and> length (sw_peers (w_swarms w' self)) = length cs
        \<and> (\<forall>i \<in> set (sw_peers (w_swarms w' self)). p_sent (object w' i) \<noteq> [])
        \<and> map_of (w_acceptors w') (StrongType (cl_listening_port (te_clients (we_tracker env) self))) \<noteq> None
        \<and> sw_pieces_timer (w_swarms w' self) \<noteq> None \<and> sw_peers_timer (w_swarms w' self) \<noteq> None"
    using objs(2) by (intro exI [of _ w']) (simp add: new_def object_def)
qed

section \<open>Examples\<close>

definition sample_torrent_of :: "torrent" where
  "sample_torrent_of = new_torrent (sample_meta\<lparr>m_announce_list := [[''http://h:80'']]\<rparr>)"

definition sample_world :: "(peer \<times> nat) list \<Rightarrow> world" where
  "sample_world objs = \<lparr>w_swarms = (\<lambda>_. \<lparr>sw_torrent = sample_torrent_of, sw_peers = [0..<length objs], sw_stopped = False,
      sw_pieces_timer = None, sw_peers_timer = None, sw_disconnects = []\<rparr>),
     w_objects = objs, w_udp = no_requests, w_torrents = [(sample_peer_id, 0)], w_acceptors = []\<rparr>"

definition sample_swarm_env :: swarm_env where
  "sample_swarm_env = \<lparr>we_tracker = sample_env\<lparr>te_http_get := (\<lambda>_ _. Inl (Http_error 404))\<rparr>, we_time = seconds 200,
     we_shuffle = id, we_read_block = (\<lambda>_ _. Inr [])\<rparr>"

lemma sample_tracker:
  "tracker_request (world_tracker sample_swarm_env (sample_world objs)) 0 event no_requests = (Inr [], no_requests)"
proof -
  have "parse_url ''http://h:80'' = Inr \<lparr>u_scheme = ''http'', u_host = ''h'', u_path = ''/'', u_params = [], u_port = Some 80\<rparr>"
    using parse_host_port [of "''h''" 80] by (simp add: dec_of_nat.simps digit_char_def char_of_def bit_Suc_0_iff)
  then have "do_tracker_request (world_tracker sample_swarm_env (sample_world objs)) 0 event ''http://h:80'' s = (Inl (Http_error 404), s)" for s
    by (simp add: do_tracker_request_def io_simps starts_with_def http_tracker_request_def Let_def sample_swarm_env_def world_tracker_def)
  then show ?thesis
    by (simp add: tracker_request_def Let_def io_simps announce_tiers_def world_tracker_def sample_world_def sample_torrent_of_def
        new_torrent_def sample_swarm_env_def sample_env_def sample_client_def)
qed

text \<open>Two peers, the first idle since the start of the clock.\<close>

definition two_peers :: "(peer \<times> nat) list" where
  "two_peers = [(new_peer 0 ''a'', 0), (new_peer (seconds 199) ''b'', 0)]"

theorem retry_peers_stops_active_witness:
  "\<exists>w'. retry_peers sample_swarm_env 0 (sample_world two_peers) = (Inr (), w') \<and> p_stopped (object w' 1) \<and> \<not> p_stopped (object w' 0)"
proof -
  let ?w = "sample_world two_peers"
  have drop: "drop_candidate sample_swarm_env ?w 0" "\<not> drop_candidate sample_swarm_env ?w 1"
    by (simp_all add: drop_candidate_def is_inactive_def object_def sample_world_def two_peers_def new_peer_def sample_swarm_env_def seconds_def)
  have peers: "sw_peers (w_swarms ?w 0) = [0, 1]" "\<not> sw_stopped (w_swarms ?w 0)" "w_udp ?w = no_requests" "length (w_objects ?w) = 2"
    by (simp_all add: sample_world_def two_peers_def)
  have "\<exists>w'. retry_peers sample_swarm_env 0 ?w = (Inr (), w')
    \<and> sw_peers (w_swarms w' 0) = filter (\<lambda>i. \<not> drop_candidate sample_swarm_env ?w i) (sw_peers (w_swarms ?w 0))
    \<and> (\<forall>i \<in> set (sw_peers (w_swarms w' 0)). p_stopped (object w' i))
    \<and> (\<forall>i \<in> set (sw_peers (w_swarms ?w 0)). drop_candidate sample_swarm_env ?w i \<longrightarrow> object w' i = object ?w i)"
    by (rule retry_peers_stops_active) (use drop in \<open>simp_all add: peers sample_tracker\<close>)
  moreover have "\<not> p_stopped (object ?w 0)"
    by (simp add: object_def sample_world_def two_peers_def new_peer_def)
  ultimately show ?thesis
    using drop by (auto simp: peers)
qed

theorem add_peer_replaces_witness:
  "\<exists>w'. add_peer sample_swarm_env 0 1 None ((sample_world [(new_peer 0 ''a'', 0), (new_peer 5 ''a'', 0)])
      \<lparr>w_swarms := (\<lambda>_. (w_swarms (sample_world []) 0)\<lparr>sw_peers := [0]\<rparr>)\<rparr>) = (Inr None, w')
    \<and> sw_peers (w_swarms w' 0) = [1] \<and> p_stopped (object w' 0)"
proof -
  define w where "w = (sample_world [(new_peer 0 ''a'', 0), (new_peer 5 ''a'', 0)])
      \<lparr>w_swarms := (\<lambda>_. (w_swarms (sample_world []) 0)\<lparr>sw_peers := [0]\<rparr>)\<rparr>"
  have same: "same_url w 1 0"
    by (simp add: same_url_def w_def object_def sample_world_def new_peer_def)
  have peers: "sw_peers (w_swarms w 0) = [0]" "length (w_objects w) = 2"
    by (simp_all add: w_def sample_world_def)
  have "\<exists>w'. add_peer sample_swarm_env 0 1 None w = (Inr None, w')
    \<and> sw_peers (w_swarms w' 0) = filter (\<lambda>j. \<not> same_url w 1 j) (sw_peers (w_swarms w 0)) @ [1]
    \<and> distinct (map (\<lambda>j. p_url (object w' j)) (sw_peers (w_swarms w' 0)))
    \<and> (\<forall>j \<in> set (sw_peers (w_swarms w 0)). object w' j = (if same_url w 1 j then stop_peer (object w j) else object w j))
    \<and> p_sent (object w' 1) \<noteq> []"
    by (rule add_peer_replaces) (simp_all add: peers)
  then show ?thesis
    using same by (auto simp: peers stop_peer_def w_def [symmetric])
qed

theorem retry_pieces_terminates_witness:
  "\<exists>r w'. retry_pieces sample_swarm_env 0 (sample_world two_peers) = Some (r, w') \<and> sw_pieces_timer (w_swarms w' 0) = Some (seconds 245)"
proof -
  have "pending_ok (sample_world two_peers)"
    by (auto simp: pending_ok_def object_def sample_world_def two_peers_def new_peer_def less_Suc_eq)
  then have "\<exists>r w'. retry_pieces sample_swarm_env 0 (sample_world two_peers) = Some (r, w')
    \<and> (\<not> sw_stopped (w_swarms (sample_world two_peers) 0) \<longrightarrow> sw_pieces_timer (w_swarms w' 0) =
        Some (we_time sample_swarm_env + seconds (swarm_config sample_swarm_env 0 RETRY_PIECES_INTERVAL_SECONDS)))"
    by (rule retry_pieces_terminates) (simp add: sample_swarm_env_def sample_world_def)
  then show ?thesis
    by (auto simp: sample_world_def swarm_config_def sample_swarm_env_def sample_env_def sample_client_def default_config_def seconds_def)
qed

theorem start_needs_tracker_witness:
  "\<exists>w'. start sample_swarm_env 0 (sample_world []) = (Inr (), w') \<and> sw_peers_timer (w_swarms w' 0) \<noteq> None"
proof -
  have "sw_peers (w_swarms (sample_world []) 0) = []" "w_udp (sample_world []) = no_requests"
    by (simp_all add: sample_world_def)
  then show ?thesis
    using start_needs_tracker [of "sample_world []" 0 sample_swarm_env "Inr []" no_requests] sample_tracker by fastforce
qed


end
