(* ===== verification/Verify.thy ===== *)
theory Verify
  imports Disk_Integrity
begin

text \<open>
  \<^verbatim>\<open>Torrent::verify_existing_file\<close> of \<^verbatim>\<open>src/torrent.cpp\<close> and its two helpers:
  which pieces of a download that is already on disk count as received when the program starts.
  The helpers run inside a parallel \<^verbatim>\<open>std::for_each\<close>.  They only read the disk and the
  metainfo, and change the bookkeeping under a mutex, so a run is a sequence of whole helper calls
  in some order; the order is a parameter.  An exception that leaves a helper ends the program,
  because \<^verbatim>\<open>std::for_each\<close> with an execution policy calls \<^verbatim>\<open>std::terminate\<close> then.
\<close>

section \<open>Reading one piece\<close>

datatype 'a outcome =
    Normal "'a result"
  | Terminate

text \<open>The end of both helpers: \<open>num\<close> is the 32 bit counter of matching pieces.\<close>

definition match_piece :: "(bytes \<Rightarrow> string) \<Rightarrow> u32 \<Rightarrow> bytes \<Rightarrow> torrent \<times> u32 \<Rightarrow> (torrent \<times> u32) result" where
  "match_piece sha1 i data v =
     bindE (vec_at (m_pieces (meta (fst v))) (unat i)) (\<lambda>expected.
     if expected = sha1 data
     then bindE (mark_verified i (fst v)) (\<lambda>t. Inr (t, snd v + 1))
     else Inr v)"

text \<open>The offset is a 32 bit product, the tail a 64 bit difference.\<close>

definition read_piece_single :: "int \<Rightarrow> metainfo \<Rightarrow> u32 \<Rightarrow> filesystem \<Rightarrow> bytes option result" where
  "read_piece_single file_length mi i s =
     (let offset = i * m_piece_length mi in
      bindE (fst (fs_file_size (m_tmpfile mi) s)) (\<lambda>_.
      bindE (numeric_cast uint32_t uint64_t ((file_length - uint offset) mod 2 ^ 64)) (\<lambda>tail.
      let len = min (m_piece_length mi) (of_int tail) in
      bindE (fst (fs_read_at (m_tmpfile mi) (unat offset) (unat len) s)) (\<lambda>data. Inr (Some data)))))"

text \<open>
  The loop of the multi-file helper.  \<open>data\<close> is the part of the buffer that was read so far; the
  buffer itself is cut to that part after the loop.  \<open>None\<close> is the early return when a file is
  missing.
\<close>

lemma file_at_pos_left:
  "file_at_pos t pos = Inr (fi, off, left) \<Longrightarrow> pos < torrent_length t \<Longrightarrow> 0 < left"
proof -
  have "file_in_list fis c pos = Inr (fi, off, left) \<Longrightarrow> 0 < left" for fis c
    by (induction fis c pos rule: file_in_list.induct) (auto split: if_splits)
  then show "file_at_pos t pos = Inr (fi, off, left) \<Longrightarrow> pos < torrent_length t \<Longrightarrow> 0 < left"
    by (auto simp: file_at_pos_def split: if_splits)
qed

function gather :: "metainfo \<Rightarrow> filesystem \<Rightarrow> int \<Rightarrow> int \<Rightarrow> bytes \<Rightarrow> bytes option result" where
  "gather mi s gpos remaining data =
     (if 0 < remaining \<and> gpos < torrent_length mi then
        (case file_at_pos mi gpos of
           Inl e \<Rightarrow> Inl e
         | Inr (fi, off, left) \<Rightarrow>
             (let file = path_append (m_name mi) (fi_path fi);
                  len = min left remaining
              in
              if fs_files s file = None \<and> file \<notin> fs_dirs s then Inr None
              else if off < 0 then Inl (System_error ''seekg'')
              else bindE (fst (fs_read_at file (nat off) (nat len) s)) (\<lambda>d.
                   gather mi s (gpos + len) (remaining - len) (data @ d))))
      else Inr (Some data))"
  by pat_completeness auto

termination gather
  by (relation "measure (\<lambda>(mi, s, gpos, remaining, data). nat remaining)")
    (auto dest: file_at_pos_left)

declare gather.simps [simp del]

definition read_piece_multi :: "metainfo \<Rightarrow> u32 \<Rightarrow> filesystem \<Rightarrow> bytes option result" where
  "read_piece_multi mi i s = gather mi s (uint (i * m_piece_length mi)) (uint (m_piece_length mi)) []"

definition verify_piece ::
    "(metainfo \<Rightarrow> u32 \<Rightarrow> filesystem \<Rightarrow> bytes option result) \<Rightarrow> (bytes \<Rightarrow> string) \<Rightarrow> filesystem \<Rightarrow> u32
      \<Rightarrow> torrent \<times> u32 \<Rightarrow> (torrent \<times> u32) result" where
  "verify_piece read sha1 s i v =
     bindE (read (meta (fst v)) i s) (\<lambda>d. case d of None \<Rightarrow> Inr v | Some data \<Rightarrow> match_piece sha1 i data v)"

definition verify_piece_single_file ::
    "int \<Rightarrow> (bytes \<Rightarrow> string) \<Rightarrow> filesystem \<Rightarrow> u32 \<Rightarrow> torrent \<times> u32 \<Rightarrow> (torrent \<times> u32) result" where
  "verify_piece_single_file file_length = verify_piece (read_piece_single file_length)"

definition verify_piece_multi_file ::
    "(bytes \<Rightarrow> string) \<Rightarrow> filesystem \<Rightarrow> u32 \<Rightarrow> torrent \<times> u32 \<Rightarrow> (torrent \<times> u32) result" where
  "verify_piece_multi_file = verify_piece read_piece_multi"

section \<open>The verification of existing files\<close>

definition for_each_piece ::
    "(u32 \<Rightarrow> torrent \<times> u32 \<Rightarrow> (torrent \<times> u32) result) \<Rightarrow> u32 list \<Rightarrow> torrent \<Rightarrow> (torrent \<times> u32) outcome" where
  "for_each_piece f order t =
     (case foldE f order (t, 0) of Inl e \<Rightarrow> Terminate | Inr v \<Rightarrow> Normal (Inr v))"

text \<open>The name under which the content is looked for, and what the scan of it gives.\<close>

definition path_exists :: "filesystem \<Rightarrow> string \<Rightarrow> bool" where
  "path_exists s p \<longleftrightarrow> fs_files s p \<noteq> None \<or> p \<in> fs_dirs s"

definition scan_meta :: "metainfo \<Rightarrow> filesystem \<Rightarrow> metainfo" where
  "scan_meta mi s = (if path_exists s (m_name mi) then mi\<lparr>m_tmpfile := m_name mi\<rparr> else mi)"

definition scan_pieces :: "(bytes \<Rightarrow> string) \<Rightarrow> u32 list \<Rightarrow> torrent \<Rightarrow> filesystem \<Rightarrow> (torrent \<times> u32) outcome" where
  "scan_pieces sha1 order t s =
     (if is_single_file (meta t) then
        (case fst (fs_file_size (m_tmpfile (meta t)) s) of
           Inl e \<Rightarrow> Normal (Inl e)
         | Inr file_length \<Rightarrow> for_each_piece (verify_piece_single_file (int file_length) sha1 s) order t)
      else for_each_piece (verify_piece_multi_file sha1 s) order t)"

definition verify_existing_file :: "(bytes \<Rightarrow> string) \<Rightarrow> u32 list \<Rightarrow> torrent \<Rightarrow> filesystem \<Rightarrow> torrent outcome" where
  "verify_existing_file sha1 order t s =
     (let full_file = (is_single_file (meta t) \<and> path_exists s (m_name (meta t))) in
      if full_file \<and> path_exists s (m_tmpfile (meta t))
      then Normal (Inl (Runtime_error ''Temporary and full filename exists''))
      else
        let t1 = t\<lparr>meta := scan_meta (meta t) s\<rparr> in
        if \<not> path_exists s (m_tmpfile (meta t1)) then Normal (Inr t1)
        else
          (case scan_pieces sha1 order t1 s of
             Terminate \<Rightarrow> Terminate
           | Normal (Inl e) \<Rightarrow> Normal (Inl e)
           | Normal (Inr (t2, num_pieces)) \<Rightarrow>
               (if full_file \<and> unat num_pieces \<noteq> length (m_pieces (meta t2))
                then Normal (Inl (Runtime_error ''Filename exists but does not match all pieces''))
                else Normal (Inr t2))))"

section \<open>The bytes the helpers hash\<close>

lemma piece_size_min:
  assumes "small_torrent mi" and "unat i < length (m_pieces mi)" and "piece_length_at mi i = Inr l"
  shows "uint l = min (uint (m_piece_length mi)) (torrent_length mi - uint i * uint (m_piece_length mi))"
proof -
  have "uint i * uint (m_piece_length mi) + uint l = torrent_length mi
      \<or> uint i * uint (m_piece_length mi) + uint l = (uint i + 1) * uint (m_piece_length mi)"
    using piece_tiles [of "unat i" mi] assms by (auto simp: small_torrent_def pieces_fit_def add.commute)
  then show ?thesis
    using piece_position(3,4) [OF assms] by (auto simp: distrib_right)
qed

lemma piece_length_some:
  "small_torrent mi \<Longrightarrow> unat i < length (m_pieces mi) \<Longrightarrow> \<exists>l. piece_length_at mi i = Inr l"
  using piece_tiles [of "unat i" mi] by (auto simp: small_torrent_def pieces_fit_def)

lemma read_piece_single_slice:
  assumes "is_single_file mi" and "small_torrent mi" and "store_present mi s" and "unat i < length (m_pieces mi)"
  shows "read_piece_single (torrent_length mi) mi i s = Inr (Some (slice mi (store_stream mi s) i))"
proof -
  obtain l where l: "piece_length_at mi i = Inr l"
    using piece_length_some assms(2,4) by blast
  obtain c where c: "fs_files s (m_tmpfile mi) = Some c" "int (length c) = torrent_length mi"
    using assms(1,3) by (auto simp: store_present_def single_present_def split: option.splits)
  then have stream: "store_stream mi s = c"
    using assms(1) by (simp add: store_stream_def single_stream_def)
  define tail where "tail = torrent_length mi - uint (i * m_piece_length mi)"
  note pos = piece_position [OF assms(2,4) l]
  have tail: "0 \<le> tail" "tail < 2 ^ 32" "tail < 2 ^ 64"
    using pos(1,3) assms(2) by (auto simp: tail_def small_torrent_def) (smt (verit) uint_ge_0)+
  have cast: "numeric_cast uint32_t uint64_t (tail mod 2 ^ 64) = Inr tail"
    using tail by (simp add: numeric_cast_def static_cast_def ity_max_def take_bit_int_eq_self)
  have "uint (of_int tail :: u32) = tail"
    using tail by (simp add: uint_word_of_int_eq take_bit_int_eq_self)
  moreover have "uint (min (m_piece_length mi) (of_int tail)) = min (uint (m_piece_length mi)) (uint (of_int tail :: u32))"
    by (simp add: min_def word_le_def)
  ultimately have "uint (min (m_piece_length mi) (of_int tail)) = uint l"
    using piece_size_min [OF assms(2,4) l] pos(1) by (simp add: tail_def)
  then have len: "min (m_piece_length mi) (of_int tail) = l"
    by (simp add: word_uint_eq_iff)
  have "int (unat (i * m_piece_length mi) + unat l) \<le> int (length c)"
    using pos(1,3) c(2) by simp
  then have "unat (i * m_piece_length mi) + unat l \<le> length c"
    by linarith
  then show ?thesis
    using c(1) cast len pos(2) l
    by (simp add: read_piece_single_def fs_defs tail_def [symmetric] stream slice_def)
qed

lemma gather_stream:
  assumes "multi_present mi s" and "\<not> is_single_file mi"
    and "0 \<le> gpos" and "gpos \<le> torrent_length mi" and "0 \<le> rem"
  shows "gather mi s gpos rem data =
    Inr (Some (data @ take (nat (min rem (torrent_length mi - gpos))) (drop (nat gpos) (multi_stream mi s))))"
  using assms(3-5)
proof (induction "nat rem" arbitrary: gpos rem data rule: less_induct)
  case less
  show ?case
  proof (cases "0 < rem \<and> gpos < torrent_length mi")
    case False
    then have "min rem (torrent_length mi - gpos) = 0"
      using less.prems by auto
    moreover have "gather mi s gpos rem data = Inr (Some data)"
      unfolding gather.simps [of mi s gpos] using False by (rule if_not_P)
    ultimately show ?thesis
      by simp
  next
    case True
    have files: "files_present s (m_name mi) (m_files mi)" and len0: "m_length mi = 0"
      using assms(1,2) by (simp_all add: multi_present_def is_single_file_def)
    obtain i off where loc: "located (m_files mi) i off gpos"
      and at: "file_at_pos mi gpos = Inr (m_files mi ! i, off, fi_length (m_files mi ! i) - off)"
      using file_at_pos_multi [OF files len0] less.prems True multi_length [OF assms(2)] by metis
    define l where "l = min (fi_length (m_files mi ! i) - off) rem"
    have i: "i < length (m_files mi)" "m_files mi ! i \<in> set (m_files mi)" and off: "0 \<le> off"
      using loc by (simp_all add: located_def)
    have l: "0 < l" "l \<le> rem" "off + l \<le> fi_length (m_files mi ! i)"
      using loc True by (auto simp: located_def l_def)
    define c where "c = file_bytes s (m_name mi) (m_files mi ! i)"
    have c: "fs_files s (path_append (m_name mi) (fi_path (m_files mi ! i))) = Some c"
      "int (length c) = fi_length (m_files mi ! i)"
      using files i(2) by (auto simp: files_present_def c_def file_bytes_def file_path_def)
    have fits: "nat off + nat l \<le> length c"
      using l(1,3) off c(2) by linarith
    have end_file: "gpos + l \<le> torrent_length mi"
    proof -
      have "nat gpos + nat l \<le> length (multi_stream mi s)"
      proof -
        have "take (Suc i) (map (file_bytes s (m_name mi)) (m_files mi)) @ drop (Suc i) (map (file_bytes s (m_name mi)) (m_files mi))
            = map (file_bytes s (m_name mi)) (m_files mi)"
          by simp
        then have "length (concat (take (Suc i) (map (file_bytes s (m_name mi)) (m_files mi)))) \<le> length (multi_stream mi s)"
          unfolding multi_stream_def disk_stream_def by (metis concat_append le_add1 length_append)
        then show ?thesis
          using located_start(1) [OF files loc] fits i(1) by (simp add: take_Suc_conv_app_nth c_def)
      qed
      moreover have "int (length (multi_stream mi s)) = torrent_length mi"
        using multi.stream_length [of mi s] assms(1,2) by simp
      ultimately show ?thesis
        using less.prems l(1) by linarith
    qed
    have piece: "take (nat l) (drop (nat off) c) = take (nat l) (drop (nat gpos) (multi_stream mi s))"
      using slice_concat [of i "map (file_bytes s (m_name mi)) (m_files mi)" "nat off" "nat l"] fits i(1)
        located_start(1) [OF files loc]
      by (simp add: multi_stream_def disk_stream_def c_def)
    have "gather mi s gpos rem data = gather mi s (gpos + l) (rem - l) (data @ take (nat l) (drop (nat off) c))"
      using True at c(1) fits off by (simp add: gather.simps [of mi s gpos] fs_defs l_def [symmetric] Let_def)
    also have "\<dots> = Inr (Some ((data @ take (nat l) (drop (nat off) c))
        @ take (nat (min (rem - l) (torrent_length mi - (gpos + l)))) (drop (nat (gpos + l)) (multi_stream mi s))))"
      using l end_file less.prems by (intro less.hyps) linarith+
    also have "(data @ take (nat l) (drop (nat off) c))
        @ take (nat (min (rem - l) (torrent_length mi - (gpos + l)))) (drop (nat (gpos + l)) (multi_stream mi s))
      = data @ take (nat (min rem (torrent_length mi - gpos))) (drop (nat gpos) (multi_stream mi s))"
    proof -
      have "nat (min rem (torrent_length mi - gpos)) = nat l + nat (min (rem - l) (torrent_length mi - (gpos + l)))"
        "nat (gpos + l) = nat gpos + nat l"
        using l end_file less.prems by linarith+
      then show ?thesis
        unfolding piece by (simp add: take_add add.commute [of _ "nat l"])
    qed
    finally show ?thesis .
  qed
qed

lemma read_piece_multi_slice:
  assumes "\<not> is_single_file mi" and "small_torrent mi" and "store_present mi s" and "unat i < length (m_pieces mi)"
  shows "read_piece_multi mi i s = Inr (Some (slice mi (store_stream mi s) i))"
proof -
  obtain l where l: "piece_length_at mi i = Inr l"
    using piece_length_some assms(2,4) by blast
  note pos = piece_position [OF assms(2,4) l]
  have "uint (i * m_piece_length mi) \<le> torrent_length mi"
    using pos(1,3) by (smt (verit) uint_ge_0)
  then have "read_piece_multi mi i s = Inr (Some (take (nat (uint l))
      (drop (nat (uint (i * m_piece_length mi))) (multi_stream mi s))))"
    using assms(1,3) piece_size_min [OF assms(2,4) l] pos(1)
    by (simp add: read_piece_multi_def gather_stream store_present_def)
  also have "nat (uint (i * m_piece_length mi)) = unat i * unat (m_piece_length mi)"
    using pos(2) by simp
  finally show ?thesis
    using assms(1) l by (simp add: slice_def store_stream_def)
qed

section \<open>What a scan marks\<close>

lemma mark_verified_meta: "mark_verified i t = Inr t' \<Longrightarrow> meta t' = meta t"
proof -
  have active: "active_piece i True u = Inr (r, u') \<Longrightarrow> meta u' = meta u" for u r u'
    by (cases "map_of (m_active_pieces u) i") (auto simp: active_piece_def Let_def result_simps)
  assume "mark_verified i t = Inr t'"
  then obtain r t1 where r: "active_piece i True (t\<lparr>m_client_pieces := bf_set (m_client_pieces t) (unat i) True\<rparr>) = Inr (r, t1)"
    and t': "(case r of None \<Rightarrow> Inr t1 | Some loc \<Rightarrow> Inr (set_heap loc (set_piece_written True (pieces_heap t1 ! loc)) t1))
        = (Inr t' :: torrent result)"
    unfolding mark_verified_def bindE_eq_Inr by (auto simp only: split_paired_Ex fst_conv snd_conv)
  from t' have "meta t' = meta t1"
    by (cases r) auto
  with active [OF r] show "meta t' = meta t"
    by simp
qed

text \<open>
  Both helpers read the slice of their piece; a scan with such a helper marks the pieces whose
  slice has the digest of the metainfo, in the order of the scan, and counts them.
\<close>

locale piece_reader =
  fixes mode :: "metainfo \<Rightarrow> bool"
    and read :: "metainfo \<Rightarrow> u32 \<Rightarrow> filesystem \<Rightarrow> bytes option result"
  assumes read_slice: "mode mi \<Longrightarrow> small_torrent mi \<Longrightarrow> store_present mi s \<Longrightarrow> unat i < length (m_pieces mi) \<Longrightarrow>
    read mi i s = Inr (Some (slice mi (store_stream mi s) i))"
begin

lemma verify_piece_eq:
  assumes "mode (meta t)" and "small_torrent (meta t)" and "store_present (meta t) s"
    and "unat i < length (m_pieces (meta t))"
  shows "verify_piece read sha1 s i (t, num) =
    (if piece_verified sha1 (meta t) (store_stream (meta t) s) i
     then bindE (mark_verified i t) (\<lambda>t'. Inr (t', num + 1)) else Inr (t, num))"
  using assms by (auto simp: verify_piece_def read_slice match_piece_def piece_verified_def vec_at_def)

lemma scan_marks:
  assumes "mode (meta t)" and "small_torrent (meta t)" and "store_present (meta t) s"
    and "\<forall>i \<in> set order. unat i < length (m_pieces (meta t))"
  shows "foldE (verify_piece read sha1 s) order (t, num) =
    bindE (foldE mark_verified (filter (piece_verified sha1 (meta t) (store_stream (meta t) s)) order) t)
      (\<lambda>t'. Inr (t', num + of_nat (length (filter (piece_verified sha1 (meta t) (store_stream (meta t) s)) order))))"
  using assms
proof (induction order arbitrary: t num)
  case (Cons i order)
  show ?case
  proof (cases "piece_verified sha1 (meta t) (store_stream (meta t) s) i")
    case True
    show ?thesis
    proof (cases "mark_verified i t")
      case (Inr t1)
      then have "meta t1 = meta t"
        by (rule mark_verified_meta)
      with Cons.IH [of t1 "num + 1"] Cons.prems True Inr show ?thesis
        by (simp add: verify_piece_eq add.assoc)
    qed (use Cons.prems True in \<open>simp add: verify_piece_eq\<close>)
  qed (use Cons in \<open>simp add: verify_piece_eq\<close>)
qed simp

end

interpretation single_reader: piece_reader "\<lambda>mi. is_single_file mi \<and> torrent_length mi = len" "read_piece_single len" for len
  by unfold_locales (use read_piece_single_slice in blast)

interpretation multi_reader: piece_reader "\<lambda>mi. \<not> is_single_file mi" read_piece_multi
  by unfold_locales (rule read_piece_multi_slice)

lemma mark_verified_fresh:
  assumes "map_of (m_active_pieces t) i = None" and "piece_length_at (meta t) i = Inr l"
  shows "mark_verified i t = Inr (t\<lparr>m_client_pieces := bf_set (m_client_pieces t) (unat i) True,
    pieces_heap := pieces_heap t @ [set_piece_written True (new_piece i l)],
    m_active_pieces := smap_put i (length (pieces_heap t)) (m_active_pieces t)\<rparr>)"
  using assms by (simp add: mark_verified_def active_piece_def set_heap_def Let_def)

text \<open>Every piece of the map of active pieces has been written and has all its blocks.\<close>

definition all_written :: "torrent \<Rightarrow> bool" where
  "all_written t \<longleftrightarrow> (\<forall>i loc. map_of (m_active_pieces t) i = Some loc \<longrightarrow>
     m_piece_written (pieces_heap t ! loc) \<and> all_done (pieces_heap t ! loc))"

lemma all_done_written: "piece_ok p \<Longrightarrow> all_done (set_piece_written w p)"
  using set_piece_written_props(2) [of p w] by (simp add: all_done_def) (simp add: set_piece_written_def blocks_of_size)

lemma written_done_iff:
  assumes "torrent_ok t" and "all_written t" and "m_pieces (meta t) \<noteq> []"
    and "bf_indices (m_client_pieces t) \<subseteq> {..<length (m_pieces (meta t))}"
  shows "torrent_done t \<longleftrightarrow> bf_indices (m_client_pieces t) = {..<length (m_pieces (meta t))}"
proof -
  have "distinct (map fst (m_active_pieces t))"
    using assms(1) by (simp add: torrent_ok_def smap_ok_def strict_sorted_iff)
  then have "\<not> list_ex (\<lambda>e. \<not> m_piece_written (pieces_heap t ! snd e)) (m_active_pieces t)"
    using assms(2) by (auto simp: list_ex_iff all_written_def)
  moreover have "card (bf_indices (m_client_pieces t)) = length (m_pieces (meta t))
      \<longleftrightarrow> bf_indices (m_client_pieces t) = {..<length (m_pieces (meta t))}"
    using assms(4) by (metis card_lessThan card_subset_eq finite_lessThan)
  ultimately show ?thesis
    using assms(3) by (simp add: torrent_done_def bf_count_card)
qed

lemma mark_all:
  assumes "torrent_ok t" and "all_written t" and "distinct ids" and "small_torrent (meta t)"
    and "\<forall>i \<in> set ids. unat i < length (m_pieces (meta t)) \<and> map_of (m_active_pieces t) i = None"
  shows "\<exists>t'. foldE mark_verified ids t = Inr t' \<and> torrent_ok t' \<and> all_written t' \<and> meta t' = meta t
    \<and> bf_indices (m_client_pieces t') = bf_indices (m_client_pieces t) \<union> unat ` set ids
    \<and> bf_size (m_client_pieces t') \<le> max (bf_size (m_client_pieces t)) (length (m_pieces (meta t)) + 7)"
  using assms
proof (induction ids arbitrary: t)
  case (Cons i ids)
  obtain l where l: "piece_length_at (meta t) i = Inr l"
    using piece_length_some [of "meta t" i] Cons.prems(4,5) by auto
  define t1 where "t1 = t\<lparr>m_client_pieces := bf_set (m_client_pieces t) (unat i) True,
    pieces_heap := pieces_heap t @ [set_piece_written True (new_piece i l)],
    m_active_pieces := smap_put i (length (pieces_heap t)) (m_active_pieces t)\<rparr>"
  have step: "mark_verified i t = Inr t1"
    using mark_verified_fresh [OF _ l] Cons.prems(5) by (simp add: t1_def)
  have ok: "torrent_ok t1" and m: "meta t1 = meta t"
    using torrent_ok_verified [OF Cons.prems(1) step] by simp_all
  have "\<And>j loc. map_of (m_active_pieces t) j = Some loc \<Longrightarrow> loc < length (pieces_heap t)"
    using Cons.prems(1) by (simp add: torrent_ok_def)
  then have w: "all_written t1"
    using Cons.prems(2) all_done_written [OF piece_ok_new]
    by (auto simp: all_written_def t1_def smap_simps nth_append)
  have fresh: "\<forall>j \<in> set ids. map_of (m_active_pieces t1) j = None"
    using Cons.prems(3,5) by (auto simp: t1_def smap_simps)
  have "bf_indices (m_client_pieces t1) = insert (unat i) (bf_indices (m_client_pieces t))"
    by (auto simp: t1_def bf_indices_def bf_test_set)
  moreover have "bf_size (m_client_pieces t1) \<le> max (bf_size (m_client_pieces t)) (length (m_pieces (meta t)) + 7)"
    using Cons.prems(5) by (simp add: t1_def bf_size_set) linarith
  ultimately show ?case
    using Cons.IH [OF ok w] Cons.prems m fresh step by fastforce
qed (simp add: torrent_ok_def)

section \<open>What the verification of existing files finds\<close>

lemma with_tmpfile [simp]:
  "is_single_file (mi\<lparr>m_tmpfile := p\<rparr>) = is_single_file mi"
  "torrent_length (mi\<lparr>m_tmpfile := p\<rparr>) = torrent_length mi"
  "piece_length_at (mi\<lparr>m_tmpfile := p\<rparr>) i = piece_length_at mi i"
  "small_torrent (mi\<lparr>m_tmpfile := p\<rparr>) = small_torrent mi"
  by (simp_all add: is_single_file_def torrent_length_def piece_length_at_def small_torrent_def pieces_fit_def
      cong: if_cong)

lemma scan_meta_simps [simp]:
  "is_single_file (scan_meta mi s) = is_single_file mi" "torrent_length (scan_meta mi s) = torrent_length mi"
  "small_torrent (scan_meta mi s) = small_torrent mi" "m_pieces (scan_meta mi s) = m_pieces mi"
  by (simp_all add: scan_meta_def)

lemma small_torrent_count:
  assumes "small_torrent mi"
  shows "0 < length (m_pieces mi)" and "length (m_pieces mi) < 2 ^ 32"
proof -
  define n pl where "n = length (m_pieces mi)" and "pl = uint (m_piece_length mi)"
  have fit: "int (n - 1) * pl < torrent_length mi" "torrent_length mi \<le> int n * pl" "torrent_length mi < 2 ^ 32"
    using assms by (simp_all add: small_torrent_def pieces_fit_def n_def pl_def)
  show "0 < length (m_pieces mi)"
    using fit by (cases n) (auto simp: n_def)
  have "0 \<le> pl" "pl \<noteq> 0"
    using fit by (auto simp: pl_def)
  then have "0 < pl"
    by linarith
  then have "int (n - 1) * 1 \<le> int (n - 1) * pl"
    by (intro mult_left_mono) simp_all
  then have "int (n - 1) + 1 < 2 ^ 32"
    using fit(1,3) by linarith
  then show "length (m_pieces mi) < 2 ^ 32"
    by (simp add: n_def)
qed

lemma card_unat: "distinct (is :: u32 list) \<Longrightarrow> card (unat ` set is) = length is"
  by (subst card_image) (auto simp: inj_on_def distinct_card word_unat_eq_iff)

lemma scan_pieces_eq:
  assumes "small_torrent (meta t)" and "store_present (meta t) s"
    and "\<forall>i \<in> set order. unat i < length (m_pieces (meta t))"
    and "foldE mark_verified (filter (piece_verified sha1 (meta t) (store_stream (meta t) s)) order) t = Inr t'"
  shows "scan_pieces sha1 order t s = Normal (Inr (t',
    of_nat (length (filter (piece_verified sha1 (meta t) (store_stream (meta t) s)) order))))"
proof (cases "is_single_file (meta t)")
  case True
  then obtain c where c: "fs_files s (m_tmpfile (meta t)) = Some c" "int (length c) = torrent_length (meta t)"
    using assms(2) by (auto simp: store_present_def single_present_def split: option.splits)
  with single_reader.scan_marks [of t "torrent_length (meta t)" s order sha1 0] assms True show ?thesis
    by (simp add: scan_pieces_def for_each_piece_def verify_piece_single_file_def fs_defs)
next
  case False
  with multi_reader.scan_marks [OF False assms(1-3), of sha1 0] assms(4) show ?thesis
    by (simp add: scan_pieces_def for_each_piece_def verify_piece_multi_file_def)
qed

lemma present_exists: "store_present mi s \<Longrightarrow> path_exists s (m_tmpfile mi)"
  by (auto simp: store_present_def single_present_def multi_present_def path_exists_def split: if_splits option.splits)

lemma verify_existing_scan:
  assumes "small_torrent mi" and "distinct order" and "unat ` set order = {..<length (m_pieces mi)}"
    and "store_present (scan_meta mi s) s"
    and "\<not> (is_single_file mi \<and> path_exists s (m_name mi) \<and> path_exists s (m_tmpfile mi))"
  shows "\<exists>t'. foldE mark_verified (filter (piece_verified sha1 (scan_meta mi s) (store_stream (scan_meta mi s) s)) order)
      ((new_torrent mi)\<lparr>meta := scan_meta mi s\<rparr>) = Inr t' \<and> torrent_ok t' \<and> meta t' = scan_meta mi s
    \<and> bf_indices (m_client_pieces t') = {k. k < length (m_pieces mi)
        \<and> piece_verified sha1 (scan_meta mi s) (store_stream (scan_meta mi s) s) (of_nat k)}
    \<and> (torrent_done t' \<longleftrightarrow> bf_indices (m_client_pieces t') = {..<length (m_pieces mi)})
    \<and> verify_existing_file sha1 order (new_torrent mi) s =
        Normal (if is_single_file mi \<and> path_exists s (m_name mi) \<and> \<not> torrent_done t'
                then Inl (Runtime_error ''Filename exists but does not match all pieces'') else Inr t')
    \<and> all_written t' \<and> bf_size (m_client_pieces t') \<le> length (m_pieces mi) + 7"
proof -
  define m1 V where "m1 = scan_meta mi s" and "V = piece_verified sha1 m1 (store_stream m1 s)"
  define t where "t = (new_torrent mi)\<lparr>meta := m1\<rparr>"
  define n where "n = length (m_pieces mi)"
  have m: "meta t = m1" and n: "0 < n" "n < 2 ^ 32"
    using small_torrent_count [OF assms(1)] by (simp_all add: t_def n_def)
  have ok: "torrent_ok t" "all_written t" "bf_indices (m_client_pieces t) = {}"
    by (simp_all add: t_def new_torrent_def torrent_ok_def all_written_def bf_indices_def)
  have ids: "\<forall>i \<in> set order. unat i < n"
    using assms(3) by (auto simp: n_def)
  obtain t' where t': "foldE mark_verified (filter V order) t = Inr t'" "torrent_ok t'" "all_written t'" "meta t' = m1"
    and bits: "bf_indices (m_client_pieces t') = unat ` set (filter V order)" and sz: "bf_size (m_client_pieces t') \<le> n + 7"
    using mark_all [OF ok(1,2), of "filter V order"] ok(3) ids assms(1,2)
    by (auto simp: m m1_def n_def t_def new_torrent_def bf_size_def bf_empty_def)
  have bits_eq: "bf_indices (m_client_pieces t') = {k. k < n \<and> V (of_nat k)}"
  proof -
    have "unat ` {i \<in> set order. V i} = {k \<in> unat ` set order. V (of_nat k)}"
      by auto
    then show ?thesis
      using bits assms(3) by (auto simp: n_def)
  qed
  have card: "bf_count (m_client_pieces t') = length (filter V order)"
    unfolding bf_count_card bits using assms(2) by (intro card_unat) simp
  have "length order = n"
    using card_unat [OF assms(2)] assms(3) by (simp add: n_def)
  then have le: "length (filter V order) \<le> n"
    by (metis length_filter_le)
  have done2: "torrent_done t' \<longleftrightarrow> bf_indices (m_client_pieces t') = {..<n}"
    using written_done_iff [OF t'(2,3)] bits_eq n(1) by (auto simp: t'(4) m1_def n_def)
  then have done1: "torrent_done t' \<longleftrightarrow> length (filter V order) = n"
    using card bits_eq by (metis (no_types, lifting) bf_count_card card_lessThan card_subset_eq finite_lessThan lessThan_iff mem_Collect_eq subsetI)
  have scan: "scan_pieces sha1 order t s = Normal (Inr (t', of_nat (length (filter V order))))"
    using scan_pieces_eq [of t s order sha1 t'] t'(1) assms(1,4) ids
    by (simp add: m m1_def V_def n_def)
  have "unat (of_nat (length (filter V order)) :: u32) = length (filter V order)"
    using le n(2) by (intro unat_of_nat_less) simp
  then have "verify_existing_file sha1 order (new_torrent mi) s =
      Normal (if is_single_file mi \<and> path_exists s (m_name mi) \<and> \<not> torrent_done t'
        then Inl (Runtime_error ''Filename exists but does not match all pieces'') else Inr t')"
    using assms(5) present_exists [OF assms(4)] scan done1 t'(4)
    by (auto simp: verify_existing_file_def Let_def t_def m1_def n_def new_torrent_def)
  then show ?thesis
    using t' bits_eq done2 sz by (auto simp: m1_def V_def n_def t_def)
qed

text \<open>
  C5.  When the program starts with content on disk, the pieces that count as received are
  exactly those whose bytes on disk have the digest of the metainfo, for single-file and
  multi-file torrents below 4 GiB, in whatever order the pieces are checked; the torrent is done
  when all of them match, and a file under the final name with a wrong piece is refused.
\<close>

theorem verify_existing_exact:
  assumes "small_torrent mi" and "distinct order" and "unat ` set order = {..<length (m_pieces mi)}"
    and "store_present (scan_meta mi s) s"
    and "\<not> (is_single_file mi \<and> path_exists s (m_name mi) \<and> path_exists s (m_tmpfile mi))"
  shows "\<exists>t'. torrent_ok t' \<and> meta t' = scan_meta mi s
    \<and> bf_indices (m_client_pieces t') = {k. k < length (m_pieces mi)
        \<and> piece_verified sha1 (scan_meta mi s) (store_stream (scan_meta mi s) s) (of_nat k)}
    \<and> (torrent_done t' \<longleftrightarrow> bf_indices (m_client_pieces t') = {..<length (m_pieces mi)})
    \<and> verify_existing_file sha1 order (new_torrent mi) s =
        Normal (if is_single_file mi \<and> path_exists s (m_name mi) \<and> \<not> torrent_done t'
                then Inl (Runtime_error ''Filename exists but does not match all pieces'') else Inr t')"
  using verify_existing_scan [OF assms, of sha1] by blast

definition half_sha1 :: "bytes \<Rightarrow> string" where
  "half_sha1 d = (if d = [1, 2, 3, 4] then replicate 20 (CHR ''x'') else [])"

lemma tiny_slices:
  "slice tiny_meta (store_stream tiny_meta tiny_fs) 0 = [1, 2, 3, 4]"
  "slice tiny_meta (store_stream tiny_meta tiny_fs) 1 = [5, 6, 7, 8]"
  using tiny_piece_length [of 0] tiny_piece_length [of 1] tiny_length
  by (simp_all add: slice_def store_stream_def single_stream_def tiny_fs_def) (simp_all add: tiny_meta_def sample_meta_def)

lemma tiny_half_verified:
  assumes "k < 2"
  shows "piece_verified half_sha1 tiny_meta (store_stream tiny_meta tiny_fs) (of_nat k) \<longleftrightarrow> k = 0"
proof -
  have "k = 0 \<or> k = 1"
    using assms by linarith
  moreover have "m_pieces tiny_meta = [replicate 20 (CHR ''x''), replicate 20 (CHR ''x'')]"
    by (simp add: tiny_meta_def sample_meta_def)
  ultimately show ?thesis
    using tiny_slices by (auto simp: piece_verified_def half_sha1_def)
qed

lemma tiny_scan_meta: "scan_meta tiny_meta tiny_fs = tiny_meta" "\<not> path_exists tiny_fs (m_name tiny_meta)"
  by (simp_all add: scan_meta_def path_exists_def tiny_fs_def tiny_meta_def sample_meta_def)

lemma tiny_store_present: "store_present tiny_meta tiny_fs"
  using tiny_length by (simp add: store_present_def single_present_def tiny_fs_def)

theorem verify_existing_exact_witness:
  "\<exists>t'. verify_existing_file half_sha1 [1, 0] (new_torrent tiny_meta) tiny_fs = Normal (Inr t')
    \<and> bf_indices (m_client_pieces t') = {0} \<and> \<not> torrent_done t'"
proof -
  have ids: "distinct [1, 0 :: u32]" "unat ` set [1, 0 :: u32] = {..<length (m_pieces tiny_meta)}"
    using tiny_length by auto
  have "k < 2 \<and> piece_verified half_sha1 tiny_meta (store_stream tiny_meta tiny_fs) (of_nat k) \<longleftrightarrow> k = 0" for k
    using tiny_half_verified by (cases "k < 2") simp_all
  then have found: "{k. k < length (m_pieces tiny_meta) \<and> piece_verified half_sha1 tiny_meta
      (store_stream tiny_meta tiny_fs) (of_nat k)} = {0}"
    by (simp only: tiny_length) simp
  have partial: "{0 :: nat} \<noteq> {..<length (m_pieces tiny_meta)}"
  proof
    assume "{0 :: nat} = {..<length (m_pieces tiny_meta)}"
    then have "(1 :: nat) \<in> {0}"
      by (simp only: tiny_length) simp
    then show False
      by simp
  qed
  have fresh: "\<not> (is_single_file tiny_meta \<and> path_exists tiny_fs (m_name tiny_meta) \<and> path_exists tiny_fs (m_tmpfile tiny_meta))"
    using tiny_scan_meta(2) by simp
  obtain t' where bits: "bf_indices (m_client_pieces t') = {0}"
    and fin: "torrent_done t' \<longleftrightarrow> bf_indices (m_client_pieces t') = {..<length (m_pieces tiny_meta)}"
    and run: "verify_existing_file half_sha1 [1, 0] (new_torrent tiny_meta) tiny_fs =
      Normal (if is_single_file tiny_meta \<and> path_exists tiny_fs (m_name tiny_meta) \<and> \<not> torrent_done t'
        then Inl (Runtime_error ''Filename exists but does not match all pieces'') else Inr t')"
    using verify_existing_exact [OF tiny_small ids, of tiny_fs half_sha1, unfolded tiny_scan_meta(1) found,
      OF tiny_store_present fresh] by (elim exE conjE) (rule that)
  have "\<not> torrent_done t'"
    using fin unfolding bits using partial by simp
  with bits run tiny_scan_meta(2) show ?thesis
    by (simp only: simp_thms if_False) blast
qed

section \<open>A verified start is a state of a download\<close>

lemma mark_verified_register:
  assumes "mark_verified i t = Inr t'"
  shows "mark_verified i (register_torrent t) = Inr (register_torrent t')"
proof -
  define t0 where "t0 = t\<lparr>m_client_pieces := bf_set (m_client_pieces t) (unat i) True\<rparr>"
  have active: "active_piece i True (register_torrent t0)
      = bindE (active_piece i True t0) (\<lambda>r. Inr (fst r, register_torrent (snd r)))"
  proof (cases "map_of (m_active_pieces t) i")
    case None
    then show ?thesis
      by (cases "piece_length_at (meta t) i")
        (simp_all add: active_piece_def register_torrent_def add_piece_callback_def t0_def Let_def)
  qed (simp add: active_piece_def register_torrent_def add_piece_callback_def t0_def)
  have eq: "register_torrent t0 =
      (register_torrent t)\<lparr>m_client_pieces := bf_set (m_client_pieces (register_torrent t)) (unat i) True\<rparr>"
    by (simp add: t0_def register_torrent_def add_piece_callback_def)
  have set: "set_heap loc p (register_torrent u) = register_torrent (set_heap loc p u)"
    "pieces_heap (register_torrent u) = pieces_heap u" for loc p u
    by (simp_all add: set_heap_def register_torrent_def add_piece_callback_def)
  obtain r t1 where "active_piece i True t0 = Inr (r, t1)"
    using assms by (auto simp: mark_verified_def t0_def [symmetric] result_simps)
  with assms show ?thesis
    by (cases r) (simp_all add: mark_verified_def eq [symmetric] t0_def [symmetric] active set)
qed

lemma marks_reach:
  assumes "foldE mark_verified ids t = Inr t'"
    and "\<forall>i \<in> set ids. piece_verified sha1 (meta t) (store_stream (meta t) s) i"
    and "download_reach sha1 lpw mi fs \<lparr>w_torrent = register_torrent t, w_fs = s, w_completed = n\<rparr>"
  shows "download_reach sha1 lpw mi fs \<lparr>w_torrent = register_torrent t', w_fs = s, w_completed = n\<rparr>"
  using assms
proof (induction ids arbitrary: t)
  case (Cons i ids)
  then obtain t1 where t1: "mark_verified i t = Inr t1" "foldE mark_verified ids t1 = Inr t'"
    by (auto simp: result_simps)
  have m: "meta t1 = meta t" "meta (register_torrent t) = meta t"
    using mark_verified_meta [OF t1(1)] by (simp_all add: register_torrent_def add_piece_callback_def)
  have "download_step sha1 lpw \<lparr>w_torrent = register_torrent t, w_fs = s, w_completed = n\<rparr>
      (\<lparr>w_torrent = register_torrent t, w_fs = s, w_completed = n\<rparr>\<lparr>w_torrent := register_torrent t1\<rparr>)"
    using Cons.prems(2) m(2) mark_verified_register [OF t1(1)] by (intro download_step.verified [where i = i]) simp_all
  then have "download_reach sha1 lpw mi fs \<lparr>w_torrent = register_torrent t1, w_fs = s, w_completed = n\<rparr>"
    using download_reach.step [OF Cons.prems(3)] by simp
  then show ?case
    using Cons.IH [OF t1(2)] Cons.prems(2) m(1) by simp
qed simp

lemma verified_start_reach:
  assumes "small_torrent mi" and "distinct order" and "unat ` set order = {..<length (m_pieces mi)}"
    and "store_present (scan_meta mi s) s"
    and "verify_existing_file sha1 order (new_torrent mi) s = Normal (Inr t')"
  shows "download_reach sha1 lpw (scan_meta mi s) s \<lparr>w_torrent = register_torrent t', w_fs = s, w_completed = 0\<rparr>"
proof -
  have "\<not> (is_single_file mi \<and> path_exists s (m_name mi) \<and> path_exists s (m_tmpfile mi))"
    using assms(5) by (auto simp: verify_existing_file_def new_torrent_def)
  from verify_existing_scan [OF assms(1-4) this, of sha1] obtain u
    where u: "foldE mark_verified (filter (piece_verified sha1 (scan_meta mi s) (store_stream (scan_meta mi s) s)) order)
      ((new_torrent mi)\<lparr>meta := scan_meta mi s\<rparr>) = Inr u"
    and run: "verify_existing_file sha1 order (new_torrent mi) s =
      Normal (if is_single_file mi \<and> path_exists s (m_name mi) \<and> \<not> torrent_done u
        then Inl (Runtime_error ''Filename exists but does not match all pieces'') else Inr u)"
    by blast
  have "t' = u"
    using assms(5) run by (auto split: if_splits)
  moreover have start: "(new_torrent mi)\<lparr>meta := scan_meta mi s\<rparr> = new_torrent (scan_meta mi s)"
    "meta (new_torrent (scan_meta mi s)) = scan_meta mi s"
    by (simp_all add: new_torrent_def)
  ultimately show ?thesis
    using marks_reach [OF u [unfolded start(1)], of sha1 s lpw "scan_meta mi s" s 0] download_reach.init start(2)
    by simp
qed

text \<open>
  C22.  A torrent that went through the verification of existing files and was then registered with
  the writer is a state the download model reaches, with nothing written yet: what is proved of
  downloads holds for resumed ones, too.
\<close>

theorem verified_start_resumes:
  assumes "small_torrent mi" and "distinct order" and "unat ` set order = {..<length (m_pieces mi)}"
    and "store_present (scan_meta mi s) s"
    and "verify_existing_file sha1 order (new_torrent mi) s = Normal (Inr t')"
  shows "download_reach sha1 lpw (scan_meta mi s) s \<lparr>w_torrent = register_torrent t', w_fs = s, w_completed = 0\<rparr>"
  using verified_start_reach [OF assms] .

theorem verified_start_resumes_witness:
  "\<exists>t'. verify_existing_file half_sha1 [0, 1] (new_torrent tiny_meta) tiny_fs = Normal (Inr t')
    \<and> download_reach half_sha1 (\<lambda>_. Inr ()) tiny_meta tiny_fs
        \<lparr>w_torrent = register_torrent t', w_fs = tiny_fs, w_completed = 0\<rparr>"
proof -
  have ids: "distinct [0, 1 :: u32]" "unat ` set [0, 1 :: u32] = {..<length (m_pieces tiny_meta)}"
    using tiny_length by auto
  obtain t' where t': "verify_existing_file half_sha1 [0, 1] (new_torrent tiny_meta) tiny_fs = Normal (Inr t')"
    using verify_existing_scan [OF tiny_small ids, of tiny_fs half_sha1] tiny_store_present
    by (auto simp: tiny_scan_meta)
  with verified_start_resumes [OF tiny_small ids, of tiny_fs half_sha1 t' "\<lambda>_. Inr ()"] tiny_store_present show ?thesis
    by (auto simp: tiny_scan_meta)
qed

section \<open>Where the scan ends the program\<close>

lemma verify_piece_meta:
  assumes "verify_piece read sha1 s i w = Inr w'"
  shows "meta (fst w') = meta (fst w)"
proof -
  have "meta (fst w') = meta (fst w)" if match: "match_piece sha1 i d w = Inr w'" for d
  proof (cases "sha1 d = m_pieces (meta (fst w)) ! unat i")
    case True
    then obtain t1 where "mark_verified i (fst w) = Inr t1" "w' = (t1, snd w + 1)"
      using match by (auto simp: match_piece_def result_simps vec_at_def split: if_splits)
    then show ?thesis
      using mark_verified_meta by simp
  qed (use match in \<open>auto simp: match_piece_def result_simps vec_at_def split: if_splits\<close>)
  then show ?thesis
    using assms by (auto simp: verify_piece_def result_simps split: option.splits)
qed

lemma foldE_fails:
  assumes "P v" and "\<And>i v v'. P v \<Longrightarrow> f i v = Inr v' \<Longrightarrow> P v'" and "i \<in> set xs" and "\<And>v. P v \<Longrightarrow> \<exists>e. f i v = Inl e"
  shows "\<exists>e. foldE f xs v = Inl e"
  using assms(1,3)
proof (induction xs arbitrary: v)
  case (Cons x xs)
  show ?case
  proof (cases "f x v")
    case (Inr v')
    then have "i \<in> set xs"
      using Cons.prems assms(4) [OF Cons.prems(1)] by auto
    with Cons.IH [of v'] assms(2) [OF Cons.prems(1) Inr] Inr show ?thesis
      by simp
  qed simp
qed simp

text \<open>
  C37.  The startup check of a single-file torrent ends the whole program, by an exception that
  leaves a parallel algorithm, when the file is 4 GiB or more past the start of some piece, or ends
  before that start: no torrent of 4 GiB and no truncated temporary file can be resumed.
\<close>

theorem verify_single_terminates:
  assumes "is_single_file mi" and "\<not> path_exists s (m_name mi)" and "fs_files s (m_tmpfile mi) = Some c"
    and "i \<in> set order" and "length c < 2 ^ 64"
    and "int (length c) < uint (i * m_piece_length mi) \<or> 2 ^ 32 \<le> int (length c) - uint (i * m_piece_length mi)"
  shows "verify_existing_file sha1 order (new_torrent mi) s = Terminate"
proof -
  define f where "f = verify_piece_single_file (int (length c)) sha1 s"
  have pos: "0 \<le> uint (i * m_piece_length mi)" "uint (i * m_piece_length mi) < 2 ^ 32"
    using unsigned_less [of "i * m_piece_length mi"] by simp_all
  define v where "v = (int (length c) - uint (i * m_piece_length mi)) mod 2 ^ 64"
  have "2 ^ 32 \<le> v \<and> v < 2 ^ 64"
  proof (cases "int (length c) < uint (i * m_piece_length mi)")
    case True
    have "(int (length c) - uint (i * m_piece_length mi) + 2 ^ 64) mod 2 ^ 64
        = int (length c) - uint (i * m_piece_length mi) + 2 ^ 64"
      using True pos(2) by (intro mod_pos_pos_trivial) simp_all
    then have "v = int (length c) - uint (i * m_piece_length mi) + 2 ^ 64"
      by (simp only: v_def mod_add_self2)
    moreover have "0 \<le> int (length c)"
      by simp
    ultimately show ?thesis
      using True pos by simp
  next
    case False
    have "int (length c) < 2 ^ 64"
      using assms(5) by (metis of_nat_less_iff of_nat_numeral of_nat_power)
    then have "v = int (length c) - uint (i * m_piece_length mi)"
      using False pos by (simp only: v_def) (intro mod_pos_pos_trivial; linarith)
    with False assms(6) \<open>int (length c) < 2 ^ 64\<close> pos show ?thesis
      by (intro conjI; linarith)
  qed
  then have "numeric_cast uint32_t uint64_t v = Inl (Out_of_range ''out of range'')"
    by (simp add: numeric_cast_def ity_max_def)
  moreover have "(int (length c) - uint (i * m_piece_length mi)) mod 18446744073709551616 = v"
    by (simp add: v_def)
  ultimately have fails: "\<exists>e. f i w = Inl e" if "meta (fst w) = mi" for w
    using that assms(3)
    by (simp add: f_def verify_piece_single_file_def verify_piece_def read_piece_single_def fs_defs Let_def)
  have keeps: "meta (fst w') = mi" if "meta (fst w) = mi" "f j w = Inr w'" for j w w'
    using verify_piece_meta [of _ sha1 s j w w'] that by (simp add: f_def verify_piece_single_file_def)
  have "meta (fst (new_torrent mi, 0 :: u32)) = mi"
    by (simp add: new_torrent_def)
  then have "\<exists>e. foldE f order (new_torrent mi, 0) = Inl e"
    by (rule foldE_fails [where P = "\<lambda>w. meta (fst w) = mi"]) (fact keeps assms(4) fails)+
  then obtain e where "foldE f order (new_torrent mi, 0) = Inl e"
    by blast
  moreover have "scan_meta mi s = mi" "meta (new_torrent mi) = mi"
    using assms(2) by (simp_all add: scan_meta_def new_torrent_def)
  moreover have same: "(new_torrent mi)\<lparr>meta := mi\<rparr> = new_torrent mi"
    by (simp add: new_torrent_def)
  ultimately show ?thesis
    using assms(1-3)
    by (simp add: same verify_existing_file_def scan_pieces_def for_each_piece_def fs_defs f_def path_exists_def)
qed

theorem verify_single_terminates_witness:
  "verify_existing_file tiny_sha1 [0, 1] (new_torrent tiny_meta)
     \<lparr>fs_files = [m_tmpfile tiny_meta \<mapsto> [1, 2, 3]], fs_dirs = {}\<rparr> = Terminate"
  using tiny_length
  by (intro verify_single_terminates [where i = 1 and c = "[1, 2, 3]"])
    (auto simp: path_exists_def tiny_meta_def sample_meta_def)

end
