(* ===== verification/TorrentWriter.thy ===== *)
theory TorrentWriter
  imports Args Verify
begin

text \<open>
  \<^verbatim>\<open>src/torrent_writer/torrent_writer.cpp\<close>: the program that makes a torrent file for a
  file or a directory.  What is found at the data path is a value of \<open>data_path\<close>, with the
  directory entries in the order of the iterator; the digest and the time are parameters.  The
  theorems relate it to the client: what it writes is read back by the client, and the client
  finds the data complete.
\<close>

section \<open>Cutting a stream into pieces\<close>

text \<open>A stream that is read byte by byte: what is left, and whether it is still good.\<close>

definition read_chunk :: "nat \<Rightarrow> bytes \<times> bool \<Rightarrow> bytes \<times> (bytes \<times> bool)" where
  "read_chunk n ss =
     (if \<not> snd ss then ([], ss)
      else if n \<le> length (fst ss) then (take n (fst ss), (drop n (fst ss), True))
      else (fst ss, ([], False)))"

function later_chunks :: "nat \<Rightarrow> bytes \<times> bool \<Rightarrow> bytes list" where
  "later_chunks m ss =
     (if snd ss then
        (case read_chunk m ss of
           (chunk, ss') \<Rightarrow> if chunk \<noteq> [] then chunk # later_chunks m ss' else [])
      else [])"
  by pat_completeness auto

termination later_chunks
  by (relation "measure (\<lambda>(m, ss). length (fst ss))") (auto simp: read_chunk_def split: if_splits)

declare later_chunks.simps [simp del]

definition get_chunks :: "bytes \<Rightarrow> nat \<Rightarrow> nat \<Rightarrow> bytes list" where
  "get_chunks bs n m =
     (let (chunk, ss) = read_chunk n (bs, True)
      in (if chunk \<noteq> [] then [chunk] else []) @ later_chunks m ss)"

text \<open>\<^verbatim>\<open>std::ranges::views::chunk\<close>, whose argument must be positive.\<close>

function view_chunks :: "nat \<Rightarrow> 'a list \<Rightarrow> 'a list list" where
  "view_chunks k xs = (if k = 0 \<or> xs = [] then [] else take k xs # view_chunks k (drop k xs))"
  by pat_completeness auto

termination view_chunks
  by (relation "measure (\<lambda>(k, xs). length xs)") auto

declare view_chunks.simps [simp del]

definition add_chunk :: "(bytes \<Rightarrow> string) \<Rightarrow> nat \<Rightarrow> bytes \<Rightarrow> bytes \<times> string \<Rightarrow> bytes \<times> string" where
  "add_chunk sha1 pl chunk ps =
     (let piece_data = fst ps @ chunk in
      if length piece_data = pl then ([], snd ps @ sha1 piece_data) else (piece_data, snd ps))"

definition hash_file :: "(bytes \<Rightarrow> string) \<Rightarrow> nat \<Rightarrow> bytes \<Rightarrow> bytes \<times> string \<Rightarrow> bytes \<times> string" where
  "hash_file sha1 pl bs ps = fold (add_chunk sha1 pl) (get_chunks bs (size_sub pl (length (fst ps))) pl) ps"

section \<open>Writing a torrent file\<close>

datatype dir_entry =
    Regular_file bytes
  | Unreadable_file nat
  | Not_regular

datatype data_path =
    Data_file dir_entry
  | Data_directory "(string list \<times> dir_entry) list"

definition path_filename :: "string \<Rightarrow> string" where
  "path_filename p = rev (takeWhile (\<lambda>c. c \<noteq> CHR ''/'') (rev p))"

definition single_info :: "(bytes \<Rightarrow> string) \<Rightarrow> u32 \<Rightarrow> string \<Rightarrow> bytes \<Rightarrow> ((string, elem) smap \<times> string) result" where
  "single_info sha1 piece_length name bs =
     (let info = smap_put ''name'' (BeStr name) [];
          info = smap_put ''name.utf-8'' (BeStr name) info;
          info = smap_put ''length'' (BeInt (static_cast int64_t (int (length bs)))) info
      in
      if piece_length = 0 then Inl (Undefined_behaviour ''views::chunk of size 0'')
      else Inr (info, concat (map sha1 (view_chunks (unat piece_length) bs))))"

definition file_dict :: "string list \<Rightarrow> nat \<Rightarrow> elem" where
  "file_dict parts file_size =
     (let path_list = BeList (map BeStr parts);
          d = smap_put ''length'' (BeInt (static_cast int64_t (int file_size))) [];
          d = smap_put ''path'' path_list d;
          d = smap_put ''path.utf-8'' path_list d
      in BeDict d)"

definition add_entry ::
    "(bytes \<Rightarrow> string) \<Rightarrow> u32 \<Rightarrow> string list \<times> dir_entry \<Rightarrow> elem list \<times> bytes \<times> string
      \<Rightarrow> (elem list \<times> bytes \<times> string) result" where
  "add_entry sha1 piece_length entry st =
     (case snd entry of
        Not_regular \<Rightarrow> Inr st
      | Unreadable_file n \<Rightarrow> Inl (Runtime_error ''Could not open data file for reading'')
      | Regular_file bs \<Rightarrow>
          Inr (fst st @ [file_dict (fst entry) (length bs)], hash_file sha1 (unat piece_length) bs (snd st)))"

definition directory_info ::
    "(bytes \<Rightarrow> string) \<Rightarrow> u32 \<Rightarrow> string \<Rightarrow> (string list \<times> dir_entry) list \<Rightarrow> ((string, elem) smap \<times> string) result" where
  "directory_info sha1 piece_length name entries =
     (let info = smap_put ''name'' (BeStr name) [];
          info = smap_put ''name.utf-8'' (BeStr name) info
      in
      bindE (foldE (add_entry sha1 piece_length) entries ([], [], [])) (\<lambda>(files, piece_data, pieces).
      let pieces = (if piece_data \<noteq> [] then pieces @ sha1 piece_data else pieces)
      in Inr (smap_put ''files'' (BeList files) info, pieces)))"

definition info_dict :: "(bytes \<Rightarrow> string) \<Rightarrow> u32 \<Rightarrow> string \<Rightarrow> data_path \<Rightarrow> (string, elem) smap result" where
  "info_dict sha1 piece_length path data =
     bindE (case data of
         Data_file (Regular_file bs) \<Rightarrow> single_info sha1 piece_length (path_filename path) bs
       | Data_file (Unreadable_file n) \<Rightarrow> Inl (Runtime_error ''Could not open data file for reading'')
       | Data_file Not_regular \<Rightarrow> Inl (Runtime_error ''Data path is neither an accessible file nor directory'')
       | Data_directory entries \<Rightarrow> directory_info sha1 piece_length (path_filename path) entries) (\<lambda>(info, pieces).
     Inr (smap_put ''pieces'' (BeStr pieces) (smap_put ''piece length'' (BeInt (uint piece_length)) info)))"

definition torrent_root ::
    "(bytes \<Rightarrow> string) \<Rightarrow> int \<Rightarrow> string \<Rightarrow> string \<Rightarrow> u32 \<Rightarrow> string \<Rightarrow> data_path \<Rightarrow> (string, elem) smap result" where
  "torrent_root sha1 now comment announce piece_length path data =
     (let root = smap_put ''announce'' (BeStr announce) [];
          root = smap_put ''comment'' (BeStr comment) root;
          root = smap_put ''creation date'' (BeInt now) root;
          root = smap_put ''created by'' (BeStr ''Zit v0.6.0'') root;
          root = smap_put ''encoding'' (BeStr ''UTF-8'') root
      in bindE (info_dict sha1 piece_length path data) (\<lambda>info. Inr (smap_put ''info'' (BeDict info) root)))"

definition write_torrent ::
    "(bytes \<Rightarrow> string) \<Rightarrow> int \<Rightarrow> string \<Rightarrow> string \<Rightarrow> string \<Rightarrow> string \<Rightarrow> u32 \<Rightarrow> data_path \<Rightarrow> unit io" where
  "write_torrent sha1 now torrent_file path comment announce piece_length data =
     bindIO (liftIO (torrent_root sha1 now comment announce piece_length path data)) (\<lambda>root.
     (\<lambda>s. case fs_create torrent_file s of
        (Inl e, s') \<Rightarrow> (Inl (Runtime_error ''Could not open torrent file for writing''), s')
      | (Inr _, s') \<Rightarrow> fs_write_at torrent_file 0 (bytes_of_string (be_encode (BeDict root))) s'))"

section \<open>The program\<close>

definition writer_parser :: "'f arg_parser result" where
  "writer_parser =
     bindE (add_option T_BOOL ''--help'' (\<lambda>a. bindE (aliases [''-h''] a) (\<lambda>a. bindE (set_help ''Print help'' a) help_arg))
              (new_parser ''Zit - torrent client'')) (\<lambda>p.
     bindE (add_option T_STRING ''--torrent'' (\<lambda>a. bindE (set_help ''Torrent file to download or write'' a) required) p) (\<lambda>p.
     bindE (add_option T_STRING ''--comment''
              (\<lambda>a. bindE (set_help ''Torrent file comment'' a) (default_value (V_string []))) p) (\<lambda>p.
     bindE (add_option T_STRING ''--data''
              (\<lambda>a. bindE (set_help ''Directory or file with torrent content'' a) required) p) (\<lambda>p.
     bindE (add_option T_STRING ''--announce''
              (\<lambda>a. bindE (set_help ''Announce URL for the torrent. Currently only single URL is supported'' a) required) p) (\<lambda>p.
     add_option T_UINT ''--piece-length''
       (\<lambda>a. bindE (set_help ''Piece length in bytes (default is 256.00 KiB)'' a) (default_value (V_uint (256 * 1024)))) p)))))"

text \<open>The text on the console and the exit code; \<open>data_at\<close> is what the disk has at a path.\<close>

definition writer_run ::
    "(string \<Rightarrow> ('f \<times> bool) result) \<Rightarrow> (bytes \<Rightarrow> string) \<Rightarrow> int \<Rightarrow> (string \<Rightarrow> data_path) \<Rightarrow> string list \<Rightarrow> string io" where
  "writer_run stof sha1 now data_at argv =
     bindIO (liftIO writer_parser) (\<lambda>p0.
     (case parse_args stof argv p0 of
        (Inl e, _) \<Rightarrow> throwIO e
      | (Inr _, p) \<Rightarrow>
          bindIO (liftIO (get_arg T_BOOL ''--help'' p)) (\<lambda>help_wanted.
          if the_bool help_wanted then retIO (usage p)
          else
            bindIO (liftIO (get_arg T_STRING ''--torrent'' p)) (\<lambda>torrent_file.
            bindIO (liftIO (get_arg T_STRING ''--data'' p)) (\<lambda>path.
            bindIO (liftIO (get_arg T_STRING ''--comment'' p)) (\<lambda>comment.
            bindIO (liftIO (get_arg T_STRING ''--announce'' p)) (\<lambda>announce.
            bindIO (liftIO (get_arg T_UINT ''--piece-length'' p)) (\<lambda>pl.
            bindIO (write_torrent sha1 now (the_string torrent_file) (the_string path) (the_string comment)
                      (the_string announce) (of_int (the_uint pl)) (data_at (the_string path))) (\<lambda>_.
            retIO []))))))))) "

definition writer_main ::
    "(string \<Rightarrow> ('f \<times> bool) result) \<Rightarrow> (bytes \<Rightarrow> string) \<Rightarrow> int \<Rightarrow> (string \<Rightarrow> data_path) \<Rightarrow> string list
      \<Rightarrow> filesystem \<Rightarrow> nat \<times> string \<times> filesystem" where
  "writer_main stof sha1 now data_at argv s =
     (case writer_run stof sha1 now data_at argv s of
        (Inl e, s') \<Rightarrow> (1, [], s')
      | (Inr out, s') \<Rightarrow> (0, out, s'))"

section \<open>The pieces of a sequence of files\<close>

lemma view_chunks_Nil [simp]: "view_chunks k [] = []"
  by (simp add: view_chunks.simps)

lemma view_chunks_step: "0 < k \<Longrightarrow> xs \<noteq> [] \<Longrightarrow> view_chunks k xs = take k xs # view_chunks k (drop k xs)"
  by (simp add: view_chunks.simps [of k xs])

lemma later_chunks_bad [simp]: "later_chunks m (bs, False) = []"
  by (simp add: later_chunks.simps)

lemma later_view_chunks: "0 < m \<Longrightarrow> later_chunks m (bs, True) = view_chunks m bs"
proof (induction m bs rule: view_chunks.induct)
  case (1 k xs)
  show ?case
  proof (cases "k \<le> length xs")
    case True
    then have "xs \<noteq> []" "read_chunk k (xs, True) = (take k xs, (drop k xs, True))"
      using 1(2) by (auto simp: read_chunk_def)
    with 1 show ?thesis
      by (simp add: later_chunks.simps [of k "(xs, True)"] view_chunks_step)
  next
    case False
    show ?thesis
    proof (cases "xs = []")
      case True
      with False show ?thesis
        by (simp add: later_chunks.simps [of k "([], True)"] read_chunk_def)
    next
      case nonempty: False
      with False have "later_chunks k (xs, True) = [xs]"
        by (simp add: later_chunks.simps [of k "(xs, True)"] read_chunk_def)
      with False nonempty 1(2) show ?thesis
        by (simp add: view_chunks_step)
    qed
  qed
qed

lemma get_view_chunks:
  assumes "0 < n" and "0 < m"
  shows "get_chunks bs n m = (if bs = [] then [] else take n bs # view_chunks m (drop n bs))"
  using assms by (auto simp: get_chunks_def read_chunk_def later_view_chunks)

lemma concat_view_chunks: "0 < k \<Longrightarrow> concat (view_chunks k xs) = xs"
proof (induction k xs rule: view_chunks.induct)
  case (1 k xs)
  then show ?case
    by (cases "xs = []") (simp_all add: view_chunks_step)
qed

lemma view_chunks_concat:
  assumes "0 < k" and "\<forall>f \<in> set fs. length f = k" and "length r < k"
  shows "view_chunks k (concat fs @ r) = fs @ (if r = [] then [] else [r])"
  using assms(2)
proof (induction fs)
  case Nil
  then show ?case
    using assms by (cases "r = []") (simp_all add: view_chunks_step)
next
  case (Cons f fs)
  then have "f \<noteq> []"
    using assms(1) by auto
  with Cons show ?case
    using assms(1) by (simp add: view_chunks_step)
qed

text \<open>What the loop keeps: the digests so far are those of full pieces, the rest is pending.\<close>

definition hashed :: "(bytes \<Rightarrow> string) \<Rightarrow> nat \<Rightarrow> bytes \<Rightarrow> bytes \<times> string \<Rightarrow> bool" where
  "hashed sha1 k xs ps \<longleftrightarrow> (\<exists>fs. xs = concat fs @ fst ps \<and> (\<forall>f \<in> set fs. length f = k)
     \<and> length (fst ps) < k \<and> snd ps = concat (map sha1 fs))"

lemma hashed_start: "0 < k \<Longrightarrow> hashed sha1 k [] ([], [])"
  by (auto simp: hashed_def intro!: exI [of _ "[]"])

lemma hashed_add_chunk:
  assumes "hashed sha1 k xs ps" and "length (fst ps) + length c \<le> k"
  shows "hashed sha1 k (xs @ c) (add_chunk sha1 k c ps)"
    and "length (fst ps) + length c = k \<Longrightarrow> fst (add_chunk sha1 k c ps) = []"
proof -
  obtain fs where fs: "xs = concat fs @ fst ps" "\<forall>f \<in> set fs. length f = k" "length (fst ps) < k"
    "snd ps = concat (map sha1 fs)"
    using assms(1) by (auto simp: hashed_def)
  show "hashed sha1 k (xs @ c) (add_chunk sha1 k c ps)"
  proof (cases "length (fst ps) + length c = k")
    case True
    with fs show ?thesis
      by (auto simp: hashed_def add_chunk_def intro!: exI [of _ "fs @ [fst ps @ c]"])
  next
    case False
    with fs assms(2) show ?thesis
      by (auto simp: hashed_def add_chunk_def intro!: exI [of _ fs])
  qed
  show "length (fst ps) + length c = k \<Longrightarrow> fst (add_chunk sha1 k c ps) = []"
    by (simp add: add_chunk_def)
qed

lemma hashed_view_chunks:
  assumes "0 < k" and "hashed sha1 k xs ps" and "fst ps = []"
  shows "hashed sha1 k (xs @ ys) (fold (add_chunk sha1 k) (view_chunks k ys) ps)"
  using assms
proof (induction k ys arbitrary: xs ps rule: view_chunks.induct)
  case (1 k ys)
  show ?case
  proof (cases "ys = []")
    case False
    have step: "hashed sha1 k (xs @ take k ys) (add_chunk sha1 k (take k ys) ps)"
      using hashed_add_chunk(1) [OF 1(3)] 1(4) by simp
    show ?thesis
    proof (cases "k \<le> length ys")
      case True
      then have "fst (add_chunk sha1 k (take k ys) ps) = []"
        using hashed_add_chunk(2) [OF 1(3), of "take k ys"] 1(4) by simp
      then have "hashed sha1 k ((xs @ take k ys) @ drop k ys)
          (fold (add_chunk sha1 k) (view_chunks k (drop k ys)) (add_chunk sha1 k (take k ys) ps))"
        using 1(1) [OF _ 1(2) step] 1(2) False by simp
      then show ?thesis
        using 1(2) False by (simp add: view_chunks_step)
    next
      case False
      with step 1(2) \<open>ys \<noteq> []\<close> show ?thesis
        by (simp add: view_chunks_step)
    qed
  qed (use 1 in simp)
qed

lemma hashed_file:
  assumes "0 < k" and "k < 2 ^ 64" and "hashed sha1 k xs ps"
  shows "hashed sha1 k (xs @ bs) (hash_file sha1 k bs ps)"
proof -
  define n where "n = k - length (fst ps)"
  have lt: "length (fst ps) < k"
    using assms(3) by (auto simp: hashed_def)
  then have n: "size_sub k (length (fst ps)) = n" "0 < n" "length (fst ps) + n = k"
    using assms(2) by (simp_all add: n_def)
  show ?thesis
  proof (cases "bs = []")
    case True
    with n assms show ?thesis
      by (simp add: hash_file_def get_view_chunks)
  next
    case False
    have step: "hashed sha1 k (xs @ take n bs) (add_chunk sha1 k (take n bs) ps)"
      using hashed_add_chunk(1) [OF assms(3), of "take n bs"] n(3) by simp
    have unfold: "hash_file sha1 k bs ps =
        fold (add_chunk sha1 k) (view_chunks k (drop n bs)) (add_chunk sha1 k (take n bs) ps)"
      using False n(1,2) assms(1) by (simp add: hash_file_def get_view_chunks)
    show ?thesis
    proof (cases "n \<le> length bs")
      case True
      then have "fst (add_chunk sha1 k (take n bs) ps) = []"
        using hashed_add_chunk(2) [OF assms(3), of "take n bs"] n(3) by simp
      from hashed_view_chunks [OF assms(1) step this, of "drop n bs"] show ?thesis
        by (simp add: unfold)
    next
      case False
      with step show ?thesis
        by (simp add: unfold)
    qed
  qed
qed

lemma hashed_end:
  assumes "0 < k" and "hashed sha1 k xs ps"
  shows "(if fst ps \<noteq> [] then snd ps @ sha1 (fst ps) else snd ps) = concat (map sha1 (view_chunks k xs))"
proof -
  obtain fs where "xs = concat fs @ fst ps" "snd ps = concat (map sha1 fs)"
    and "view_chunks k (concat fs @ fst ps) = fs @ (if fst ps = [] then [] else [fst ps])"
    using assms(2) view_chunks_concat [OF assms(1)] by (auto simp only: hashed_def)
  then show ?thesis
    by simp
qed

section \<open>What is written\<close>

text \<open>The regular files found at the data path, and their content one after the other.\<close>

fun regular_files :: "(string list \<times> dir_entry) list \<Rightarrow> (string list \<times> bytes) list" where
  "regular_files [] = []"
| "regular_files ((parts, Regular_file bs) # es) = (parts, bs) # regular_files es"
| "regular_files (_ # es) = regular_files es"

definition readable_entries :: "(string list \<times> dir_entry) list \<Rightarrow> bool" where
  "readable_entries es \<longleftrightarrow> (\<forall>n. Unreadable_file n \<notin> snd ` set es)"

definition data_bytes :: "data_path \<Rightarrow> bytes" where
  "data_bytes data = (case data of Data_file (Regular_file bs) \<Rightarrow> bs | Data_file _ \<Rightarrow> []
     | Data_directory es \<Rightarrow> concat (map snd (regular_files es)))"

definition readable_data :: "data_path \<Rightarrow> bool" where
  "readable_data data \<longleftrightarrow> (case data of Data_file e \<Rightarrow> (\<exists>bs. e = Regular_file bs) | Data_directory es \<Rightarrow> readable_entries es)"

lemma add_entries:
  assumes "readable_entries es" and "0 < piece_length" and "hashed sha1 (unat piece_length) xs ps"
  shows "\<exists>ps'. foldE (add_entry sha1 piece_length) es (files, ps) =
      Inr (files @ map (\<lambda>(parts, bs). file_dict parts (length bs)) (regular_files es), ps')
    \<and> hashed sha1 (unat piece_length) (xs @ concat (map snd (regular_files es))) ps'"
  using assms(1,3)
proof (induction es arbitrary: files xs ps rule: regular_files.induct)
  case (2 parts bs es)
  have "unat piece_length < 2 ^ LENGTH(32)"
    by (rule unsigned_less)
  then have pl: "0 < unat piece_length" "unat piece_length < 2 ^ 64"
    using assms(2) by (simp_all add: unat_gt_0 word_neq_0_conv)
  from 2(1) [of "xs @ bs" "hash_file sha1 (unat piece_length) bs ps" "files @ [file_dict parts (length bs)]"]
    hashed_file [OF pl 2(3), of bs] 2(2)
  show ?case
    by (auto simp: add_entry_def readable_entries_def)
qed (auto simp: add_entry_def readable_entries_def)

definition writer_pieces :: "(bytes \<Rightarrow> string) \<Rightarrow> u32 \<Rightarrow> data_path \<Rightarrow> string list" where
  "writer_pieces sha1 piece_length data = map sha1 (view_chunks (unat piece_length) (data_bytes data))"

definition info_fields :: "(bytes \<Rightarrow> string) \<Rightarrow> u32 \<Rightarrow> string \<Rightarrow> data_path \<Rightarrow> (string \<times> elem) list" where
  "info_fields sha1 piece_length path data =
     (case data of
        Data_file _ \<Rightarrow> [(''length'', BeInt (static_cast int64_t (int (length (data_bytes data)))))]
      | Data_directory es \<Rightarrow>
          [(''files'', BeList (map (\<lambda>(parts, bs). file_dict parts (length bs)) (regular_files es)))])
     @ [(''name'', BeStr (path_filename path)), (''name.utf-8'', BeStr (path_filename path)),
        (''piece length'', BeInt (uint piece_length)),
        (''pieces'', BeStr (concat (writer_pieces sha1 piece_length data)))]"

lemma info_dict_eq:
  assumes "readable_data data" and "0 < piece_length"
  shows "info_dict sha1 piece_length path data = Inr (info_fields sha1 piece_length path data)"
proof (cases data)
  case (Data_file e)
  then obtain bs where "data = Data_file (Regular_file bs)"
    using assms(1) by (auto simp: readable_data_def)
  with assms(2) show ?thesis
    by (simp add: info_dict_def single_info_def info_fields_def writer_pieces_def data_bytes_def)
next
  case (Data_directory es)
  have pl: "0 < unat piece_length"
    using assms(2) by (simp add: unat_gt_0 word_neq_0_conv)
  have "hashed sha1 (unat piece_length) [] ([], [])"
    using pl by (rule hashed_start)
  with add_entries [of es piece_length sha1 "[]" "([], [])" "[]"] assms Data_directory
  obtain pd pcs where ps: "foldE (add_entry sha1 piece_length) es ([], [], []) =
      Inr (map (\<lambda>(parts, bs). file_dict parts (length bs)) (regular_files es), pd, pcs)"
    and h: "hashed sha1 (unat piece_length) (data_bytes data) (pd, pcs)"
    by (auto simp: readable_data_def data_bytes_def)
  from hashed_end [OF pl h] ps Data_directory show ?thesis
    by (cases "pd = []") (simp_all add: info_dict_def directory_info_def info_fields_def writer_pieces_def)
qed

definition root_fields ::
    "(bytes \<Rightarrow> string) \<Rightarrow> int \<Rightarrow> string \<Rightarrow> string \<Rightarrow> u32 \<Rightarrow> string \<Rightarrow> data_path \<Rightarrow> (string \<times> elem) list" where
  "root_fields sha1 now comment announce piece_length path data =
     [(''announce'', BeStr announce), (''comment'', BeStr comment), (''created by'', BeStr ''Zit v0.6.0''),
      (''creation date'', BeInt now), (''encoding'', BeStr ''UTF-8''),
      (''info'', BeDict (info_fields sha1 piece_length path data))]"

lemma torrent_root_eq:
  "readable_data data \<Longrightarrow> 0 < piece_length \<Longrightarrow> torrent_root sha1 now comment announce piece_length path data =
    Inr (root_fields sha1 now comment announce piece_length path data)"
  by (simp add: torrent_root_def root_fields_def info_dict_eq)

text \<open>
  C15.  The program that writes torrent files hashes a directory as one stream: the piece digests
  are those of the content of all regular files joined, cut at the piece length, however the file
  boundaries lie, and are the same as for one file with that content.
\<close>

theorem writer_pieces_joined:
  assumes "readable_entries es" and "0 < piece_length"
  shows "\<exists>info single. directory_info sha1 piece_length name es = Inr (info, concat (map sha1
        (view_chunks (unat piece_length) (concat (map snd (regular_files es))))))
    \<and> single_info sha1 piece_length name (concat (map snd (regular_files es))) = Inr (single, concat (map sha1
        (view_chunks (unat piece_length) (concat (map snd (regular_files es))))))
    \<and> concat (view_chunks (unat piece_length) (concat (map snd (regular_files es)))) = concat (map snd (regular_files es))"
proof -
  have pl: "0 < unat piece_length" "piece_length \<noteq> 0"
    using assms(2) by (auto simp: unat_gt_0 word_neq_0_conv)
  have "hashed sha1 (unat piece_length) [] ([], [])"
    using pl(1) by (rule hashed_start)
  with add_entries [of es piece_length sha1 "[]" "([], [])" "[]"] assms
  obtain pd pcs where ps: "foldE (add_entry sha1 piece_length) es ([], [], []) =
      Inr (map (\<lambda>(parts, bs). file_dict parts (length bs)) (regular_files es), pd, pcs)"
    and h: "hashed sha1 (unat piece_length) (concat (map snd (regular_files es))) (pd, pcs)"
    by auto
  from hashed_end [OF pl(1) h] ps pl(2) concat_view_chunks [OF pl(1)] show ?thesis
    by (cases "pd = []") (simp_all add: directory_info_def single_info_def)
qed

definition first_letter :: "bytes \<Rightarrow> string" where
  "first_letter b = (if b = [1, 2] then ''A'' else if b = [3, 4] then ''B'' else ''C'')"

theorem writer_pieces_joined_witness:
  "\<exists>info. directory_info first_letter 2 ''d''
     [([''a''], Regular_file [1, 2, 3]), ([''s''], Not_regular), ([''b''], Regular_file [4, 5])] = Inr (info, ''ABC'')"
proof -
  have "concat (map first_letter (view_chunks 2 [1, 2, 3, 4, 5])) = ''ABC''"
    by (simp add: view_chunks_step first_letter_def)
  then show ?thesis
    using writer_pieces_joined [of "[([''a''], Regular_file [1, 2, 3]), ([''s''], Not_regular), ([''b''], Regular_file [4, 5])]"
        2 first_letter "''d''"]
    by (auto simp: readable_entries_def)
qed

section \<open>The client reads what was written\<close>

definition written_file :: "string list \<times> bytes \<Rightarrow> file_info" where
  "written_file f = \<lparr>fi_length = int (length (snd f)), fi_path = foldl path_append [] (fst f), fi_md5sum = []\<rparr>"

definition data_files :: "data_path \<Rightarrow> (string list \<times> bytes) list" where
  "data_files data = (case data of Data_file _ \<Rightarrow> [] | Data_directory es \<Rightarrow> regular_files es)"

definition data_is_file :: "data_path \<Rightarrow> bool" where
  "data_is_file data \<longleftrightarrow> (case data of Data_file _ \<Rightarrow> True | Data_directory _ \<Rightarrow> False)"

definition written_meta ::
    "(string \<Rightarrow> string) \<Rightarrow> (bytes \<Rightarrow> string) \<Rightarrow> int \<Rightarrow> string \<Rightarrow> string \<Rightarrow> u32 \<Rightarrow> string \<Rightarrow> data_path \<Rightarrow> string \<Rightarrow> metainfo" where
  "written_meta h sha1 now comment announce piece_length path data data_dir =
     \<lparr>m_announce = announce, m_announce_list = [], m_creation_date = now, m_comment = comment,
      m_created_by = ''Zit v0.6.0'', m_encoding = ''UTF-8'', m_piece_length = piece_length,
      m_pieces = writer_pieces sha1 piece_length data, m_private = False,
      m_name = path_append data_dir (path_filename path),
      m_length = (if data_is_file data then int (length (data_bytes data)) else 0), m_md5sum = [],
      m_files = map written_file (data_files data),
      m_info_hash = h (be_encode (BeDict (info_fields sha1 piece_length path data))),
      m_tmpfile = path_append data_dir (path_filename path) @ tmpfileExtension\<rparr>"

text \<open>The texts and numbers fit the bencode codec; and there is something to share.\<close>

definition writable :: "(bytes \<Rightarrow> string) \<Rightarrow> int \<Rightarrow> string \<Rightarrow> string \<Rightarrow> u32 \<Rightarrow> string \<Rightarrow> data_path \<Rightarrow> bool" where
  "writable sha1 now comment announce piece_length path data \<longleftrightarrow>
     readable_data data \<and> 0 < piece_length \<and> (\<forall>b. length (sha1 b) = 20) \<and> ity_has int64_t now
     \<and> length announce \<le> MAX_STRING_LENGTH \<and> length comment \<le> MAX_STRING_LENGTH \<and> length path \<le> MAX_STRING_LENGTH
     \<and> 20 * length (writer_pieces sha1 piece_length data) \<le> MAX_STRING_LENGTH \<and> length (data_bytes data) < 2 ^ 63
     \<and> (\<forall>f \<in> set (data_files data). \<forall>part \<in> set (fst f). length part \<le> MAX_STRING_LENGTH)"

definition shares_something :: "data_path \<Rightarrow> bool" where
  "shares_something data \<longleftrightarrow> (if data_is_file data then data_bytes data \<noteq> [] else data_files data \<noteq> [])"

lemma sha1_chunks_concat:
  assumes "\<forall>h \<in> set (as @ hs). length h = 20"
  shows "sha1_chunks (concat (as @ hs)) (map (\<lambda>k. k * 20) [length as..<length as + length hs]) = Inr hs"
  using assms
proof (induction hs arbitrary: as)
  case (Cons x hs)
  have len: "length (concat as) = length as * 20"
    using Cons.prems by (induction as) auto
  have "sha1_from_string (concat (as @ x # hs)) (length as * 20) = Inr x"
    using len Cons.prems by (simp add: sha1_from_string_def SHA_LENGTH_def)
  moreover have "[length as..<length as + length (x # hs)] = length as # [length (as @ [x])..<length (as @ [x]) + length hs]"
    by (simp add: upt_rec)
  ultimately show ?case
    using Cons.IH [of "as @ [x]"] Cons.prems by simp
qed simp

lemma sha1_chunks_all:
  assumes "\<forall>h \<in> set hs. length h = 20"
  shows "sha1_chunks (concat hs) (map (\<lambda>k. k * 20) [0..<length (concat hs) div 20]) = Inr hs"
    and "length (concat hs) = 20 * length hs"
proof -
  show len: "length (concat hs) = 20 * length hs"
    using assms by (induction hs) auto
  show "sha1_chunks (concat hs) (map (\<lambda>k. k * 20) [0..<length (concat hs) div 20]) = Inr hs"
    using sha1_chunks_concat [of "[]" hs] assms by (simp add: len)
qed

lemma static_cast_length: "n < 2 ^ 63 \<Longrightarrow> static_cast int64_t (int n) = int n"
  by (simp add: static_cast_def signed_take_bit_int_eq_self)

lemma ity_has_length: "n < 2 ^ 63 \<Longrightarrow> ity_has int64_t (int n)"
  by (simp add: ity_has_def ity_min_def ity_max_def)

lemma file_dict_eq:
  "n < 2 ^ 63 \<Longrightarrow> file_dict parts n = BeDict [(''length'', BeInt (int n)), (''path'', BeList (map BeStr parts)),
     (''path.utf-8'', BeList (map BeStr parts))]"
  by (simp add: file_dict_def static_cast_length Let_def)

lemma file_dict_parses:
  assumes "length (snd f) < 2 ^ 63"
  shows "beDictToFileInfo (file_dict (fst f) (length (snd f))) = Inr (written_file f)"
proof -
  have "foldE (\<lambda>b a. bindE (to_str b) (\<lambda>s. Inr (path_append a s))) (map BeStr parts) p = Inr (foldl path_append p parts)"
    for parts p
    by (induction parts arbitrary: p) simp_all
  with assms show ?thesis
    by (simp add: file_dict_eq beDictToFileInfo_def smap_at_def written_file_def)
qed

lemma mapE_map: "(\<And>x. x \<in> set xs \<Longrightarrow> f (g x) = Inr (h x)) \<Longrightarrow> mapE f (map g xs) = Inr (map h xs)"
  by (induction xs) auto

lemma data_file_size: "f \<in> set (data_files data) \<Longrightarrow> length (snd f) \<le> length (data_bytes data)"
proof -
  have "f \<in> set fs \<Longrightarrow> length (snd f) \<le> length (concat (map snd fs))" for fs :: "(string list \<times> bytes) list"
    by (induction fs) auto
  then show "f \<in> set (data_files data) \<Longrightarrow> length (snd f) \<le> length (data_bytes data)"
    by (cases data) (auto simp: data_files_def data_bytes_def)
qed

lemma length_path_filename: "length (path_filename p) \<le> length p"
  using length_takeWhile_le [of "\<lambda>c. c \<noteq> CHR ''/''" "rev p"] by (simp add: path_filename_def)

lemma written_wf:
  assumes "writable sha1 now comment announce piece_length path data"
  shows "be_wf (BeDict (root_fields sha1 now comment announce piece_length path data))"
    and "be_depth (BeDict (root_fields sha1 now comment announce piece_length path data)) \<le> RECURSION_LIMIT"
proof -
  have w: "ity_has int64_t now" "length announce \<le> MAX_STRING_LENGTH" "length comment \<le> MAX_STRING_LENGTH"
    "length (path_filename path) \<le> MAX_STRING_LENGTH" "length (data_bytes data) < 2 ^ 63"
    using assms length_path_filename [of path] by (simp_all add: writable_def)
  have pieces: "length (concat (writer_pieces sha1 piece_length data)) \<le> MAX_STRING_LENGTH"
    using assms sha1_chunks_all(2) [of "writer_pieces sha1 piece_length data"]
    by (simp add: writable_def writer_pieces_def)
  have "ity_has int64_t (uint piece_length)"
  proof -
    have "unat piece_length < 2 ^ LENGTH(32)"
      by (rule unsigned_less)
    then show ?thesis
      using ity_has_length [of "unat piece_length"] by simp
  qed
  moreover have "be_wf (file_dict (fst f) (length (snd f)))" "be_depth (file_dict (fst f) (length (snd f))) \<le> 3"
    if "f \<in> set (data_files data)" for f
    using that assms data_file_size [OF that] w(5)
    by (auto simp: file_dict_eq writable_def ity_has_length smap_ok_def MAX_STRING_LENGTH_def foldr_max_le)
  ultimately have "be_wf (BeDict (info_fields sha1 piece_length path data))
      \<and> be_depth (BeDict (info_fields sha1 piece_length path data)) \<le> 5"
    using w pieces
    by (cases data) (auto simp: info_fields_def smap_ok_def MAX_STRING_LENGTH_def static_cast_length ity_has_length
        data_files_def foldr_max_le le_Suc_eq split_beta)
  then show "be_wf (BeDict (root_fields sha1 now comment announce piece_length path data))"
    and "be_depth (BeDict (root_fields sha1 now comment announce piece_length path data)) \<le> RECURSION_LIMIT"
    using w by (simp_all add: root_fields_def smap_ok_def MAX_STRING_LENGTH_def RECURSION_LIMIT_def)
qed

lemma written_parses:
  assumes "writable sha1 now comment announce piece_length path data"
  shows "\<exists>root. torrent_root sha1 now comment announce piece_length path data = Inr root
    \<and> parse_torrent h data_dir (be_encode (BeDict root)) =
        (if shares_something data then Inr (written_meta h sha1 now comment announce piece_length path data data_dir)
         else Inl (Runtime_error ''Invalid torrent: no mode''))"
proof (intro exI conjI)
  show "torrent_root sha1 now comment announce piece_length path data =
      Inr (root_fields sha1 now comment announce piece_length path data)"
    using assms by (intro torrent_root_eq) (simp_all add: writable_def)
  define root where "root = root_fields sha1 now comment announce piece_length path data"
  define info where "info = info_fields sha1 piece_length path data"
  have decode: "be_decode (be_encode (BeDict root)) = Inr (BeDict root)"
    using decode_internal_encode [of "BeDict root" 0 "[]"] written_wf [OF assms]
    by (simp add: be_decode_def root_def del: be_encode.simps)
  have hs: "\<forall>x \<in> set (writer_pieces sha1 piece_length data). length x = 20"
    using assms by (auto simp: writable_def writer_pieces_def)
  have len: "length (concat (writer_pieces sha1 piece_length data)) = 20 * length (writer_pieces sha1 piece_length data)"
    using hs by (rule sha1_chunks_all(2))
  have chunks: "sha1_chunks (concat (writer_pieces sha1 piece_length data))
      (map (\<lambda>k. k * 20) [0..<length (writer_pieces sha1 piece_length data)]) = Inr (writer_pieces sha1 piece_length data)"
    using sha1_chunks_all(1) [OF hs] by (simp add: len)
  have cast: "numeric_cast uint32_t int64_t (uint piece_length) = Inr (uint piece_length)"
  proof -
    have "uint piece_length < 2 ^ LENGTH(32)"
      by (rule unsigned_less)
    then show ?thesis
      by (intro numeric_cast_u32_exact) simp_all
  qed
  have root: "map_of root ''announce'' = Some (BeStr announce)" "map_of root ''info'' = Some (BeDict info)"
    "map_of root ''creation date'' = Some (BeInt now)" "map_of root ''comment'' = Some (BeStr comment)"
    "map_of root ''created by'' = Some (BeStr ''Zit v0.6.0'')" "map_of root ''encoding'' = Some (BeStr ''UTF-8'')"
    "map_of root ''md5sum'' = None" "map_of root ''private'' = None" "map_of root ''announce-list'' = None"
    by (simp_all add: root_def root_fields_def info_def)
  have info: "map_of info ''name'' = Some (BeStr (path_filename path))"
    "map_of info ''pieces'' = Some (BeStr (concat (writer_pieces sha1 piece_length data)))"
    "map_of info ''piece length'' = Some (BeInt (uint piece_length))"
    "map_of info ''length'' = (if data_is_file data then Some (BeInt (int (length (data_bytes data)))) else None)"
    "map_of info ''files'' = (if data_is_file data then None
       else Some (BeList (map (\<lambda>f. file_dict (fst f) (length (snd f))) (data_files data))))"
    using assms by (cases data; simp add: info_def info_fields_def data_is_file_def data_files_def static_cast_length
        writable_def split_beta)+
  have files: "mapE beDictToFileInfo (map (\<lambda>f. file_dict (fst f) (length (snd f))) (data_files data)) =
      Inr (map written_file (data_files data))"
    using assms data_file_size [of _ data] by (intro mapE_map file_dict_parses) (fastforce simp: writable_def)
  have mode: "data_is_file data \<Longrightarrow> data_files data = []"
    by (cases data) (simp_all add: data_is_file_def data_files_def)
  note fields = smap_at_def opt_field_def root info
  show "parse_torrent h data_dir (be_encode (BeDict (root_fields sha1 now comment announce piece_length path data))) =
      (if shares_something data then Inr (written_meta h sha1 now comment announce piece_length path data data_dir)
       else Inl (Runtime_error ''Invalid torrent: no mode''))"
    using assms mode unfolding root_def [symmetric] parse_torrent_def Let_def decode
    by (cases "data_is_file data") (auto simp: fields chunks len cast files written_meta_def writable_def
        shares_something_def tmpfileExtension_def info_def [symmetric] simp del: be_encode.simps)
qed

text \<open>
  C16.  The client reads back what the writer wrote: the torrent file for a file or a directory
  parses to the metainfo with the same tracker, comment, name, lengths, paths and piece digests;
  except that the torrent file of an empty file or of a directory without files, which the writer
  makes without complaint, is refused by the client.
\<close>

theorem written_torrent_parses:
  assumes "writable sha1 now comment announce piece_length path data"
  shows "\<exists>root. torrent_root sha1 now comment announce piece_length path data = Inr root
    \<and> parse_torrent h data_dir (be_encode (BeDict root)) =
        (if shares_something data then Inr (written_meta h sha1 now comment announce piece_length path data data_dir)
         else Inl (Runtime_error ''Invalid torrent: no mode''))"
  using written_parses [OF assms] .

definition letter_sha1 :: "bytes \<Rightarrow> string" where
  "letter_sha1 b = replicate 20 (if b = [1, 2] then CHR ''A'' else CHR ''B'')"

definition letter_data :: data_path where
  "letter_data = Data_file (Regular_file [1, 2, 3])"

lemma letter_writable:
  "writable letter_sha1 7 ''c'' ''u'' 2 ''/tmp/f''
     letter_data"
  by (simp add: writable_def readable_data_def data_bytes_def data_files_def data_is_file_def writer_pieces_def
      letter_data_def letter_sha1_def view_chunks_step MAX_STRING_LENGTH_def ity_has_def ity_min_def ity_max_def)

theorem written_torrent_parses_witness:
  "\<exists>root mi. torrent_root letter_sha1 7 ''c'' ''u'' 2 ''/tmp/f''
      letter_data = Inr root
    \<and> parse_torrent (\<lambda>_. ''h'') ''d'' (be_encode (BeDict root)) = Inr mi
    \<and> m_name mi = ''d/f'' \<and> m_length mi = 3 \<and> m_pieces mi = [replicate 20 (CHR ''A''), replicate 20 (CHR ''B'')]"
proof -
  define mi where "mi = written_meta (\<lambda>_. ''h'') letter_sha1 7
    ''c'' ''u'' 2 ''/tmp/f'' letter_data ''d''"
  have "m_name mi = ''d/f''" "m_length mi = 3" "m_pieces mi = [replicate 20 (CHR ''A''), replicate 20 (CHR ''B'')]"
    by (simp_all add: mi_def written_meta_def path_append_def path_filename_def starts_with_def data_is_file_def
        data_bytes_def writer_pieces_def view_chunks_step letter_data_def letter_sha1_def)
  moreover have "shares_something letter_data"
    by (simp add: letter_data_def shares_something_def data_is_file_def data_bytes_def)
  ultimately show ?thesis
    using written_torrent_parses [OF letter_writable, of "\<lambda>_. ''h''" "''d''"] unfolding mi_def by auto
qed

section \<open>The client finds the data complete\<close>

lemma length_view_chunks:
  assumes "0 < k" and "xs \<noteq> []"
  shows "(length (view_chunks k xs) - 1) * k < length xs" and "length xs \<le> length (view_chunks k xs) * k"
  using assms
proof (induction k xs rule: view_chunks.induct)
  case (1 k xs)
  {
    case 1
    show ?case
    proof (cases "drop k xs = []")
      case False
      then have "view_chunks k (drop k xs) \<noteq> []" "k < length xs"
        using 1 by (simp_all add: view_chunks_step)
      then obtain m where m: "length (view_chunks k (drop k xs)) = Suc m"
        by (cases "view_chunks k (drop k xs)") simp_all
      with "1.IH"(1) False 1 \<open>k < length xs\<close> show ?thesis
        by (simp add: view_chunks_step less_diff_conv)
    qed (use 1 in \<open>simp add: view_chunks_step\<close>)
  next
    case 2
    show ?case
    proof (cases "drop k xs = []")
      case False
      with "1.IH"(2) 2 show ?thesis
        by (simp add: view_chunks_step le_diff_conv)
    qed (use 2 in \<open>simp add: view_chunks_step\<close>)
  }
qed

lemma nth_view_chunks: "0 < k \<Longrightarrow> i < length (view_chunks k xs) \<Longrightarrow> view_chunks k xs ! i = take k (drop (i * k) xs)"
proof (induction k xs arbitrary: i rule: view_chunks.induct)
  case (1 k xs)
  then have "xs \<noteq> []"
    by auto
  with 1 show ?case
    by (cases i) (simp_all add: view_chunks_step add.commute)
qed

lemma written_length:
  assumes "readable_data data"
  shows "torrent_length (written_meta h sha1 now comment announce piece_length path data data_dir) =
    int (length (data_bytes data))"
proof (cases data)
  case (Data_file e)
  then show ?thesis
    by (simp add: torrent_length_def is_single_file_def written_meta_def data_is_file_def data_files_def)
next
  case (Data_directory es)
  have "files_length (map written_file fs) = int (length (concat (map snd fs)))" for fs
    by (induction fs) (simp_all add: files_length_def written_file_def)
  with Data_directory show ?thesis
    by (simp add: torrent_length_def is_single_file_def written_meta_def data_is_file_def data_files_def
        foldl_files_length data_bytes_def)
qed

lemma written_small:
  assumes "writable sha1 now comment announce piece_length path data" and "data_bytes data \<noteq> []"
    and "length (data_bytes data) < 2 ^ 32"
  shows "small_torrent (written_meta h sha1 now comment announce piece_length path data data_dir)"
proof -
  define k n where "k = unat piece_length" and "n = length (view_chunks k (data_bytes data))"
  have k: "0 < k"
    using assms(1) by (simp add: k_def writable_def unat_gt_0 word_neq_0_conv)
  have fit: "int (n - 1) * int k < int (length (data_bytes data))" "int (length (data_bytes data)) \<le> int n * int k"
    using length_view_chunks [OF k assms(2)] unfolding n_def
    by (simp_all only: of_nat_mult [symmetric] of_nat_less_iff of_nat_le_iff)
  have "n - 1 \<le> (n - 1) * k"
    using k by (cases k) simp_all
  then have "n \<le> 2 ^ 32"
    using length_view_chunks(1) [OF k assms(2)] assms(3) unfolding n_def by linarith
  moreover have "readable_data data"
    using assms(1) by (simp add: writable_def)
  ultimately show ?thesis
    using fit assms(3)
    by (simp add: small_torrent_def pieces_fit_def written_length)
      (simp add: written_meta_def writer_pieces_def n_def k_def)
qed

lemma written_slices:
  assumes "writable sha1 now comment announce piece_length path data" and "data_bytes data \<noteq> []"
    and "length (data_bytes data) < 2 ^ 32"
    and "i < length (m_pieces (written_meta h sha1 now comment announce piece_length path data data_dir))"
  shows "piece_verified sha1 (written_meta h sha1 now comment announce piece_length path data data_dir)
    (data_bytes data) (of_nat i)"
proof -
  define mi where "mi = written_meta h sha1 now comment announce piece_length path data data_dir"
  define k where "k = unat piece_length"
  have small: "small_torrent mi"
    using written_small assms(1-3) by (simp add: mi_def)
  have k: "0 < k"
    using assms(1) by (simp add: k_def writable_def unat_gt_0 word_neq_0_conv)
  have i: "i < length (m_pieces mi)" "unat (of_nat i :: u32) = i"
    using assms(4) small_torrent_count(2) [OF small] by (auto simp: mi_def intro!: unat_of_nat_less)
  obtain l where l: "piece_length_at mi (of_nat i) = Inr l"
    using piece_length_some [OF small, of "of_nat i"] i by auto
  have meta: "m_piece_length mi = piece_length" "torrent_length mi = int (length (data_bytes data))"
    "m_pieces mi = map sha1 (view_chunks k (data_bytes data))"
    using written_length assms(1) by (simp_all add: mi_def written_meta_def writer_pieces_def k_def writable_def)
  define p L where "p = i * k" and "L = unat l"
  have "int L = min (int k) (int (length (data_bytes data)) - int p)"
    using piece_size_min [OF small _ l, unfolded uint_nat] i meta by (simp only: k_def i(2) p_def L_def of_nat_mult)
  moreover have "p < length (data_bytes data)"
  proof -
    have "p \<le> (length (view_chunks k (data_bytes data)) - 1) * k"
      unfolding p_def using i(1) meta(3) by (intro mult_le_mono1) simp
    then show ?thesis
      using length_view_chunks(1) [OF k assms(2)] by linarith
  qed
  ultimately have "L = min k (length (data_bytes data) - p)"
    by linarith
  then have "unat l = min k (length (drop (i * k) (data_bytes data)))"
    by (simp add: p_def L_def)
  then have "slice mi (data_bytes data) (of_nat i) = take k (drop (i * k) (data_bytes data))"
    using l i(2) meta(1) by (simp add: slice_def k_def [symmetric] min_def)
  then show ?thesis
    using i meta(3) nth_view_chunks [OF k, of i "data_bytes data"] by (simp add: piece_verified_def mi_def [symmetric])
qed

lemma written_complete:
  assumes "writable sha1 now comment announce piece_length path data"
    and "data_bytes data \<noteq> []" and "length (data_bytes data) < 2 ^ 32"
    and mi: "mi = written_meta h sha1 now comment announce piece_length path data data_dir"
    and "distinct order" and "unat ` set order = {..<length (m_pieces mi)}"
    and "store_present (scan_meta mi s) s" and "store_stream (scan_meta mi s) s = data_bytes data"
    and "\<not> (is_single_file mi \<and> path_exists s (m_name mi) \<and> path_exists s (m_tmpfile mi))"
  shows "\<exists>t'. verify_existing_file sha1 order (new_torrent mi) s = Normal (Inr t') \<and> torrent_done t'"
proof -
  have small: "small_torrent mi"
    using written_small [OF assms(1-3)] by (simp add: mi)
  have meta: "piece_verified sha1 (scan_meta mi s) d i \<longleftrightarrow> piece_verified sha1 mi d i" for d i
    by (simp add: piece_verified_def slice_def scan_meta_def)
  have ver: "piece_verified sha1 mi (data_bytes data) (of_nat i)" if "i < length (m_pieces mi)" for i
    using that unfolding mi by (rule written_slices [OF assms(1-3)])
  have all: "{k. k < length (m_pieces mi) \<and> piece_verified sha1 (scan_meta mi s)
      (store_stream (scan_meta mi s) s) (of_nat k)} = {..<length (m_pieces mi)}"
    using ver by (auto simp: meta assms(8))
  from verify_existing_scan [OF small assms(5-7,9), of sha1, unfolded all] show ?thesis
    by auto
qed

text \<open>
  A torrent file made for some data and opened by the client where that data is in place,
  single file or directory, below 4 GiB: the startup check marks every piece and the torrent is
  done, whatever the digest and the order of the check.
\<close>

theorem written_torrent_complete:
  assumes "writable sha1 now comment announce piece_length path data"
    and "data_bytes data \<noteq> []" and "length (data_bytes data) < 2 ^ 32"
    and mi: "mi = written_meta h sha1 now comment announce piece_length path data data_dir"
    and "distinct order" and "unat ` set order = {..<length (m_pieces mi)}"
    and "store_present (scan_meta mi s) s" and "store_stream (scan_meta mi s) s = data_bytes data"
    and "\<not> (is_single_file mi \<and> path_exists s (m_name mi) \<and> path_exists s (m_tmpfile mi))"
  shows "\<exists>t'. verify_existing_file sha1 order (new_torrent mi) s = Normal (Inr t') \<and> torrent_done t'"
  using written_complete [OF assms] .

theorem written_torrent_complete_witness:
  "\<exists>mi t'. written_meta (\<lambda>_. ''h'') letter_sha1 7 ''c'' ''u'' 2
      ''/tmp/f'' letter_data ''d'' = mi
    \<and> verify_existing_file letter_sha1 [0, 1] (new_torrent mi)
        \<lparr>fs_files = [''d/f'' \<mapsto> [1, 2, 3]], fs_dirs = {''d''}\<rparr> = Normal (Inr t')
    \<and> torrent_done t'"
proof -
  define mi where "mi = written_meta (\<lambda>_. ''h'') letter_sha1 7
    ''c'' ''u'' 2 ''/tmp/f'' letter_data ''d''"
  define s where "s = \<lparr>fs_files = [''d/f'' \<mapsto> [1, 2, 3 :: byte]], fs_dirs = {''d''}\<rparr>"
  have mi: "m_name mi = ''d/f''" "m_tmpfile mi = ''d/f.zit_downloading''" "m_length mi = 3" "length (m_pieces mi) = 2"
    by (simp_all add: mi_def written_meta_def path_append_def path_filename_def starts_with_def data_is_file_def
        data_bytes_def writer_pieces_def view_chunks_step letter_data_def letter_sha1_def tmpfileExtension_def)
  have len: "is_single_file mi" "torrent_length mi = 3"
    using mi by (simp_all add: is_single_file_def torrent_length_def)
  have scan: "scan_meta mi s = mi\<lparr>m_tmpfile := ''d/f''\<rparr>"
    by (simp add: scan_meta_def path_exists_def s_def mi)
  have store: "store_present (scan_meta mi s) s" "store_stream (scan_meta mi s) s = [1, 2, 3]"
    unfolding scan using len by (simp_all add: store_present_def store_stream_def single_present_def single_stream_def s_def)
  have fresh: "\<not> path_exists s (m_tmpfile mi)"
    by (simp add: path_exists_def s_def mi)
  have "unat ` set [0, 1 :: u32] = {..<length (m_pieces mi)}"
    using mi(4) by auto
  with written_torrent_complete [OF letter_writable, of mi "\<lambda>_. ''h''" "''d''" "[0, 1]" s] store fresh show ?thesis
    unfolding s_def [symmetric] mi_def [symmetric] by (simp add: data_bytes_def letter_data_def)
qed

end
