(* ===== verification/Print.thy ===== *)
theory Print
  imports Peer Metainfo Url
begin

text \<open>
  What the program prints: the stream operators of \<^verbatim>\<open>src/bencode.hpp\<close>,
  \<^verbatim>\<open>src/bitfield.cpp\<close>, \<^verbatim>\<open>src/torrent.cpp\<close> and
  \<^verbatim>\<open>src/peer.hpp\<close>, and \<open>bytesToHumanReadable\<close> of \<^verbatim>\<open>src/string_utils.hpp\<close>.
  Parameters are the local time of a time stamp and the rendering of a number with two decimals,
  which the formatting library does.
\<close>

definition newline :: string where "newline = [CHR 0x0A]"

fun join :: "string \<Rightarrow> string list \<Rightarrow> string" where
  "join sep [] = []"
| "join sep [x] = x"
| "join sep (x # xs) = x @ sep @ join sep xs"

section \<open>Bencode elements\<close>

definition MAX_LINE_WIDTH :: nat where "MAX_LINE_WIDTH = 72"

definition ASCII_LAST_CTRL_CHAR :: int where "ASCII_LAST_CTRL_CHAR = 31"

text \<open>A \<^verbatim>\<open>char\<close> is signed here: bytes from 128 on are negative.\<close>

definition console_char :: "char \<Rightarrow> char" where
  "console_char c = (if static_cast int8_t (of_char c) > ASCII_LAST_CTRL_CHAR then c else CHR ''?'')"

definition console_string :: "string \<Rightarrow> string" where
  "console_string s = map console_char (take MAX_LINE_WIDTH s)
     @ (if length s > MAX_LINE_WIDTH then '' ... <'' @ dec_of_nat (length s) @ ''>'' else [])"

text \<open>\<open>ind\<close> is the indentation kept in the stream.\<close>

fun be_print :: "nat \<Rightarrow> elem \<Rightarrow> string" where
  "be_print ind (BeInt i) = dec_of_int i"
| "be_print ind (BeStr s) = console_string s"
| "be_print ind (BeList es) = ''['' @ join '','' (map (be_print ind) es) @ '']''"
| "be_print ind (BeDict m) =
     ''{'' @ newline
     @ join ('','' @ newline)
         (map (\<lambda>e. replicate (ind + 2) (CHR '' '') @ fst e @ '' : '' @ be_print (ind + 2) (snd e)) m)
     @ newline @ replicate ind (CHR '' '') @ ''}''"

section \<open>Sizes\<close>

text \<open>Rounding to the 24 bits of a \<^verbatim>\<open>float\<close>, ties to even.\<close>

function bit_length :: "nat \<Rightarrow> nat" where
  "bit_length n = (if n = 0 then 0 else Suc (bit_length (n div 2)))"
  by pat_completeness auto

termination bit_length
  by (relation "measure id") auto

declare bit_length.simps [simp del]

definition round_float :: "nat \<Rightarrow> nat" where
  "round_float n =
     (if bit_length n \<le> 24 then n
      else
        let s = bit_length n - 24; q = n div 2 ^ s; r = n mod 2 ^ s; half = 2 ^ (s - 1);
            q' = (if r > half \<or> r = half \<and> odd q then q + 1 else q)
        in q' * 2 ^ s)"

definition unit_limits :: "(nat \<times> string) list" where
  "unit_limits = [(2 ^ 40, ''TiB''), (2 ^ 30, ''GiB''), (2 ^ 20, ''MiB''), (2 ^ 10, ''KiB''), (0, ''B'')]"

text \<open>
  The quotient by a limit is a sum of two floats over a power of two, which is the rounded sum of
  the numerators over it; \<open>two_decimals\<close> prints such a quotient.  The absolute value of the least
  integer is undefined.
\<close>

definition bytesToHumanReadable :: "(nat \<Rightarrow> nat \<Rightarrow> string) \<Rightarrow> int \<Rightarrow> string result" where
  "bytesToHumanReadable two_decimals n =
     (if n = - (2 ^ 63) then Inl (Undefined_behaviour ''abs'')
      else
        let abytes = nat (abs n); sign = (if n < 0 then ''-'' else []) in
        case find (\<lambda>u. abytes \<ge> fst u) unit_limits of
          None \<Rightarrow> Inl (Runtime_error ''Bogus byte conversion'')
        | Some (limit, unit_text) \<Rightarrow>
            if limit \<noteq> 0 then
              let w = abytes div limit; f = round_float (abytes - w * limit)
              in Inr (sign @ two_decimals (round_float (round_float w * limit + f)) limit @ '' '' @ unit_text)
            else Inr (sign @ dec_of_nat abytes @ '' '' @ unit_text))"

section \<open>Torrents, peers and bitfields\<close>

text \<open>A path is printed with \<^verbatim>\<open>std::quoted\<close>.\<close>

definition quoted :: "string \<Rightarrow> string" where
  "quoted s = [CHR 0x22] @ concat (map (\<lambda>c. if c = CHR 0x22 \<or> c = CHR 0x5C then [CHR 0x5C, c] else [c]) s) @ [CHR 0x22]"

definition file_info_print :: "file_info \<Rightarrow> string" where
  "file_info_print fi =
     ''('' @ quoted (fi_path fi) @ '', '' @ dec_of_int (fi_length fi) @ '' bytes''
     @ (if fi_md5sum fi \<noteq> [] then '', '' @ fi_md5sum fi else []) @ '')''"

definition torrent_print :: "(int \<Rightarrow> string) \<Rightarrow> (nat \<Rightarrow> nat \<Rightarrow> string) \<Rightarrow> metainfo \<Rightarrow> string result" where
  "torrent_print local_time two_decimals t =
     (let rule = replicate 40 (CHR ''-'') @ newline; tab = replicate 15 (CHR '' '') in
      bindE (numeric_cast int64_t int64_t (m_creation_date t)) (\<lambda>creation.
      bindE (bytesToHumanReadable two_decimals (uint (m_piece_length t))) (\<lambda>piece_size.
      bindE (bytesToHumanReadable two_decimals (torrent_length t)) (\<lambda>total_size.
      Inr (rule
        @ ''Creation date: '' @ local_time creation @ '' ('' @ dec_of_int creation @ '')'' @ newline
        @ ''Comment:       '' @ m_comment t @ newline
        @ (if m_created_by t \<noteq> [] then ''Created by:    '' @ m_created_by t @ newline else [])
        @ (if m_encoding t \<noteq> [] then ''Encoding:      '' @ m_encoding t @ newline else [])
        @ ''Piece count:   '' @ dec_of_nat (length (m_pieces t)) @ newline
        @ ''Piece length:  '' @ dec_of_nat (unat (m_piece_length t)) @ '' bytes ('' @ piece_size @ '')'' @ newline
        @ ''Info hash:     '' @ sha1_hex (m_info_hash t) @ newline
        @ ''Private:       '' @ (if m_private t then ''Yes'' else ''No'') @ newline
        @ ''Name:          '' @ m_name t @ newline
        @ (if is_single_file t
           then (if m_md5sum t \<noteq> [] then ''MD5Sum:        '' @ m_md5sum t @ newline else [])
           else ''Files:'' @ newline @ concat (map (\<lambda>fi. tab @ file_info_print fi @ newline) (m_files t)))
        @ ''Length:        '' @ dec_of_int (torrent_length t) @ '' bytes ('' @ total_size @ '')'' @ newline
        @ ''Announce:      '' @ m_announce t @ newline
        @ ''Announce List:'' @ newline
        @ concat (map (\<lambda>tier. concat (map (\<lambda>url. tab @ url @ newline) tier)) (m_announce_list t))
        @ (if m_announce_list t = [] then tab @ m_announce t @ newline else [])
        @ rule)))))"

text \<open>
  A peer is named by the authority of its URL; the record of a peer keeps the printed URL only, so
  that the URL itself is an argument.
\<close>

definition peer_str :: "url option \<Rightarrow> string" where
  "peer_str u = (case u of None \<Rightarrow> ''<no url>'' | Some u \<Rightarrow> url_authority u)"

definition peer_print :: "url option \<Rightarrow> peer \<Rightarrow> string" where
  "peer_print u p =
     (let flag = (\<lambda>b. if b then ''1'' else ''0'') in
      ''Am choking:    '' @ flag (m_am_choking p) @ newline
      @ ''Am interested: '' @ flag (m_am_interested p) @ newline
      @ ''Choking:       '' @ flag (m_choking p) @ newline
      @ ''Interested:    '' @ flag (m_interested p) @ newline
      @ peer_str u)"

definition bitfield_print :: "bitfield \<Rightarrow> string" where
  "bitfield_print bf =
     ''-bitfield-'' @ newline
     @ concat (map (\<lambda>i. (if bf_test bf i then ''1'' else ''0'')
         @ (if i \<noteq> bf_size bf - 1 then
              (if i mod 1000 = 999 then newline @ newline else if i mod 100 = 99 then newline
               else if i mod 10 = 9 then '' '' else [])
            else [])) [0..<bf_size bf])
     @ newline @ ''----------'' @ newline"

section \<open>Names the client makes up\<close>

text \<open>The peer id in Azureus style; the twelve random characters are a parameter.\<close>

definition make_peer_id :: "string \<Rightarrow> string" where
  "make_peer_id random = ''-ZI0006-'' @ random"

section \<open>What can reach the console\<close>

lemma set_join_subset: "set sep \<subseteq> R \<Longrightarrow> (\<And>x. x \<in> set xs \<Longrightarrow> set x \<subseteq> R) \<Longrightarrow> set (join sep xs) \<subseteq> R"
  by (induction sep xs rule: join.induct) auto

definition printable :: "char set" where
  "printable = {c. 32 \<le> (of_char c :: nat) \<and> (of_char c :: nat) < 128}"

lemma signed_char: "static_cast int8_t (of_char c) =
    (if (of_char c :: nat) < 128 then int (of_char c) else int (of_char c) - 256)"
proof -
  define n where "n = (of_char c :: nat)"
  have n: "n < 256" "(of_char c :: int) = int n"
    by (simp_all add: n_def nat_of_char_less_256 of_nat_of_char)
  have cast: "static_cast int8_t v = (v + 128) mod 256 - 128" for v
    by (simp add: static_cast_def signed_take_bit_eq_take_bit_shift take_bit_eq_mod)
  show ?thesis
  proof (cases "n < 128")
    case True
    then have "(int n + 128) mod 256 = int n + 128"
      by (intro mod_pos_pos_trivial) simp_all
    with True show ?thesis
      by (simp add: cast n(2) n_def [symmetric])
  next
    case False
    have "int n + 128 = (int n - 128) + 256"
      by simp
    then have "(int n + 128) mod 256 = (int n - 128) mod 256"
      by (simp only: mod_add_self2)
    also have "\<dots> = int n - 128"
      using False n(1) by (intro mod_pos_pos_trivial) simp_all
    finally show ?thesis
      using False by (simp add: cast n(2) n_def [symmetric])
  qed
qed

lemma console_char_printable: "console_char c \<in> printable"
proof -
  define n where "n = (of_char c :: nat)"
  have "n < 256" "static_cast int8_t (of_char c) = (if n < 128 then int n else int n - 256)"
    unfolding n_def signed_char by (rule nat_of_char_less_256) (rule refl)
  then show ?thesis
    by (auto simp: console_char_def printable_def ASCII_LAST_CTRL_CHAR_def n_def [symmetric] split: if_splits)
qed

fun key_chars :: "elem \<Rightarrow> char set" where
  "key_chars (BeInt i) = {}"
| "key_chars (BeStr s) = {}"
| "key_chars (BeList es) = \<Union> (set (map key_chars es))"
| "key_chars (BeDict m) = \<Union> (set (map (\<lambda>e. set (fst e) \<union> key_chars (snd e)) m))"

lemma printable_text [simp]:
  "CHR '' '' \<in> printable" "CHR ''['' \<in> printable" "CHR '']'' \<in> printable" "CHR ''{'' \<in> printable"
  "CHR ''}'' \<in> printable" "CHR '':'' \<in> printable" "CHR '','' \<in> printable" "CHR ''<'' \<in> printable"
  "CHR ''>'' \<in> printable" "CHR ''.'' \<in> printable" "CHR ''-'' \<in> printable" "CHR ''?'' \<in> printable"
  by (simp_all add: printable_def)

lemma number_printable: "set (dec_of_nat n) \<subseteq> printable" "set (dec_of_int i) \<subseteq> printable"
proof -
  show n: "set (dec_of_nat n) \<subseteq> printable" for n
    using dec_of_nat_digits [of n] by (auto simp: is_digit_iff printable_def)
  then show "set (dec_of_int i) \<subseteq> printable"
    by (auto simp: dec_of_int_def)
qed

lemma console_string_printable: "set (console_string s) \<subseteq> printable"
  using number_printable(1) [of "length s"] by (auto simp: console_string_def console_char_printable)

lemma be_print_chars: "set (be_print ind e) \<subseteq> printable \<union> {CHR 0x0A} \<union> key_chars e"
proof (induction ind e rule: be_print.induct)
  case (1 ind i)
  then show ?case
    using number_printable(2) [of i] by auto
next
  case (2 ind s)
  then show ?case
    using console_string_printable [of s] by auto
next
  case (3 ind es)
  have "set (join '','' (map (be_print ind) es)) \<subseteq> printable \<union> {CHR 0x0A} \<union> key_chars (BeList es)"
    using 3 by (intro set_join_subset) auto
  then show ?case
    by simp
next
  case (4 ind m)
  have "set (replicate (ind + 2) (CHR '' '') @ fst e @ '' : '' @ be_print (ind + 2) (snd e))
      \<subseteq> printable \<union> {CHR 0x0A} \<union> key_chars (BeDict m)" if "e \<in> set m" for e
    using 4 [OF that] that by auto
  moreover have "set ('','' @ newline) \<subseteq> printable \<union> {CHR 0x0A} \<union> key_chars (BeDict m)"
    by (simp add: newline_def)
  ultimately have "set (join ('','' @ newline)
      (map (\<lambda>e. replicate (ind + 2) (CHR '' '') @ fst e @ '' : '' @ be_print (ind + 2) (snd e)) m))
      \<subseteq> printable \<union> {CHR 0x0A} \<union> key_chars (BeDict m)"
    by (intro set_join_subset) (assumption, simp only: set_map, blast)
  then show ?case
    by (auto simp: newline_def)
qed

text \<open>
  What the values of a decoded file print as cannot carry control characters to the console:
  every character is printable ASCII or a line break of the layout, except for those of dictionary
  keys, which are printed as they are.
\<close>

theorem print_console_safe:
  "set (be_print ind e) \<subseteq> printable \<union> {CHR 0x0A} \<union> key_chars e
    \<and> be_print ind (BeDict [([CHR 0x1B], BeStr [CHR 0x1B])]) =
      ''{'' @ newline @ replicate (ind + 2) (CHR '' '') @ [CHR 0x1B] @ '' : ?'' @ newline @ replicate ind (CHR '' '') @ ''}''"
proof
  show "set (be_print ind e) \<subseteq> printable \<union> {CHR 0x0A} \<union> key_chars e"
    by (rule be_print_chars)
  have "console_string [CHR 0x1B] = ''?''"
    by (simp add: console_string_def MAX_LINE_WIDTH_def console_char_def ASCII_LAST_CTRL_CHAR_def static_cast_def
        signed_take_bit_int_eq_self)
  then show "be_print ind (BeDict [([CHR 0x1B], BeStr [CHR 0x1B])]) =
      ''{'' @ newline @ replicate (ind + 2) (CHR '' '') @ [CHR 0x1B] @ '' : ?'' @ newline @ replicate ind (CHR '' '') @ ''}''"
    by (simp add: newline_def)
qed

section \<open>Sizes for humans\<close>

lemma bit_length_le: "n < 2 ^ k \<Longrightarrow> bit_length n \<le> k"
proof (induction k arbitrary: n)
  case 0
  then show ?case
    by (simp add: bit_length.simps [of 0])
next
  case (Suc k)
  then have "n div 2 < 2 ^ k"
    by simp
  with Suc.IH [of "n div 2"] show ?case
    by (cases "n = 0") (simp_all add: bit_length.simps [of n] bit_length.simps [of 0])
qed

lemma round_float_exact: "n < 2 ^ 24 \<Longrightarrow> round_float n = n"
  using bit_length_le [of n 24] by (simp add: round_float_def)

text \<open>
  A size is printed for every 64 bit number but the least one, with its sign, in the largest
  unit that is not above it; below 16 MiB the number is the exact quotient.
\<close>

theorem human_readable:
  assumes "- (2 ^ 63) < n" and "n < 2 ^ 63"
  shows "\<exists>v. bytesToHumanReadable two_decimals n = Inr v"
    and "0 \<le> n \<Longrightarrow> n < 2 ^ 10 \<Longrightarrow> bytesToHumanReadable two_decimals n = Inr (dec_of_nat (nat n) @ '' B'')"
    and "2 ^ 10 \<le> n \<Longrightarrow> n < 2 ^ 20 \<Longrightarrow>
      bytesToHumanReadable two_decimals n = Inr (two_decimals (nat n) (2 ^ 10) @ '' KiB'')"
    and "2 ^ 20 \<le> n \<Longrightarrow> n < 2 ^ 24 \<Longrightarrow>
      bytesToHumanReadable two_decimals n = Inr (two_decimals (nat n) (2 ^ 20) @ '' MiB'')"
proof -
  have parts: "round_float (round_float (m div k) * k + round_float (m - m div k * k)) = m" if "m < 2 ^ 24" for m k
  proof -
    have "m div k < 2 ^ 24" "m - m div k * k < 2 ^ 24"
      using that div_le_dividend [of m k] by linarith+
    then show ?thesis
      using that by (simp add: round_float_exact)
  qed
  show "\<exists>v. bytesToHumanReadable two_decimals n = Inr v"
    using assms(1) by (auto simp: bytesToHumanReadable_def unit_limits_def Let_def)
  show "0 \<le> n \<Longrightarrow> n < 2 ^ 10 \<Longrightarrow> bytesToHumanReadable two_decimals n = Inr (dec_of_nat (nat n) @ '' B'')"
    by (simp add: bytesToHumanReadable_def unit_limits_def Let_def nat_le_iff nat_less_iff)
  show "2 ^ 10 \<le> n \<Longrightarrow> n < 2 ^ 20 \<Longrightarrow>
      bytesToHumanReadable two_decimals n = Inr (two_decimals (nat n) (2 ^ 10) @ '' KiB'')"
    using parts [of "nat n" "2 ^ 10"] by (simp add: bytesToHumanReadable_def unit_limits_def Let_def le_nat_iff nat_less_iff)
  show "2 ^ 20 \<le> n \<Longrightarrow> n < 2 ^ 24 \<Longrightarrow>
      bytesToHumanReadable two_decimals n = Inr (two_decimals (nat n) (2 ^ 20) @ '' MiB'')"
    using parts [of "nat n" "2 ^ 20"] by (simp add: bytesToHumanReadable_def unit_limits_def Let_def le_nat_iff nat_less_iff)
qed

lemma torrent_print_ok:
  assumes "ity_has int64_t (m_creation_date t)" and "- (2 ^ 63) < torrent_length t" and "torrent_length t < 2 ^ 63"
  shows "\<exists>s. torrent_print local_time two_decimals t = Inr s"
proof -
  have "- (2 ^ 63) < (0 :: int)" "0 \<le> uint (m_piece_length t)"
    by simp_all
  then have low: "- (2 ^ 63) < uint (m_piece_length t)"
    by (rule order.strict_trans2)
  have "uint (m_piece_length t) < 2 ^ LENGTH(32)" "(2 :: int) ^ LENGTH(32) < 2 ^ 63"
    by (rule unsigned_less) simp
  then have high: "uint (m_piece_length t) < 2 ^ 63"
    by (rule order.strict_trans)
  from human_readable(1) [OF low high, of two_decimals] human_readable(1) [OF assms(2,3), of two_decimals]
  obtain a b where "bytesToHumanReadable two_decimals (uint (m_piece_length t)) = Inr a"
    "bytesToHumanReadable two_decimals (torrent_length t) = Inr b"
    by blast
  moreover have "numeric_cast int64_t int64_t (m_creation_date t) = Inr (m_creation_date t)"
    using numeric_cast_signed_signed [of int64_t int64_t "m_creation_date t"] assms(1) by simp
  ultimately show ?thesis
    by (simp only: torrent_print_def Let_def bindE.simps) (rule exI, rule refl)
qed

end
