(* ===== verification/Client.thy ===== *)
theory Client
  imports Swarm Verify Args Print TorrentWriter
begin

text \<open>
  The program as a whole: \<^verbatim>\<open>src/main.cpp\<close>, the constructor of \<^verbatim>\<open>Torrent\<close> and
  \<^verbatim>\<open>Torrent::run\<close> in \<^verbatim>\<open>src/torrent.cpp\<close>, and \<^verbatim>\<open>src/file_utils.hpp\<close>.
  Parameters are the digest, the random part of a peer id, the order of the startup check, the
  formatting of times and decimals, and whether the logging library takes a text for the level
  \<^verbatim>\<open>off\<close>.
\<close>

section \<open>Whole files\<close>

definition read_file :: "string \<Rightarrow> filesystem \<Rightarrow> string result" where
  "read_file file_name s =
     (case fs_files s file_name of
        None \<Rightarrow> Inl (Runtime_error ''Could not read'')
      | Some c \<Rightarrow> Inr (if c = [] then [] else string_of_bytes c))"

definition write_file :: "string \<Rightarrow> string \<Rightarrow> unit io" where
  "write_file file_name str =
     (\<lambda>s. case bindIO (fs_create file_name) (\<lambda>_. fs_write_at file_name 0 (bytes_of_string str)) s of
        (Inl e, s') \<Rightarrow> (Inl (Runtime_error ''Could not write''), s')
      | (Inr _, s') \<Rightarrow> (Inr (), s'))"

section \<open>Constructing a torrent\<close>

text \<open>What differs from torrent to torrent: the random text, the order of the check, the digest.\<close>

record host =
  h_sha1 :: "bytes \<Rightarrow> string"
  h_random :: "nat \<Rightarrow> string"
  h_order :: "nat \<Rightarrow> u32 list"
  h_disk :: filesystem

text \<open>
  The constructor of the torrent \<open>self\<close>: the ports are converted before the file is read; the
  registry is changed last.  The result has the client and the port for outgoing connections.
\<close>

definition construct_torrent ::
    "host \<Rightarrow> config \<Rightarrow> string \<Rightarrow> string \<Rightarrow> nat \<Rightarrow> (string, nat) smap \<Rightarrow> ((client \<times> u16) \<times> (string, nat) smap) outcome" where
  "construct_torrent h cfg file data_dir self reg =
     (case bindE (numeric_cast uint16_t int32_t (m_int_settings cfg LISTENING_PORT)) (\<lambda>lport.
           bindE (numeric_cast uint16_t int32_t (m_int_settings cfg CONNECTION_PORT)) (\<lambda>cport.
           bindE (read_file file (h_disk h)) (\<lambda>content.
           bindE (parse_torrent (\<lambda>s. h_sha1 h (bytes_of_string s)) data_dir content) (\<lambda>mi.
           Inr (of_int lport :: u16, of_int cport :: u16, mi))))) of
        Inl e \<Rightarrow> Normal (Inl e)
      | Inr (lport, cport, mi) \<Rightarrow>
          (case (if m_bool_settings cfg VERIFY_PIECES_ON_STARTUP
                 then verify_existing_file (h_sha1 h) (h_order h self) (new_torrent mi) (h_disk h)
                 else Normal (Inr (new_torrent mi))) of
             Terminate \<Rightarrow> Terminate
           | Normal (Inl e) \<Rightarrow> Normal (Inl e)
           | Normal (Inr t) \<Rightarrow>
               Normal (bindE (torrents_insert (m_info_hash mi) self reg) (\<lambda>reg'.
               Inr ((\<lparr>cl_torrent = t, cl_peer_id = make_peer_id (h_random h self), cl_listening_port = lport,
                      cl_config = cfg, cl_stopped = False\<rparr>, cport), reg')))))"

fun construct_torrents ::
    "host \<Rightarrow> config \<Rightarrow> nat \<Rightarrow> string list \<Rightarrow> (string, nat) smap \<Rightarrow> (client \<times> u16) list outcome" where
  "construct_torrents h cfg self [] reg = Normal (Inr [])"
| "construct_torrents h cfg self (file # files) reg =
     (case construct_torrent h cfg file [] self reg of
        Terminate \<Rightarrow> Terminate
      | Normal (Inl e) \<Rightarrow> Normal (Inl e)
      | Normal (Inr (c, reg')) \<Rightarrow>
          (case construct_torrents h cfg (self + 1) files reg' of
             Terminate \<Rightarrow> Terminate
           | Normal r \<Rightarrow> Normal (bindE r (\<lambda>cs. Inr (c # cs)))))"

section \<open>The program\<close>

record formats =
  fm_time :: "int \<Rightarrow> string"
  fm_decimals :: "nat \<Rightarrow> nat \<Rightarrow> string"
  fm_level_off :: "string \<Rightarrow> bool"

text \<open>
  The end of the program with its exit code and console output, its abort, or the torrents it
  serves, each registered with the file writer, together with the log.
\<close>

datatype program =
    Exit nat string
  | Abort
  | Serve "(client \<times> u16) list" "string list"

record options =
  o_help :: bool
  o_torrents :: "string list"
  o_port :: int
  o_level :: string
  o_prefix :: string
  o_dump_torrent :: bool
  o_dump_config :: bool

text \<open>The results of the parser; with the help flag nothing else is asked for.\<close>

definition read_options :: "'f arg_parser \<Rightarrow> options result" where
  "read_options p =
     bindE (get_arg T_BOOL ''--help'' p) (\<lambda>help_wanted.
     if the_bool help_wanted
     then Inr \<lparr>o_help = True, o_torrents = [], o_port = 0, o_level = [], o_prefix = [], o_dump_torrent = False,
               o_dump_config = False\<rparr>
     else
       bindE (get_multi T_STRING ''--torrent'' p) (\<lambda>fs.
       bindE (get_arg T_INT ''--listening-port'' p) (\<lambda>port.
       bindE (get_arg T_STRING ''--log-level'' p) (\<lambda>level.
       bindE (get_arg T_STRING ''--log-prefix'' p) (\<lambda>prefix.
       bindE (get_arg T_BOOL ''--dump-torrent'' p) (\<lambda>dt.
       bindE (get_arg T_BOOL ''--dump-config'' p) (\<lambda>dc.
       Inr \<lparr>o_help = False, o_torrents = map the_string fs, o_port = the_int port, o_level = the_string level,
            o_prefix = the_string prefix, o_dump_torrent = the_bool dt, o_dump_config = the_bool dc\<rparr>)))))))"

definition dump_text :: "formats \<Rightarrow> options \<Rightarrow> (client \<times> u16) list \<Rightarrow> string result" where
  "dump_text fm opts cs =
     bindE (mapE (\<lambda>(c, _).
       bindE (if o_dump_torrent opts
              then bindE (torrent_print (fm_time fm) (fm_decimals fm) (meta (cl_torrent c))) (\<lambda>s. Inr (s @ newline))
              else Inr []) (\<lambda>t.
       Inr (t @ (if o_dump_config opts then config_dump (cl_config c) @ newline else [])))) cs) (\<lambda>ts. Inr (concat ts))"

definition serve :: "formats \<Rightarrow> (client \<times> u16) list \<Rightarrow> program" where
  "serve fm cs =
     (case mapE (\<lambda>(c, _). torrent_print (fm_time fm) (fm_decimals fm) (meta (cl_torrent c))) cs of
        Inl e \<Rightarrow> Exit 1 []
      | Inr texts \<Rightarrow>
          Serve (map (\<lambda>(c, port). (c\<lparr>cl_torrent := register_torrent (cl_torrent c)\<rparr>, port)) cs)
            (map (\<lambda>s. newline @ s) texts))"

definition client_run :: "formats \<Rightarrow> host \<Rightarrow> config \<Rightarrow> options \<Rightarrow> program" where
  "client_run fm h base opts =
     (let dump = (o_dump_torrent opts \<or> o_dump_config opts) in
      if o_level opts \<noteq> [] \<and> fm_level_off fm (o_level opts) \<and> o_level opts \<noteq> ''off'' then Exit 1 []
      else
        (case construct_torrents h (command_line_config (o_port opts) dump base) 0 (o_torrents opts) [] of
           Terminate \<Rightarrow> Abort
         | Normal (Inl e) \<Rightarrow> Exit 1 []
         | Normal (Inr cs) \<Rightarrow>
             (if dump then (case dump_text fm opts cs of Inl e \<Rightarrow> Exit 1 [] | Inr out \<Rightarrow> Exit 0 out)
              else serve fm cs)))"

definition client_main ::
    "(string \<Rightarrow> ('f \<times> bool) result) \<Rightarrow> formats \<Rightarrow> host \<Rightarrow> config \<Rightarrow> string list \<Rightarrow> program" where
  "client_main stof fm h base argv =
     (case main_parser of
        Inl e \<Rightarrow> Exit 1 []
      | Inr p0 \<Rightarrow>
          (case parse_args stof argv p0 of
             (Inl e, _) \<Rightarrow> Exit 1 []
           | (Inr _, p) \<Rightarrow>
               (case read_options p of
                  Inl e \<Rightarrow> Exit 1 []
                | Inr opts \<Rightarrow> if o_help opts then Exit 0 (usage p) else client_run fm h base opts)))"

section \<open>The thread of a torrent\<close>

text \<open>
  The loop of \<^verbatim>\<open>run\<close>, over what it finds to do: each element is the handler run in one round and
  whether the shared service is stopped before it.  The result tells whether the loop ended by
  itself.
\<close>

fun run_torrent :: "nat \<Rightarrow> (bool \<times> (world, unit) st) list \<Rightarrow> (world, bool) st" where
  "run_torrent self [] = retIO False"
| "run_torrent self ((io_stopped, handler) # rounds) =
     bindIO (getIO (run_continues io_stopped self)) (\<lambda>more.
     if more then bindIO handler (\<lambda>_. run_torrent self rounds) else retIO True)"

text \<open>The thread catches what leaves the loop and ends; \<open>None\<close>: it is still running.\<close>

definition torrent_thread ::
    "swarm_env \<Rightarrow> nat \<Rightarrow> (bool \<times> (world, unit) st) list \<Rightarrow> world \<Rightarrow> exn option option \<times> world" where
  "torrent_thread env self rounds w =
     (case bindIO (start env self) (\<lambda>_. run_torrent self rounds) w of
        (Inl e, w') \<Rightarrow> (Some (Some e), w')
      | (Inr ended, w') \<Rightarrow> (if ended then Some None else None, w'))"

definition set_stopped :: "nat \<Rightarrow> (world, unit) st" where
  "set_stopped self = on_swarm self (sw_stopped_update (\<lambda>_. True))"

definition sigint_function :: "nat list \<Rightarrow> (world, unit) st" where
  "sigint_function torrents = iterIO set_stopped torrents"

section \<open>From the torrent file to a running download\<close>

lemma setting_port_cast: "0 \<le> p \<Longrightarrow> p < 2 ^ 16 \<Longrightarrow> numeric_cast uint16_t int32_t p = Inr p"
  by (simp add: numeric_cast_def static_cast_def make_unsigned_def ity_max_def take_bit_int_eq_self)

lemma construct_torrent_ok:
  assumes "0 \<le> m_int_settings cfg LISTENING_PORT" and "m_int_settings cfg LISTENING_PORT < 2 ^ 16"
    and "0 \<le> m_int_settings cfg CONNECTION_PORT" and "m_int_settings cfg CONNECTION_PORT < 2 ^ 16"
    and "read_file tf (h_disk h) = Inr content"
    and "parse_torrent (\<lambda>s. h_sha1 h (bytes_of_string s)) data_dir content = Inr mi"
    and "m_bool_settings cfg VERIFY_PIECES_ON_STARTUP"
    and "verify_existing_file (h_sha1 h) (h_order h self) (new_torrent mi) (h_disk h) = Normal (Inr t)"
  shows "construct_torrent h cfg tf data_dir self reg =
    Normal (bindE (torrents_insert (m_info_hash mi) self reg) (\<lambda>reg'.
      Inr ((\<lparr>cl_torrent = t, cl_peer_id = make_peer_id (h_random h self),
             cl_listening_port = of_int (m_int_settings cfg LISTENING_PORT), cl_config = cfg, cl_stopped = False\<rparr>,
            of_int (m_int_settings cfg CONNECTION_PORT)), reg')))"
  using assms by (simp add: construct_torrent_def setting_port_cast)

lemma client_run_serves:
  assumes "read_file tf (h_disk h) = Inr content"
    and "parse_torrent (\<lambda>s. h_sha1 h (bytes_of_string s)) [] content = Inr mi"
    and "verify_existing_file (h_sha1 h) (h_order h 0) (new_torrent mi) (h_disk h) = Normal (Inr t)"
    and "torrent_print (fm_time fm) (fm_decimals fm) (meta t) = Inr info"
    and "m_bool_settings base VERIFY_PIECES_ON_STARTUP"
    and "0 < port" and "port < 2 ^ 16"
    and "0 \<le> m_int_settings base CONNECTION_PORT" and "m_int_settings base CONNECTION_PORT < 2 ^ 16"
  shows "client_run fm h base \<lparr>o_help = False, o_torrents = [tf], o_port = port, o_level = [], o_prefix = prefix,
      o_dump_torrent = False, o_dump_config = False\<rparr> =
    Serve [(\<lparr>cl_torrent = register_torrent t, cl_peer_id = make_peer_id (h_random h 0), cl_listening_port = of_int port,
        cl_config = command_line_config port False base, cl_stopped = False\<rparr>,
      of_int (m_int_settings base CONNECTION_PORT))] [newline @ info]"
proof -
  define cfg where "cfg = command_line_config port False base"
  have cfg: "m_int_settings cfg LISTENING_PORT = port" "m_bool_settings cfg VERIFY_PIECES_ON_STARTUP"
    "m_int_settings cfg CONNECTION_PORT = m_int_settings base CONNECTION_PORT"
    using assms(5,6) by (simp_all add: cfg_def command_line_config_def)
  define c where "c = \<lparr>cl_torrent = t, cl_peer_id = make_peer_id (h_random h 0), cl_listening_port = of_int port,
    cl_config = cfg, cl_stopped = False\<rparr>"
  have made: "construct_torrents h cfg 0 [tf] [] = Normal (Inr [(c, of_int (m_int_settings base CONNECTION_PORT))])"
    using construct_torrent_ok [where cfg = cfg and tf = tf and h = h and data_dir = "[]" and mi = mi and self = 0
      and t = t and reg = "[]"] assms cfg
    by (simp add: torrents_insert_def c_def)
  then show ?thesis
    using assms(4)
    by (simp add: client_run_def cfg_def [symmetric] serve_def del: construct_torrents.simps) (simp add: c_def)
qed

text \<open>
  C7.  Started with one torrent file and the data on disk, the client serves a torrent whose
  received pieces are exactly those that are intact on disk, and which is a state of the download
  model with the file writer attached: everything proved of downloads holds from there on.
\<close>

theorem client_serves:
  assumes "read_file tf (h_disk h) = Inr content"
    and "parse_torrent (\<lambda>s. h_sha1 h (bytes_of_string s)) [] content = Inr mi"
    and "small_torrent mi" and "distinct (h_order h 0)" and "unat ` set (h_order h 0) = {..<length (m_pieces mi)}"
    and "store_present (scan_meta mi (h_disk h)) (h_disk h)"
    and "verify_existing_file (h_sha1 h) (h_order h 0) (new_torrent mi) (h_disk h) = Normal (Inr t)"
    and "torrent_print (fm_time fm) (fm_decimals fm) (meta t) = Inr info"
    and "m_bool_settings base VERIFY_PIECES_ON_STARTUP"
    and "0 < port" and "port < 2 ^ 16"
    and "0 \<le> m_int_settings base CONNECTION_PORT" and "m_int_settings base CONNECTION_PORT < 2 ^ 16"
  shows "\<exists>c cport. client_run fm h base \<lparr>o_help = False, o_torrents = [tf], o_port = port, o_level = [], o_prefix = prefix,
        o_dump_torrent = False, o_dump_config = False\<rparr> = Serve [(c, cport)] [newline @ info]
    \<and> download_reach (h_sha1 h) lpw (scan_meta mi (h_disk h)) (h_disk h)
        \<lparr>w_torrent = cl_torrent c, w_fs = h_disk h, w_completed = 0\<rparr>
    \<and> bf_indices (m_client_pieces (cl_torrent c)) = {k. k < length (m_pieces mi)
        \<and> piece_verified (h_sha1 h) (scan_meta mi (h_disk h)) (store_stream (scan_meta mi (h_disk h)) (h_disk h)) (of_nat k)}
    \<and> cl_listening_port c = of_int port"
proof -
  define c where "c = \<lparr>cl_torrent = register_torrent t, cl_peer_id = make_peer_id (h_random h 0),
    cl_listening_port = of_int port, cl_config = command_line_config port False base, cl_stopped = False\<rparr>"
  have run: "client_run fm h base \<lparr>o_help = False, o_torrents = [tf], o_port = port, o_level = [], o_prefix = prefix,
        o_dump_torrent = False, o_dump_config = False\<rparr> =
      Serve [(c, of_int (m_int_settings base CONNECTION_PORT))] [newline @ info]"
    unfolding c_def using assms(1,2,7-13) by (rule client_run_serves)
  have fresh: "\<not> (is_single_file mi \<and> path_exists (h_disk h) (m_name mi) \<and> path_exists (h_disk h) (m_tmpfile mi))"
    using assms(7) by (auto simp: verify_existing_file_def new_torrent_def)
  obtain u where u: "bf_indices (m_client_pieces u) = {k. k < length (m_pieces mi)
        \<and> piece_verified (h_sha1 h) (scan_meta mi (h_disk h)) (store_stream (scan_meta mi (h_disk h)) (h_disk h)) (of_nat k)}"
    and "verify_existing_file (h_sha1 h) (h_order h 0) (new_torrent mi) (h_disk h) =
      Normal (if is_single_file mi \<and> path_exists (h_disk h) (m_name mi) \<and> \<not> torrent_done u
        then Inl (Runtime_error ''Filename exists but does not match all pieces'') else Inr u)"
    using verify_existing_scan [OF assms(3-6) fresh, of "h_sha1 h"] by blast
  then have "t = u"
    using assms(7) by (auto split: if_splits)
  moreover have "download_reach (h_sha1 h) lpw (scan_meta mi (h_disk h)) (h_disk h)
      \<lparr>w_torrent = register_torrent t, w_fs = h_disk h, w_completed = 0\<rparr>"
    using verified_start_reach [OF assms(3-7)] .
  ultimately show ?thesis
    using run u by (intro exI [of _ c] exI [of _ "of_int (m_int_settings base CONNECTION_PORT)"])
      (simp add: register_torrent_def add_piece_callback_def c_def)
qed

text \<open>
  C10.  From the writer to the client: a torrent file written for some data, put on a disk that has
  the data in place, is read by the client, which serves the torrent as complete at once.
\<close>

theorem share_and_seed:
  assumes "writable (h_sha1 h) now comment tracker piece_length path data"
    and "data_bytes data \<noteq> []" and "length (data_bytes data) < 2 ^ 32"
    and "torrent_root (h_sha1 h) now comment tracker piece_length path data = Inr root"
    and "read_file tf (h_disk h) = Inr (be_encode (BeDict root))"
    and mi: "mi = written_meta (\<lambda>s. h_sha1 h (bytes_of_string s)) (h_sha1 h) now comment tracker piece_length path data []"
    and "distinct (h_order h 0)" and "unat ` set (h_order h 0) = {..<length (m_pieces mi)}"
    and "store_present (scan_meta mi (h_disk h)) (h_disk h)"
    and "store_stream (scan_meta mi (h_disk h)) (h_disk h) = data_bytes data"
    and "\<not> (is_single_file mi \<and> path_exists (h_disk h) (m_name mi) \<and> path_exists (h_disk h) (m_tmpfile mi))"
    and "m_bool_settings base VERIFY_PIECES_ON_STARTUP" and "0 < port" and "port < 2 ^ 16"
    and "0 \<le> m_int_settings base CONNECTION_PORT" and "m_int_settings base CONNECTION_PORT < 2 ^ 16"
  shows "\<exists>c cport info. client_run fm h base \<lparr>o_help = False, o_torrents = [tf], o_port = port, o_level = [],
        o_prefix = prefix, o_dump_torrent = False, o_dump_config = False\<rparr> = Serve [(c, cport)] [info]
    \<and> torrent_done (cl_torrent c) \<and> meta (cl_torrent c) = scan_meta mi (h_disk h)"
proof -
  obtain t where t: "verify_existing_file (h_sha1 h) (h_order h 0) (new_torrent mi) (h_disk h) = Normal (Inr t)" "torrent_done t"
    using written_complete [OF assms(1-3) mi assms(7-11)] by blast
  have "shares_something data"
    using assms(2) by (cases data) (auto simp: shares_something_def data_is_file_def data_files_def data_bytes_def)
  then have parse: "parse_torrent (\<lambda>s. h_sha1 h (bytes_of_string s)) [] (be_encode (BeDict root)) = Inr mi"
    using written_parses [OF assms(1), of "\<lambda>s. h_sha1 h (bytes_of_string s)" "[]"] assms(4) by (simp add: mi)
  have small: "small_torrent mi"
    using written_small [OF assms(1-3)] by (simp add: mi)
  have meta: "meta t = scan_meta mi (h_disk h)"
    using verify_existing_scan [OF small assms(7-9,11), of "h_sha1 h"] t(1) by (auto split: if_splits)
  have "m_creation_date (meta t) = now"
    by (simp add: meta scan_meta_def mi written_meta_def)
  moreover have "torrent_length (meta t) = int (length (data_bytes data))"
    using written_length assms(1) by (simp add: meta mi writable_def)
  ultimately obtain info where info: "torrent_print (fm_time fm) (fm_decimals fm) (meta t) = Inr info"
    using torrent_print_ok [of "meta t" "fm_time fm" "fm_decimals fm"] assms(1,3) by (auto simp: writable_def)
  note client_run_serves [OF assms(5) parse t(1) info assms(12-16)]
  moreover have "torrent_done (register_torrent t) = torrent_done t"
    by (simp add: torrent_done_def register_torrent_def add_piece_callback_def)
  ultimately show ?thesis
    using t(2) meta by (intro exI conjI) (assumption, simp_all, simp add: register_torrent_def add_piece_callback_def)
qed

subsection \<open>An example: a file of three bytes, shared and seeded\<close>

definition letter_root :: "(string \<times> elem) list" where
  "letter_root = root_fields letter_sha1 7 ''c'' ''u'' 2 ''/tmp/f'' letter_data"

definition letter_host :: host where
  "letter_host = \<lparr>h_sha1 = letter_sha1, h_random = (\<lambda>_. ''abcdefghijkl''), h_order = (\<lambda>_. [0, 1]),
     h_disk = \<lparr>fs_files = [''f.torrent'' \<mapsto> bytes_of_string (be_encode (BeDict letter_root)), ''f'' \<mapsto> [1, 2, 3]], fs_dirs = {}\<rparr>\<rparr>"

definition letter_meta :: metainfo where
  "letter_meta = written_meta (\<lambda>s. letter_sha1 (bytes_of_string s)) letter_sha1 7 ''c'' ''u'' 2 ''/tmp/f'' letter_data []"

lemma letter_meta_simps:
  "m_name letter_meta = ''f''" "m_tmpfile letter_meta = ''f.zit_downloading''" "m_length letter_meta = 3"
  "length (m_pieces letter_meta) = 2" "is_single_file letter_meta" "torrent_length letter_meta = 3"
  by (simp_all add: letter_meta_def written_meta_def path_append_def path_filename_def starts_with_def data_is_file_def
      data_bytes_def writer_pieces_def view_chunks_step letter_data_def letter_sha1_def tmpfileExtension_def
      is_single_file_def torrent_length_def)

lemma letter_host_simps [simp]: "h_sha1 letter_host = letter_sha1" "h_order letter_host i = [0, 1]"
  by (simp_all add: letter_host_def)

lemma letter_scan: "scan_meta letter_meta (h_disk letter_host) = letter_meta\<lparr>m_tmpfile := ''f''\<rparr>"
  by (simp add: scan_meta_def path_exists_def letter_host_def letter_meta_simps)

lemma letter_store:
  "store_present (scan_meta letter_meta (h_disk letter_host)) (h_disk letter_host)"
  "store_stream (scan_meta letter_meta (h_disk letter_host)) (h_disk letter_host) = data_bytes letter_data"
  "\<not> path_exists (h_disk letter_host) (m_tmpfile letter_meta)"
  unfolding letter_scan using letter_meta_simps
  by (simp_all add: store_present_def store_stream_def single_present_def single_stream_def letter_host_def
      data_bytes_def letter_data_def path_exists_def)

lemma letter_read: "read_file ''f.torrent'' (h_disk letter_host) = Inr (be_encode (BeDict letter_root))"
  by (auto simp: read_file_def letter_host_def simp del: be_encode.simps)
    (simp add: bytes_of_string_def)

lemma letter_torrent_root: "torrent_root letter_sha1 7 ''c'' ''u'' 2 ''/tmp/f'' letter_data = Inr letter_root"
  by (simp add: letter_root_def torrent_root_eq readable_data_def letter_data_def)

lemma letter_ids: "distinct [0, 1 :: u32]" "unat ` set [0, 1 :: u32] = {..<length (m_pieces letter_meta)}"
  using letter_meta_simps(4) by auto

lemma letter_verify:
  "\<exists>t. verify_existing_file letter_sha1 [0, 1] (new_torrent letter_meta) (h_disk letter_host) = Normal (Inr t)"
  using written_complete [OF letter_writable _ _ letter_meta_def letter_ids letter_store(1,2)] letter_store(3)
  by (auto simp: data_bytes_def letter_data_def)

lemma letter_parses:
  "parse_torrent (\<lambda>s. letter_sha1 (bytes_of_string s)) [] (be_encode (BeDict letter_root)) = Inr letter_meta"
  using written_parses [OF letter_writable, of "\<lambda>s. letter_sha1 (bytes_of_string s)" "[]"] letter_torrent_root
  by (simp add: letter_meta_def shares_something_def letter_data_def data_is_file_def data_bytes_def)

lemma default_settings:
  "m_bool_settings default_config VERIFY_PIECES_ON_STARTUP" "0 \<le> m_int_settings default_config CONNECTION_PORT"
  "m_int_settings default_config CONNECTION_PORT < 2 ^ 16"
  by (simp_all add: default_config_def)

definition plain_formats :: formats where
  "plain_formats = \<lparr>fm_time = \<lambda>_. [], fm_decimals = \<lambda>_ _. [], fm_level_off = \<lambda>_. False\<rparr>"

definition letter_options :: options where
  "letter_options = \<lparr>o_help = False, o_torrents = [''f.torrent''], o_port = 6881, o_level = [], o_prefix = [],
     o_dump_torrent = False, o_dump_config = False\<rparr>"

theorem share_and_seed_witness:
  "\<exists>c cport info. client_run plain_formats letter_host default_config letter_options = Serve [(c, cport)] [info]
    \<and> torrent_done (cl_torrent c)"
  using share_and_seed [of letter_host 7 "''c''" "''u''" 2 "''/tmp/f''" letter_data letter_root "''f.torrent''" letter_meta
      default_config 6881 plain_formats "[]"] letter_writable letter_torrent_root letter_read letter_meta_def letter_ids
    letter_store default_settings
  by (auto simp: data_bytes_def letter_data_def letter_options_def)

theorem client_serves_witness:
  "\<exists>c cport info. client_run plain_formats letter_host default_config letter_options = Serve [(c, cport)] [info]
    \<and> download_reach letter_sha1 (\<lambda>_. Inr ()) (letter_meta\<lparr>m_tmpfile := ''f''\<rparr>) (h_disk letter_host)
        \<lparr>w_torrent = cl_torrent c, w_fs = h_disk letter_host, w_completed = 0\<rparr>
    \<and> cl_listening_port c = 6881"
proof -
  obtain t where t: "verify_existing_file letter_sha1 [0, 1] (new_torrent letter_meta) (h_disk letter_host) = Normal (Inr t)"
    using letter_verify by blast
  have small: "small_torrent letter_meta"
    unfolding letter_meta_def using letter_writable by (rule written_small) (simp_all add: data_bytes_def letter_data_def)
  have fresh: "\<not> (is_single_file letter_meta \<and> path_exists (h_disk letter_host) (m_name letter_meta)
      \<and> path_exists (h_disk letter_host) (m_tmpfile letter_meta))"
    using letter_store(3) by simp
  have "meta t = scan_meta letter_meta (h_disk letter_host)"
    using verify_existing_scan [OF small letter_ids letter_store(1) fresh, of letter_sha1] t by (auto split: if_splits)
  then have "m_creation_date (meta t) = 7" "torrent_length (meta t) = 3"
    by (simp_all add: letter_scan letter_meta_simps) (simp add: letter_meta_def written_meta_def)
  then obtain info where info: "torrent_print (fm_time plain_formats) (fm_decimals plain_formats) (meta t) = Inr info"
    using torrent_print_ok [of "meta t" "fm_time plain_formats" "fm_decimals plain_formats"]
    by (auto simp: ity_has_def ity_min_def ity_max_def)
  show ?thesis
    using client_serves [of "''f.torrent''" letter_host "be_encode (BeDict letter_root)" letter_meta t plain_formats info
        default_config 6881 "[]" "\<lambda>_. Inr ()"] letter_read letter_parses small letter_ids letter_store(1) t info default_settings
    by (auto simp: letter_options_def letter_scan)
qed

section \<open>What a dump does, and how a torrent stops\<close>

lemma construct_torrent_unverified:
  assumes "\<not> m_bool_settings cfg VERIFY_PIECES_ON_STARTUP"
  shows "\<exists>r. construct_torrent h cfg tf data_dir self reg = Normal r
    \<and> (\<forall>c p reg'. r = Inr ((c, p), reg') \<longrightarrow> cl_torrent c = new_torrent (meta (cl_torrent c)))"
proof -
  have new: "meta (new_torrent mi) = mi" for mi
    by (simp add: new_torrent_def)
  define r where "r = bindE (numeric_cast uint16_t int32_t (m_int_settings cfg LISTENING_PORT)) (\<lambda>lport.
      bindE (numeric_cast uint16_t int32_t (m_int_settings cfg CONNECTION_PORT)) (\<lambda>cport.
      bindE (read_file tf (h_disk h)) (\<lambda>content.
      bindE (parse_torrent (\<lambda>s. h_sha1 h (bytes_of_string s)) data_dir content) (\<lambda>mi.
      Inr (of_int lport :: u16, of_int cport :: u16, mi)))))"
  show ?thesis
    using assms by (cases r) (auto simp: construct_torrent_def r_def [symmetric] result_simps new split: prod.splits)
qed

lemma construct_torrents_unverified:
  assumes "\<not> m_bool_settings cfg VERIFY_PIECES_ON_STARTUP"
  shows "\<exists>r. construct_torrents h cfg self files reg = Normal r
    \<and> (\<forall>cs. r = Inr cs \<longrightarrow> (\<forall>c \<in> fst ` set cs. cl_torrent c = new_torrent (meta (cl_torrent c))))"
proof (induction files arbitrary: self reg)
  case (Cons f files)
  from construct_torrent_unverified [OF assms, of h f "[]" self reg] obtain r
    where r: "construct_torrent h cfg f [] self reg = Normal r"
      "\<And>c p reg'. r = Inr ((c, p), reg') \<Longrightarrow> cl_torrent c = new_torrent (meta (cl_torrent c))"
    by blast
  show ?case
  proof (cases r)
    case (Inr x)
    then obtain c p reg' where x: "r = Inr ((c, p), reg')"
      by (metis surj_pair)
    from Cons.IH [of "self + 1" reg'] obtain r'
      where "construct_torrents h cfg (self + 1) files reg' = Normal r'"
        "\<And>cs. r' = Inr cs \<Longrightarrow> \<forall>c \<in> fst ` set cs. cl_torrent c = new_torrent (meta (cl_torrent c))"
      by blast
    with r x show ?thesis
      by (fastforce simp: result_simps)
  qed (use r in simp)
qed simp

lemma construct_torrents_disk:
  assumes "\<not> m_bool_settings cfg VERIFY_PIECES_ON_STARTUP" and "\<forall>f \<in> set files. read_file f s = read_file f (h_disk h)"
  shows "construct_torrents (h\<lparr>h_disk := s\<rparr>) cfg self files reg = construct_torrents h cfg self files reg"
  using assms(2)
proof (induction files arbitrary: self reg)
  case (Cons f files)
  then have "construct_torrent (h\<lparr>h_disk := s\<rparr>) cfg f [] self reg = construct_torrent h cfg f [] self reg"
    using assms(1) by (simp add: construct_torrent_def split: sum.split)
  with Cons show ?case
    by (simp split: outcome.split sum.split)
qed simp

text \<open>
  With one of the dump options the client ends by itself, with a text or a failure, and
  looks at nothing on the disk but the torrent files: no data is checked, nothing aborts and
  nothing is served.
\<close>

theorem dump_only_prints:
  assumes "o_dump_torrent opts \<or> o_dump_config opts"
  shows "(\<exists>code out. client_run fm h base opts = Exit code out)
    \<and> (\<forall>s. (\<forall>f \<in> set (o_torrents opts). read_file f s = read_file f (h_disk h)) \<longrightarrow>
        client_run fm (h\<lparr>h_disk := s\<rparr>) base opts = client_run fm h base opts)"
proof -
  define cfg where "cfg = command_line_config (o_port opts) True base"
  have cfg: "\<not> m_bool_settings cfg VERIFY_PIECES_ON_STARTUP"
    by (simp add: cfg_def command_line_config_def)
  obtain r where r: "construct_torrents h cfg 0 (o_torrents opts) [] = Normal r"
    using construct_torrents_unverified [OF cfg] by blast
  then have "\<exists>code out. client_run fm h base opts = Exit code out"
    using assms by (cases r; cases "dump_text fm opts (projr r)") (auto simp: client_run_def cfg_def [symmetric])
  moreover have "client_run fm (h\<lparr>h_disk := s\<rparr>) base opts = client_run fm h base opts"
    if "\<forall>f \<in> set (o_torrents opts). read_file f s = read_file f (h_disk h)" for s
    using construct_torrents_disk [OF cfg that, of 0 "[]"] assms by (simp add: client_run_def cfg_def [symmetric])
  ultimately show ?thesis
    by blast
qed

theorem dump_only_prints_witness:
  "\<exists>code out. client_run plain_formats letter_host default_config (letter_options\<lparr>o_dump_config := True\<rparr>) = Exit code out"
  using dump_only_prints [of "letter_options\<lparr>o_dump_config := True\<rparr>" plain_formats letter_host default_config] by simp

lemma set_stopped_simps [simp]:
  "w_objects (snd (iterIO set_stopped ts w)) = w_objects w" "w_udp (snd (iterIO set_stopped ts w)) = w_udp w"
  "fst (iterIO set_stopped ts w) = Inr ()"
  "sw_stopped (w_swarms (snd (iterIO set_stopped ts w)) i) \<longleftrightarrow> i \<in> set ts \<or> sw_stopped (w_swarms w i)"
  "sw_peers (w_swarms (snd (iterIO set_stopped ts w)) i) = sw_peers (w_swarms w i)"
  by (induction ts arbitrary: w) (auto simp: set_stopped_def on_swarm_def io_simps)

text \<open>
  An interrupt ends the loop of every torrent at its next round, and that is all: no peer is
  stopped or told, no tracker learns of it, and a handler that throws ends the loop of its torrent
  in the same silent way.
\<close>

theorem interrupt_is_silent:
  assumes "i \<in> set ts"
  shows "(\<exists>w'. sigint_function ts w = (Inr (), w') \<and> w_objects w' = w_objects w \<and> w_udp w' = w_udp w
      \<and> sw_peers (w_swarms w' i) = sw_peers (w_swarms w i)
      \<and> run_torrent i ((io_stopped, handler) # rounds) w' = (Inr True, w'))
    \<and> (run_continues io_stopped i w \<longrightarrow> handler w = (Inl e, w'') \<longrightarrow>
      run_torrent i ((io_stopped, handler) # rounds) w = (Inl e, w''))"
proof -
  define w' where "w' = snd (sigint_function ts w)"
  have "sigint_function ts w = (Inr (), w')"
    unfolding w'_def sigint_function_def by (metis prod.collapse set_stopped_simps(3))
  moreover have "\<not> run_continues io_stopped i w'"
    using assms by (simp add: run_continues_def w'_def sigint_function_def Let_def)
  ultimately have "\<exists>w'. sigint_function ts w = (Inr (), w') \<and> w_objects w' = w_objects w \<and> w_udp w' = w_udp w
      \<and> sw_peers (w_swarms w' i) = sw_peers (w_swarms w i)
      \<and> run_torrent i ((io_stopped, handler) # rounds) w' = (Inr True, w')"
    by (intro exI [of _ w']) (simp add: io_simps w'_def sigint_function_def)
  then show ?thesis
    by (simp add: io_simps)
qed

theorem interrupt_is_silent_witness:
  "\<forall>w. \<exists>w'. sigint_function [2, 3] w = (Inr (), w') \<and> w_objects w' = w_objects w
    \<and> run_torrent 3 [(False, retIO ()), (False, retIO ())] w' = (Inr True, w')"
  using interrupt_is_silent [of 3 "[2, 3]" _ False "retIO ()" "[(False, retIO ())]"] by fastforce

end
