(* ===== verification/Acceptor.thy ===== *)
theory Acceptor
  imports Swarm
begin

text \<open>
  \<^verbatim>\<open>PeerAcceptor\<close> of \<^verbatim>\<open>src/peer.cpp\<close>: the coroutine that accepts incoming
  connections, as a machine that reacts to what the network does.  It accepts a connection, reads
  its handshake, hands it to a torrent, and only then accepts the next; connections made meanwhile
  wait in the backlog of the system.
\<close>

section \<open>The coroutine\<close>

text \<open>
  \<open>ac_current\<close> is the connection whose handshake is being read, with what came so far;
  \<open>ac_ended\<close> holds what the coroutine ended with; \<open>ac_handled\<close> records the connections it is
  through with.
\<close>

record acceptor =
  ac_backlog :: "(string \<times> u16) list"
  ac_current :: "((string \<times> u16) \<times> bytes) option"
  ac_handled :: "(string \<times> u16) list"
  ac_ended :: "exn option"

datatype net_event =
    Connect string u16
  | Receive bytes
  | Hang_up

definition new_acceptor :: acceptor where
  "new_acceptor = \<lparr>ac_backlog = [], ac_current = None, ac_handled = [], ac_ended = None\<rparr>"

text \<open>The socket is opened and bound before the loop; \<open>make_address\<close> reads the text of an address.\<close>

definition listen_endpoint :: "(string \<Rightarrow> address) \<Rightarrow> u16 \<Rightarrow> string \<Rightarrow> (address \<times> string \<times> u16) result" where
  "listen_endpoint make_address port bind_address =
     (if bind_address = [] then Inr (V4, ''0.0.0.0'', port)
      else
        (case make_address bind_address of
           No_address \<Rightarrow> Inl (System_error ''make_address'')
         | V4 \<Rightarrow> Inr (V4, bind_address, port)
         | V6 \<Rightarrow> Inl (System_error ''bind'')))"

text \<open>The head of the loop: wait for a connection, or take the first that waits.\<close>

definition accept_next :: "acceptor \<Rightarrow> acceptor" where
  "accept_next a =
     (case ac_backlog a of
        [] \<Rightarrow> a\<lparr>ac_current := None\<rparr>
      | c # cs \<Rightarrow> a\<lparr>ac_current := Some (c, []), ac_backlog := cs\<rparr>)"

definition finish_connection :: "(string \<times> u16) \<Rightarrow> acceptor \<Rightarrow> acceptor" where
  "finish_connection c a = accept_next (a\<lparr>ac_handled := ac_handled a @ [c]\<rparr>)"

text \<open>
  The body: the read completes with at least \<open>MIN_BT_MSG_LENGTH\<close> bytes, or fails with a
  \<^verbatim>\<open>system_error\<close>, which is the only exception that is caught.
\<close>

fun listen_event :: "swarm_env \<Rightarrow> net_event \<Rightarrow> acceptor \<times> world \<Rightarrow> acceptor \<times> world" where
  "listen_event env (Connect ip port) (a, w) =
     (if ac_ended a \<noteq> None then (a, w)
      else
        let a' = a\<lparr>ac_backlog := ac_backlog a @ [(ip, port)]\<rparr>
        in (if ac_current a = None then accept_next a' else a', w))"
| "listen_event env (Receive d) (a, w) =
     (case (ac_ended a, ac_current a) of
        (None, Some ((ip, port), received)) \<Rightarrow>
          (let buffer = received @ d in
           if length buffer < MIN_BT_MSG_LENGTH then (a\<lparr>ac_current := Some ((ip, port), buffer)\<rparr>, w)
           else
             (case accept_connection env ip port buffer w of
                (Inr _, w') \<Rightarrow> (finish_connection (ip, port) a, w')
              | (Inl (System_error m), w') \<Rightarrow> (finish_connection (ip, port) a, w')
              | (Inl e, w') \<Rightarrow> (a\<lparr>ac_current := None, ac_handled := ac_handled a @ [(ip, port)], ac_ended := Some e\<rparr>, w')))
      | _ \<Rightarrow> (a, w))"
| "listen_event env Hang_up (a, w) =
     (case (ac_ended a, ac_current a) of
        (None, Some (c, received)) \<Rightarrow> (finish_connection c a, w)
      | _ \<Rightarrow> (a, w))"

text \<open>An address that cannot be bound ends the coroutine before its loop.\<close>

definition listen ::
    "swarm_env \<Rightarrow> (string \<Rightarrow> address) \<Rightarrow> u16 \<Rightarrow> string \<Rightarrow> net_event list \<Rightarrow> world \<Rightarrow> acceptor \<times> world" where
  "listen env make_address port bind_address evs w =
     (case listen_endpoint make_address port bind_address of
        Inl e \<Rightarrow> (new_acceptor\<lparr>ac_ended := Some e\<rparr>, w)
      | Inr endpoint \<Rightarrow> fold (listen_event env) evs (new_acceptor, w))"

section \<open>Order and waiting\<close>

definition connects :: "net_event list \<Rightarrow> (string \<times> u16) list" where
  "connects evs = concat (map (\<lambda>e. case e of Connect ip port \<Rightarrow> [(ip, port)] | _ \<Rightarrow> []) evs)"









section \<open>A connection that says nothing\<close>

definition receives :: "net_event list \<Rightarrow> bytes" where
  "receives evs = concat (map (\<lambda>e. case e of Receive d \<Rightarrow> d | _ \<Rightarrow> []) evs)"

lemma listen_waits:
  assumes "Hang_up \<notin> set evs" "length (received @ receives evs) < MIN_BT_MSG_LENGTH"
    "ac_current a = Some (c, received)" "ac_ended a = None"
  shows "fold (listen_event env) evs (a, w)
    = (a\<lparr>ac_backlog := ac_backlog a @ connects evs, ac_current := Some (c, received @ receives evs)\<rparr>, w)"
  using assms
proof (induction evs arbitrary: a received)
  case Nil
  then show ?case by (simp add: connects_def receives_def)
next
  case (Cons e evs)
  obtain ip port where c: "c = (ip, port)" by fastforce
  show ?case
  proof (cases e)
    case (Connect ip' port')
    then show ?thesis
      using Cons.prems Cons.IH [of received "a\<lparr>ac_backlog := ac_backlog a @ [(ip', port')]\<rparr>"]
      by (simp add: connects_def receives_def)
  next
    case (Receive d)
    then show ?thesis
      using Cons.prems Cons.IH [of "received @ d" "a\<lparr>ac_current := Some (c, received @ d)\<rparr>"] c
      by (simp add: connects_def receives_def)
  next
    case Hang_up
    then show ?thesis using Cons.prems by simp
  qed
qed

section \<open>Every handshake is answered\<close>


















text \<open>
  One remote that connects and then keeps silent holds up all others: as long as it has sent
  fewer bytes than a handshake and does not hang up, no number of further connections changes
  anything but the backlog.  No peer is made for any of them, for any torrent, and there is no
  time limit.
\<close>

theorem silent_remote_blocks:
  assumes "listen_endpoint make_address lport bind_address = Inr endpoint"
    and "Hang_up \<notin> set evs" "length (receives evs) < MIN_BT_MSG_LENGTH"
  shows "listen env make_address lport bind_address (Connect ip port # evs) w
    = (\<lparr>ac_backlog = connects evs, ac_current = Some ((ip, port), receives evs), ac_handled = [], ac_ended = None\<rparr>, w)"
proof -
  define a where "a = \<lparr>ac_backlog = [], ac_current = Some ((ip, port), []), ac_handled = [], ac_ended = None :: exn option\<rparr>"
  have "listen env make_address lport bind_address (Connect ip port # evs) w = fold (listen_event env) evs (a, w)"
    using assms(1) by (simp add: listen_def new_acceptor_def accept_next_def a_def)
  then show ?thesis
    using listen_waits [of evs "[]" a "(ip, port)" env w] assms(2,3) by (simp add: a_def)
qed

section \<open>Examples\<close>




theorem silent_remote_blocks_witness:
  "listen sample_swarm_env (\<lambda>_. V4) 6881 ''127.0.0.1'' [Connect ''1.2.3.4'' 9, Receive [19], Connect ''5.6.7.8'' 7] (sample_world [])
    = (\<lparr>ac_backlog = [(''5.6.7.8'', 7)], ac_current = Some ((''1.2.3.4'', 9), [19]), ac_handled = [], ac_ended = None\<rparr>,
       sample_world [])"
  using silent_remote_blocks [of "\<lambda>_. V4" 6881 "''127.0.0.1''" "(V4, ''127.0.0.1'', 6881)"
      "[Receive [19], Connect ''5.6.7.8'' 7]" sample_swarm_env "''1.2.3.4''" 9 "sample_world []"]
  by (simp add: listen_endpoint_def receives_def connects_def MIN_BT_MSG_LENGTH_def)

end
