(* ===== verification/Serving.thy ===== *)
theory Serving
  imports Message Verify
begin

text \<open>
  The side of a connection that has the whole torrent: requests and blocks as they travel, and that
  a session whose torrent is complete answers every request with the block asked for.  The code is
  that of \<open>Peer\<close> and \<open>Message\<close>; nothing of it is replaced by a specification.
\<close>

unbundle bit_operations_syntax

section \<open>No handshake inside of messages\<close>

lemma no_start_separated:
  assumes "z \<notin> set BT_START"
  shows "no_start (xs @ z # ys) \<longleftrightarrow> no_start xs \<and> no_start ys"
proof
  assume "no_start (xs @ z # ys)"
  then show "no_start xs \<and> no_start ys"
    using no_start_take [of xs "z # ys"] no_start_drop [of "xs @ [z]" ys] by simp
next
  assume parts: "no_start xs \<and> no_start ys"
  have "take 20 (drop m (xs @ z # ys)) \<noteq> BT_START" if m: "m \<le> length (xs @ z # ys)" for m
  proof
    assume t: "take 20 (drop m (xs @ z # ys)) = BT_START"
    then have len: "20 \<le> length (drop m (xs @ z # ys))"
      using arg_cong [OF t, of length] by (cases "length (drop m (xs @ z # ys)) < 20") (simp_all only: length_take length_BT_START min_def, simp_all)
    consider "m + 20 \<le> length xs" | "m \<le> length xs" "length xs < m + 20" | "length xs < m"
      by linarith
    then show False
    proof cases
      case 1
      then have "take 20 (drop m xs) = BT_START"
        using t by simp
      with 1 parts show False
        unfolding no_start_def search_None by simp
    next
      case 2
      have "take 20 (drop m (xs @ z # ys)) ! (length xs - m) = z"
        using 2 len by (simp add: nth_append)
      moreover have "length xs - m < length (take 20 (drop m (xs @ z # ys)))"
        using 2 len by simp
      ultimately have "z \<in> set BT_START"
        unfolding t by (metis nth_mem)
      with assms show False
        by blast
    next
      case 3
      then have "drop m (xs @ z # ys) = drop (m - Suc (length xs)) ys"
        by (simp add: Suc_diff_Suc [symmetric])
      then have "take 20 (drop (m - Suc (length xs)) ys) = BT_START" "m - Suc (length xs) \<le> length ys"
        using t m 3 by simp_all
      with parts show False
        unfolding no_start_def search_None by simp
    qed
  qed
  then show "no_start (xs @ z # ys)"
    unfolding no_start_def search_None by simp
qed

lemma not_in_BT_START: "0 \<notin> set BT_START" "6 \<notin> set BT_START" "7 \<notin> set BT_START"
  by (simp_all add: BT_START_def bytes_of_string_def word_unat_eq_iff)

lemma no_start_frames:
  assumes "\<forall>x \<in> set xs. no_start (f x)"
  shows "no_start (concat (map (\<lambda>x. 0 # f x) xs))"
  using assms
proof (induction xs)
  case (Cons x xs)
  have "no_start (f x @ concat (map (\<lambda>x. 0 # f x) xs))"
    using Cons no_start_separated [OF not_in_BT_START(1), of "f x"]
      no_start_separated [OF not_in_BT_START(1), of "[]"]
    by (cases xs) simp_all
  then show ?case
    using no_start_separated [OF not_in_BT_START(1), of "[]"] by (simp add: no_start_short)
qed (simp add: no_start_short)

section \<open>Requests and their answers on the wire\<close>

text \<open>The blocks of a torrent, by piece and number, and the content of one.\<close>

definition valid_block :: "metainfo \<Rightarrow> u32 \<times> nat \<Rightarrow> bool" where
  "valid_block mi ib \<longleftrightarrow> unat (fst ib) < length (m_pieces mi) \<and> snd ib * 16384 < unat (piece_size_of mi (fst ib))"

definition request_event :: "metainfo \<Rightarrow> u32 \<times> nat \<Rightarrow> peer_event" where
  "request_event mi ib = Request (fst ib) (of_nat (snd ib) * m_block_size)
     (request_length (of_nat (snd ib) * m_block_size) (new_piece (fst ib) (piece_size_of mi (fst ib))))"

definition block_event :: "metainfo \<Rightarrow> bytes \<Rightarrow> u32 \<times> nat \<Rightarrow> peer_event" where
  "block_event mi content ib = Block (fst ib) (of_nat (snd ib) * m_block_size) (block_of (slice mi content (fst ib)) (snd ib))"

lemma wire_request: "wire (request_event mi ib) = block_request mi ib"
  by (simp add: wire_def request_event_def block_request_def request_frame_def frame_def)

lemma be32_head:
  fixes v :: u32
  assumes "unat v < 2 ^ 24"
  shows "\<exists>a b c. to_big_endian v = [0, a, b, c]"
proof -
  have "unat (drop_bit 24 v) = 0"
    using assms by (simp add: drop_bit_eq_div unat_div)
  then have "drop_bit 24 v = 0"
    by (rule unat_eq_zero [THEN iffD1])
  then show ?thesis
    by (simp add: to_big_endian_def)
qed

lemma be32_last:
  fixes v :: u32
  assumes "v mod m_block_size = 0"
  shows "\<exists>a b c. to_big_endian v = [a, b, c, 0]"
proof -
  have "unat v mod 16384 = 0"
    using assms by (simp add: offset_aligned_iff)
  then have "unat v mod 256 = 0"
    using mod_mod_cancel [of 256 16384 "unat v"] by simp
  then have "unat (take_bit 8 v) = 0"
    by (simp add: take_bit_eq_mod unat_mod)
  then have "take_bit 8 v = 0"
    by (rule unat_eq_zero [THEN iffD1])
  then have "v AND 0xFF = 0"
    using take_bit_eq_mask [of 8 v] by (simp add: mask_eq_exp_minus_1)
  then show ?thesis
    by (simp add: to_big_endian_def)
qed

lemma valid_block_offset:
  assumes "valid_block mi (i, b)"
  shows "unat (of_nat b * m_block_size :: u32) = b * 16384" and "(of_nat b * m_block_size :: u32) mod m_block_size = 0"
    and "unat ((of_nat b * m_block_size :: u32) div m_block_size) = b" and "(of_nat b * m_block_size :: u32) < piece_size_of mi i"
proof -
  have b: "b * 16384 < unat (piece_size_of mi i)"
    using assms by (simp add: valid_block_def)
  moreover have "b < blocks (new_piece i (piece_size_of mi i)) \<longleftrightarrow> b * 16384 < unat (piece_size_of mi i)"
    by (simp add: blocks_of_size new_piece_def less_eq_div_iff_mult_less_eq Suc_le_eq [symmetric]) 
  ultimately have "b < blocks (new_piece i (piece_size_of mi i))"
    by simp
  note off = block_offset [OF this]
  show "unat (of_nat b * m_block_size :: u32) = b * 16384" "(of_nat b * m_block_size :: u32) mod m_block_size = 0"
    "unat ((of_nat b * m_block_size :: u32) div m_block_size) = b"
    by (rule off)+
  then show "(of_nat b * m_block_size :: u32) < piece_size_of mi i"
    using b by (simp add: word_less_nat_alt)
qed

text \<open>Streams of requests and streams of answers hold no start of a handshake.\<close>

lemma request_bytes:
  assumes "valid_block mi ib"
  shows "\<exists>w. block_request mi ib = 0 # w \<and> length w = 16"
proof -
  obtain a b c where "to_big_endian (13 :: u32) = [0, a, b, c]"
    using be32_head [of 13] by auto
  then show ?thesis
    by (simp add: block_request_def request_frame_def)
qed

lemma requests_no_start:
  assumes "\<forall>ib \<in> set bl. valid_block mi ib"
  shows "no_start (concat (map (block_request mi) bl))"
proof -
  have parts: "block_request mi ib = 0 # tl (block_request mi ib) \<and> length (tl (block_request mi ib)) = 16" if "ib \<in> set bl" for ib
    using request_bytes [of mi ib] assms that by auto
  then have eq: "map (block_request mi) bl = map (\<lambda>ib. 0 # tl (block_request mi ib)) bl"
    by (intro map_cong) blast+
  have "no_start (tl (block_request mi ib))" if "ib \<in> set bl" for ib
    using parts [OF that] by (simp add: no_start_short)
  then show ?thesis
    unfolding eq by (intro no_start_frames) blast
qed

lemma no_start_slice: "no_start c \<Longrightarrow> no_start (take n (drop m c))"
  by (metis append_take_drop_id no_start_drop no_start_take)

lemma block_bytes:
  assumes "valid_block mi ib" and "no_start content"
  shows "\<exists>w. wire (block_event mi content ib) = 0 # w \<and> no_start w"
proof -
  obtain i b where ib: "ib = (i, b)" by fastforce
  define d where "d = block_of (slice mi content i) b"
  have d: "no_start d" "length d \<le> 16384"
    unfolding d_def block_of_def slice_def using assms(2) by (simp_all add: no_start_slice)
  have "unat (of_nat (9 + length d) :: u32) = 9 + length d"
    using d(2) by (intro unat_of_nat_less) simp
  then have "unat (of_nat (9 + length d) :: u32) < 2 ^ 24"
    using d(2) by simp
  then obtain x y z where len: "to_big_endian (of_nat (9 + length d) :: u32) = [0, x, y, z]"
    using be32_head by blast
  obtain p q r where off: "to_big_endian (of_nat b * m_block_size :: u32) = [p, q, r, 0]"
    using be32_last [OF valid_block_offset(2)] assms(1) ib by blast
  have idx: "length (to_big_endian i) = 4"
    by simp
  have "wire (block_event mi content ib) = 0 # [x, y, z] @ 7 # ((to_big_endian i @ [p, q, r]) @ 0 # d)"
    using len off by (simp add: wire_def block_event_def ib frame_def pwid.simps flip: d_def)
  moreover have "no_start ([x, y, z] @ 7 # ((to_big_endian i @ [p, q, r]) @ 0 # d))"
  proof -
    have "no_start [x, y, z]" "no_start (to_big_endian i @ [p, q, r])"
      using idx by (simp_all add: no_start_short)
    then show ?thesis
      using d(1) by (simp only: no_start_separated [OF not_in_BT_START(3)] no_start_separated [OF not_in_BT_START(1)])
  qed
  ultimately show ?thesis
    by blast
qed

lemma blocks_no_start:
  assumes "\<forall>ib \<in> set bl. valid_block mi ib" and "no_start content"
  shows "no_start (concat (map (wire \<circ> block_event mi content) bl))"
proof -
  have parts: "wire (block_event mi content ib) = 0 # tl (wire (block_event mi content ib))
      \<and> no_start (tl (wire (block_event mi content ib)))" if "ib \<in> set bl" for ib
    using block_bytes [of mi ib content] assms that by auto
  have eq: "map (wire \<circ> block_event mi content) bl = map (\<lambda>ib. 0 # tl (wire (block_event mi content ib))) bl"
    unfolding o_def by (rule map_cong [OF refl]) (rule conjunct1 [OF parts])
  show ?thesis
    unfolding eq using parts by (intro no_start_frames) blast
qed

section \<open>The side that has the torrent\<close>

text \<open>Every piece is there, written; reading the disk gives the content.\<close>

definition offers :: "metainfo \<Rightarrow> torrent \<Rightarrow> bool" where
  "offers mi t \<longleftrightarrow> m_piece_length (meta t) = m_piece_length mi
     \<and> (\<forall>i. unat i < length (m_pieces mi) \<longrightarrow> (\<exists>loc. map_of (m_active_pieces t) i = Some loc
          \<and> m_id (pieces_heap t ! loc) = i \<and> m_piece_size (pieces_heap t ! loc) = piece_size_of mi i
          \<and> m_piece_written (pieces_heap t ! loc) \<and> piece_ok (pieces_heap t ! loc) \<and> all_done (pieces_heap t ! loc)))"

definition reads :: "bytes \<Rightarrow> peer_env \<Rightarrow> bool" where
  "reads content env \<longleftrightarrow> (\<forall>off len. len \<noteq> 0 \<longrightarrow> unat off + unat len \<le> length content \<longrightarrow>
     e_read_block env off len = Inr (take (unat len) (drop (unat off) content)))"

definition seeding :: "metainfo \<Rightarrow> session \<Rightarrow> bool" where
  "seeding mi s \<longleftrightarrow> p_connection (se_peer s) \<and> \<not> p_stopped (se_peer s) \<and> \<not> m_am_choking (se_peer s)
     \<and> m_interested (se_peer s) \<and> offers mi (se_torrent s)"

text \<open>A torrent whose positions and lengths of blocks do not wrap, and its content.\<close>

definition transferable :: "metainfo \<Rightarrow> bytes \<Rightarrow> bool" where
  "transferable mi content \<longleftrightarrow> small_torrent mi \<and> int (length content) = torrent_length mi
     \<and> length content + 16384 \<le> 2 ^ 32 \<and> no_start content"

lemma piece_size_bound:
  assumes "transferable mi content" and "unat i < length (m_pieces mi)"
  shows "piece_length_at mi i = Inr (piece_size_of mi i)"
    and "unat (i * m_piece_length mi) = unat i * unat (m_piece_length mi)"
    and "unat i * unat (m_piece_length mi) + unat (piece_size_of mi i) \<le> length content"
    and "length (slice mi content i) = unat (piece_size_of mi i)"
proof -
  have small: "small_torrent mi"
    using assms(1) by (simp add: transferable_def)
  then obtain l where l: "piece_length_at mi i = Inr l"
    using piece_length_some assms(2) by blast
  then show eq: "piece_length_at mi i = Inr (piece_size_of mi i)"
    by (simp add: piece_size_of_def)
  note pos = piece_position [OF small assms(2) eq]
  show "unat (i * m_piece_length mi) = unat i * unat (m_piece_length mi)"
    by (rule pos(2))
  have "int (unat i * unat (m_piece_length mi) + unat (piece_size_of mi i)) \<le> int (length content)"
    using pos(3) assms(1) by (simp add: transferable_def)
  then show le: "unat i * unat (m_piece_length mi) + unat (piece_size_of mi i) \<le> length content"
    by linarith
  then show "length (slice mi content i) = unat (piece_size_of mi i)"
    using eq by (simp add: slice_def)
qed

lemma block_length:
  assumes "transferable mi content" and "valid_block mi (i, b)"
  shows "unat (request_length (of_nat b * m_block_size) (new_piece i (piece_size_of mi i))) = min 16384 (unat (piece_size_of mi i) - b * 16384)"
    and "length (block_of (slice mi content i) b) = min 16384 (unat (piece_size_of mi i) - b * 16384)"
    and "0 < min 16384 (unat (piece_size_of mi i) - b * 16384)"
    and "block_of (slice mi content i) b = take (min 16384 (unat (piece_size_of mi i) - b * 16384))
      (drop (unat i * unat (m_piece_length mi) + b * 16384) content)"
proof -
  have v: "unat i < length (m_pieces mi)" "b * 16384 < unat (piece_size_of mi i)"
    using assms(2) by (simp_all add: valid_block_def)
  note sz = piece_size_bound [OF assms(1) v(1)]
  have "unat (piece_size_of mi i) + 16384 \<le> 2 ^ 32"
    using sz(3) assms(1) by (simp add: transferable_def)
  then show "unat (request_length (of_nat b * m_block_size) (new_piece i (piece_size_of mi i))) = min 16384 (unat (piece_size_of mi i) - b * 16384)"
    using request_length_exact [of b "new_piece i (piece_size_of mi i)"] v(2) by (simp add: new_piece_def)
  show "length (block_of (slice mi content i) b) = min 16384 (unat (piece_size_of mi i) - b * 16384)"
    using sz(4) by (simp add: block_of_def)
  show "0 < min 16384 (unat (piece_size_of mi i) - b * 16384)"
    using v(2) by simp
  show "block_of (slice mi content i) b = take (min 16384 (unat (piece_size_of mi i) - b * 16384))
      (drop (unat i * unat (m_piece_length mi) + b * 16384) content)"
    using sz(1) by (simp add: block_of_def slice_def drop_take add.commute)
qed

lemma answer_request:
  assumes "transferable mi content" and "seeding mi s" and "reads content env" and "valid_block mi ib"
  shows "handle env (request_event mi ib) s = (Inr (), s\<lparr>se_peer := (se_peer s)
    \<lparr>p_sent := p_sent (se_peer s) @ [wire (block_event mi content ib)]\<rparr>\<rparr>)"
proof -
  obtain i b where ib: "ib = (i, b)" by fastforce
  define off len where "off = (of_nat b * m_block_size :: u32)" and "len = request_length off (new_piece i (piece_size_of mi i))"
  define t where "t = se_torrent s"
  have v: "unat i < length (m_pieces mi)"
    using assms(4) by (simp add: valid_block_def ib)
  note o = valid_block_offset [OF assms(4) [unfolded ib], folded off_def]
  note bl = block_length [OF assms(1) assms(4) [unfolded ib], folded off_def, folded len_def]
  note sz = piece_size_bound [OF assms(1) v]
  obtain loc where loc: "map_of (m_active_pieces t) i = Some loc" "m_id (pieces_heap t ! loc) = i"
      "m_piece_size (pieces_heap t ! loc) = piece_size_of mi i" "m_piece_written (pieces_heap t ! loc)"
      "piece_ok (pieces_heap t ! loc)" "all_done (pieces_heap t ! loc)" and pl: "m_piece_length (meta t) = m_piece_length mi"
    using assms(2) v by (auto simp: seeding_def offers_def t_def)
  have b: "b < blocks (pieces_heap t ! loc)"
    using block_index_less [of "b * 16384" "pieces_heap t ! loc"] assms(4) loc(3) by (simp add: valid_block_def ib)
  have have_block: "bf_get (m_blocks_done (pieces_heap t ! loc)) (unat (off div m_block_size)) = Inr True"
    using loc(6) b piece_ok_inside(1) [OF loc(5) b] o(3) by (simp add: bf_get_eq all_done_def)
  have pos: "unat (m_piece_length mi * i + off) = unat i * unat (m_piece_length mi) + b * 16384"
  proof -
    have "unat (i * m_piece_length mi) + unat off < 2 ^ 32"
      using sz(2,3) assms(1,4) o(1) by (simp add: transferable_def valid_block_def ib)
    then show ?thesis
      using sz(2) o(1) by (subst unat_add_lem [THEN iffD1]) (simp_all add: mult.commute)
  qed
  have len: "unat len = min 16384 (unat (piece_size_of mi i) - b * 16384)" "len \<noteq> 0"
    using bl(1,3) by auto
  have "e_read_block env (m_piece_length mi * i + off) len = Inr (block_of (slice mi content i) b)"
  proof -
    have "unat (m_piece_length mi * i + off) + unat len \<le> length content"
      using pos len(1) sz(3) bl(3) by linarith
    then have "e_read_block env (m_piece_length mi * i + off) len =
        Inr (take (unat len) (drop (unat (m_piece_length mi * i + off)) content))"
      using assms(3) len(2) unfolding reads_def by blast
    then show ?thesis
      by (simp only: pos len(1) bl(4))
  qed
  then have data: "get_block (m_piece_length (meta t)) (e_read_block env) off len (pieces_heap t ! loc) =
      Inr (block_of (slice mi content i) b)"
    using o(2,4) loc len(2) have_block by (simp add: get_block_def pl not_le)
  have ne: "block_of (slice mi content i) b \<noteq> []" "length (block_of (slice mi content i) b) \<le> 16384"
    using bl(2,3) by (simp_all flip: length_0_conv)
  have "numeric_cast uint32_t uint64_t (int (9 + length (block_of (slice mi content i) b))) =
      Inr (int (9 + length (block_of (slice mi content i) b)))"
    using ne(2) by (simp add: numeric_cast_def static_cast_def ity_max_def take_bit_int_eq_self)
  moreover have "active_piece i True t = Inr (Some loc, t)"
    using loc(1) by (simp add: active_piece_def)
  moreover have "handle env (request_event mi ib) s = request env i off len s"
    by (simp add: request_event_def ib off_def len_def)
  moreover have "wire (block_event mi content ib) = piece_message (of_int (int (9 + length (block_of (slice mi content i) b)))) i off
      (block_of (slice mi content i) b)"
    by (simp add: wire_def block_event_def ib frame_def piece_message_def off_def)
  ultimately show ?thesis
    using assms(2) ne(1) data
    by (simp add: request_def io_simps seeding_def send_msg_def flip: t_def)
qed

lemma answer_requests:
  assumes "transferable mi content" and "seeding mi s" and "reads content env" and "\<forall>ib \<in> set bl. valid_block mi ib"
  shows "\<exists>s'. iterIO (receive env) (map (request_event mi) bl) s = (Inr (), s') \<and> seeding mi s'
    \<and> p_sent (se_peer s') = p_sent (se_peer s) @ map (wire \<circ> block_event mi content) bl"
  using assms(2,4)
proof (induction bl arbitrary: s)
  case (Cons ib bl)
  define s1 where "s1 = s\<lparr>se_peer := update_activity (e_now env) (se_peer s)\<rparr>"
  have "seeding mi s1" "p_sent (se_peer s1) = p_sent (se_peer s)"
    using Cons.prems(1) by (simp_all add: s1_def seeding_def update_activity_def)
  moreover define s2 where "s2 = s1\<lparr>se_peer := (se_peer s1)\<lparr>p_sent := p_sent (se_peer s1) @ [wire (block_event mi content ib)]\<rparr>\<rparr>"
  ultimately have step: "receive env (request_event mi ib) s = (Inr (), s2)" and ok: "seeding mi s2"
    and sent: "p_sent (se_peer s2) = p_sent (se_peer s) @ [wire (block_event mi content ib)]"
    using answer_request [OF assms(1) _ assms(3), of s1 ib] Cons.prems
    by (simp_all add: receive_def io_simps seeding_def flip: s1_def)
  from Cons.IH [OF ok] Cons.prems(2) sent step show ?case
    by (auto simp: io_simps)
qed (simp add: io_simps)

lemma answer_bytes:
  assumes "transferable mi content" and "seeding mi s" and "reads content env" and "\<forall>ib \<in> set bl. valid_block mi ib"
    and "length bl < 2 ^ 16"
  shows "\<exists>s'. handle_response env Ok (concat (map (block_request mi) bl)) s = (Inr (Some []), s') \<and> seeding mi s'
    \<and> p_sent (se_peer s') = p_sent (se_peer s) @ map (wire \<circ> block_event mi content) bl"
proof -
  obtain s' where s': "iterIO (receive env) (map (request_event mi) bl) s = (Inr (), s')" "seeding mi s'"
    "p_sent (se_peer s') = p_sent (se_peer s) @ map (wire \<circ> block_event mi content) bl"
    using answer_requests [OF assms(1-4)] by blast
  have eq: "concat (map wire (map (request_event mi) bl)) = concat (map (block_request mi) bl)"
    by (simp add: o_def wire_request)
  have len: "length (concat (map (block_request mi) bl)) = 17 * length bl"
    by (induction bl) (simp_all add: block_request_def request_frame_def)
  have "\<forall>e \<in> set (map (request_event mi) bl). is_message e"
    by (auto simp: is_message_def request_event_def)
  then have "consume_loop env (concat (map (block_request mi) bl) @ []) s =
      bindIO (iterIO (receive env) (map (request_event mi) bl)) (\<lambda>_. touch env []) s"
    using consume_messages [of "map (request_event mi) bl" "[]" env s] requests_no_start [OF assms(4)] assms(5) len
    unfolding eq by (simp add: is_rest_def)
  with s' assms(2) show ?thesis
    by (auto simp: handle_response_def io_simps touch_def seeding_def)
qed

section \<open>A client that starts with the content on its disk\<close>

text \<open>A torrent that is complete: every piece is there and nothing waits to be written.\<close>

definition has_torrent :: "metainfo \<Rightarrow> torrent \<Rightarrow> bool" where
  "has_torrent mi t \<longleftrightarrow> m_info_hash (meta t) = m_info_hash mi \<and> offers mi t \<and> torrent_done t
     \<and> (\<forall>k. bf_test (m_client_pieces t) k \<longleftrightarrow> k < length (m_pieces mi)) \<and> bf_size_bytes (m_client_pieces t) < 2 ^ 30"

definition right_digests :: "(bytes \<Rightarrow> string) \<Rightarrow> metainfo \<Rightarrow> bytes \<Rightarrow> bool" where
  "right_digests sha1 mi content \<longleftrightarrow>
     (\<forall>i. unat i < length (m_pieces mi) \<longrightarrow> sha1 (slice mi content i) = m_pieces mi ! unat i)"

text \<open>
  \<open>FileWriter::read_block\<close> as what a session reads with: the length of the block is fuel enough
  inside of the torrent.
\<close>

definition disk_reader :: "metainfo \<Rightarrow> filesystem \<Rightarrow> u32 \<Rightarrow> u32 \<Rightarrow> bytes result" where
  "disk_reader mi fs off len = (case read_block (unat len) mi off len fs of
     Some r \<Rightarrow> r | None \<Rightarrow> Inl (Undefined_behaviour ''read_block does not return''))"

text \<open>The content is on disk, where reading looks for it, and the torrent has been checked against it.\<close>

definition resumed :: "metainfo \<Rightarrow> filesystem \<Rightarrow> bool" where
  "resumed mi fs \<longleftrightarrow> (let m = scan_meta mi fs in store_present m fs
     \<and> (if is_single_file mi then path_append (parent_path (m_tmpfile m)) (m_tmpfile m) = m_tmpfile m
           \<and> \<not> (path_exists fs (m_name mi) \<and> path_exists fs (m_tmpfile mi))
        else m_tmpfile m = m_name m))"

definition on_disk :: "metainfo \<Rightarrow> filesystem \<Rightarrow> bytes" where
  "on_disk mi fs = store_stream (scan_meta mi fs) fs"

lemma disk_reader_reads:
  assumes "resumed mi fs" and "torrent_length mi < 2 ^ 32" and "e_read_block env = disk_reader (scan_meta mi fs) fs"
  shows "reads (on_disk mi fs) env"
proof -
  define m where "m = scan_meta mi fs"
  have pr: "store_present m fs"
    using assms(1) by (simp add: resumed_def Let_def m_def)
  have simps: "is_single_file m = is_single_file mi" "torrent_length m < 2 ^ 32"
    using assms(2) by (simp_all add: m_def)
  have "disk_reader m fs off len = Inr (take (unat len) (drop (unat off) (store_stream m fs)))"
    if len: "len \<noteq> 0" "unat off + unat len \<le> length (store_stream m fs)" for off len
  proof -
    have "int (unat off + unat len) \<le> torrent_length m"
      using len(2) store_stream_length [OF pr] by linarith
    then have inside: "uint off + uint len \<le> torrent_length m"
      by simp
    obtain n where n: "unat len = Suc n"
      using len(1) unat_eq_zero [of len] by (cases "unat len") auto
    show ?thesis
    proof (cases "is_single_file mi")
      case True
      then show ?thesis
        using read_block_single_inside [of m fs len off n] assms(1) pr simps len(1) inside n
        by (simp add: disk_reader_def resumed_def Let_def store_present_def store_stream_def flip: m_def)
    next
      case False
      then show ?thesis
        using read_loop_stream [of m fs off "uint len" "unat len" "[]"] assms(1) pr simps inside
        by (simp add: disk_reader_def read_block_def resumed_def Let_def store_present_def store_stream_def flip: m_def)
    qed
  qed
  then show ?thesis
    unfolding reads_def on_disk_def assms(3) m_def [symmetric] by blast
qed

lemma scan_meta_fields [simp]:
  "m_piece_length (scan_meta mi fs) = m_piece_length mi" "m_info_hash (scan_meta mi fs) = m_info_hash mi"
  "piece_length_at (scan_meta mi fs) i = piece_length_at mi i" "slice (scan_meta mi fs) d i = slice mi d i"
  by (simp_all add: scan_meta_def slice_def)

lemma started_has_torrent:
  assumes "small_torrent mi" and "distinct order" and "unat ` set order = {..<length (m_pieces mi)}"
    and "resumed mi fs" and "right_digests sha1 mi (on_disk mi fs)"
  shows "\<exists>t. verify_existing_file sha1 order (new_torrent mi) fs = Normal (Inr t) \<and> has_torrent mi (register_torrent t)"
proof -
  define V where "V = piece_verified sha1 (scan_meta mi fs) (store_stream (scan_meta mi fs) fs)"
  have pr: "store_present (scan_meta mi fs) fs" "\<not> (is_single_file mi \<and> path_exists fs (m_name mi) \<and> path_exists fs (m_tmpfile mi))"
    using assms(4) by (auto simp: resumed_def Let_def)
  have n: "0 < length (m_pieces mi)" "length (m_pieces mi) < 2 ^ 32"
    using small_torrent_count [OF assms(1)] by simp_all
  have idx: "unat (of_nat k :: u32) = k" if "k < length (m_pieces mi)" for k
    using that n(2) by (intro unat_of_nat_less) simp
  have all: "V (of_nat k)" if "k < length (m_pieces mi)" for k
    using that idx assms(5) by (simp add: V_def piece_verified_def right_digests_def on_disk_def)
  obtain t where t: "torrent_ok t" "meta t = scan_meta mi fs" "torrent_done t" "all_written t"
    "bf_indices (m_client_pieces t) = {..<length (m_pieces mi)}" "bf_size (m_client_pieces t) \<le> length (m_pieces mi) + 7"
    "verify_existing_file sha1 order (new_torrent mi) fs = Normal (Inr t)"
    using verify_existing_scan [OF assms(1-3) pr, of sha1, folded V_def] all by auto
  have active: "\<exists>loc. map_of (m_active_pieces t) i = Some loc \<and> m_id (pieces_heap t ! loc) = i
      \<and> m_piece_size (pieces_heap t ! loc) = piece_size_of mi i \<and> m_piece_written (pieces_heap t ! loc)
      \<and> piece_ok (pieces_heap t ! loc) \<and> all_done (pieces_heap t ! loc)" if "unat i < length (m_pieces mi)" for i
  proof -
    have "bf_test (m_client_pieces t) (unat i)"
      using t(5) that by (auto simp: bf_indices_def)
    then have "map_of (m_active_pieces t) (of_nat (unat i)) \<noteq> None"
      using t(1) unfolding torrent_ok_def by blast
    then obtain loc where loc: "map_of (m_active_pieces t) i = Some loc"
      by auto
    then have "piece_length_at mi i = Inr (m_piece_size (pieces_heap t ! loc))" "m_id (pieces_heap t ! loc) = i"
      "piece_ok (pieces_heap t ! loc)"
      using t(1,2) unfolding torrent_ok_def by auto
    with loc t(4) show ?thesis
      by (auto simp: all_written_def piece_size_of_def)
  qed
  have "bf_size (m_client_pieces t) = 8 * bf_size_bytes (m_client_pieces t)"
    by (simp add: bf_size_def bf_size_bytes_def)
  then have "bf_size_bytes (m_client_pieces t) < 2 ^ 30"
    using t(6) n(2) by simp
  moreover have "bf_test (m_client_pieces t) k \<longleftrightarrow> k < length (m_pieces mi)" for k
    using t(5) unfolding bf_indices_def by blast
  ultimately have "has_torrent mi (register_torrent t)"
    using t(2,3) active
    by (simp add: has_torrent_def offers_def register_torrent_def add_piece_callback_def torrent_done_def)
  with t(7) show ?thesis
    by blast
qed

end
