(* ===== verification/Asking.thy ===== *)
theory Asking
  imports Serving
begin

text \<open>
  The side of a connection that misses pieces: a call of \<open>request_next_block\<close> that may ask fills the
  pipeline or leaves nothing to ask for, and asking changes nothing of a torrent but what was asked
  for.
\<close>

section \<open>Asking for what is missing\<close>

lemma next_piece_from_total:
  assumes "torrent_reach mi (se_torrent s)" and "\<forall>k. bf_test rel k \<longrightarrow> k < 2 ^ 32 \<and> (\<exists>l. piece_length_at mi (of_nat k) = Inr l)"
  shows "\<exists>r s'. next_piece_from now rel True n s = (Inr r, s')
    \<and> (r = None \<longrightarrow> (\<forall>k b. n \<le> k \<longrightarrow> bf_test rel k \<longrightarrow> b * 16384 < unat (piece_size_of mi (of_nat k)) \<longrightarrow>
        taken (se_torrent s) (of_nat k) b))"
  using assms(1)
proof (induction "bf_size rel - n" arbitrary: n s rule: less_induct)
  case less
  show ?case
  proof (cases "List.find (\<lambda>i. bf_test rel i = True) [n..<bf_size rel]")
    case None
    then have "\<not> bf_test rel k" if "n \<le> k" for k
      using that bf_test_outside [of rel k] by (cases "k < bf_size rel") (auto simp: find_None_iff)
    with None show ?thesis
      by (subst next_piece_from.simps) (simp add: bf_next_find)
  next
    case (Some k)
    then obtain i where i: "i < bf_size rel - n" "k = n + i" "bf_test rel k" "\<forall>j < i. \<not> bf_test rel (n + j)"
      by (auto simp: find_Some_iff)
    have k: "n \<le> k" "k < bf_size rel" "bf_test rel k" and below: "\<And>j. n \<le> j \<Longrightarrow> j < k \<Longrightarrow> \<not> bf_test rel j"
    proof -
      show "\<not> bf_test rel j" if "n \<le> j" "j < k" for j
        using i(2) spec [OF i(4), of "j - n"] that by simp
    qed (use i in simp_all)
    obtain l where l: "k < 2 ^ 32" "piece_length_at mi (of_nat k) = Inr l"
      using assms(2) k(3) by blast
    have ok: "torrent_ok (se_torrent s)" "meta (se_torrent s) = mi"
      using torrent_reach_ok [OF less.prems] by simp_all
    have "\<exists>rt. active_piece (of_nat k) True (se_torrent s) = Inr rt"
      using l(2) ok(2) by (auto simp: active_piece_def Let_def split: option.split)
    then obtain r1 t' where act: "active_piece (of_nat k) True (se_torrent s) = Inr (r1, t')"
      by fastforce
    have cast: "numeric_cast uint32_t uint64_t (int k) = Inr (int k)"
      using l(1) by (simp add: numeric_cast_def static_cast_def ity_max_def take_bit_int_eq_self)
    obtain loc where r1: "r1 = Some loc" and m: "map_of (m_active_pieces t') (of_nat k) = Some loc" and same: "same_blocks (se_torrent s) t'"
      using same_blocks_active [OF ok(1) act] by blast
    have reach: "torrent_reach mi t'"
      using torrent_reach.step [OF less.prems torrent_step.active [OF act]] .
    define p where "p = pieces_heap t' ! loc"
    have "with_torrent (piece_next_offset now False loc) (s\<lparr>se_torrent := t'\<rparr>) =
        (Inr (map_option (\<lambda>b. of_nat b * m_block_size) (free_block p)), s\<lparr>se_torrent := t'\<rparr>)"
      using piece_next_offset_peek [OF _ m] torrent_reach_ok [OF reach] by (simp add: io_simps p_def)
    then have step: "next_piece_from now rel True n s =
          (if free_block p \<noteq> None then (Inr (Some loc), s\<lparr>se_torrent := t'\<rparr>)
           else next_piece_from now rel True (k + 1) (s\<lparr>se_torrent := t'\<rparr>))"
      using Some by (subst (1) next_piece_from.simps) (simp add: bf_next_find cast with_torrent_def [of "active_piece _ _"] act r1)
    show ?thesis
    proof (cases "free_block p = None")
      case False
      with step show ?thesis by simp
    next
      case True
      have "bf_size rel - (k + 1) < bf_size rel - n"
        using k(1,2) by simp
      from less.hyps [OF this, of "s\<lparr>se_torrent := t'\<rparr>"] reach
      obtain r s' where rs: "next_piece_from now rel True (k + 1) (s\<lparr>se_torrent := t'\<rparr>) = (Inr r, s')"
        and all: "r = None \<longrightarrow> (\<forall>j b. k + 1 \<le> j \<longrightarrow> bf_test rel j \<longrightarrow> b * 16384 < unat (piece_size_of mi (of_nat j)) \<longrightarrow>
          taken t' (of_nat j) b)"
        by auto
      have "m_piece_size p = piece_size_of mi (of_nat k)"
        using torrent_reach_ok [OF reach] m by (auto simp: torrent_ok_def p_def piece_size_of_def)
      then have "taken t' (of_nat k) b" if "b * 16384 < unat (piece_size_of mi (of_nat k))" for b
        using True that m block_index_less [of "b * 16384" p] by (auto simp: free_block_def find_None_iff taken_iff p_def)
      then have "taken (se_torrent s) (of_nat j) b"
        if "r = None" "n \<le> j" "bf_test rel j" "b * 16384 < unat (piece_size_of mi (of_nat j))" for j b
        using that all below [of j] same by (cases j k rule: linorder_cases) (auto simp: same_blocks_def)
      with step True rs show ?thesis
        by auto
    qed
  qed
qed

text \<open>No block is left that the remote has, that we have not, and that was not asked for.\<close>

definition exhausted :: "metainfo \<Rightarrow> bitfield \<Rightarrow> torrent \<Rightarrow> bool" where
  "exhausted mi remote t \<longleftrightarrow> (\<forall>k b. bf_test (relevant_pieces remote t) k \<longrightarrow>
     b * 16384 < unat (piece_size_of mi (of_nat k)) \<longrightarrow> taken t (of_nat k) b)"

definition known_pieces :: "metainfo \<Rightarrow> bitfield \<Rightarrow> bool" where
  "known_pieces mi remote \<longleftrightarrow> (\<forall>k. bf_test remote k \<longrightarrow> k < 2 ^ 32 \<and> (\<exists>l. piece_length_at mi (of_nat k) = Inr l))"

lemma request_loop_total:
  assumes "torrent_reach mi (se_torrent s)" and "known_pieces mi (m_remote_pieces (se_peer s))"
  shows "\<exists>req' k' s'. request_loop now n req k s = (Inr (req', k'), s')
    \<and> (k' < k + n \<longrightarrow> exhausted mi (m_remote_pieces (se_peer s)) (se_torrent s'))"
  using assms
proof (induction n arbitrary: req k s)
  case 0
  then show ?case by (simp add: io_simps)
next
  case (Suc n)
  define rel where "rel = relevant_pieces (m_remote_pieces (se_peer s)) (se_torrent s)"
  have "\<forall>k. bf_test rel k \<longrightarrow> k < 2 ^ 32 \<and> (\<exists>l. piece_length_at mi (of_nat k) = Inr l)"
    using Suc.prems(2) by (auto simp: rel_def relevant_pieces_def bf_test_sub known_pieces_def)
  from next_piece_from_total [OF Suc.prems(1) this, of now 0]
  obtain r1 s1 where np: "next_piece_from now rel True 0 s = (Inr r1, s1)"
    and none: "r1 = None \<longrightarrow> (\<forall>k b. bf_test rel k \<longrightarrow> b * 16384 < unat (piece_size_of mi (of_nat k)) \<longrightarrow>
        taken (se_torrent s) (of_nat k) b)"
    by auto
  note np' = next_piece_from_spec [OF Suc.prems(1) np]
  have step1: "next_piece now True s = (Inr r1, s1)"
    by (simp add: next_piece_def io_simps rel_def [symmetric] np)
  have rel1: "relevant_pieces (m_remote_pieces (se_peer s)) (se_torrent s1) = rel" "taken (se_torrent s1) = taken (se_torrent s)"
    using np' by (simp_all add: rel_def relevant_pieces_def same_blocks_def)
  show ?case
  proof (cases r1)
    case None
    then show ?thesis
      using none rel1 by (simp add: io_simps step1 exhausted_def)
  next
    case (Some loc)
    then obtain i b where m: "map_of (m_active_pieces (se_torrent s1)) i = Some loc"
      and fb: "free_block (pieces_heap (se_torrent s1) ! loc) = Some b"
      using np' by auto
    obtain t2 where t2: "piece_next_offset now True loc (se_torrent s1) = Inr (Some (of_nat b * m_block_size), t2)"
      "torrent_reach mi t2"
      using mark_requested [OF _ m fb, of mi now] np' by blast
    define s2 where "s2 = s1\<lparr>se_torrent := t2,
        se_peer := (se_peer s)\<lparr>m_pending_requests := m_pending_requests (se_peer s) + 1\<rparr>\<rparr>"
    have "request_loop now (Suc n) req k s = request_loop now n (req @ request_frame (m_id (pieces_heap t2 ! loc)) (of_nat b * m_block_size)
        (request_length (of_nat b * m_block_size) (pieces_heap t2 ! loc))) (k + 1) s2"
      using np' by (simp add: io_simps step1 Some t2(1) s2_def count_up)
    moreover have "torrent_reach mi (se_torrent s2)" "m_remote_pieces (se_peer s2) = m_remote_pieces (se_peer s)"
      using t2(2) by (simp_all add: s2_def)
    ultimately show ?thesis
      using Suc.IH [of s2 "req @ request_frame (m_id (pieces_heap t2 ! loc)) (of_nat b * m_block_size)
        (request_length (of_nat b * m_block_size) (pieces_heap t2 ! loc))" "k + 1"] Suc.prems(2) by auto
  qed
qed

text \<open>A call of \<open>request_next_block\<close> that may ask: it fills the pipeline or leaves nothing to ask for.\<close>

lemma request_next_block_total:
  assumes "torrent_reach mi (se_torrent s)" and "known_pieces mi (m_remote_pieces (se_peer s))"
    and "m_am_interested (se_peer s)" and "\<not> m_choking (se_peer s)" and "p_connection (se_peer s)"
    and "pending_limit env 0 = Inr lim" and "0 < lim"
  shows "\<exists>bl s'. request_next_block env 0 s = (Inr (length bl), s')
    \<and> fresh_blocks mi (m_remote_pieces (se_peer s)) (se_torrent s) bl
    \<and> requested_blocks mi (se_torrent s) (se_torrent s') bl
    \<and> se_peer s' = (se_peer s)\<lparr>m_pending_requests := m_pending_requests (se_peer s) + int (length bl),
        p_sent := p_sent (se_peer s) @ request_log mi bl\<rparr>
    \<and> (m_pending_requests (se_peer s) \<le> lim \<longrightarrow> m_pending_requests (se_peer s') \<le> lim)
    \<and> (m_pending_requests (se_peer s') < lim \<longrightarrow> exhausted mi (m_remote_pieces (se_peer s)) (se_torrent s'))"
proof -
  define n where "n = nat (lim - m_pending_requests (se_peer s))"
  obtain req' k' s1 where rl: "request_loop (e_now env) n [] 0 s = (Inr (req', k'), s1)"
    and ex: "k' < n \<longrightarrow> exhausted mi (m_remote_pieces (se_peer s)) (se_torrent s1)"
    using request_loop_total [OF assms(1,2), of "e_now env" n "[]" 0] by auto
  have eq: "request_next_block env 0 s = (if lim \<le> m_pending_requests (se_peer s) then (Inr 0, s)
      else bindIO (whenIO (req' \<noteq> []) (send_msg req')) (\<lambda>_. retIO k') s1)"
    using assms(3,4,7) unfolding request_next_block_def Let_def
    by (simp add: bindIO_eq IO_eqs assms(6) rl [unfolded n_def])
  have ok: "\<exists>k s'. request_next_block env 0 s = (Inr k, s')"
  proof -
    obtain bl :: "(u32 \<times> nat) list" where "se_peer s1 = (se_peer s)\<lparr>m_pending_requests := m_pending_requests (se_peer s) + int (length bl)\<rparr>"
      using request_loop_spec [OF assms(1) rl] by blast
    then have "p_connection (se_peer s1)"
      using assms(5) by simp
    then show ?thesis
      unfolding eq by (simp add: io_simps send_msg_def)
  qed
  then obtain k s' where r: "request_next_block env 0 s = (Inr k, s')" by blast
  obtain bl :: "(u32 \<times> nat) list" and out where spec: "k = length bl" "out = request_log mi bl"
    "fresh_blocks mi (m_remote_pieces (se_peer s)) (se_torrent s) bl" "requested_blocks mi (se_torrent s) (se_torrent s') bl"
    "se_peer s' = (se_peer s)\<lparr>m_pending_requests := m_pending_requests (se_peer s) + int (length bl),
      p_sent := p_sent (se_peer s) @ out\<rparr>"
    and cap: "bl \<noteq> [] \<longrightarrow> (\<exists>l. pending_limit env 0 = Inr l \<and> m_pending_requests (se_peer s') \<le> l)"
    using request_next_block_spec [OF assms(1) r] by blast
  then have bl: "k = length bl" "fresh_blocks mi (m_remote_pieces (se_peer s)) (se_torrent s) bl"
    "requested_blocks mi (se_torrent s) (se_torrent s') bl"
    "se_peer s' = (se_peer s)\<lparr>m_pending_requests := m_pending_requests (se_peer s) + int k, p_sent := p_sent (se_peer s) @ request_log mi bl\<rparr>"
    "k \<noteq> 0 \<longrightarrow> m_pending_requests (se_peer s') \<le> lim"
    using assms(6) by simp_all
  have "exhausted mi (m_remote_pieces (se_peer s)) (se_torrent s')" if "m_pending_requests (se_peer s') < lim"
  proof -
    have pos: "\<not> lim \<le> m_pending_requests (se_peer s)"
      using that bl(4) by auto
    then have "k = k' \<and> se_torrent s' = se_torrent s1"
      using r unfolding eq by (auto simp: io_simps send_msg_def split: if_splits)
    then show ?thesis
      using ex that bl(4) by (simp add: n_def)
  qed
  then show ?thesis
    using r bl by (intro exI [of _ bl] exI [of _ s']) auto
qed

section \<open>Asking changes nothing but what was asked for\<close>

definition unasked :: "piece \<Rightarrow> piece" where
  "unasked p = p\<lparr>m_blocks_requested := bf_empty, m_last_request := 0\<rparr>"

text \<open>From \<open>t0\<close> to \<open>t\<close> blocks were marked as requested and pieces among those known were started.\<close>

definition asked :: "metainfo \<Rightarrow> torrent \<Rightarrow> torrent \<Rightarrow> bool" where
  "asked mi t0 t \<longleftrightarrow> m_piece_callbacks t = m_piece_callbacks t0 \<and> m_client_pieces t = m_client_pieces t0
     \<and> writer_queue t = writer_queue t0
     \<and> (\<forall>i loc. map_of (m_active_pieces t0) i = Some loc \<longrightarrow>
          map_of (m_active_pieces t) i = Some loc \<and> unasked (pieces_heap t ! loc) = unasked (pieces_heap t0 ! loc))
     \<and> (\<forall>i loc. map_of (m_active_pieces t) i = Some loc \<longrightarrow> map_of (m_active_pieces t0) i = None \<longrightarrow>
          unat i < length (m_pieces mi) \<and> (\<exists>sz. unasked (pieces_heap t ! loc) = unasked (new_piece i sz)))"

lemma asked_refl: "asked mi t t"
  by (simp add: asked_def)

lemma asked_trans:
  assumes "asked mi t0 t1" and "asked mi t1 t2"
  shows "asked mi t0 t2"
proof -
  have "unat i < length (m_pieces mi) \<and> (\<exists>sz. unasked (pieces_heap t2 ! loc) = unasked (new_piece i sz))"
    if "map_of (m_active_pieces t2) i = Some loc" "map_of (m_active_pieces t0) i = None" for i loc
  proof (cases "map_of (m_active_pieces t1) i")
    case None
    with assms(2) that show ?thesis
      by (simp add: asked_def)
  next
    case (Some loc1)
    with assms(2) have "map_of (m_active_pieces t2) i = Some loc1"
      "unasked (pieces_heap t2 ! loc1) = unasked (pieces_heap t1 ! loc1)"
      by (simp_all add: asked_def)
    with assms(1) Some that show ?thesis
      by (simp add: asked_def)
  qed
  then show ?thesis
    using assms unfolding asked_def by (metis (no_types, lifting))
qed

lemma asked_active:
  assumes "torrent_ok t" and "active_piece i True t = Inr (r, t')" and "unat i < length (m_pieces mi)"
  shows "asked mi t t'"
proof (cases "map_of (m_active_pieces t) i")
  case None
  then obtain len where t': "t' = t\<lparr>pieces_heap := pieces_heap t @ [new_piece i len],
      m_active_pieces := smap_put i (length (pieces_heap t)) (m_active_pieces t)\<rparr>"
    using assms(2) by (auto simp: active_piece_def Let_def result_simps)
  have "\<And>j loc. map_of (m_active_pieces t) j = Some loc \<Longrightarrow> loc < length (pieces_heap t)"
    using assms(1) by (simp add: torrent_ok_def)
  with None assms(3) show ?thesis
    unfolding t' by (auto simp: asked_def smap_simps nth_append split: if_splits)
next
  case (Some loc)
  with assms(2) have "t' = t"
    by (simp add: active_piece_def)
  then show ?thesis
    by (simp add: asked_refl)
qed

lemma asked_offset:
  assumes "loc < length (pieces_heap t)" and "piece_next_offset now mark loc t = Inr (r, t')"
  shows "asked mi t t'"
proof -
  obtain q where q: "next_offset now mark (pieces_heap t ! loc) = Inr q" and t': "t' = set_heap loc (snd q) t"
    using assms(2) by (auto simp: piece_next_offset_def result_simps)
  have "unasked (snd q) = unasked (pieces_heap t ! loc)"
    using q by (auto simp: next_offset_def unasked_def Let_def result_simps split: option.splits if_splits)
  then show ?thesis
    using assms(1) unfolding t' by (auto simp: asked_def nth_set_heap)
qed

lemma asked_next_piece_from:
  assumes "torrent_ok (se_torrent s)" and "\<forall>k. bf_test rel k \<longrightarrow> k < length (m_pieces mi)"
    and "length (m_pieces mi) < 2 ^ 32"
  shows "asked mi (se_torrent s) (se_torrent (snd (next_piece_from now rel True n s)))"
  using assms(1)
proof (induction "bf_size rel - n" arbitrary: n s rule: less_induct)
  case less
  show ?case
  proof (cases "List.find (\<lambda>i. bf_test rel i = True) [n..<bf_size rel]")
    case None
    then show ?thesis
      by (subst next_piece_from.simps) (simp add: bf_next_find asked_refl)
  next
    case (Some k)
    then have k: "n \<le> k" "k < bf_size rel" "bf_test rel k"
      by (auto simp: find_Some_iff)
    then have n: "k < length (m_pieces mi)" "k < 2 ^ 32"
      using assms(2,3) by auto
    have cast: "numeric_cast uint32_t uint64_t (int k) = Inr (int k)"
      using n(2) by (simp add: numeric_cast_def static_cast_def ity_max_def take_bit_int_eq_self)
    show ?thesis
    proof (cases "active_piece (of_nat k) True (se_torrent s)")
      case (Inl e)
      with Some show ?thesis
        by (subst next_piece_from.simps) (simp add: bf_next_find cast with_torrent_def asked_refl)
    next
      case (Inr rt)
      obtain loc t' where rt: "rt = (Some loc, t')" and m: "map_of (m_active_pieces t') (of_nat k) = Some loc"
        using same_blocks_active [of "se_torrent s" "of_nat k" "fst rt" "snd rt"] Inr less.prems by (cases rt) auto
      have "unat (of_nat k :: u32) = k"
        using n(2) by (intro unat_of_nat_less) simp
      then have a: "asked mi (se_torrent s) t'"
        using asked_active [OF less.prems, of "of_nat k" "Some loc" t' mi] Inr rt n(1) by simp
      have ok: "torrent_ok t'"
        using torrent_ok_active [OF less.prems] Inr rt by blast
      define off where "off = map_option (\<lambda>b. of_nat b * m_block_size) (free_block (pieces_heap t' ! loc))"
      have "with_torrent (piece_next_offset now False loc) (s\<lparr>se_torrent := t'\<rparr>) = (Inr off, s\<lparr>se_torrent := t'\<rparr>)"
        using piece_next_offset_peek [OF ok m] by (simp add: io_simps off_def)
      then have step: "next_piece_from now rel True n s = (if off \<noteq> None then (Inr (Some loc), s\<lparr>se_torrent := t'\<rparr>)
          else next_piece_from now rel True (k + 1) (s\<lparr>se_torrent := t'\<rparr>))"
        using Some by (subst (1) next_piece_from.simps)
          (simp add: bf_next_find cast with_torrent_def [of "active_piece _ _"] Inr rt)
      have "bf_size rel - (k + 1) < bf_size rel - n"
        using k(1,2) by simp
      from less.hyps [OF this, of "s\<lparr>se_torrent := t'\<rparr>"] ok
      have "asked mi t' (se_torrent (snd (next_piece_from now rel True (k + 1) (s\<lparr>se_torrent := t'\<rparr>))))"
        by simp
      then show ?thesis
        using asked_trans [OF a] a unfolding step by auto
    qed
  qed
qed

lemma asked_request_loop:
  assumes "torrent_reach mi (se_torrent s)" and "\<forall>k. bf_test (m_remote_pieces (se_peer s)) k \<longrightarrow> k < length (m_pieces mi)"
    and "length (m_pieces mi) < 2 ^ 32"
  shows "asked mi (se_torrent s) (se_torrent (snd (request_loop now n req k s)))"
  using assms(1,2)
proof (induction n arbitrary: req k s)
  case 0
  then show ?case by (simp add: io_simps asked_refl)
next
  case (Suc n)
  define rel where "rel = relevant_pieces (m_remote_pieces (se_peer s)) (se_torrent s)"
  have rel: "\<forall>k. bf_test rel k \<longrightarrow> k < length (m_pieces mi)"
    using Suc.prems(2) by (auto simp: rel_def relevant_pieces_def bf_test_sub)
  obtain r1 s1 where np: "next_piece_from now rel True 0 s = (r1, s1)"
    by fastforce
  note np' = next_piece_from_spec [OF Suc.prems(1) np]
  have a1: "asked mi (se_torrent s) (se_torrent s1)"
    using asked_next_piece_from [OF _ rel assms(3), of s now 0] torrent_reach_ok [OF Suc.prems(1)] by (simp add: np)
  have step1: "next_piece now True s = (r1, s1)"
    by (simp add: next_piece_def io_simps rel_def [symmetric] np)
  show ?case
  proof (cases "\<exists>loc. r1 = Inr (Some loc)")
    case False
    then show ?thesis
      using a1 by (cases r1) (auto simp: io_simps step1 split: option.splits)
  next
    case True
    then obtain loc where r1: "r1 = Inr (Some loc)" by blast
    then obtain i b where m: "map_of (m_active_pieces (se_torrent s1)) i = Some loc"
      and fb: "free_block (pieces_heap (se_torrent s1) ! loc) = Some b"
      using np' by auto
    obtain t2 where t2: "piece_next_offset now True loc (se_torrent s1) = Inr (Some (of_nat b * m_block_size), t2)"
      "torrent_reach mi t2"
      using mark_requested [OF _ m fb, of mi now] np' by blast
    define s2 where "s2 = s1\<lparr>se_torrent := t2,
        se_peer := (se_peer s)\<lparr>m_pending_requests := m_pending_requests (se_peer s) + 1\<rparr>\<rparr>"
    define rq where "rq = request_frame (m_id (pieces_heap t2 ! loc)) (of_nat b * m_block_size)
        (request_length (of_nat b * m_block_size) (pieces_heap t2 ! loc))"
    have "request_loop now (Suc n) req k s = request_loop now n (req @ rq) (k + 1) s2"
      using np' by (simp add: io_simps step1 r1 t2(1) s2_def rq_def count_up)
    moreover have "loc < length (pieces_heap (se_torrent s1))"
      using torrent_reach_ok np' m by (auto simp: torrent_ok_def)
    then have "asked mi (se_torrent s1) t2"
      using asked_offset t2(1) by blast
    moreover have "asked mi t2 (se_torrent (snd (request_loop now n (req @ rq) (k + 1) s2)))"
      using Suc.IH [of s2 "req @ rq" "k + 1"] Suc.prems(2) t2(2) by (simp add: s2_def)
    ultimately show ?thesis
      using asked_trans a1 by metis
  qed
qed

lemma asked_request_next_block:
  assumes "torrent_reach mi (se_torrent s)" and "\<forall>k. bf_test (m_remote_pieces (se_peer s)) k \<longrightarrow> k < length (m_pieces mi)"
    and "length (m_pieces mi) < 2 ^ 32" and "request_next_block env mp s = (r, s')"
  shows "asked mi (se_torrent s) (se_torrent s')"
proof -
  consider "se_torrent s' = se_torrent s"
    | n rl s1 where "request_loop (e_now env) n [] 0 s = (rl, s1)" "se_torrent s' = se_torrent s1"
    using assms(4) by (fastforce simp: request_next_block_def io_simps Let_def send_msg_def split: if_splits sum.splits prod.splits)
  then show ?thesis
    using asked_request_loop [OF assms(1-3), of "e_now env"] by cases (metis asked_refl, metis snd_conv)
qed

end
