(* ===== verification/Receiving.thy ===== *)
theory Receiving
  imports Asking
begin

text \<open>
  The side of a connection that misses pieces, as blocks arrive: what its torrent holds, and that
  receiving the block asked for first keeps the session going.
\<close>

section \<open>A torrent that is being received\<close>

definition complete :: "torrent \<Rightarrow> u32 \<Rightarrow> bool" where
  "complete t i \<longleftrightarrow> (\<exists>loc. map_of (m_active_pieces t) i = Some loc \<and> all_done (pieces_heap t ! loc))"

definition arrived :: "torrent \<Rightarrow> u32 \<times> nat \<Rightarrow> bool" where
  "arrived t ib \<longleftrightarrow> (\<exists>loc. map_of (m_active_pieces t) (fst ib) = Some loc \<and> is_done (pieces_heap t ! loc) (snd ib))"

text \<open>
  Every piece object belongs to the torrent and holds blocks of the content and nothing else; the
  complete ones are marked, and wait for the writer.
\<close>

definition piece_holds :: "metainfo \<Rightarrow> bytes \<Rightarrow> u32 \<Rightarrow> piece \<Rightarrow> bool" where
  "piece_holds mi content i p \<longleftrightarrow> unat i < length (m_pieces mi) \<and> holds_content (slice mi content i) p
     \<and> \<not> m_piece_written p"

definition holding :: "metainfo \<Rightarrow> bytes \<Rightarrow> torrent \<Rightarrow> bool" where
  "holding mi content t \<longleftrightarrow> torrent_reach mi t \<and> m_piece_callbacks t = [writer_add]
     \<and> (\<forall>i loc. map_of (m_active_pieces t) i = Some loc \<longrightarrow> piece_holds mi content i (pieces_heap t ! loc))
     \<and> (\<forall>i. bf_test (m_client_pieces t) (unat i) \<longleftrightarrow> complete t i)
     \<and> distinct (writer_queue t)
     \<and> set (writer_queue t) = {loc. \<exists>i. map_of (m_active_pieces t) i = Some loc \<and> all_done (pieces_heap t ! loc)}"

lemma holding_reach: "holding mi content t \<Longrightarrow> torrent_reach mi t \<and> torrent_ok t \<and> meta t = mi"
  using torrent_reach_ok by (auto simp: holding_def)

lemma holding_active:
  assumes "holding mi content t" and "map_of (m_active_pieces t) i = Some loc"
  shows "loc < length (pieces_heap t)" and "piece_holds mi content i (pieces_heap t ! loc)"
    and "m_id (pieces_heap t ! loc) = i" and "piece_length_at mi i = Inr (m_piece_size (pieces_heap t ! loc))"
    and "m_piece_size (pieces_heap t ! loc) = piece_size_of mi i"
  using holding_reach [OF assms(1)] assms by (auto simp: holding_def torrent_ok_def piece_size_of_def)

lemma holding_inj:
  assumes "holding mi content t" and "map_of (m_active_pieces t) i = Some loc" and "map_of (m_active_pieces t) j = Some loc"
  shows "i = j"
  using holding_active(3) [OF assms(1)] assms(2,3) by metis

lemma holding_new: "holding mi content (init_client_pieces n (register_torrent (new_torrent mi)))"
proof -
  have "torrent_reach mi (init_client_pieces n (register_torrent (new_torrent mi)))"
    unfolding register_torrent_def
    by (intro torrent_reach.step [OF torrent_reach.step [OF torrent_reach.init torrent_step.callback] torrent_step.client])
  then show ?thesis
    by (simp add: holding_def register_torrent_def init_client_pieces_def new_torrent_def add_piece_callback_def complete_def
        bf_size_def bf_empty_def)
qed

lemma piece_size_pos:
  assumes "transferable mi content" and "unat i < length (m_pieces mi)"
  shows "0 < unat (piece_size_of mi i)"
proof -
  define n pl where "n = length (m_pieces mi)" and "pl = uint (m_piece_length mi)"
  have fits: "pieces_fit mi"
    using assms(1) by (simp add: transferable_def small_torrent_def)
  have fit: "torrent_length mi \<le> int n * pl" "int (n - 1) * pl < torrent_length mi"
    using fits by (simp_all add: pieces_fit_def n_def pl_def)
  have tile: "uint i * pl + uint (piece_size_of mi i) = (if unat i = n - 1 then torrent_length mi else (uint i + 1) * pl)"
    using piece_tiles [of "unat i" mi] fits assms(2) piece_size_bound(1) [OF assms]
    by (auto simp: pieces_fit_def n_def pl_def add.commute)
  have "0 < uint (piece_size_of mi i)"
  proof (cases "unat i = n - 1")
    case True
    then have "uint i = int (n - 1)"
      by (metis uint_nat)
    with tile fit(2) True show ?thesis
      by simp
  next
    case False
    have "0 < pl"
      using fit by (cases "pl = 0") (auto simp: pl_def order_less_le)
    then show ?thesis
      using tile False by (simp add: distrib_right)
  qed
  then show ?thesis
    by (simp add: unat_gt_0 word_neq_0_conv flip: uint_0_iff)
qed

lemma new_piece_holds:
  assumes "transferable mi content" and "unat i < length (m_pieces mi)"
  shows "piece_holds mi content i (new_piece i (piece_size_of mi i))" and "\<not> all_done (new_piece i (piece_size_of mi i))"
    and "\<not> is_done (new_piece i (piece_size_of mi i)) b"
proof -
  have nd: "\<not> is_done (new_piece i (piece_size_of mi i)) b" for b
    by (simp add: new_piece_def)
  then show "\<not> is_done (new_piece i (piece_size_of mi i)) b" .
  have len: "length (slice mi content i) = unat (piece_size_of mi i)"
    using piece_size_bound(4) [OF assms] .
  show "piece_holds mi content i (new_piece i (piece_size_of mi i))"
    using assms(2) nd len piece_ok_new [of i "piece_size_of mi i"]
    by (simp add: piece_holds_def holds_content_def) (simp add: new_piece_def bytes_resize_def)
  have "0 < blocks (new_piece i (piece_size_of mi i))"
    using piece_size_pos [OF assms] block_index_less [of 0 "new_piece i (piece_size_of mi i)"] by (simp add: new_piece_def)
  with nd show "\<not> all_done (new_piece i (piece_size_of mi i))"
    by (auto simp: all_done_def)
qed

lemma unasked_same:
  assumes "unasked p = unasked q"
  shows "m_id p = m_id q" "m_piece_size p = m_piece_size q" "m_data p = m_data q" "m_piece_written p = m_piece_written q"
    "is_done p = is_done q" "all_done p = all_done q"
proof -
  have eq: "m_id p = m_id q" "m_piece_size p = m_piece_size q" "m_data p = m_data q" "m_piece_written p = m_piece_written q"
    "m_blocks_done p = m_blocks_done q"
    using assms by (cases p; cases q; simp add: unasked_def)+
  then show "m_id p = m_id q" "m_piece_size p = m_piece_size q" "m_data p = m_data q" "m_piece_written p = m_piece_written q"
    "is_done p = is_done q" "all_done p = all_done q"
    by (simp_all add: all_done_def blocks_of_size)
qed

lemma asked_complete:
  assumes "asked mi t t'" and "holding mi content t" and "torrent_reach mi t'" and "transferable mi content"
  shows "map_of (m_active_pieces t') i = Some loc \<Longrightarrow> piece_holds mi content i (pieces_heap t' ! loc)"
    and "map_of (m_active_pieces t') i = Some loc \<and> all_done (pieces_heap t' ! loc) \<longleftrightarrow>
      map_of (m_active_pieces t) i = Some loc \<and> all_done (pieces_heap t ! loc)"
    and "map_of (m_active_pieces t') i = Some loc \<and> is_done (pieces_heap t' ! loc) b \<longleftrightarrow>
      map_of (m_active_pieces t) i = Some loc \<and> is_done (pieces_heap t ! loc) b"
proof -
  have ok: "torrent_ok t'" "meta t' = mi"
    using torrent_reach_ok [OF assms(3)] by simp_all
  have old: "map_of (m_active_pieces t') j = Some l \<and> unasked (pieces_heap t' ! l) = unasked (pieces_heap t ! l)"
    if "map_of (m_active_pieces t) j = Some l" for j l
    using assms(1) that by (simp add: asked_def)
  have new: "unat i < length (m_pieces mi)" "unasked (pieces_heap t' ! loc) = unasked (new_piece i (piece_size_of mi i))"
    if a: "map_of (m_active_pieces t') i = Some loc" "map_of (m_active_pieces t) i = None"
  proof -
    obtain sz where sz: "unat i < length (m_pieces mi)" "unasked (pieces_heap t' ! loc) = unasked (new_piece i sz)"
      using assms(1) a unfolding asked_def by blast
    have "sz = m_piece_size (pieces_heap t' ! loc)"
      using unasked_same(2) [OF sz(2)] by (simp add: new_piece_def)
    then have "sz = piece_size_of mi i"
      using ok a(1) by (simp add: torrent_ok_def piece_size_of_def)
    with sz show "unat i < length (m_pieces mi)" "unasked (pieces_heap t' ! loc) = unasked (new_piece i (piece_size_of mi i))"
      by simp_all
  qed
  have keeps: "piece_holds mi content i q" if "unasked q = unasked p" "piece_ok q" "piece_holds mi content i p" for p q
    using unasked_same [OF that(1)] that(2,3) by (simp add: piece_holds_def holds_content_def)
  show "piece_holds mi content i (pieces_heap t' ! loc)" if a: "map_of (m_active_pieces t') i = Some loc"
  proof (cases "map_of (m_active_pieces t) i")
    case None
    then show ?thesis
      using new [OF a None] keeps new_piece_holds(1) [OF assms(4)] ok(1) a by (simp add: torrent_ok_def)
  next
    case (Some l)
    with a old have l: "l = loc" "unasked (pieces_heap t' ! loc) = unasked (pieces_heap t ! loc)"
      by auto
    then show ?thesis
      using keeps [OF l(2)] holding_active(2) [OF assms(2)] Some ok(1) a by (simp add: torrent_ok_def)
  qed
  have done_same: "is_done (pieces_heap t' ! loc) = is_done (pieces_heap t ! loc) \<and>
      all_done (pieces_heap t' ! loc) = all_done (pieces_heap t ! loc)" if "map_of (m_active_pieces t) i = Some loc"
    using unasked_same(5,6) [of "pieces_heap t' ! loc" "pieces_heap t ! loc"] old [OF that] by simp
  have none: "\<not> is_done (pieces_heap t' ! loc) b \<and> \<not> all_done (pieces_heap t' ! loc)"
    if "map_of (m_active_pieces t') i = Some loc" "map_of (m_active_pieces t) i = None"
    using new [OF that] unasked_same(5,6) [OF new(2) [OF that]] new_piece_holds(2,3) [OF assms(4)] by simp
  have same: "map_of (m_active_pieces t') i = Some loc \<longleftrightarrow> map_of (m_active_pieces t) i = Some loc"
    if "map_of (m_active_pieces t) i \<noteq> None"
    using that old [of i] by auto
  show "map_of (m_active_pieces t') i = Some loc \<and> all_done (pieces_heap t' ! loc) \<longleftrightarrow>
      map_of (m_active_pieces t) i = Some loc \<and> all_done (pieces_heap t ! loc)"
    "map_of (m_active_pieces t') i = Some loc \<and> is_done (pieces_heap t' ! loc) b \<longleftrightarrow>
      map_of (m_active_pieces t) i = Some loc \<and> is_done (pieces_heap t ! loc) b"
    using done_same none same by (cases "map_of (m_active_pieces t) i = None"; fastforce)+
qed

lemma holding_asked:
  assumes "asked mi t t'" and "holding mi content t" and "torrent_reach mi t'" and "transferable mi content"
  shows "holding mi content t'" and "arrived t' = arrived t"
proof -
  note same = asked_complete [OF assms]
  have "complete t' i \<longleftrightarrow> complete t i" for i
    using same(2) [of i] by (simp add: complete_def)
  moreover have "{loc. \<exists>i. map_of (m_active_pieces t') i = Some loc \<and> all_done (pieces_heap t' ! loc)} =
      {loc. \<exists>i. map_of (m_active_pieces t) i = Some loc \<and> all_done (pieces_heap t ! loc)}"
    using same(2) by simp
  ultimately show "holding mi content t'"
    using assms(1,2,3) same(1) by (simp add: holding_def asked_def)
  show "arrived t' = arrived t"
    using same(3) by (simp add: arrived_def fun_eq_iff)
qed

section \<open>A session that receives\<close>

text \<open>\<open>out\<close> are the blocks asked for and not yet received, in the order of the requests.\<close>

definition ready :: "metainfo \<Rightarrow> bytes \<Rightarrow> session \<Rightarrow> (u32 \<times> nat) list \<Rightarrow> bool" where
  "ready mi content s out \<longleftrightarrow> holding mi content (se_torrent s)
     \<and> p_connection (se_peer s) \<and> \<not> p_stopped (se_peer s) \<and> m_am_interested (se_peer s) \<and> \<not> m_choking (se_peer s)
     \<and> (\<forall>k. bf_test (m_remote_pieces (se_peer s)) k \<longleftrightarrow> k < length (m_pieces mi))
     \<and> length (m_pieces mi) \<le> bf_size (m_client_pieces (se_torrent s))
     \<and> m_pending_requests (se_peer s) = int (length out) \<and> distinct out
     \<and> (\<forall>i b. (i, b) \<in> set out \<longleftrightarrow>
          valid_block mi (i, b) \<and> taken (se_torrent s) i b \<and> \<not> arrived (se_torrent s) (i, b))"

definition fetching :: "metainfo \<Rightarrow> bytes \<Rightarrow> int \<Rightarrow> session \<Rightarrow> (u32 \<times> nat) list \<Rightarrow> bool" where
  "fetching mi content lim s out \<longleftrightarrow> ready mi content s out \<and> int (length out) \<le> lim
     \<and> (int (length out) < lim \<longrightarrow> exhausted mi (m_remote_pieces (se_peer s)) (se_torrent s))"

lemma few_pieces: "transferable mi content \<Longrightarrow> length (m_pieces mi) < 2 ^ 32"
proof -
  assume tr: "transferable mi content"
  define n pl where "n = length (m_pieces mi)" and "pl = uint (m_piece_length mi)"
  have fit: "torrent_length mi \<le> int n * pl" "int (n - 1) * pl < torrent_length mi" "torrent_length mi \<le> 2 ^ 32 - 16384"
    using tr by (auto simp: transferable_def small_torrent_def pieces_fit_def n_def pl_def)
  then have "pl \<noteq> 0"
    by auto
  moreover have "0 \<le> pl"
    by (simp add: pl_def)
  ultimately have "1 \<le> pl"
    by linarith
  then have "int (n - 1) * 1 \<le> int (n - 1) * pl"
    by (intro mult_left_mono) simp_all
  with fit show ?thesis
    by (simp add: n_def)
qed

lemma arrived_taken: "arrived t (i, b) \<Longrightarrow> taken t i b"
  by (auto simp: arrived_def taken_def)

lemma ask:
  assumes "ready mi content s out" and "int (length out) \<le> lim" and "transferable mi content"
    and "pending_limit env 0 = Inr lim" and "0 < lim"
  shows "\<exists>bl s'. request_next_block env 0 s = (Inr (length bl), s') \<and> fetching mi content lim s' (out @ bl)
    \<and> p_sent (se_peer s') = p_sent (se_peer s) @ request_log mi bl
    \<and> arrived (se_torrent s') = arrived (se_torrent s) \<and> (\<forall>ib \<in> set bl. valid_block mi ib)"
proof -
  have r: "torrent_reach mi (se_torrent s)" "m_am_interested (se_peer s)" "\<not> m_choking (se_peer s)" "p_connection (se_peer s)"
    and rem: "\<And>k. bf_test (m_remote_pieces (se_peer s)) k \<longleftrightarrow> k < length (m_pieces mi)"
    and h: "holding mi content (se_torrent s)"
    using assms(1) holding_reach by (auto simp: ready_def)
  have known: "known_pieces mi (m_remote_pieces (se_peer s))"
    unfolding known_pieces_def
  proof (intro allI impI conjI)
    fix k assume "bf_test (m_remote_pieces (se_peer s)) k"
    then have k: "k < length (m_pieces mi)"
      using rem by simp
    then show k32: "k < 2 ^ 32"
      using few_pieces [OF assms(3)] by simp
    then have "unat (of_nat k :: u32) = k"
      by (intro unat_of_nat_less) simp
    then show "\<exists>l. piece_length_at mi (of_nat k) = Inr l"
      using piece_size_bound(1) [OF assms(3)] k by metis
  qed
  obtain bl :: "(u32 \<times> nat) list" and s' where rq: "request_next_block env 0 s = (Inr (length bl), s')"
    and fresh: "fresh_blocks mi (m_remote_pieces (se_peer s)) (se_torrent s) bl"
    and asked_bl: "requested_blocks mi (se_torrent s) (se_torrent s') bl"
    and peer: "se_peer s' = (se_peer s)\<lparr>m_pending_requests := m_pending_requests (se_peer s) + int (length bl),
        p_sent := p_sent (se_peer s) @ request_log mi bl\<rparr>"
    and cap: "m_pending_requests (se_peer s) \<le> lim \<longrightarrow> m_pending_requests (se_peer s') \<le> lim"
    and ex: "m_pending_requests (se_peer s') < lim \<longrightarrow> exhausted mi (m_remote_pieces (se_peer s)) (se_torrent s')"
    using request_next_block_total [OF r(1) known r(2-4) assms(4,5)] by blast
  have a: "asked mi (se_torrent s) (se_torrent s')"
    using asked_request_next_block [OF r(1) _ few_pieces [OF assms(3)] rq] rem by blast
  have reach': "torrent_reach mi (se_torrent s')"
    using asked_bl by (simp add: requested_blocks_def)
  note h' = holding_asked [OF a h reach' assms(3)]
  have valid: "valid_block mi ib" "ib \<notin> set out" "\<not> arrived (se_torrent s) ib" if "ib \<in> set bl" for ib
    using fresh that rem assms(1) arrived_taken [of "se_torrent s"]
    by (cases ib; fastforce simp: fresh_blocks_def valid_block_def ready_def)+
  have "(i, b) \<in> set (out @ bl) \<longleftrightarrow> valid_block mi (i, b) \<and> taken (se_torrent s') i b \<and> \<not> arrived (se_torrent s') (i, b)" for i b
    using assms(1) asked_bl valid by (auto simp: ready_def requested_blocks_def h'(2))
  moreover have "distinct (out @ bl)"
    using assms(1) fresh valid(2) by (auto simp: ready_def fresh_blocks_def)
  ultimately have "ready mi content s' (out @ bl)"
    using assms(1) h'(1) asked_bl by (simp add: ready_def peer requested_blocks_def)
  then have "fetching mi content lim s' (out @ bl)"
    using cap ex assms(1,2) by (simp add: fetching_def ready_def peer)
  with rq h'(2) valid(1) peer show ?thesis
    by (intro exI [of _ bl] exI [of _ s']) simp
qed

section \<open>A block arrives\<close>

text \<open>A piece object that is not complete is replaced: what the torrent holds afterwards.\<close>

lemma holding_set_heap:
  assumes "holding mi content t" and "map_of (m_active_pieces t) i = Some loc" and "\<not> all_done (pieces_heap t ! loc)"
    and "piece_holds mi content i p" and "m_id p = i"
    and "t' = (if all_done p then piece_done loc (set_heap loc p t) else set_heap loc p t)" and "torrent_reach mi t'"
  shows "holding mi content t'"
proof -
  note loc = holding_active(1) [OF assms(1,2)]
  have same: "m_active_pieces t' = m_active_pieces t" "m_piece_callbacks t' = m_piece_callbacks t"
    and heap: "pieces_heap t' ! k = (if k = loc then p else pieces_heap t ! k)" for k
    using loc by (simp_all add: assms(6) piece_done_def nth_set_heap)
  have inj: "j = i" if "map_of (m_active_pieces t) j = Some loc" for j
    using holding_inj [OF assms(1) that assms(2)] .
  have complete: "complete t' j \<longleftrightarrow> complete t j \<or> (j = i \<and> all_done p)" for j
  proof (cases "j = i")
    case True
    with assms(2,3) show ?thesis
      by (simp add: complete_def same heap)
  next
    case False
    then have "l \<noteq> loc" if "map_of (m_active_pieces t) j = Some l" for l
      using inj that by blast
    with False show ?thesis
      by (auto simp: complete_def same heap)
  qed
  have client: "bf_test (m_client_pieces t') (unat j) \<longleftrightarrow> bf_test (m_client_pieces t) (unat j) \<or> (j = i \<and> all_done p)" for j
    using loc assms(5) by (auto simp: assms(6) piece_done_def nth_set_heap bf_test_set dest: unsigned_word_eqI)
  have queue: "writer_queue t' = writer_queue t @ (if all_done p then [loc] else [])"
    using assms(1) loc by (simp add: assms(6) piece_done_def holding_def writer_add_def)
  have queued: "set (writer_queue t) = {loc. \<exists>i. map_of (m_active_pieces t) i = Some loc \<and> all_done (pieces_heap t ! loc)}"
    and dist: "distinct (writer_queue t)"
    using assms(1) by (simp_all add: holding_def)
  have "loc \<notin> set (writer_queue t)"
    using assms(3) queued by auto
  then have "distinct (writer_queue t')"
    using dist by (simp add: queue)
  moreover have "set (writer_queue t') =
      {k. \<exists>j. map_of (m_active_pieces t') j = Some k \<and> all_done (pieces_heap t' ! k)}"
    using assms(2,3) by (auto simp: queue queued same heap)
  moreover have "piece_holds mi content j (pieces_heap t' ! k)" if "map_of (m_active_pieces t') j = Some k" for j k
    using that assms(4) holding_active(2) [OF assms(1)] inj by (auto simp: same heap)
  ultimately show ?thesis
    using assms(1,7) complete client by (simp add: holding_def same)
qed

lemma block_lands:
  assumes "holding mi content t" and "transferable mi content" and "valid_block mi (i, b)"
    and "taken t i b" and "\<not> arrived t (i, b)"
  shows "\<exists>t'. t_set_block now i (of_nat b * m_block_size) (block_of (slice mi content i) b) t = Inr (True, t')
    \<and> holding mi content t' \<and> (\<forall>jc. arrived t' jc \<longleftrightarrow> jc = (i, b) \<or> arrived t jc)
    \<and> (\<forall>j c. taken t' j c \<longleftrightarrow> taken t j c) \<and> bf_size (m_client_pieces t) \<le> bf_size (m_client_pieces t')"
proof -
  obtain loc where m: "map_of (m_active_pieces t) i = Some loc"
    using assms(4) by (auto simp: taken_def)
  define p where "p = pieces_heap t ! loc"
  note act = holding_active [OF assms(1) m, folded p_def]
  have b: "b < blocks p"
    using assms(3) act(5) block_index_less [of "b * 16384" p] by (simp add: valid_block_def)
  have nd: "\<not> is_done p b"
    using assms(5) m by (simp add: arrived_def p_def)
  then have open_piece: "\<not> all_done p"
    using b by (auto simp: all_done_def)
  have h: "holds_content (slice mi content i) p" and range: "unat i < length (m_pieces mi)" and nw: "\<not> m_piece_written p"
    using act(2) by (simp_all add: piece_holds_def)
  obtain p' where r: "receive_block (slice mi content i) (now, b) (False, p) = Inr (all_done p', p')"
    and p': "holds_content (slice mi content i) p'" "\<forall>j. is_done p' j \<longleftrightarrow> j = b \<or> is_done p j"
    using receive_block_eq [OF h, of "(now, b)" False] b by auto
  then have sb: "set_block now (of_nat b * m_block_size) (block_of (slice mi content i) b) p = Inr (all_done p', p')"
    by (simp add: receive_block_def)
  have st: "p' = store_block now (unat ((of_nat b * m_block_size) div m_block_size)) (block_of (slice mi content i) b) p"
    using set_block_Inr(5) [OF _ sb] h by (simp add: holds_content_def)
  define t' where "t' = (if all_done p' then piece_done loc (set_heap loc p' t) else set_heap loc p' t)"
  have eq: "t_set_block now i (of_nat b * m_block_size) (block_of (slice mi content i) b) t = Inr (True, t')"
    using m sb by (simp add: t_set_block_def t'_def result_simps flip: p_def)
  have "torrent_reach mi t'"
    using torrent_reach.step [OF _ torrent_step.block [OF eq]] holding_reach [OF assms(1)] by blast
  moreover have "piece_holds mi content i p'" "m_id p' = i"
    using p'(1) range nw act(3) by (simp_all add: piece_holds_def st)
  ultimately have "holding mi content t'"
    using holding_set_heap [OF assms(1) m] open_piece t'_def by (simp add: p_def)
  moreover have same: "m_active_pieces t' = m_active_pieces t" "pieces_heap t' ! k = (if k = loc then p' else pieces_heap t ! k)" for k
    using act(1) by (simp_all add: t'_def piece_done_def nth_set_heap)
  have inj: "j = i" if "map_of (m_active_pieces t) j = Some loc" for j
    using holding_inj [OF assms(1) that m] .
  have other: "l \<noteq> loc" if "map_of (m_active_pieces t) j = Some l" "j \<noteq> i" for j l
    using inj that by blast
  have "arrived t' jc \<longleftrightarrow> jc = (i, b) \<or> arrived t jc" for jc
  proof (cases "fst jc = i")
    case True
    with p'(2) m show ?thesis
      by (cases jc) (simp add: arrived_def same p_def)
  next
    case False
    with other show ?thesis
      by (cases jc) (fastforce simp: arrived_def same)
  qed
  moreover have requested: "is_requested p' = is_requested p"
    by (simp add: st)
  have "taken t' j c \<longleftrightarrow> taken t j c" for j c
  proof (cases "j = i")
    case True
    with p'(2) m requested assms(4) show ?thesis
      by (auto simp: taken_def same p_def)
  next
    case False
    with other show ?thesis
      by (fastforce simp: taken_def same)
  qed
  moreover have "bf_size (m_client_pieces t) \<le> bf_size (m_client_pieces t')"
    by (simp add: t'_def piece_done_def bf_size_set)
  ultimately show ?thesis
    using eq by blast
qed

text \<open>Receiving the block asked for first keeps the session going.\<close>

lemma receive_block_event:
  assumes "fetching mi content lim s (ib # out)" and "transferable mi content" and "pending_limit env 0 = Inr lim" and "0 < lim"
  shows "\<exists>bl s'. receive env (block_event mi content ib) s = (Inr (), s') \<and> fetching mi content lim s' (out @ bl)
    \<and> p_sent (se_peer s') = p_sent (se_peer s) @ request_log mi bl
    \<and> (\<forall>jc. arrived (se_torrent s') jc \<longleftrightarrow> jc = ib \<or> arrived (se_torrent s) jc) \<and> (\<forall>jc \<in> set bl. valid_block mi jc)"
proof -
  obtain i b where ib: "ib = (i, b)" by fastforce
  have rd: "ready mi content s (ib # out)" and cap: "int (length (ib # out)) \<le> lim"
    using assms(1) by (simp_all add: fetching_def)
  have blk: "valid_block mi (i, b)" "taken (se_torrent s) i b" "\<not> arrived (se_torrent s) (i, b)"
    and h: "holding mi content (se_torrent s)"
    using rd ib unfolding ready_def by (metis list.set_intros(1))+
  obtain t' where t': "t_set_block (e_now env) i (of_nat b * m_block_size) (block_of (slice mi content i) b) (se_torrent s) = Inr (True, t')"
    "holding mi content t'" "\<forall>jc. arrived t' jc \<longleftrightarrow> jc = (i, b) \<or> arrived (se_torrent s) jc"
    "\<forall>j c. taken t' j c \<longleftrightarrow> taken (se_torrent s) j c" "bf_size (m_client_pieces (se_torrent s)) \<le> bf_size (m_client_pieces t')"
    using block_lands [OF h assms(2) blk] by blast
  define s1 where "s1 = s\<lparr>se_torrent := t', se_peer := (update_activity (e_now env) (se_peer s))
      \<lparr>m_pending_requests := int (length out)\<rparr>\<rparr>"
  have "ready mi content s1 out"
    using rd t'(2-5) by (fastforce simp: ready_def s1_def update_activity_def ib)
  from ask [OF this _ assms(2,3,4)] cap
  obtain bl :: "(u32 \<times> nat) list" and s' where rq: "request_next_block env 0 s1 = (Inr (length bl), s')"
    "fetching mi content lim s' (out @ bl)" "p_sent (se_peer s') = p_sent (se_peer s1) @ request_log mi bl"
    "arrived (se_torrent s') = arrived (se_torrent s1)" "\<forall>jc \<in> set bl. valid_block mi jc"
    by auto
  have "m_pending_requests (se_peer s) = int (Suc (length out))"
    using rd by (simp add: ready_def)
  moreover have "s1 = s\<lparr>se_peer := (update_activity (e_now env) (se_peer s))\<lparr>m_pending_requests := int (length out)\<rparr>,
      se_torrent := t'\<rparr>"
    by (simp add: s1_def)
  ultimately have "receive env (block_event mi content ib) s = (Inr (), s')"
    using t'(1) rq(1) by (simp add: receive_def block_event_def ib p_set_block_def io_simps update_activity_def)
  with rq(2-5) t'(3) show ?thesis
    by (intro exI [of _ bl] exI [of _ s']) (simp add: s1_def update_activity_def ib)
qed

section \<open>Blocks arrive in the order of the requests\<close>

lemma concat_request_log: "concat (request_log mi bl) = concat (map (block_request mi) bl)"
  by (simp add: request_log_def)

text \<open>The requests \<open>bl\<close> were sent from \<open>s\<close> to \<open>s'\<close>.\<close>

definition sent_requests :: "metainfo \<Rightarrow> session \<Rightarrow> session \<Rightarrow> (u32 \<times> nat) list \<Rightarrow> bool" where
  "sent_requests mi s s' bl \<longleftrightarrow> (\<forall>ib \<in> set bl. valid_block mi ib)
     \<and> (\<exists>msgs. p_sent (se_peer s') = p_sent (se_peer s) @ msgs \<and> concat msgs = concat (map (block_request mi) bl))"

lemma sent_requests_trans:
  "sent_requests mi s s1 bl1 \<Longrightarrow> sent_requests mi s1 s2 bl2 \<Longrightarrow> sent_requests mi s s2 (bl1 @ bl2)"
  unfolding sent_requests_def by (elim conjE exE) (auto intro!: exI)

lemma receive_block_events:
  assumes "fetching mi content lim s (dl @ out)" and "transferable mi content" and "pending_limit env 0 = Inr lim" and "0 < lim"
  shows "\<exists>bl s'. iterIO (receive env) (map (block_event mi content) dl) s = (Inr (), s')
    \<and> fetching mi content lim s' (out @ bl) \<and> sent_requests mi s s' bl
    \<and> (\<forall>ib. arrived (se_torrent s') ib \<longleftrightarrow> ib \<in> set dl \<or> arrived (se_torrent s) ib)"
  using assms(1)
proof (induction dl arbitrary: s out)
  case Nil
  then show ?case
    by (intro exI [of _ "[]"] exI [of _ s]) (simp add: io_simps sent_requests_def)
next
  case (Cons ib dl)
  have "fetching mi content lim s (ib # dl @ out)"
    using Cons.prems by simp
  from receive_block_event [OF this assms(2-4)]
  obtain bl1 :: "(u32 \<times> nat) list" and s1 where r1: "receive env (block_event mi content ib) s = (Inr (), s1)" "fetching mi content lim s1 ((dl @ out) @ bl1)"
    "p_sent (se_peer s1) = p_sent (se_peer s) @ request_log mi bl1"
    "\<forall>jc. arrived (se_torrent s1) jc \<longleftrightarrow> jc = ib \<or> arrived (se_torrent s) jc" "\<forall>jc \<in> set bl1. valid_block mi jc"
    by blast
  have sent1: "sent_requests mi s s1 bl1"
    using r1(3,5) by (auto simp: sent_requests_def concat_request_log)
  obtain bl2 s2 where r2: "iterIO (receive env) (map (block_event mi content) dl) s1 = (Inr (), s2)"
    "fetching mi content lim s2 ((out @ bl1) @ bl2)" "sent_requests mi s1 s2 bl2"
    "\<forall>jc. arrived (se_torrent s2) jc \<longleftrightarrow> jc \<in> set dl \<or> arrived (se_torrent s1) jc"
    using Cons.IH [of s1 "out @ bl1"] r1(2) by auto
  then show ?case
    using r1 sent_requests_trans [OF sent1 r2(3)]
    by (intro exI [of _ "bl1 @ bl2"] exI [of _ s2]) (auto simp: io_simps)
qed

lemma concat_length_le: "\<forall>x \<in> set xs. length (f x) \<le> n \<Longrightarrow> length (concat (map f xs)) \<le> length xs * n"
  by (induction xs) force+

lemma block_event_message:
  assumes "transferable mi content" and "valid_block mi ib"
  shows "is_message (block_event mi content ib)" and "length (wire (block_event mi content ib)) \<le> 16397"
proof -
  have "length (block_of (slice mi content (fst ib)) (snd ib)) \<le> 16384"
    by (simp add: block_of_def)
  then show "is_message (block_event mi content ib)" "length (wire (block_event mi content ib)) \<le> 16397"
    by (simp_all add: is_message_def block_event_def wire_def)
qed

text \<open>All the blocks asked for, in one read: no byte is left over.\<close>

lemma receive_answers:
  assumes "fetching mi content lim s out" and "transferable mi content" and "pending_limit env 0 = Inr lim" and "0 < lim"
    and "lim < 2 ^ 16"
  shows "\<exists>bl s'. handle_response env Ok (concat (map (wire \<circ> block_event mi content) out)) s = (Inr (Some []), s')
    \<and> fetching mi content lim s' bl \<and> sent_requests mi s s' bl
    \<and> (\<forall>ib. arrived (se_torrent s') ib \<longleftrightarrow> ib \<in> set out \<or> arrived (se_torrent s) ib)"
proof -
  have rd: "ready mi content s out" and "int (length out) \<le> lim"
    using assms(1) by (simp_all add: fetching_def)
  then have few: "length out < 2 ^ 16"
    using assms(5) by simp
  have valid: "\<forall>ib \<in> set out. valid_block mi ib"
    using rd by (auto simp: ready_def)
  have "fetching mi content lim s (out @ [])"
    using assms(1) by simp
  from receive_block_events [OF this assms(2-4)]
  obtain bl :: "(u32 \<times> nat) list" and s' where s': "iterIO (receive env) (map (block_event mi content) out) s = (Inr (), s')"
    "fetching mi content lim s' bl" "sent_requests mi s s' bl"
    "\<forall>ib. arrived (se_torrent s') ib \<longleftrightarrow> ib \<in> set out \<or> arrived (se_torrent s) ib"
    by auto
  have "length (concat (map (wire \<circ> block_event mi content) out)) \<le> length out * 16397"
    using block_event_message(2) [OF assms(2)] valid by (intro concat_length_le) simp
  then have len: "length (concat (map (wire \<circ> block_event mi content) out)) < 2 ^ 63"
    using few by simp
  have "no_start (concat (map (wire \<circ> block_event mi content) out))"
    using blocks_no_start [OF valid] assms(2) by (simp add: transferable_def)
  then have "consume_loop env (concat (map wire (map (block_event mi content) out)) @ []) s =
      bindIO (iterIO (receive env) (map (block_event mi content) out)) (\<lambda>_. touch env []) s"
    using len block_event_message(1) [OF assms(2)] valid
    by (intro consume_messages) (auto simp: is_rest_def)
  with s' rd show ?thesis
    by (auto simp: handle_response_def io_simps touch_def ready_def)
qed

end
