(* ===== verification/Draining.thy ===== *)
theory Draining
  imports Receiving
begin

text \<open>
  The writer thread after a download: a torrent whose pieces are all complete and wait in the queue
  is, after as many rounds of the writer as there are pieces, on disk and done.
\<close>

section \<open>Contents that agree on every piece\<close>

lemma piece_of_position:
  assumes "transferable mi content" and "k < length content"
  shows "\<exists>i. unat i < length (m_pieces mi) \<and> unat i * unat (m_piece_length mi) \<le> k
    \<and> k < unat i * unat (m_piece_length mi) + unat (piece_size_of mi i)"
proof -
  define n pl where "n = length (m_pieces mi)" and "pl = unat (m_piece_length mi)"
  have fits: "pieces_fit mi" and len: "int (length content) = torrent_length mi"
    using assms(1) by (simp_all add: transferable_def small_torrent_def)
  have fit: "length content \<le> n * pl"
  proof -
    have "int (length content) \<le> int (n * pl)"
      using fits len by (simp add: pieces_fit_def n_def pl_def)
    then show ?thesis
      by linarith
  qed
  then have "k < n * pl" "0 < pl"
    using assms(2) by (auto intro: gr0I)
  then have q: "k div pl < n" "k div pl * pl \<le> k" "k < (k div pl + 1) * pl"
    using dividend_less_div_times [of pl k] by (simp_all add: less_mult_imp_div_less add.commute)
  define i where "i = (of_nat (k div pl) :: u32)"
  have i: "unat i = k div pl"
    unfolding i_def using q(1) few_pieces [OF assms(1)] by (intro unat_of_nat_less) (simp add: n_def)
  then have range: "unat i < length (m_pieces mi)"
    using q(1) by (simp add: n_def)
  have "int (unat i * pl + unat (piece_size_of mi i)) = (if unat i = n - 1 then int (length content) else int ((unat i + 1) * pl))"
    using piece_tiles [of "unat i" mi] fits range piece_size_bound(1) [OF assms(1) range] len
    by (auto simp: pieces_fit_def n_def pl_def distrib_right)
  moreover have "int k < int ((unat i + 1) * pl)" "int k < int (length content)"
    using q(3) assms(2) i by (simp_all only: of_nat_less_iff)
  ultimately have "int k < int (unat i * pl + unat (piece_size_of mi i))"
    by presburger
  then have "k < unat i * pl + unat (piece_size_of mi i)"
    by linarith
  with q(2) i range show ?thesis
    by (intro exI [of _ i]) (simp add: pl_def)
qed

lemma slices_determine:
  assumes "transferable mi content" and "length d = length content"
    and "\<And>i. unat i < length (m_pieces mi) \<Longrightarrow> slice mi d i = slice mi content i"
  shows "d = content"
proof (rule nth_equalityI [OF assms(2)])
  fix k assume "k < length d"
  then obtain i where i: "unat i < length (m_pieces mi)" "unat i * unat (m_piece_length mi) \<le> k"
    "k < unat i * unat (m_piece_length mi) + unat (piece_size_of mi i)"
    using piece_of_position [OF assms(1)] assms(2) by auto
  then have at: "slice mi e i ! (k - unat i * unat (m_piece_length mi)) = e ! k" if "length e = length content" for e
    using that piece_size_bound(1,3) [OF assms(1) i(1)] by (simp add: slice_def)
  then show "d ! k = content ! k"
    using assms(2) assms(3) [OF i(1)] by metis
qed

lemma pieces_nonempty: "transferable mi content \<Longrightarrow> m_pieces mi \<noteq> []"
  by (auto simp: transferable_def small_torrent_def pieces_fit_def)

section \<open>The rounds of the writer\<close>

text \<open>
  Between two rounds: a piece is either in the queue, with its data in memory, or written, with its
  data on disk.  Before the first round the files may still have to be made.
\<close>

definition disk_ready :: "metainfo \<Rightarrow> writer_state \<Rightarrow> bool" where
  "disk_ready mi w \<longleftrightarrow> store_present mi (w_fs w)
     \<or> can_start mi (w_fs w) \<and> snd ` set (m_active_pieces (w_torrent w)) \<subseteq> set (writer_queue (w_torrent w))"

definition piece_at :: "metainfo \<Rightarrow> bytes \<Rightarrow> writer_state \<Rightarrow> u32 \<Rightarrow> nat \<Rightarrow> bool" where
  "piece_at mi content w i loc \<longleftrightarrow>
     (let p = pieces_heap (w_torrent w) ! loc in
      loc < length (pieces_heap (w_torrent w)) \<and> m_id p = i \<and> m_piece_size p = piece_size_of mi i
      \<and> (if loc \<in> set (writer_queue (w_torrent w)) then m_data p = slice mi content i \<and> \<not> m_piece_written p
         else m_piece_written p \<and> slice mi (store_stream mi (w_fs w)) i = slice mi content i))"

definition draining :: "metainfo \<Rightarrow> bytes \<Rightarrow> writer_state \<Rightarrow> bool" where
  "draining mi content w \<longleftrightarrow> meta (w_torrent w) = mi \<and> distinct (writer_queue (w_torrent w))
     \<and> smap_ok (m_active_pieces (w_torrent w))
     \<and> (\<forall>i. unat i < length (m_pieces mi) \<longleftrightarrow> map_of (m_active_pieces (w_torrent w)) i \<noteq> None)
     \<and> (\<forall>i loc. map_of (m_active_pieces (w_torrent w)) i = Some loc \<longrightarrow> piece_at mi content w i loc)
     \<and> set (writer_queue (w_torrent w)) \<subseteq> {loc. \<exists>i. map_of (m_active_pieces (w_torrent w)) i = Some loc}
     \<and> (\<forall>k. bf_test (m_client_pieces (w_torrent w)) k \<longleftrightarrow> k < length (m_pieces mi))
     \<and> (if writer_queue (w_torrent w) = [] then length (store_stream mi (w_fs w)) = length content else disk_ready mi w)"

lemma draining_round:
  assumes "draining mi content w" and "writer_queue (w_torrent w) = loc # q" and "transferable mi content"
    and "right_digests sha1 mi content"
  shows "draining mi content (write_next_piece sha1 lpw w)" and "writer_queue (w_torrent (write_next_piece sha1 lpw w)) = q"
proof -
  define t p where "t = (w_torrent w)\<lparr>writer_queue := q\<rparr>" and "p = pieces_heap t ! loc"
  define t2 where "t2 = set_heap loc (set_piece_written True p) t"
  have mi: "meta t = mi" and small: "small_torrent mi"
    using assms(1,3) by (simp_all add: draining_def t_def transferable_def)
  obtain i where m: "map_of (m_active_pieces t) i = Some loc"
    using assms(1,2) by (auto simp: draining_def t_def)
  have range: "unat i < length (m_pieces mi)"
    using assms(1) m by (auto simp: draining_def t_def)
  have "piece_at mi content w i loc"
    using assms(1) m by (simp add: draining_def t_def)
  then have p: "loc < length (pieces_heap t)" "m_id p = i" "m_piece_size p = piece_size_of mi i" "m_data p = slice mi content i"
    using assms(2) by (simp_all add: piece_at_def Let_def p_def t_def)
  note sz = piece_size_bound [OF assms(3) range]
  have digest: "sha1 (m_data p) = m_pieces mi ! unat (m_id p)"
    using assms(4) range p(2,4) by (simp add: right_digests_def)
  have len: "length (m_data p) = unat (m_piece_size p)"
    using p(3,4) sz(4) by simp
  have pos: "uint (m_id p * m_piece_length mi) + uint (m_piece_size p) \<le> torrent_length mi"
    using piece_position(1,3) [OF small range sz(1)] p(2,3) by simp
  have ready: "disk_ready mi w"
    using assms(1,2) by (simp add: draining_def)
  obtain s1 d where s1: "store_sequence lpw mi p (w_fs w) = (Inr (), s1)" "store_present mi s1"
    "store_stream mi s1 = put_at (unat (m_id p * m_piece_length mi)) (m_data p) d" "int (length d) = torrent_length mi"
    and d: "store_present mi (w_fs w) \<and> d = store_stream mi (w_fs w)
      \<or> snd ` set (m_active_pieces t) \<subseteq> set (loc # q)"
  proof (cases "store_present mi (w_fs w)")
    case True
    moreover obtain s' where "store_sequence lpw mi p (w_fs w) = (Inr (), s')" "store_present mi s'"
      "store_stream mi s' = put_at (unat (m_id p * m_piece_length mi)) (m_data p) (store_stream mi (w_fs w))"
      using destination_writes [OF True _ len pos, of lpw] small by (auto simp: store_sequence_def small_torrent_def)
    ultimately show ?thesis
      using that store_stream_length [OF True] by blast
  next
    case False
    then have "can_start mi (w_fs w)" "snd ` set (m_active_pieces t) \<subseteq> set (loc # q)"
      using ready assms(2) by (simp_all add: disk_ready_def t_def)
    then show ?thesis
      using destination_starts [OF _ _ len pos, of "w_fs w" lpw] small that by (auto simp: store_sequence_def small_torrent_def)
  qed
  have w': "w_torrent (write_next_piece sha1 lpw w) = t2"
    "w_fs (write_next_piece sha1 lpw w) = (if torrent_done t2 then snd (d_complete (create_destination lpw mi) s1) else s1)"
    using write_next_piece_cases(3) [OF assms(2), folded t_def, folded p_def, unfolded mi] range p(2) digest s1(1)
    by (simp_all add: t2_def)
  show q: "writer_queue (w_torrent (write_next_piece sha1 lpw w)) = q"
    by (simp add: w'(1) t2_def t_def)
  have stream: "store_stream mi (w_fs (write_next_piece sha1 lpw w)) = store_stream mi s1"
    using destination_completes [OF s1(2), of lpw] by (simp add: w'(2))
  note sl = slice_store [OF small range sz(1) s1(4), of "m_data p"]
  have same: "slice mi (store_stream mi s1) i = slice mi content i"
    "j \<noteq> i \<Longrightarrow> unat j < length (m_pieces mi) \<Longrightarrow> slice mi (store_stream mi s1) j = slice mi d j" for j
    using sl len p by (simp_all add: s1(3))
  have lq: "loc \<notin> set q" "distinct q"
    using assms(1,2) by (simp_all add: draining_def)
  have heap: "pieces_heap t2 ! k = (if k = loc then set_piece_written True p else pieces_heap t ! k)" for k
    using p(1) by (simp add: t2_def nth_set_heap)
  have at: "piece_at mi content (write_next_piece sha1 lpw w) j l" if a: "map_of (m_active_pieces t) j = Some l" for j l
  proof -
    have old: "piece_at mi content w j l" and rj: "unat j < length (m_pieces mi)"
      using assms(1) a by (auto simp: draining_def t_def)
    show ?thesis
    proof (cases "l = loc")
      case True
      then have "j = i"
        using old p(2) by (simp add: piece_at_def Let_def p_def t_def)
      with True show ?thesis
        using p lq same(1) stream q heap by (simp add: piece_at_def Let_def w'(1)) (simp add: set_piece_written_def t2_def)
    next
      case False
      then have "j \<noteq> i"
        using a m by auto
      moreover have "l \<notin> set q \<Longrightarrow> d = store_stream mi (w_fs w)"
        using d False map_of_SomeD [OF a] by force
      ultimately show ?thesis
        using False old same(2) rj stream q heap assms(2) by (simp add: piece_at_def Let_def w'(1)) (simp add: t2_def t_def)
    qed
  qed
  have "store_present mi (w_fs (write_next_piece sha1 lpw w))" if ne: "q \<noteq> []"
  proof -
    obtain l where "l \<in> set q"
      using ne by (cases q) auto
    moreover have "set (loc # q) \<subseteq> {l. \<exists>j. map_of (m_active_pieces t) j = Some l}"
      using assms(1,2) by (simp add: draining_def t_def)
    ultimately obtain j where j: "map_of (m_active_pieces t) j = Some l"
      by auto
    then have "\<not> m_piece_written (pieces_heap t2 ! l)"
      using at [OF j(1)] q \<open>l \<in> set q\<close> by (simp add: piece_at_def Let_def w'(1))
    then have "\<not> torrent_done t2"
      using map_of_SomeD [OF j(1)] by (force simp: torrent_done_def list_ex_iff t2_def)
    then show ?thesis
      using w'(2) s1(2) by simp
  qed
  moreover have "length (store_stream mi s1) = length content"
    using store_stream_length [OF s1(2)] assms(3) by (simp add: transferable_def)
  ultimately show "draining mi content (write_next_piece sha1 lpw w)"
    using assms(1,2) at lq(2) q stream unfolding draining_def w'(1)
    by (simp add: t2_def t_def disk_ready_def)
qed

section \<open>The whole queue\<close>

definition drain :: "(bytes \<Rightarrow> string) \<Rightarrow> (unit \<Rightarrow> unit result) \<Rightarrow> writer_state \<Rightarrow> writer_state" where
  "drain sha1 lpw w = (write_next_piece sha1 lpw ^^ length (writer_queue (w_torrent w))) w"

lemma drain_draining:
  assumes "draining mi content w" and "transferable mi content" and "right_digests sha1 mi content"
  shows "draining mi content (drain sha1 lpw w) \<and> writer_queue (w_torrent (drain sha1 lpw w)) = []"
  using assms(1)
proof (induction "writer_queue (w_torrent w)" arbitrary: w)
  case Nil
  then show ?case
    by (simp add: drain_def)
next
  case (Cons loc q)
  define w' where "w' = write_next_piece sha1 lpw w"
  have w': "draining mi content w'" "writer_queue (w_torrent w') = q"
    unfolding w'_def by (rule draining_round [OF Cons.prems Cons.hyps(2) [symmetric] assms(2,3)])+
  have "drain sha1 lpw w = drain sha1 lpw w'"
    using w'(2) by (simp add: drain_def w'_def funpow_swap1 flip: Cons.hyps(2))
  then show ?case
    using Cons.hyps(1) w' by simp
qed

lemma drained:
  assumes "draining mi content w" and "writer_queue (w_torrent w) = []" and "transferable mi content"
  shows "torrent_done (w_torrent w)" and "store_stream mi (w_fs w) = content"
proof -
  have at: "m_piece_written (pieces_heap (w_torrent w) ! loc) \<and> slice mi (store_stream mi (w_fs w)) i = slice mi content i"
    if "map_of (m_active_pieces (w_torrent w)) i = Some loc" for i loc
    using assms(1,2) that by (simp add: draining_def piece_at_def Let_def)
  have "bf_indices (m_client_pieces (w_torrent w)) = {..<length (m_pieces mi)}" "m_pieces mi \<noteq> []"
    using assms(1) small_torrent_count [of mi] assms(3) by (auto simp: draining_def bf_indices_def transferable_def)
  moreover have "smap_ok (m_active_pieces (w_torrent w))"
    using assms(1) by (simp add: draining_def)
  then have "m_piece_written (pieces_heap (w_torrent w) ! snd e)" if "e \<in> set (m_active_pieces (w_torrent w))" for e
    using that at [of "fst e" "snd e"] map_of_eq_Some_iff_smap [of "m_active_pieces (w_torrent w)" "fst e" "snd e"] by simp
  ultimately show "torrent_done (w_torrent w)"
    using assms(1) by (auto simp: torrent_done_def bf_count_card list_ex_iff draining_def)
  have "slice mi (store_stream mi (w_fs w)) i = slice mi content i" if "unat i < length (m_pieces mi)" for i
    using assms(1) that at unfolding draining_def by blast
  then show "store_stream mi (w_fs w) = content"
    using assms(1,2) by (intro slices_determine [OF assms(3)]) (simp_all add: draining_def)
qed

text \<open>A torrent of which every block has arrived.\<close>

definition missing :: "metainfo \<Rightarrow> torrent \<Rightarrow> (u32 \<times> nat) set" where
  "missing mi t = {ib. valid_block mi ib \<and> \<not> arrived t ib}"

lemma all_arrived_complete:
  assumes "holding mi content t" and "map_of (m_active_pieces t) i = Some loc" and "transferable mi content"
  shows "all_done (pieces_heap t ! loc) \<longleftrightarrow> (\<forall>b. valid_block mi (i, b) \<longrightarrow> arrived t (i, b))"
proof -
  note act = holding_active [OF assms(1,2)]
  have "unat i < length (m_pieces mi)"
    using act(2) by (simp add: piece_holds_def)
  then have "valid_block mi (i, b) \<longleftrightarrow> b < blocks (pieces_heap t ! loc)" for b
    using act(5) block_inside [of b "pieces_heap t ! loc"] block_index_less [of "b * 16384" "pieces_heap t ! loc"]
    by (auto simp: valid_block_def)
  then show ?thesis
    using assms(2) by (auto simp: all_done_def arrived_def)
qed

lemma received_draining:
  assumes "holding mi content t" and "missing mi t = {}" and "transferable mi content"
    and "store_present mi fs \<or> can_start mi fs"
  shows "draining mi content \<lparr>w_torrent = t, w_fs = fs, w_completed = n\<rparr>"
proof -
  have reach: "torrent_reach mi t" "torrent_ok t" "meta t = mi"
    using holding_reach [OF assms(1)] by simp_all
  have arrived: "arrived t ib" if "valid_block mi ib" for ib
    using assms(2) that by (cases ib) (auto simp: missing_def)
  have active: "unat i < length (m_pieces mi) \<longleftrightarrow> map_of (m_active_pieces t) i \<noteq> None" for i
  proof
    assume "unat i < length (m_pieces mi)"
    then have "valid_block mi (i, 0)"
      using piece_size_pos [OF assms(3)] by (simp add: valid_block_def)
    from arrived [OF this] show "map_of (m_active_pieces t) i \<noteq> None"
      by (auto simp: arrived_def)
  next
    assume "map_of (m_active_pieces t) i \<noteq> None"
    then show "unat i < length (m_pieces mi)"
      using holding_active(2) [OF assms(1)] by (auto simp: piece_holds_def)
  qed
  have whole: "all_done (pieces_heap t ! loc)" if "map_of (m_active_pieces t) i = Some loc" for i loc
    using all_arrived_complete [OF assms(1) that assms(3)] arrived by blast
  have queue: "set (writer_queue t) = {loc. \<exists>i. map_of (m_active_pieces t) i = Some loc}"
    using assms(1) whole by (auto simp: holding_def)
  have at: "piece_at mi content \<lparr>w_torrent = t, w_fs = fs, w_completed = n\<rparr> i loc"
    if m: "map_of (m_active_pieces t) i = Some loc" for i loc
  proof -
    note act = holding_active [OF assms(1) m]
    then have "m_data (pieces_heap t ! loc) = slice mi content i"
      using holds_content_complete whole [OF m] by (simp add: piece_holds_def)
    then show ?thesis
      using act queue m by (auto simp: piece_at_def piece_holds_def)
  qed
  have bits: "bf_test (m_client_pieces t) k \<longleftrightarrow> k < length (m_pieces mi)" for k
  proof
    assume bit: "bf_test (m_client_pieces t) k"
    then have "k < 2 ^ 32" "map_of (m_active_pieces t) (of_nat k) \<noteq> None"
      using reach(2) by (auto simp: torrent_ok_def)
    moreover from this(1) have "unat (of_nat k :: u32) = k"
      by (intro unat_of_nat_less) simp
    ultimately show "k < length (m_pieces mi)"
      using active [of "of_nat k"] by simp
  next
    assume k: "k < length (m_pieces mi)"
    then have u: "unat (of_nat k :: u32) = k"
      using few_pieces [OF assms(3)] by (intro unat_of_nat_less) simp
    then obtain loc where "map_of (m_active_pieces t) (of_nat k) = Some loc"
      using active [of "of_nat k"] k by auto
    then have "complete t (of_nat k)"
      using whole by (auto simp: complete_def)
    then show "bf_test (m_client_pieces t) k"
      using assms(1) u unfolding holding_def by metis
  qed
  have "map_of (m_active_pieces t) 0 \<noteq> None"
    using active [of 0] pieces_nonempty [OF assms(3)] by simp
  then have "writer_queue t \<noteq> []"
    using queue by auto
  moreover have "snd ` set (m_active_pieces t) \<subseteq> set (writer_queue t)"
    using queue reach(2) map_of_eq_Some_iff_smap [of "m_active_pieces t"] by (force simp: torrent_ok_def)
  ultimately show ?thesis
    using assms(1,4) reach active at bits queue by (auto simp: draining_def disk_ready_def holding_def torrent_ok_def)
qed

end
