(* ===== verification/Exchange.thy ===== *)
theory Exchange
  imports Draining Swarm
begin

text \<open>
  Two clients joined by a connection, one that has a torrent and one that does not: together they
  come to an end, with the whole torrent on the disk of the second.
\<close>

section \<open>Two ends of a connection\<close>

text \<open>
  An end of a connection: what was read and not consumed, as long as reads go on, and the session.
  \<open>deliver\<close> hands it the bytes of one read; it returns what is sent in reaction.
\<close>

type_synonym endpoint = "bytes option \<times> session"

definition deliver :: "peer_env \<Rightarrow> bytes \<Rightarrow> endpoint \<Rightarrow> bytes \<times> endpoint" where
  "deliver env received e =
     (case e of
        (None, s) \<Rightarrow> ([], e)
      | (Some rest, s) \<Rightarrow>
          (case handle_response env Ok (rest @ received) s of
             (r, s') \<Rightarrow> (concat (drop (length (p_sent (se_peer s))) (p_sent (se_peer s'))),
                         case r of Inr x \<Rightarrow> x | Inl _ \<Rightarrow> None, s')))"

text \<open>One round: what the second end has sent reaches the first, and the reaction of the first the second.\<close>

definition exchange :: "peer_env \<Rightarrow> peer_env \<Rightarrow> bytes \<times> endpoint \<times> endpoint \<Rightarrow> bytes \<times> endpoint \<times> endpoint" where
  "exchange envS envL x =
     (let (q, S, L) = x;
          (answer, S') = deliver envS q S;
          (q', L') = deliver envL answer L
      in (q', S', L'))"

lemma deliver_step:
  assumes "handle_response env Ok received s = (Inr rest, s')" and "p_sent (se_peer s') = p_sent (se_peer s) @ msgs"
  shows "deliver env received (Some [], s) = (concat msgs, rest, s')"
  using assms by (simp add: deliver_def)

section \<open>Rounds\<close>

text \<open>Requests are under way, for the blocks \<open>out\<close>.\<close>

definition transferring :: "metainfo \<Rightarrow> bytes \<Rightarrow> int \<Rightarrow> bytes \<times> endpoint \<times> endpoint \<Rightarrow> (u32 \<times> nat) list \<Rightarrow> bool" where
  "transferring mi content lim x out \<longleftrightarrow> (\<exists>S L. x = (concat (map (block_request mi) out), (Some [], S), (Some [], L))
     \<and> seeding mi S \<and> fetching mi content lim L out)"

definition leecher :: "bytes \<times> endpoint \<times> endpoint \<Rightarrow> session" where
  "leecher x = snd (snd (snd x))"

lemma transferring_round:
  assumes "transferring mi content lim x out" and "transferable mi content" and "reads content envS"
    and "pending_limit envL 0 = Inr lim" and "0 < lim" and "lim < 2 ^ 16"
  shows "\<exists>out'. transferring mi content lim (exchange envS envL x) out'
    \<and> (\<forall>ib. arrived (se_torrent (leecher (exchange envS envL x))) ib \<longleftrightarrow>
          ib \<in> set out \<or> arrived (se_torrent (leecher x)) ib)"
proof -
  obtain S L where x: "x = (concat (map (block_request mi) out), (Some [], S), (Some [], L))"
    and S: "seeding mi S" and L: "fetching mi content lim L out"
    using assms(1) by (auto simp: transferring_def)
  have out: "\<forall>ib \<in> set out. valid_block mi ib" "length out < 2 ^ 16"
    using L assms(6) by (auto simp: fetching_def ready_def)
  obtain S' where S': "handle_response envS Ok (concat (map (block_request mi) out)) S = (Inr (Some []), S')"
    "seeding mi S'" "p_sent (se_peer S') = p_sent (se_peer S) @ map (wire \<circ> block_event mi content) out"
    using answer_bytes [OF assms(2) S assms(3) out] by blast
  obtain bl L' where L': "handle_response envL Ok (concat (map (wire \<circ> block_event mi content) out)) L = (Inr (Some []), L')"
    "fetching mi content lim L' bl" "sent_requests mi L L' bl"
    "\<forall>ib. arrived (se_torrent L') ib \<longleftrightarrow> ib \<in> set out \<or> arrived (se_torrent L) ib"
    using receive_answers [OF L assms(2,4,5,6)] by blast
  obtain msgs where msgs: "p_sent (se_peer L') = p_sent (se_peer L) @ msgs" "concat msgs = concat (map (block_request mi) bl)"
    using L'(3) by (auto simp: sent_requests_def)
  have "exchange envS envL x = (concat (map (block_request mi) bl), (Some [], S'), (Some [], L'))"
    using deliver_step [OF S'(1,3)] deliver_step [OF L'(1) msgs(1)] msgs(2) by (simp add: exchange_def x)
  with S'(2) L'(2,4) show ?thesis
    by (auto simp: transferring_def leecher_def x)
qed

text \<open>As long as blocks are missing, some were asked for.\<close>

lemma finite_valid_blocks: "finite {ib. valid_block mi ib}"
proof (rule finite_subset)
  show "{ib. valid_block mi ib} \<subseteq> UNIV \<times> {..< 2 ^ 32}"
  proof
    fix ib assume "ib \<in> {ib. valid_block mi ib}"
    then have "snd ib * 16384 < unat (piece_size_of mi (fst ib))"
      by (simp add: valid_block_def)
    also have "\<dots> < 2 ^ LENGTH(32)"
      by (rule unsigned_less)
    finally show "ib \<in> UNIV \<times> {..< 2 ^ 32}"
      by (cases ib) simp
  qed
qed simp

lemma finite_missing: "finite (missing mi t)"
  unfolding missing_def by (rule finite_subset [OF _ finite_valid_blocks]) auto

lemma asked_for_missing:
  assumes "fetching mi content lim s []" and "transferable mi content" and "0 < lim"
  shows "missing mi (se_torrent s) = {}"
proof (rule ccontr)
  assume "missing mi (se_torrent s) \<noteq> {}"
  then obtain i b where ib: "valid_block mi (i, b)" "\<not> arrived (se_torrent s) (i, b)"
    by (auto simp: missing_def)
  have rd: "ready mi content s []" and ex: "exhausted mi (m_remote_pieces (se_peer s)) (se_torrent s)"
    using assms(1,3) by (simp_all add: fetching_def)
  then have h: "holding mi content (se_torrent s)"
    by (simp add: ready_def)
  have range: "unat i < length (m_pieces mi)" "b * 16384 < unat (piece_size_of mi i)"
    using ib(1) by (simp_all add: valid_block_def)
  have "\<not> complete (se_torrent s) i"
    using all_arrived_complete [OF h _ assms(2)] ib by (auto simp: complete_def)
  then have "bf_test (relevant_pieces (m_remote_pieces (se_peer s)) (se_torrent s)) (unat i)"
    using rd h range(1) by (simp add: relevant_pieces_def bf_test_sub ready_def holding_def)
  moreover have "(of_nat (unat i) :: u32) = i"
    by simp
  ultimately have "taken (se_torrent s) i b"
    using ex range(2) unfolding exhausted_def by metis
  with rd ib show False
    by (auto simp: ready_def)
qed

lemma transfer_rounds:
  assumes "transferring mi content lim x out" and "transferable mi content" and "reads content envS"
    and "pending_limit envL 0 = Inr lim" and "0 < lim" and "lim < 2 ^ 16"
  shows "\<exists>k \<le> card (missing mi (se_torrent (leecher x))). transferring mi content lim ((exchange envS envL ^^ k) x) []
    \<and> missing mi (se_torrent (leecher ((exchange envS envL ^^ k) x))) = {}"
  using assms(1)
proof (induction "card (missing mi (se_torrent (leecher x)))" arbitrary: x out rule: less_induct)
  case less
  have L: "fetching mi content lim (leecher x) out"
    using less.prems by (auto simp: transferring_def leecher_def)
  show ?case
  proof (cases "out = []")
    case True
    then show ?thesis
      using less.prems asked_for_missing [OF _ assms(2,5)] L by (intro exI [of _ 0]) simp
  next
    case False
    define y where "y = exchange envS envL x"
    obtain out' where y: "transferring mi content lim y out'"
      "\<forall>ib. arrived (se_torrent (leecher y)) ib \<longleftrightarrow> ib \<in> set out \<or> arrived (se_torrent (leecher x)) ib"
      using transferring_round [OF less.prems assms(2-6)] unfolding y_def by blast
    have "missing mi (se_torrent (leecher y)) = missing mi (se_torrent (leecher x)) - set out"
      using y(2) by (auto simp: missing_def)
    moreover have "set out \<subseteq> missing mi (se_torrent (leecher x))"
      using L by (auto simp: fetching_def ready_def missing_def)
    ultimately have smaller: "card (missing mi (se_torrent (leecher y))) < card (missing mi (se_torrent (leecher x)))"
      using False by (intro psubset_card_mono [OF finite_missing]) (cases out; auto)
    from less.hyps [OF this y(1)] obtain k where k: "k \<le> card (missing mi (se_torrent (leecher y)))"
      "transferring mi content lim ((exchange envS envL ^^ k) y) []"
      "missing mi (se_torrent (leecher ((exchange envS envL ^^ k) y))) = {}"
      by blast
    have "(exchange envS envL ^^ Suc k) x = (exchange envS envL ^^ k) y"
      by (simp only: funpow_Suc_right o_apply y_def)
    with k smaller show ?thesis
      by (intro exI [of _ "Suc k"]) simp
  qed
qed

section \<open>The beginning of a connection\<close>

text \<open>The two sessions when they have sent what they send of their own accord.\<close>

definition accepted_session :: "peer_env \<Rightarrow> torrent \<Rightarrow> string \<Rightarrow> session" where
  "accepted_session env t url =
     snd (bindIO (handshake env) (\<lambda>_. report_bitfield) \<lparr>se_torrent = t, se_peer = accepted_peer (e_now env) url\<rparr>)"

definition connecting_session :: "peer_env \<Rightarrow> torrent \<Rightarrow> string \<Rightarrow> session" where
  "connecting_session env t url = snd (handshake env \<lparr>se_torrent = t, se_peer = new_peer (e_now env) url\<rparr>)"

text \<open>The connection after the handshakes: the second end has read what the first has sent.\<close>

definition join :: "peer_env \<Rightarrow> session \<Rightarrow> session \<Rightarrow> bytes \<times> endpoint \<times> endpoint" where
  "join envL S L = (let (q, L') = deliver envL (concat (p_sent (se_peer S))) (Some [], L) in (q, (Some [], S), L'))"

lemma accepted_session_sent:
  assumes "has_torrent mi t" and "transferable mi content"
  shows "accepted_session env t url = \<lparr>se_torrent = t, se_peer = (accepted_peer (e_now env) url)
    \<lparr>p_sent := [handshake_bytes (replicate 8 0) (m_info_hash mi) (e_peer_id env),
        frame BITFIELD (m_bytes (m_client_pieces t))]\<rparr>\<rparr>"
proof -
  have "bf_indices (m_client_pieces t) \<noteq> {}"
    using assms pieces_nonempty by (auto simp: has_torrent_def bf_indices_def intro!: exI [of _ 0])
  moreover have "1 + bf_size_bytes (m_client_pieces t) < 2 ^ 32" and hash: "m_info_hash (meta t) = m_info_hash mi"
    using assms(1) by (simp_all add: has_torrent_def)
  moreover define s where "s = \<lparr>se_torrent = t, se_peer = (accepted_peer (e_now env) url)
      \<lparr>p_sent := [handshake_bytes (replicate 8 0) (m_info_hash mi) (e_peer_id env)]\<rparr>\<rparr>"
  ultimately have "report_bitfield s = (Inr (), s\<lparr>se_peer := (se_peer s)\<lparr>p_sent := p_sent (se_peer s) @
      [frame BITFIELD (m_bytes (m_client_pieces t))]\<rparr>\<rparr>)"
    using report_effect [of s "m_client_pieces t"] by (simp add: bitfield_message_def accepted_peer_def init_io_service_def new_peer_def)
  moreover have "handshake env \<lparr>se_torrent = t, se_peer = accepted_peer (e_now env) url\<rparr> = (Inr (), s)"
    using hash by (simp add: handshake_def io_simps send_msg_def s_def accepted_peer_def init_io_service_def new_peer_def)
  ultimately show ?thesis
    by (simp add: accepted_session_def bindIO_eq s_def)
qed

lemma connecting_session_sent:
  "connecting_session env t url = \<lparr>se_torrent = t, se_peer = (new_peer (e_now env) url)
    \<lparr>p_connection := True, p_sent := [handshake_bytes (replicate 8 0) (m_info_hash (meta t)) (e_peer_id env)]\<rparr>\<rparr>"
  by (simp add: connecting_session_def handshake_def io_simps send_msg_def init_io_service_def new_peer_def)

definition fresh_torrent :: "metainfo \<Rightarrow> torrent" where
  "fresh_torrent mi = register_torrent (new_torrent mi)"

lemma fresh_torrent_simps [simp]:
  "meta (fresh_torrent mi) = mi" "m_client_pieces (fresh_torrent mi) = bf_empty" "m_active_pieces (fresh_torrent mi) = []"
  by (simp_all add: fresh_torrent_def register_torrent_def add_piece_callback_def new_torrent_def)

lemma client_pieces_init:
  assumes "m_client_pieces t = bf_empty"
  shows "m_client_pieces (init_client_pieces n t) = bf_make n" "meta (init_client_pieces n t) = meta t"
    "m_active_pieces (init_client_pieces n t) = m_active_pieces t"
  using assms by (simp_all add: init_client_pieces_def bf_size_def bf_empty_def)

lemma bf_indices_make: "bf_indices (bf_make n) = {}"
  by (simp add: bf_indices_def)

lemma not_done_fresh: "m_pieces mi \<noteq> [] \<Longrightarrow> \<not> torrent_done (init_client_pieces n (fresh_torrent mi))"
  by (simp add: torrent_done_def Let_def client_pieces_init bf_count_card bf_indices_make)

text \<open>The handshake and the bitfield arrive: the second end is interested.\<close>

definition interested_session :: "peer_env \<Rightarrow> metainfo \<Rightarrow> bitfield \<Rightarrow> string \<Rightarrow> session" where
  "interested_session env mi bf url = \<lparr>se_torrent = init_client_pieces (bf_size bf) (fresh_torrent mi),
     se_peer = (new_peer (e_now env) url)\<lparr>p_connection := True, m_remote_pieces := bf, m_am_interested := True,
       p_sent := [handshake_bytes (replicate 8 0) (m_info_hash mi) (e_peer_id env), frame INTERESTED []]\<rparr>\<rparr>"

lemma handshake_received:
  assumes "m_pieces mi \<noteq> []" and "bf_size_bytes bf < 2 ^ 30" and "bf_size bf \<noteq> 0"
    and "length (m_info_hash mi) = 20" and "length peer_id = 20"
  shows "handle_response env Ok (handshake_bytes (replicate 8 0) (m_info_hash mi) peer_id @ frame BITFIELD (m_bytes bf))
      (connecting_session env (fresh_torrent mi) url) = (Inr (Some []), interested_session env mi bf url)"
proof -
  let ?msg = "handshake_bytes (replicate 8 0) (m_info_hash mi) peer_id @ frame BITFIELD (m_bytes bf)"
  have bytes: "length (m_bytes bf) < 2 ^ 30" "bf_size bf = length (m_bytes bf) * 8"
    using assms(2) by (simp_all add: bf_size_bytes_def bf_size_def)
  have len: "length ?msg = 73 + length (m_bytes bf)"
    using length_handshake_bytes [of "replicate 8 0" "m_info_hash mi" peer_id] assms(4,5) by (simp add: frame_def)
  have hs: "handshake_parse ?msg = Inr (Some \<lparr>hs_reserved = replicate 8 0, hs_info_hash = m_info_hash mi, hs_peer_id = peer_id,
      hs_bitfield = bf, hs_consumed = 73 + length (m_bytes bf)\<rparr>)"
    using handshake_with_bitfield [of "replicate 8 0" "m_info_hash mi" peer_id "m_bytes bf" "[]"] bytes(1) assms(4,5) by simp
  define s1 where "s1 = \<lparr>se_torrent = init_client_pieces (bf_size bf) (fresh_torrent mi),
     se_peer = (new_peer (e_now env) url)\<lparr>p_connection := True, m_remote_pieces := bf,
       p_sent := [handshake_bytes (replicate 8 0) (m_info_hash mi) (e_peer_id env)]\<rparr>\<rparr>"
  have client: "m_client_pieces (se_torrent s1) = bf_make (bf_size bf)"
    by (simp add: s1_def client_pieces_init)
  have "1 + bf_size_bytes (bf_make (bf_size bf)) < 2 ^ 32"
    using bytes by (simp add: bf_size_bytes_def bf_make_def)
  then have rep: "report_bitfield s1 = (Inr (), s1)"
    using report_effect [OF _ client] by (simp add: bitfield_message_def bf_indices_make s1_def)
  have intr: "set_am_interested True s1 = (Inr (), interested_session env mi bf url)"
    using not_done_fresh [OF assms(1)]
    by (simp add: set_am_interested_def io_simps send_msg_def s1_def interested_session_def new_peer_def)
  have "message_parse env ?msg (connecting_session env (fresh_torrent mi) url) =
      (Inr (73 + length (m_bytes bf)), interested_session env mi bf url)"
    using rep intr assms(3)
    by (simp add: message_parse_def hs io_simps parse_handshake_def connecting_session_sent verify_info_hash_def set_remote_pieces_def
        update_activity_def new_peer_def s1_def)
  then have "consume_loop env ?msg (connecting_session env (fresh_torrent mi) url) = (Inr [], interested_session env mi bf url)"
    using len by (subst consume_loop.simps) (auto simp: consume_loop.simps [of _ "[]"])
  then show ?thesis
    by (simp add: handle_response_def io_simps connecting_session_sent new_peer_def)
qed

text \<open>\<^verbatim>\<open>INTERESTED\<close> arrives: the first end unchokes, and answers requests from now on.\<close>

lemma one_message:
  assumes "is_message e" and "length (wire e) < 20" and "\<not> p_stopped (se_peer s)"
    and "receive env e s = (Inr (), s')"
  shows "handle_response env Ok (wire e) s = (Inr (Some []), s')"
proof -
  have "consume_loop env (concat (map wire [e]) @ []) s = bindIO (iterIO (receive env) [e]) (\<lambda>_. touch env []) s"
    using assms(1,2) by (intro consume_messages) (simp_all add: is_rest_def no_start_short)
  with assms(3,4) show ?thesis
    by (simp add: handle_response_def io_simps touch_def)
qed

lemma interest_received:
  assumes "has_torrent mi t" and "transferable mi content"
  shows "\<exists>S. handle_response env Ok (frame INTERESTED []) (accepted_session env' t url) = (Inr (Some []), S)
    \<and> seeding mi S \<and> p_sent (se_peer S) = p_sent (se_peer (accepted_session env' t url)) @ [frame UNCHOKE []]"
proof -
  define s where "s = accepted_session env' t url"
  define S where "S = s\<lparr>se_peer := (se_peer s)\<lparr>m_last_activity := e_now env, m_am_choking := False, m_interested := True,
      p_sent := p_sent (se_peer s) @ [frame UNCHOKE []]\<rparr>\<rparr>"
  note s' = accepted_session_sent [OF assms, of env' url, folded s_def]
  have "receive env (Interested True) s = (Inr (), S)"
    by (simp add: receive_def io_simps set_interested_def set_am_choking_def send_msg_def update_activity_def S_def s'
        accepted_peer_def init_io_service_def new_peer_def)
  moreover have "\<not> p_stopped (se_peer s)"
    by (simp add: s' accepted_peer_def init_io_service_def new_peer_def)
  ultimately have "handle_response env Ok (frame INTERESTED []) s = (Inr (Some []), S)"
    using one_message [of "Interested True" s env S] by (simp add: is_message_def wire_def frame_def)
  moreover have "seeding mi S"
    using assms(1) by (simp add: seeding_def S_def s' accepted_peer_def init_io_service_def new_peer_def has_torrent_def)
  ultimately show ?thesis
    by (auto simp: s_def [symmetric] S_def)
qed

text \<open>\<^verbatim>\<open>UNCHOKE\<close> arrives: the second end asks for blocks.\<close>

lemma unchoke_received:
  assumes "transferable mi content" and "\<forall>k. bf_test bf k \<longleftrightarrow> k < length (m_pieces mi)"
    and "pending_limit env 0 = Inr lim" and "0 < lim"
  shows "\<exists>out L. handle_response env Ok (frame UNCHOKE []) (interested_session env' mi bf url) = (Inr (Some []), L)
    \<and> fetching mi content lim L out \<and> sent_requests mi (interested_session env' mi bf url) L out"
proof -
  define s where "s = interested_session env' mi bf url"
  define s1 where "s1 = s\<lparr>se_peer := (se_peer s)\<lparr>m_last_activity := e_now env, m_choking := False\<rparr>\<rparr>"
  have t: "se_torrent s1 = init_client_pieces (bf_size bf) (fresh_torrent mi)"
    by (simp add: s1_def s_def interested_session_def)
  have "length (m_pieces mi) - 1 < bf_size bf"
  proof (rule ccontr)
    assume "\<not> length (m_pieces mi) - 1 < bf_size bf"
    then have "\<not> bf_test bf (length (m_pieces mi) - 1)"
      by (simp add: bf_test_outside)
    with assms(2) pieces_nonempty [OF assms(1)] show False
      by simp
  qed
  then have size: "length (m_pieces mi) \<le> bf_size (m_client_pieces (se_torrent s1))"
    using bf_size_make_ge [of "bf_size bf"] by (simp add: t client_pieces_init)
  have "ready mi content s1 []"
    using holding_new [of mi content "bf_size bf", folded fresh_torrent_def] assms(2) size
    by (simp add: ready_def t taken_def client_pieces_init)
      (simp add: s1_def s_def interested_session_def new_peer_def)
  from ask [OF this _ assms(1,3,4)] assms(4)
  obtain bl :: "(u32 \<times> nat) list" and L where L: "request_next_block env 0 s1 = (Inr (length bl), L)"
    "fetching mi content lim L bl" "p_sent (se_peer L) = p_sent (se_peer s1) @ request_log mi bl" "\<forall>ib \<in> set bl. valid_block mi ib"
    by auto
  have "\<not> m_choking (se_peer L)"
    using L(2) by (simp add: fetching_def ready_def)
  moreover have "m_choking (se_peer s)" "\<not> p_stopped (se_peer s)"
    by (simp_all add: s_def interested_session_def new_peer_def)
  ultimately have "receive env (Choking False) s = (Inr (), L)"
    using L(1) by (simp add: receive_def io_simps set_choking_def update_activity_def s1_def)
  then have "handle_response env Ok (frame UNCHOKE []) s = (Inr (Some []), L)"
    using one_message [of "Choking False" s env L] \<open>\<not> p_stopped (se_peer s)\<close> by (simp add: is_message_def wire_def frame_def)
  moreover have "sent_requests mi s L bl"
    using L(3,4) by (auto simp: sent_requests_def concat_request_log s1_def)
  ultimately show ?thesis
    using L(2) by (auto simp: s_def)
qed

text \<open>The pair of a client that has the torrent and one that begins to download it.\<close>

definition meeting :: "peer_env \<Rightarrow> peer_env \<Rightarrow> metainfo \<Rightarrow> torrent \<Rightarrow> string \<Rightarrow> string \<Rightarrow> bytes \<times> endpoint \<times> endpoint" where
  "meeting envS envL mi t urlS urlL =
     join envL (accepted_session envS t urlL) (connecting_session envL (fresh_torrent mi) urlS)"

lemma transfer_begins:
  assumes "has_torrent mi t" and "transferable mi content" and "length (m_info_hash mi) = 20" and "length (e_peer_id envS) = 20"
    and "pending_limit envL 0 = Inr lim" and "0 < lim"
  shows "\<exists>out. transferring mi content lim (exchange envS envL (meeting envS envL mi t urlS urlL)) out"
proof -
  define bf where "bf = m_client_pieces t"
  define A where "A = accepted_session envS t urlL"
  have bf: "\<forall>k. bf_test bf k \<longleftrightarrow> k < length (m_pieces mi)" "bf_size_bytes bf < 2 ^ 30"
    using assms(1) by (simp_all add: has_torrent_def bf_def)
  moreover have ne: "m_pieces mi \<noteq> []"
    using assms(2) by (rule pieces_nonempty)
  ultimately have "bf_size bf \<noteq> 0"
    using bf_test_outside [of bf 0] by auto
  note r1 = handshake_received [OF ne bf(2) this assms(3,4), of envL urlS]
  have sent: "concat (p_sent (se_peer A)) = handshake_bytes (replicate 8 0) (m_info_hash mi) (e_peer_id envS) @ frame BITFIELD (m_bytes bf)"
    by (simp add: A_def accepted_session_sent [OF assms(1,2)] bf_def)
  have "p_sent (se_peer (interested_session envL mi bf urlS)) =
      p_sent (se_peer (connecting_session envL (fresh_torrent mi) urlS)) @ [frame INTERESTED []]"
    by (simp add: interested_session_def connecting_session_sent)
  from deliver_step [OF r1 this]
  have meet: "meeting envS envL mi t urlS urlL = (frame INTERESTED [], (Some [], A), (Some [], interested_session envL mi bf urlS))"
    by (simp add: meeting_def join_def sent flip: A_def)
  obtain S where S: "handle_response envS Ok (frame INTERESTED []) A = (Inr (Some []), S)" "seeding mi S"
    "p_sent (se_peer S) = p_sent (se_peer A) @ [frame UNCHOKE []]"
    using interest_received [OF assms(1,2)] unfolding A_def by blast
  obtain out L msgs where L: "handle_response envL Ok (frame UNCHOKE []) (interested_session envL mi bf urlS) = (Inr (Some []), L)"
    "fetching mi content lim L out" "p_sent (se_peer L) = p_sent (se_peer (interested_session envL mi bf urlS)) @ msgs"
    "concat msgs = concat (map (block_request mi) out)"
    using unchoke_received [OF assms(2) bf(1) assms(5,6)] unfolding sent_requests_def by metis
  have "exchange envS envL (meeting envS envL mi t urlS urlL) = (concat (map (block_request mi) out), (Some [], S), (Some [], L))"
    using deliver_step [OF S(1,3)] deliver_step [OF L(1,3)] L(4) by (simp add: exchange_def meet)
  with S(2) L(2) show ?thesis
    by (auto simp: transferring_def)
qed

lemma pending_limit_range: "pending_limit env 0 = Inr lim \<Longrightarrow> lim < 2 ^ 16"
  using take_bit_int_less_exp [of 16] by (auto simp: pending_limit_def numeric_cast_def static_cast_def split: if_splits)

lemma transfer_ends:
  assumes "has_torrent mi t" and "transferable mi content" and "length (m_info_hash mi) = 20" and "length (e_peer_id envS) = 20"
    and "pending_limit envL 0 = Inr lim" and "0 < lim" and "reads content envS"
  shows "\<exists>k \<le> Suc (card {ib. valid_block mi ib}). \<exists>S L.
    (exchange envS envL ^^ k) (meeting envS envL mi t urlS urlL) = ([], (Some [], S), (Some [], L))
    \<and> holding mi content (se_torrent L) \<and> missing mi (se_torrent L) = {} \<and> m_pending_requests (se_peer L) = 0"
proof -
  define x where "x = exchange envS envL (meeting envS envL mi t urlS urlL)"
  obtain out where "transferring mi content lim x out"
    using transfer_begins [OF assms(1-6)] unfolding x_def by blast
  from transfer_rounds [OF this assms(2,7,5,6) pending_limit_range [OF assms(5)]]
  obtain k where k: "k \<le> card (missing mi (se_torrent (leecher x)))" "transferring mi content lim ((exchange envS envL ^^ k) x) []"
    "missing mi (se_torrent (leecher ((exchange envS envL ^^ k) x))) = {}"
    by blast
  have "card (missing mi (se_torrent (leecher x))) \<le> card {ib. valid_block mi ib}"
    by (intro card_mono [OF finite_valid_blocks]) (auto simp: missing_def)
  moreover have "(exchange envS envL ^^ Suc k) (meeting envS envL mi t urlS urlL) = (exchange envS envL ^^ k) x"
    by (simp only: funpow_Suc_right o_apply x_def)
  ultimately show ?thesis
    using k by (intro exI [of _ "Suc k"])
      (auto simp: transferring_def leecher_def fetching_def ready_def)
qed

section \<open>A download from one client to another\<close>

text \<open>
  C1.  A client that was started with a torrent on its disk, and one that begins to download it and
  connects to the first, come to an end: after at most one more round of reads than the torrent has
  blocks nothing is under way between them, every request is answered, and when the writer thread of
  the second has emptied its queue, the torrent is done and its files have the content of the first.
  A round delivers what the one has sent to the other, and the reaction back.  On the disk of the
  second there is nothing of the torrent yet and the writer can make the files (\<open>can_start\<close>), or
  they are there at their full size.  The torrent is \<open>transferable\<close>: a block below 4 GiB at most, and
  the start of a handshake does not occur in its content; info hash and peer id have 20 bytes.
\<close>

theorem download_completes:
  assumes "transferable mi (on_disk mi fsS)" and "length (m_info_hash mi) = 20"
    and "distinct order" and "unat ` set order = {..<length (m_pieces mi)}"
    and "resumed mi fsS" and "right_digests sha1 mi (on_disk mi fsS)"
    and "verify_existing_file sha1 order (new_torrent mi) fsS = Normal (Inr t)"
    and "e_read_block envS = disk_reader (scan_meta mi fsS) fsS" and "length (e_peer_id envS) = 20"
    and "pending_limit envL 0 = Inr lim" and "0 < lim"
    and "store_present mi fsL \<or> can_start mi fsL"
  shows "\<exists>k \<le> Suc (card {ib. valid_block mi ib}). \<exists>S L w.
    (exchange envS envL ^^ k) (meeting envS envL mi (register_torrent t) urlS urlL) = ([], (Some [], S), (Some [], L))
    \<and> m_pending_requests (se_peer L) = 0
    \<and> drain sha1 lpw \<lparr>w_torrent = se_torrent L, w_fs = fsL, w_completed = 0\<rparr> = w
    \<and> torrent_done (w_torrent w) \<and> store_stream mi (w_fs w) = on_disk mi fsS"
proof -
  have small: "small_torrent mi"
    using assms(1) by (simp add: transferable_def)
  then have "has_torrent mi (register_torrent t)"
    using started_has_torrent [OF small assms(3-6)] assms(7) by auto
  moreover have "reads (on_disk mi fsS) envS"
    using disk_reader_reads [OF assms(5) _ assms(8)] small by (simp add: small_torrent_def)
  ultimately obtain k S L where k: "k \<le> Suc (card {ib. valid_block mi ib})"
    "(exchange envS envL ^^ k) (meeting envS envL mi (register_torrent t) urlS urlL) = ([], (Some [], S), (Some [], L))"
    "holding mi (on_disk mi fsS) (se_torrent L)" "missing mi (se_torrent L) = {}" "m_pending_requests (se_peer L) = 0"
    using transfer_ends [OF _ assms(1,2,9,10,11)] by blast
  define w where "w = drain sha1 lpw \<lparr>w_torrent = se_torrent L, w_fs = fsL, w_completed = 0\<rparr>"
  have "draining mi (on_disk mi fsS) w \<and> writer_queue (w_torrent w) = []"
    unfolding w_def by (rule drain_draining [OF received_draining [OF k(3,4) assms(1,12)] assms(1,6)])
  then have "torrent_done (w_torrent w)" "store_stream mi (w_fs w) = on_disk mi fsS"
    using drained [OF _ _ assms(1)] by blast+
  then show ?thesis
    using k unfolding w_def by blast
qed

definition pair_meta :: metainfo where
  "pair_meta = tiny_meta\<lparr>m_info_hash := replicate 20 (CHR ''h''), m_name := ''f'', m_tmpfile := ''f.zit_downloading''\<rparr>"

definition seeder_fs :: filesystem where
  "seeder_fs = \<lparr>fs_files = [''f'' \<mapsto> [1, 2, 3, 4, 5, 6, 7, 8]], fs_dirs = {}\<rparr>"

definition leecher_fs :: filesystem where
  "leecher_fs = \<lparr>fs_files = Map.empty, fs_dirs = {}\<rparr>"

definition seeder_env :: peer_env where
  "seeder_env = Peer.sample_env\<lparr>e_read_block := disk_reader (scan_meta pair_meta seeder_fs) seeder_fs\<rparr>"

lemma pair_scan: "scan_meta pair_meta seeder_fs = pair_meta\<lparr>m_tmpfile := ''f''\<rparr>" "path_exists seeder_fs ''f''"
    "\<not> path_exists seeder_fs ''f.zit_downloading''"
  by (simp_all add: scan_meta_def path_exists_def pair_meta_def seeder_fs_def tiny_meta_def sample_meta_def)

lemma pair_single: "is_single_file pair_meta" "torrent_length pair_meta = 8" "length (m_pieces pair_meta) = 2"
  by (simp_all add: pair_meta_def tiny_meta_def sample_meta_def is_single_file_def torrent_length_def)

lemma pair_fields: "m_piece_length pair_meta = 4" "m_pieces pair_meta = replicate 2 (replicate 20 (CHR ''x''))"
  by (simp_all add: pair_meta_def tiny_meta_def sample_meta_def numeral_2_eq_2)

lemma pair_disk: "on_disk pair_meta seeder_fs = [1, 2, 3, 4, 5, 6, 7, 8]" "resumed pair_meta seeder_fs"
proof -
  show "on_disk pair_meta seeder_fs = [1, 2, 3, 4, 5, 6, 7, 8]"
    using pair_single(1) by (simp add: on_disk_def pair_scan store_stream_def single_stream_def) (simp add: seeder_fs_def)
  have "store_present (pair_meta\<lparr>m_tmpfile := ''f''\<rparr>) seeder_fs"
    using pair_single by (simp add: store_present_def single_present_def) (simp add: seeder_fs_def)
  moreover have "path_append (parent_path ''f'') ''f'' = ''f''"
    by (simp add: path_append_def parent_path_def)
  moreover have "m_tmpfile pair_meta = ''f.zit_downloading''"
    by (simp add: pair_meta_def)
  ultimately show "resumed pair_meta seeder_fs"
    using pair_single(1) pair_scan by (simp add: resumed_def Let_def)
qed

lemma pair_piece_length: "unat i < 2 \<Longrightarrow> piece_length_at pair_meta i = Inr 4"
  using pair_single
  by (simp add: piece_length_at_def pair_meta_def tiny_meta_def sample_meta_def c_rem_def numeric_cast_def make_unsigned_def
      static_cast_def ity_max_def)

lemma pair_digests: "right_digests tiny_sha1 pair_meta (on_disk pair_meta seeder_fs)"
  unfolding right_digests_def pair_single(3)
proof (intro allI impI)
  fix i :: u32
  assume i: "unat i < 2"
  then have "unat i = 0 \<or> unat i = 1"
    by linarith
  then have "length (slice pair_meta (on_disk pair_meta seeder_fs) i) = 4" "m_pieces pair_meta ! unat i = replicate 20 (CHR ''x'')"
    using pair_piece_length [OF i] i by (auto simp: slice_def pair_disk(1) pair_fields)
  then show "tiny_sha1 (slice pair_meta (on_disk pair_meta seeder_fs) i) = m_pieces pair_meta ! unat i"
    by (simp add: tiny_sha1_def)
qed

lemma pair_transferable: "transferable pair_meta (on_disk pair_meta seeder_fs)"
  using pair_single by (simp add: transferable_def small_torrent_def pieces_fit_def pair_disk(1) no_start_short)
    (simp add: pair_meta_def tiny_meta_def sample_meta_def)

theorem download_completes_witness:
  "\<exists>t k S L w. (exchange seeder_env Peer.sample_env ^^ k) (meeting seeder_env Peer.sample_env pair_meta (register_torrent t) ''s'' ''l'')
      = ([], (Some [], S), (Some [], L))
    \<and> drain tiny_sha1 (\<lambda>_. Inr ()) \<lparr>w_torrent = se_torrent L, w_fs = leecher_fs, w_completed = 0\<rparr> = w
    \<and> torrent_done (w_torrent w) \<and> store_stream pair_meta (w_fs w) = [1, 2, 3, 4, 5, 6, 7, 8]"
proof -
  have ids: "distinct [0 :: u32, 1]" "unat ` set [0 :: u32, 1] = {..<length (m_pieces pair_meta)}"
    by (auto simp: pair_single(3))
  obtain t where t: "verify_existing_file tiny_sha1 [0, 1] (new_torrent pair_meta) seeder_fs = Normal (Inr t)"
    using started_has_torrent [OF _ ids pair_disk(2) pair_digests] pair_transferable by (auto simp: transferable_def)
  have "length (m_info_hash pair_meta) = 20" "length (e_peer_id seeder_env) = 20"
    "e_read_block seeder_env = disk_reader (scan_meta pair_meta seeder_fs) seeder_fs"
    by (simp_all add: pair_meta_def seeder_env_def Peer.sample_env_def)
  moreover have "pending_limit Peer.sample_env 0 = Inr 1"
    by (simp add: pending_limit_def Peer.sample_env_def numeric_cast_def make_unsigned_def static_cast_def ity_max_def)
  moreover have "can_start pair_meta leecher_fs"
    using pair_single by (intro can_start_single)
      (simp_all add: files_ok_def store_started_def leecher_fs_def parent_exists_def parent_path_def pair_meta_def
        tiny_meta_def sample_meta_def)
  ultimately show ?thesis
    using download_completes [OF pair_transferable _ ids pair_disk(2) pair_digests t] pair_disk(1)
    by (metis (no_types, lifting) zero_less_one)
qed

end
