(* ===== verification/Digest.thy ===== *)
theory Digest
  imports FileWriter
begin

text \<open>
  The digests of \<^verbatim>\<open>src/sha1.cpp\<close>: of data in memory, and of a file that is read in parts of
  1024 bytes.  OpenSSL is a parameter: its \<^verbatim>\<open>SHA1\<close>, and the record \<open>evp\<close> of the functions
  for a digest that is computed in parts.
\<close>

section \<open>Values\<close>

definition sha1_zero :: string where
  "sha1_zero = replicate SHA_LENGTH (char_of (0 :: nat))"

definition sha1_str :: "string \<Rightarrow> string" where
  "sha1_str this = this"

definition sha1_bytes :: "string \<Rightarrow> bytes" where
  "sha1_bytes this = map byte_of_char this"

definition sha1_print :: "string \<Rightarrow> string \<Rightarrow> string" where
  "sha1_print os this = os @ sha1_hex (sha1_str this)"

definition sha1_format_as :: "string \<Rightarrow> string" where
  "sha1_format_as this = sha1_print [] this"

section \<open>Data in memory\<close>

definition calculate :: "(bytes \<Rightarrow> bytes option) \<Rightarrow> bytes \<Rightarrow> string result" where
  "calculate openssl_sha1 src =
     (case openssl_sha1 src of
        None \<Rightarrow> Inl (Runtime_error ''SHA1 calculation failed'')
      | Some d \<Rightarrow> Inr (string_of_bytes d))"

definition calculateData :: "(bytes \<Rightarrow> bytes option) \<Rightarrow> string \<Rightarrow> string result" where
  "calculateData openssl_sha1 data = calculate openssl_sha1 (bytes_of_string data)"

definition calculateDataBytes :: "(bytes \<Rightarrow> bytes option) \<Rightarrow> bytes \<Rightarrow> string result" where
  "calculateDataBytes openssl_sha1 data = calculate openssl_sha1 data"

section \<open>Files\<close>

record 'c evp =
  EVP_get_digestbyname :: "string \<Rightarrow> bool"
  EVP_DigestInit :: "'c option"
  EVP_DigestUpdate :: "'c \<Rightarrow> bytes \<Rightarrow> 'c option"
  EVP_DigestFinal :: "'c \<Rightarrow> bytes option"

definition BUFFER_SIZE :: nat where "BUFFER_SIZE = 1024"

text \<open>
  The loop over the file.  \<open>read\<close> puts the next bytes at the start of the buffer, which keeps what
  it had behind them, and succeeds if it could fill it; the rest is added behind the loop.
\<close>

function file_loop :: "'c evp \<Rightarrow> bytes \<Rightarrow> 'c \<Rightarrow> bytes \<Rightarrow> 'c result" where
  "file_loop evp buffer ctxt rest =
     (let gcount = min BUFFER_SIZE (length rest); buffer' = take gcount rest @ drop gcount buffer in
      if gcount = BUFFER_SIZE then
        (case EVP_DigestUpdate evp ctxt (take BUFFER_SIZE buffer') of
           None \<Rightarrow> Inl (Runtime_error ''EVP_DigestUpdate failed (1)'')
         | Some ctxt' \<Rightarrow> file_loop evp buffer' ctxt' (drop gcount rest))
      else
        (case EVP_DigestUpdate evp ctxt (take gcount buffer') of
           None \<Rightarrow> Inl (Runtime_error ''EVP_DigestUpdate failed (2)'')
         | Some ctxt' \<Rightarrow> Inr ctxt'))"
  by pat_completeness auto
termination
  by (relation "measure (\<lambda>(evp, buffer, ctxt, rest). length rest)") (auto simp: BUFFER_SIZE_def)

declare file_loop.simps [simp del]

text \<open>A directory can be opened, but reading it sets \<^verbatim>\<open>badbit\<close>, which throws.\<close>

definition calculateFile :: "'c evp \<Rightarrow> string \<Rightarrow> filesystem \<Rightarrow> string result" where
  "calculateFile evp file s =
     (if fs_files s file = None \<and> file \<notin> fs_dirs s then Inl (Invalid_argument ''No such file'')
      else if \<not> EVP_get_digestbyname evp ''SHA1'' then Inl (Runtime_error ''No such digest: SHA1'')
      else case EVP_DigestInit evp of
          None \<Rightarrow> Inl (Runtime_error ''EVP_DigestInit failed'')
        | Some ctxt \<Rightarrow>
            (case fs_files s file of
               None \<Rightarrow> Inl (System_error ''read'')
             | Some content \<Rightarrow>
                 bindE (file_loop evp (replicate BUFFER_SIZE 0) ctxt content) (\<lambda>ctxt.
                 case EVP_DigestFinal evp ctxt of
                   None \<Rightarrow> Inl (Runtime_error ''EVP_DigestFinal failed'')
                 | Some d \<Rightarrow> Inr (string_of_bytes d))))"

section \<open>Both ways agree\<close>

text \<open>
  What OpenSSL documents: a context stands for the bytes given to it so far, and finishing it gives
  their digest.  \<open>holds\<close> relates a context to these bytes.
\<close>

definition digest_in_parts :: "('c \<Rightarrow> bytes \<Rightarrow> bool) \<Rightarrow> 'c evp \<Rightarrow> (bytes \<Rightarrow> bytes option) \<Rightarrow> bool" where
  "digest_in_parts holds evp openssl_sha1 \<longleftrightarrow>
     EVP_get_digestbyname evp ''SHA1''
     \<and> (\<exists>c. EVP_DigestInit evp = Some c \<and> holds c [])
     \<and> (\<forall>c d part. holds c d \<longrightarrow> (\<exists>c'. EVP_DigestUpdate evp c part = Some c' \<and> holds c' (d @ part)))
     \<and> (\<forall>c d. holds c d \<longrightarrow> EVP_DigestFinal evp c = openssl_sha1 d)"

lemma file_loop_digests:
  assumes "\<forall>c d part. holds c d \<longrightarrow> (\<exists>c'. EVP_DigestUpdate evp c part = Some c' \<and> holds c' (d @ part))"
    and "holds ctxt d" and "length buffer = BUFFER_SIZE"
  shows "\<exists>c. file_loop evp buffer ctxt rest = Inr c \<and> holds c (d @ rest)"
  using assms
proof (induction evp buffer ctxt rest arbitrary: d rule: file_loop.induct)
  case (1 evp buffer ctxt rest)
  define n where "n = min BUFFER_SIZE (length rest)"
  define b where "b = take n rest @ drop n buffer"
  have len: "length b = BUFFER_SIZE" and part: "take n b = take n rest"
    using "1.prems"(3) by (simp_all add: b_def n_def)
  obtain c where c: "EVP_DigestUpdate evp ctxt (take n rest) = Some c" "holds c (d @ take n rest)"
    using "1.prems"(1,2) by blast
  have step: "file_loop evp buffer ctxt rest =
     (if n = BUFFER_SIZE then
        (case EVP_DigestUpdate evp ctxt (take BUFFER_SIZE b) of
           None \<Rightarrow> Inl (Runtime_error ''EVP_DigestUpdate failed (1)'')
         | Some ctxt' \<Rightarrow> file_loop evp b ctxt' (drop n rest))
      else
        (case EVP_DigestUpdate evp ctxt (take n b) of
           None \<Rightarrow> Inl (Runtime_error ''EVP_DigestUpdate failed (2)'')
         | Some ctxt' \<Rightarrow> Inr ctxt'))"
    by (subst file_loop.simps) (simp only: Let_def n_def b_def)
  show ?case
  proof (cases "n = BUFFER_SIZE")
    case True
    have "EVP_DigestUpdate evp ctxt (take BUFFER_SIZE b) = Some c"
      using c(1) part True by simp
    moreover from this have "\<exists>c'. file_loop evp b c (drop n rest) = Inr c' \<and> holds c' (d @ rest)"
      using "1.IH" [OF n_def b_def True _ "1.prems"(1) c(2) len] by simp
    ultimately show ?thesis
      using True by (simp add: step)
  next
    case False
    then have "take n rest = rest"
      by (simp add: n_def min_def split: if_splits)
    with c part False show ?thesis
      by (simp add: step)
  qed
qed

text \<open>
  The digest of a file that is read in parts of 1024 bytes is the one of its content in memory,
  for files of every length, the empty one and multiples of the buffer included; it is 20 bytes
  long.  A file that does not exist is refused, and a directory makes the read throw.
\<close>

theorem calculateFile_digests:
  assumes "digest_in_parts holds evp openssl_sha1"
    and "\<And>d. \<exists>v. openssl_sha1 d = Some v \<and> length v = SHA_LENGTH"
  shows "case fs_files s path of
      Some content \<Rightarrow> (\<exists>v. calculateFile evp path s = Inr v \<and> calculateDataBytes openssl_sha1 content = Inr v
        \<and> length v = SHA_LENGTH \<and> sha1_of_string (sha1_str v) = Inr v \<and> sha1_from_buffer (sha1_bytes v) 0 = Inr v)
    | None \<Rightarrow> calculateFile evp path s = Inl (if path \<in> fs_dirs s then System_error ''read'' else Invalid_argument ''No such file'')"
proof -
  obtain c where c: "EVP_get_digestbyname evp ''SHA1''" "EVP_DigestInit evp = Some c" "holds c []"
    using assms(1) by (auto simp: digest_in_parts_def)
  show ?thesis
  proof (cases "fs_files s path")
    case None
    with c show ?thesis
      by (simp add: calculateFile_def)
  next
    case (Some content)
    obtain c' where c': "file_loop evp (replicate BUFFER_SIZE 0) c content = Inr c'" "holds c' content"
      using file_loop_digests [of holds evp c "[]" "replicate BUFFER_SIZE 0" content] assms(1) c(3)
      by (auto simp: digest_in_parts_def)
    obtain v where v: "openssl_sha1 content = Some v" "length v = SHA_LENGTH"
      using assms(2) by blast
    have "EVP_DigestFinal evp c' = Some v"
      using assms(1) c'(2) v(1) by (simp add: digest_in_parts_def)
    with Some c c' v show ?thesis
      by (simp add: calculateFile_def calculateDataBytes_def calculate_def sha1_of_string_def sha1_str_def
          sha1_from_buffer_def sha1_bytes_def flip: bytes_of_string_def)
  qed
qed

text \<open>A digest for a test: the length, in a context that holds all bytes.\<close>

definition length_digest :: "bytes \<Rightarrow> bytes option" where
  "length_digest d = Some (replicate (SHA_LENGTH - 1) 0 @ [of_nat (length d)])"

definition length_evp :: "bytes evp" where
  "length_evp = \<lparr>EVP_get_digestbyname = (\<lambda>n. n = ''SHA1''), EVP_DigestInit = Some [],
     EVP_DigestUpdate = (\<lambda>c part. Some (c @ part)), EVP_DigestFinal = length_digest\<rparr>"

theorem calculateFile_digests_witness:
  "calculateFile length_evp ''f'' \<lparr>fs_files = [''f'' \<mapsto> replicate 1025 7], fs_dirs = {}\<rparr>
    = Inr (string_of_bytes (replicate 19 0 @ [1]))"
proof -
  have parts: "digest_in_parts (=) length_evp length_digest"
    by (simp add: digest_in_parts_def length_evp_def)
  have long: "\<exists>v. length_digest d = Some v \<and> length v = SHA_LENGTH" for d
    by (simp add: length_digest_def SHA_LENGTH_def)
  have wrap: "(1025 :: byte) = 1"
    by (simp add: word_eq_iff_unsigned)
  show ?thesis
    using calculateFile_digests [OF parts long, where path = "''f''" and s = "\<lparr>fs_files = [''f'' \<mapsto> replicate 1025 7], fs_dirs = {}\<rparr>"]
    by (simp add: calculateDataBytes_def calculate_def length_digest_def SHA_LENGTH_def wrap)
qed

end
