(* ===== verification/Sockets.thy ===== *)
theory Sockets
  imports Http
begin

text \<open>
  Where \<^verbatim>\<open>src/net.cpp\<close> meets the network: addresses of hosts, the connections behind an
  HTTP or HTTPS request, and the datagram behind a UDP request.  The resolver, the sockets and TLS
  are asio's: the record \<open>network\<close> has one entry per call the code makes of them.  The definitions
  here are what \<open>httpGet\<close>, \<open>udpRequest\<close> and \<open>tracker_env\<close> take as parameters.
\<close>

text \<open>
  What becomes of the one asynchronous receive before the time is over: the handler is not called,
  it is called with an error, or with the size of the datagram that waits and the datagram.
\<close>

datatype receive_event = No_event | Receive_failed string | Received bytes

record 'c network =
  nw_host_name :: "string result"
  nw_resolve :: "string \<Rightarrow> string \<Rightarrow> string list result"
  nw_open_bind :: "string \<Rightarrow> unit result"
  nw_connect :: "string option \<Rightarrow> string list \<Rightarrow> 'c result"
  nw_set_sni :: "'c \<Rightarrow> string \<Rightarrow> bool \<times> 'c"
  nw_handshake :: "'c \<Rightarrow> (bool \<Rightarrow> bool) \<Rightarrow> 'c result"
  nw_rfc2818 :: "string \<Rightarrow> bool \<Rightarrow> bool"
  nw_exchange :: "'c \<Rightarrow> string \<Rightarrow> http_io result"
  nw_resolve_udp :: "string \<Rightarrow> string \<Rightarrow> string list result"
  nw_send_to :: "string \<Rightarrow> bytes \<Rightarrow> unit result"
  nw_receive :: "string \<Rightarrow> bytes \<Rightarrow> receive_event result"

section \<open>Addresses of hosts\<close>

text \<open>A failure is logged, and gives no address; \<^verbatim>\<open>host_name\<close> may throw.\<close>

definition get_host_ip_addresses :: "'c network \<Rightarrow> string \<Rightarrow> string list" where
  "get_host_ip_addresses nw hostname =
     (case nw_resolve nw hostname [] of Inl e \<Rightarrow> [] | Inr ip_addresses \<Rightarrow> ip_addresses)"

definition get_own_ip_addresses :: "'c network \<Rightarrow> string list result" where
  "get_own_ip_addresses nw = bindE (nw_host_name nw) (\<lambda>h. Inr (get_host_ip_addresses nw h))"

section \<open>HTTP and HTTPS\<close>

text \<open>Whether the certificate was verified before is logged, and passed on.\<close>

definition verify_callback :: "'c network \<Rightarrow> url \<Rightarrow> bool \<Rightarrow> bool" where
  "verify_callback nw u preverified = nw_rfc2818 nw (u_host u) preverified"

text \<open>The name for SNI may fail to be set, which is logged only.\<close>

definition https_server :: "'c network \<Rightarrow> url \<Rightarrow> string \<Rightarrow> http_io result" where
  "https_server nw u text =
     bindE (nw_resolve nw (u_host u) (url_service u)) (\<lambda>endpoints.
     bindE (nw_connect nw None endpoints) (\<lambda>sock.
     bindE (nw_handshake nw (snd (nw_set_sni nw sock (u_host u))) (verify_callback nw u)) (\<lambda>sock.
     nw_exchange nw sock text)))"

definition http_server :: "'c network \<Rightarrow> string \<Rightarrow> url \<Rightarrow> string \<Rightarrow> http_io result" where
  "http_server nw bind_address u text =
     bindE (nw_resolve nw (u_host u) (url_service u)) (\<lambda>endpoints.
     bindE (if bind_address = [] then Inr None
            else case nw_open_bind nw bind_address of
                Inl e \<Rightarrow> Inl (Runtime_error ''Could not bind to address'')
              | Inr _ \<Rightarrow> Inr (Some bind_address)) (\<lambda>local.
     bindE (nw_connect nw local endpoints) (\<lambda>socket.
     nw_exchange nw socket text)))"

definition server_of :: "'c network \<Rightarrow> string \<Rightarrow> url \<Rightarrow> string \<Rightarrow> http_io result" where
  "server_of nw bind_address u text =
     (if is_tls u then https_server nw u text else http_server nw bind_address u text)"

text \<open>
  asio documents that \<open>connect\<close> with a list of endpoints closes the socket before each attempt, and
  that a handshake with \<open>verify_peer\<close> fails when the callback refuses the certificate.
\<close>

definition connect_closes :: "'c network \<Rightarrow> bool" where
  "connect_closes nw \<longleftrightarrow> (\<forall>local endpoints. nw_connect nw local endpoints = nw_connect nw None endpoints)"

definition handshake_verifies :: "'c network \<Rightarrow> bool" where
  "handshake_verifies nw \<longleftrightarrow>
     (\<forall>sock callback. (\<exists>sock'. nw_handshake nw sock callback = Inr sock') \<longrightarrow> (\<exists>preverified. callback preverified))"

lemma https_certificate:
  assumes "handshake_verifies nw" and "is_tls u" and "server_of nw b u text = Inr io"
  shows "\<exists>preverified. nw_rfc2818 nw (u_host u) preverified"
proof -
  obtain sock sock' where "nw_handshake nw sock (verify_callback nw u) = Inr sock'"
    using assms(2,3) by (auto simp: server_of_def https_server_def result_simps)
  with assms(1) have "\<exists>preverified. verify_callback nw u preverified"
    unfolding handshake_verifies_def by blast
  then show ?thesis
    by (simp add: verify_callback_def)
qed

text \<open>
  An address to bind to that can be bound makes no difference: the socket is closed again before it
  connects.  One that cannot be bound is an error.
\<close>

lemma bind_address_lost:
  assumes "connect_closes nw"
  shows "server_of nw b u text =
    (if \<not> is_tls u \<and> b \<noteq> [] \<and> (\<exists>e. nw_open_bind nw b = Inl e)
     then bindE (nw_resolve nw (u_host u) (url_service u)) (\<lambda>_. Inl (Runtime_error ''Could not bind to address''))
     else server_of nw [] u text)"
proof (cases "nw_open_bind nw b")
  case (Inr r)
  have "nw_connect nw (Some b) = nw_connect nw None"
    using assms by (auto simp: connect_closes_def)
  with Inr show ?thesis
    by (simp add: server_of_def http_server_def)
qed (simp add: server_of_def http_server_def)

section \<open>UDP\<close>

text \<open>
  Only a datagram gives an answer; the time running out, and errors of the receive, give the empty
  one.  What is thrown while the handler fetches the datagram comes after our own was sent; the first
  component says whether it was.  \<open>Net::udpRequest\<close> in full is \<open>udpRequest\<close> of \<open>Http\<close> over this exchange.
\<close>

definition udp_round :: "'c network \<Rightarrow> url \<Rightarrow> bytes \<Rightarrow> bool \<times> bytes result" where
  "udp_round nw u data =
     (case nw_resolve_udp nw (u_host u) (url_service u) of
        Inl e \<Rightarrow> (False, Inl e)
      | Inr [] \<Rightarrow> (False, Inl (Undefined_behaviour ''begin of an empty range''))
      | Inr (receiver_endpoint # _) \<Rightarrow>
          (case nw_send_to nw receiver_endpoint data of
             Inl e \<Rightarrow> (False, Inl e)
           | Inr _ \<Rightarrow> (True, bindE (nw_receive nw receiver_endpoint data) (\<lambda>event.
               Inr (case event of Received reply \<Rightarrow> reply | _ \<Rightarrow> [])))))"

end
