(* ===== verification/Random_Numbers.thy ===== *)
theory Random_Numbers
  imports Print Wire Url
begin

text \<open>
  \<^verbatim>\<open>src/random.hpp\<close>.  The engine and the distributions are the standard library's: what a
  distribution yields at its \<open>k\<close>-th call is a parameter.
\<close>

definition random_value :: "('a :: linorder \<Rightarrow> 'a \<Rightarrow> 'a) \<Rightarrow> 'a \<Rightarrow> 'a \<Rightarrow> 'a result" where
  "random_value distribution lo hi =
     (if hi \<le> lo then Inl (Out_of_range ''max <= min'') else Inr (distribution lo hi))"

definition random_chars :: string where
  "random_chars = ''0123456789'' @ ''ABCDEFGHIJKLMNOPQRSTUVWXYZ'' @ ''abcdefghijklmnopqrstuvwxyz''"

text \<open>\<open>generate_n\<close> with the bound-checked \<open>at\<close>.\<close>

fun random_from :: "(nat \<Rightarrow> nat) \<Rightarrow> nat \<Rightarrow> nat \<Rightarrow> string result" where
  "random_from dist k 0 = Inr []"
| "random_from dist k (Suc n) =
     (if dist k < length random_chars
      then bindE (random_from dist (Suc k) n) (\<lambda>cs. Inr (random_chars ! dist k # cs))
      else Inl (Out_of_range ''basic_string::at''))"

definition random_string :: "(nat \<Rightarrow> nat) \<Rightarrow> nat \<Rightarrow> string result" where
  "random_string dist len = random_from dist 0 len"

lemma random_from_ok:
  assumes "\<And>k. dist k \<le> length random_chars - 1"
  shows "\<exists>r. random_from dist k n = Inr r \<and> length r = n \<and> set r \<subseteq> set random_chars"
proof (induction n arbitrary: k)
  case (Suc n)
  have "dist k < length random_chars"
    using assms [of k] by (simp add: random_chars_def)
  moreover obtain r where "random_from dist (Suc k) n = Inr r \<and> length r = n \<and> set r \<subseteq> set random_chars"
    using Suc by blast
  ultimately show ?case
    by simp
qed simp

lemma random_chars_unreserved: "c \<in> set random_chars \<Longrightarrow> unreserved c"
proof -
  have "list_all unreserved random_chars"
    by code_simp
  then show "c \<in> set random_chars \<Longrightarrow> unreserved c"
    by (simp add: list_all_iff)
qed

lemma urlEncode_unreserved: "\<forall>c \<in> set s. unreserved c \<Longrightarrow> urlEncode s = s"
  by (induction s) (simp_all add: urlEncode_def)

text \<open>
  Whatever is drawn, the peer id made of twelve random characters has the 20 bytes that the
  handshake and the announcement have room for, so that a handshake is 68 bytes long, and none of
  its characters would be encoded in a URL: putting it there as it is, as the announcement does, is
  right.
\<close>

theorem peer_id_fits:
  assumes "\<And>k. dist k \<le> length random_chars - 1" and "length reserved = 8" and "length info_hash = 20"
  shows "\<exists>r. random_string dist 12 = Inr r \<and> length (make_peer_id r) = 20
    \<and> urlEncode (make_peer_id r) = make_peer_id r
    \<and> length (handshake_bytes reserved info_hash (make_peer_id r)) = 68"
proof -
  obtain r where r: "random_string dist 12 = Inr r" "length r = 12" "set r \<subseteq> set random_chars"
    using random_from_ok [where dist = dist, OF assms(1)] unfolding random_string_def by blast
  have "\<forall>c \<in> set (make_peer_id r). unreserved c"
  proof -
    have "list_all unreserved ''-ZI0006-''"
      by code_simp
    then have "\<forall>c \<in> set ''-ZI0006-''. unreserved c"
      by (simp only: list_all_iff)
    with r(3) random_chars_unreserved show ?thesis
      unfolding make_peer_id_def set_append by blast
  qed
  with r assms(2,3) show ?thesis
    by (simp add: urlEncode_unreserved) (simp add: make_peer_id_def handshake_bytes_def BT_START_def)
qed

theorem peer_id_fits_witness:
  "\<exists>r. random_string (\<lambda>k. 5 * k mod 62) 12 = Inr r \<and> urlEncode (make_peer_id r) = make_peer_id r
    \<and> length (handshake_bytes (replicate 8 0) (replicate 20 CHR ''h'') (make_peer_id r)) = 68"
proof -
  have "5 * k mod 62 \<le> length random_chars - 1" for k :: nat
    using mod_less_divisor [of 62 "5 * k"] by (simp add: random_chars_def)
  then show ?thesis
    using peer_id_fits [of "\<lambda>k. 5 * k mod 62" "replicate 8 0" "replicate 20 CHR ''h''"] by auto
qed

end
