(* ===== verification/Fuzz.thy ===== *)
theory Fuzz
  imports Bencode Http
begin

text \<open>
  \<^verbatim>\<open>src/main_afl.cpp\<close>, the program that feeds the decoder with lines of arbitrary text to
  find inputs that crash it, and why there are none: what the decoder throws is always the exception
  that the program catches.
\<close>

section \<open>What the decoder throws\<close>

definition refused :: "'a result \<Rightarrow> bool" where
  "refused r \<longleftrightarrow> (\<forall>e. r = Inl e \<longrightarrow> (\<exists>m. e = Invalid_argument m))"

lemma refused_simps [simp]:
  "refused (Inr a)" "refused (Inl (Invalid_argument m))" "refused throw_invalid_string"
  by (simp_all add: refused_def throw_invalid_string_def)

lemma refused_bindE: "refused m \<Longrightarrow> (\<And>a. m = Inr a \<Longrightarrow> refused (f a)) \<Longrightarrow> refused (bindE m f)"
  by (cases m) (simp_all add: refused_def)

lemma decodeInt_refused: "refused (decodeInt iss)"
  by (simp add: decodeInt_def Let_def split: prod.split)

lemma decodeString_refused: "refused (decodeString iss)"
  by (simp add: decodeString_def Let_def split: prod.split)

lemma decode_refused:
  "refused (decode_internal iss d)" "refused (decode_items iss d v)" "refused (decode_entries iss d m)"
proof (induction iss d and iss d v and iss d m rule: decode_internal_decode_items_decode_entries.induct)
  case (1 iss d)
  obtain c iss1 where pk: "is_peek iss = (c, iss1)"
    by fastforce
  obtain c1 iss2 where pk1: "is_peek (is_ignore iss1) = (c1, iss2)"
    by fastforce
  note IH = "1.IH" [OF _ refl pk [symmetric] refl]
  show ?case
    unfolding decode_internal.simps [of iss d] Let_def pk prod.case pk1
    using IH pk1 by (auto intro!: refused_bindE decodeInt_refused decodeString_refused)
next
  case (2 iss d v)
  show ?case
    unfolding decode_items.simps [of iss d v]
    using 2 by (auto simp: Let_def intro!: refused_bindE split: prod.split)
next
  case (3 iss d m)
  show ?case
    unfolding decode_entries.simps [of iss d m]
    using 3 by (auto simp: Let_def intro!: refused_bindE decodeString_refused split: prod.split)
qed

lemma be_decode_refused: "refused (be_decode s)"
  unfolding be_decode_def by (intro refused_bindE decode_refused) simp

section \<open>The program\<close>

text \<open>The loop over the lines of the standard input; every \<^verbatim>\<open>std::exception\<close> is caught.\<close>

function afl_loop :: "istream \<Rightarrow> unit result" where
  "afl_loop cin =
     (case is_getline cin of (line, cin') \<Rightarrow>
        if is_fail cin' then Inr ()
        else case be_decode line of
            Inl (Undefined_behaviour m) \<Rightarrow> Inl (Undefined_behaviour m)
          | _ \<Rightarrow> afl_loop cin')"
  by pat_completeness auto
termination
  by (relation "measure (length \<circ> is_rest)") (auto dest: is_getline_shorter [OF sym])

declare afl_loop.simps [simp del]

definition afl_main :: "string list \<Rightarrow> string \<Rightarrow> int result" where
  "afl_main argv stdin =
     (if length argv > 1 then Inr 1 else bindE (afl_loop (istringstream stdin)) (\<lambda>_. Inr 0))"

lemma afl_loop_ends: "afl_loop cin = Inr ()"
proof (induction cin rule: afl_loop.induct)
  case (1 cin)
  obtain line cin' where l: "is_getline cin = (line, cin')"
    by fastforce
  have "refused (be_decode line)"
    by (rule be_decode_refused)
  then show ?case
    using "1.IH" [of line cin'] l
    by (subst afl_loop.simps) (auto simp: refused_def split: sum.splits)
qed

text \<open>
  C40.  No input crashes the decoder: every text is decoded to a value, or refused with the one
  exception that the decoder documents; and the program that looks for such inputs goes through its
  whole input and ends with success, whatever the input is.
\<close>

theorem fuzzing_finds_nothing:
  "(case be_decode s of Inr e \<Rightarrow> be_wf e \<and> be_depth e \<le> RECURSION_LIMIT | Inl x \<Rightarrow> \<exists>m. x = Invalid_argument m)
    \<and> afl_main [program] stdin = Inr 0 \<and> afl_main (program # path # args) stdin = Inr 1"
proof (intro conjI)
  show "case be_decode s of Inr e \<Rightarrow> be_wf e \<and> be_depth e \<le> RECURSION_LIMIT | Inl x \<Rightarrow> \<exists>m. x = Invalid_argument m"
  proof (cases "be_decode s")
    case (Inl x)
    then show ?thesis
      using be_decode_refused [of s] by (simp add: refused_def)
  next
    case (Inr e)
    then obtain r where "decode_internal (istringstream s) 0 = Inr r" and "e = fst r"
      by (auto simp: be_decode_def result_simps throw_invalid_string_def split: if_splits)
    with Inr show ?thesis
      using decode_internal_wf [of "istringstream s" 0 r] by (simp add: decoded_at_def)
  qed
qed (simp_all add: afl_main_def afl_loop_ends)

end
