(* ===== verification/Spec2Isabelle.thy ===== *)
theory Spec2Isabelle
  imports Sorted_Map Types Bitfield Streams Bencode Text Piece Metainfo Torrent FileWriter WriterThread Disk_Integrity WriterRefinement Wire Peer
    Message Connection Url Http Config Args Tracker Swarm Verify TorrentWriter Print Client Acceptor Exchange
    Strong_Type Digest Sockets Random_Numbers Fuzz
begin

text \<open>
  A verification development for Zit, a BitTorrent client in C++: a shallow embedding of the
  program under \<^verbatim>\<open>src/\<close>, component by component, with the theorems that state what the
  program guarantees and what it does not.

  \<^bold>\<open>The program.\<close>  A torrent file is read and decoded (\<^verbatim>\<open>bencode.hpp\<close>), checked against what
  is on disk, and registered (constructor of \<^verbatim>\<open>Torrent\<close>).  A tracker is asked for peers, over
  HTTP or UDP.  For each peer there is a connection; what arrives on it is cut into messages
  (\<^verbatim>\<open>messages.cpp\<close>), which act on the peer (\<^verbatim>\<open>peer.cpp\<close>) and through it on the
  pieces of the torrent (\<^verbatim>\<open>torrent.cpp\<close>, \<^verbatim>\<open>piece.cpp\<close>, \<^verbatim>\<open>bitfield.cpp\<close>).
  A complete piece is put into the queue of the file writer, a thread of its own, which compares
  its digest and writes it (\<^verbatim>\<open>file_writer.cpp\<close>).  Remotes that connect to the client are
  accepted by a coroutine.  Timers retry pieces and peers.  A second program,
  \<^verbatim>\<open>torrent_writer.cpp\<close>, makes torrent files.

  \<^bold>\<open>Conventions.\<close>  \<open>Prelude\<close> has the types all theories share.  A call that may throw returns
  \<open>exn + 'a\<close>, where \<open>Inl e\<close> is the exception; where C++ leaves the behaviour undefined the value is
  \<open>Inl (Undefined_behaviour _)\<close>, so that its absence is provable.  A call that acts on a state returns
  its result with the state, also when it throws (\<open>('s, 'a) st\<close>, with \<open>bindIO\<close>, \<open>throwIO\<close> and so on).
  \<^verbatim>\<open>uint32_t\<close> and the other fixed widths are words wherever arithmetic is done on them;
  \<^verbatim>\<open>int64_t\<close> lengths are \<open>int\<close>, sizes of containers \<open>nat\<close>.  \<^verbatim>\<open>std::map\<close> is
  the sorted association list of \<open>Sorted_Map\<close>.  Shared objects (pieces, peers) live in a heap and are
  named by their place in it.  Each operation that holds a mutex for its whole length is one step;
  threads, handlers and timers are the order in which steps occur, which the theorems leave open.
\<close>

text \<open>
  \<^bold>\<open>Theories and sources.\<close>

  \<^item> \<open>Types\<close> (\<^verbatim>\<open>types.hpp\<close>): \<open>numeric_cast\<close> in its overloads, big endian codecs; the
    locale \<open>wire_codec\<close> has the laws of a fixed-width codec, with the three widths as instances.
  \<^item> \<open>Sorted_Map\<close>: the locale \<open>ordered_map\<close> and its instance.
  \<^item> \<open>Strong_Type\<close> (\<^verbatim>\<open>strong_type.hpp\<close>): a value under a type of its own, with its order.
  \<^item> \<open>Bitfield\<close> (\<^verbatim>\<open>bitfield.hpp/.cpp\<close>): every operation byte by byte; lemmas relate them to
    the set of indices of a bit field.
  \<^item> \<open>Streams\<close>, \<open>Text\<close> (\<^verbatim>\<open>string_utils.hpp\<close>, \<^verbatim>\<open>sha1.cpp\<close>, the standard library as
    the sources use it): formatted input, decimal numbers, trimming, splitting, hex, paths.
  \<^item> \<open>Digest\<close> (\<^verbatim>\<open>sha1.cpp\<close>): digests of data and, in parts, of files; both agree.
  \<^item> \<open>Random_Numbers\<close> (\<^verbatim>\<open>random.hpp\<close>): random values and texts; the peer id always fits.
  \<^item> \<open>Bencode\<close> (\<^verbatim>\<open>bencode.hpp\<close>): encoder and decoder with the nesting limit.
    \<open>Fuzz\<close> (\<^verbatim>\<open>main_afl.cpp\<close>): the harness that looks for texts that crash it; there are none.
  \<^item> \<open>Piece\<close> (\<^verbatim>\<open>piece.hpp/.cpp\<close>), \<open>Metainfo\<close> and \<open>Torrent\<close> (\<^verbatim>\<open>torrent.hpp/.cpp\<close>):
    blocks, the contents of a torrent file, positions in the files, active pieces; \<open>piece_reach\<close> and
    \<open>torrent_reach\<close> are the reachable states with their invariants.
  \<^item> \<open>FileWriter\<close> (\<^verbatim>\<open>file_writer.hpp/.cpp\<close>) on a model of the file system, and
    \<open>Disk_Integrity\<close>: the locale \<open>piece_store\<close> is the contract of \<^verbatim>\<open>TorrentDestination\<close>, met by
    both of its classes; \<open>download_step\<close> interleaves the network side with the writer.
  \<^item> \<open>WriterThread\<close> (\<^verbatim>\<open>file_writer.hpp/.cpp\<close>): the writer's thread with its queue, condition
    variable and flag, cut at the points where it synchronises with the threads that add and stop;
    \<open>WriterRefinement\<close>: it implements \<open>download_step\<close>, in which a round of the writer is one step.
  \<^item> \<open>Verify\<close> (\<^verbatim>\<open>torrent.cpp\<close>): the check of existing files at the start; the locale
    \<open>piece_reader\<close> is what both ways of reading a piece have in common.
  \<^item> \<open>Wire\<close> and \<open>Message\<close> (\<^verbatim>\<open>messages.hpp/.cpp\<close>): identifiers, handshake, \<^verbatim>\<open>Message::parse\<close>
    and the loop that feeds it.
  \<^item> \<open>Peer\<close> and \<open>Connection\<close> (\<^verbatim>\<open>peer.hpp/.cpp\<close>): the reactions to messages, on the pair of
    torrent and peer, and the sending side of a connection; the locale \<open>message_channel\<close> is
    first-in first-out delivery.
  \<^item> \<open>Url\<close> and \<open>Http\<close> (\<^verbatim>\<open>net.hpp/.cpp\<close>): URLs, requests, and the parsing of responses from
    the pieces in which a socket delivers them; \<open>Sockets\<close> has what is around: the connections over
    TCP and TLS, the exchange over UDP, the addresses of hosts, with one parameter for each call of asio.
  \<^item> \<open>Config\<close> (\<^verbatim>\<open>global_config.hpp/.cpp\<close>) and \<open>Args\<close> (\<^verbatim>\<open>arg_parser.hpp/.cpp\<close>):
    settings and command line.
  \<^item> \<open>Tracker\<close> and \<open>Swarm\<close> (\<^verbatim>\<open>torrent.cpp\<close>, \<^verbatim>\<open>retry.hpp\<close>, \<^verbatim>\<open>scope_guard.hpp\<close>):
    announcements, peer lists, tiers; starting, stopping, adding and replacing peers, the checks.
  \<^item> \<open>Acceptor\<close> (\<^verbatim>\<open>peer.cpp\<close>): the coroutine that accepts connections, as a machine that
    reacts to the network.
  \<^item> \<open>Serving\<close>, \<open>Asking\<close>, \<open>Receiving\<close>, \<open>Draining\<close> and \<open>Exchange\<close> model no further code: they join two
    sessions of \<open>Peer\<close> and \<open>Message\<close> by a connection, one with the torrent on its disk and one
    without.  They show in turn that the first answers requests, that the second asks for what it
    misses, what it holds as blocks arrive, that the writer empties its queue, and that the whole
    comes to an end with the content on the second disk.
  \<^item> \<open>TorrentWriter\<close> (\<^verbatim>\<open>torrent_writer/torrent_writer.cpp\<close>): the other program.
  \<^item> \<open>Print\<close> (\<^verbatim>\<open>bencode.hpp\<close>, \<^verbatim>\<open>torrent.cpp\<close>, \<^verbatim>\<open>peer.hpp\<close>,
    \<^verbatim>\<open>bitfield.cpp\<close>, \<^verbatim>\<open>string_utils.hpp\<close>): what goes to the console.
  \<^item> \<open>Client\<close> (\<^verbatim>\<open>main.cpp\<close>, \<^verbatim>\<open>torrent.cpp\<close>, \<^verbatim>\<open>file_utils.hpp\<close>): the
    constructor of \<^verbatim>\<open>Torrent\<close>, \<^verbatim>\<open>main\<close>, \<^verbatim>\<open>Torrent::run\<close> and the signal handler.
\<close>

text \<open>
  \<^bold>\<open>What is proved.\<close>  The properties stand in the theory of their component, each behind a text that
  numbers it.  The main lines:

  \<^item> A download as a whole (\<open>Exchange\<close>).  A client that has a torrent and one that does not, joined by
    a connection, reach the state in which the second has it on its disk, after at most one more
    round of reads than there are blocks.  The disk of the second either has its temporary files
    already or is one on which they can be made (\<open>can_start\<close>), such as an empty one.  The schedule
    is one of rounds, in which each side reads what the other has sent; by \<open>messages_in_order\<close> it
    does not matter how reads cut a stream of messages.  The writer of the second runs after its
    last block; other peers, lost connections and retries are outside of this theorem.
  \<^item> The disk.  From any disk, empty or not, and for torrents below 4 GiB, in every state that peers
    and writer can reach together a piece that counts as written is on disk with its digest, and a
    finished download is complete.  Nothing is assumed of SHA-1.  The names of the files of the
    torrent differ (\<open>files_ok\<close>).  Rounds of the writer that make the files are steps like the
    others; one kind of round is not a step (\<open>wipes\<close>): the temporary file has gone from the disk
    while pieces count as written, and the piece in front of the queue has its digest.  The writer then makes the file
    anew and what was written is lost, as \<open>rewrite_wipes_download\<close> shows.  The check at the start
    counts exactly the intact pieces and ends in a reachable state; the program as a whole, from
    the arguments to the served torrent, is tied to it, and a torrent made by the writer is served
    as complete.
  \<^item> The writer thread.  Under every interleaving it takes each piece once, in order, and refines the
    model of the previous item; a stop that it sees ends it within four steps; two interleavings in which the stop is missed are exhibited.
  \<^item> The protocol.  The messages that the client supports, and keep-alives, are handled in order
    wherever reads cut them, as long as the first bytes of a handshake do not occur among theirs;
    what is behind a CANCEL, a PORT or an unknown message is lost, and a handshake that arrives in
    parts closes the connection.  What a remote was told of our choke and interest state is what
    that state is, after any bytes; requests are for blocks that are not marked as requested; sent
    messages keep their order; codecs and parsers invert the encoders.
  \<^item> Peers and trackers.  Replacing and retrying peers; remotes that connect become peers of the
    torrents they ask for, whatever those between them send (in \<open>Acceptor\<close>, \<open>ac_backlog\<close> is the
    system's queue of connections and \<open>ac_handled\<close> the record of those the coroutine is through
    with); failing over between trackers, and the peer lists of replies.
  \<^item> Limits of the code.  Where the code does not do what it means to, the theorem states what it
    does: wrapped offsets, loops that do not end, undefined behaviour on malformed messages,
    exceptions that end the process.

  \<^bold>\<open>Termination, bounds and fuel.\<close>  Recursion that follows the data is \<open>fun\<close>; loops over a shrinking
  input (\<open>header_loop\<close>, \<open>chunk_loop\<close>, \<open>consume_loop\<close>, \<open>gather\<close>, \<open>later_chunks\<close>) are \<open>function\<close> with a
  measure; loops that may run for ever (\<open>httpGet\<close>, \<open>retry_loop\<close>) are \<open>partial_function (option)\<close>,
  with \<open>None\<close> for not returning, and theorems say when they return.  The one fuel is that of
  \<open>read_loop\<close>, the loop of \<^verbatim>\<open>FileWriter::read_block\<close>: the requested length is enough inside the
  torrent, since each round reads at least one byte, and no fuel is enough when a block runs past the end of a single file.  The theorems on
  data on disk assume torrents below 4 GiB (\<open>small_torrent\<close>), since the code computes positions in
  32 bits; what happens beyond is stated separately.
\<close>

text \<open>
  \<^bold>\<open>Parameters.\<close>  Code that is not in the repository is an argument: the SHA-1 digest of OpenSSL,
  asio's sockets, resolver and addresses (as what they deliver), the system clock, random numbers
  and shuffling, the formatting of times and floating point numbers, \<^verbatim>\<open>std::stof\<close>, the
  environment.

  \<^bold>\<open>Not modelled.\<close>  Logging (\<^verbatim>\<open>logger.hpp\<close>), \<^verbatim>\<open>timer.hpp\<close>,
  \<^verbatim>\<open>asio_helpers.hpp\<close>: output or calls into libraries only.
  \<^verbatim>\<open>class_utils.hpp\<close>, \<^verbatim>\<open>version.hpp\<close>: a deleted copy and three constants, which are in the
  peer id.  \<^verbatim>\<open>socket_test/\<close>: two test programs.  Code for Windows, such as its certificate store.
\<close>

end
